(* ===== verification/Prelude.thy ===== *)
theory Prelude
  imports Main "HOL-Library.Word" "HOL-Library.Monad_Syntax"
begin

text \<open>
  Shared vocabulary of the development: the fixed-width integers of
  \<^verbatim>\<open>kernel/src/core/ktypes.h\<close>, C bit-fields on words, and the byte-addressed
  memory on which the pointer-level components run.

  \<^item> Integers. \<open>u8\<close> to \<open>u64\<close> are words of that width, so that \<open>+\<close>, \<open>-\<close> and \<open>*\<close> wrap
    as the unsigned types of the source do. A pointer is a \<open>u64\<close>.
  \<^item> Bit-fields. \<open>bf_get lo w x\<close> reads the field of width \<open>w\<close> at bit \<open>lo\<close>, and
    \<open>bf_set lo w v x\<close> stores the low \<open>w\<close> bits of \<open>v\<close> there: an assignment to a C
    bit-field truncates the assigned value in the same way.
  \<^item> Memory. \<open>mem\<close> maps every 64-bit address to a byte. Multi-byte accesses are
    little-endian (x86-64) and may be unaligned.

  \<^item> Counting loops. \<open>for_up f i n\<close> is \<^verbatim>\<open>for (; i < n; ++i)\<close> with body \<open>f\<close> on a state, and
    \<open>for_down f i n\<close> is \<^verbatim>\<open>for (; i > n; --i)\<close>; a body returns \<open>None\<close> on an error, which ends the
    loop. Their invariant rules carry the proofs of the components that loop over arrays.

  The collection \<open>bf_simps\<close> carries the field rules, \<open>mem_simps\<close> the load and store rules.
\<close>

named_theorems bf_simps
named_theorems mem_simps

unbundle bit_operations_syntax

section \<open>Fixed-width integers\<close>

type_synonym u8 = "8 word"
type_synonym u16 = "16 word"
type_synonym u32 = "32 word"
type_synonym u64 = "64 word"

text \<open>\<^verbatim>\<open>size_t\<close> and \<^verbatim>\<open>npos\<close>, the largest \<^verbatim>\<open>size_t\<close>.\<close>

definition npos :: u64 where
  "npos = - 1"

lemma unat_npos: "unat npos = 2 ^ 64 - 1"
  by (simp add: npos_def unsigned_minus_1_eq_mask mask_eq_exp_minus_1)

lemma unat_add_no_wrap:
  fixes a b :: "'a::len word"
  assumes "unat a + unat b < 2 ^ LENGTH('a)"
  shows "unat (a + b) = unat a + unat b"
  using assms by (simp add: unat_word_ariths)

lemma unat_sub_le:
  fixes a b :: "'a::len word"
  assumes "b \<le> a"
  shows "unat (a - b) = unat a - unat b"
  using assms by (rule unat_sub)

lemma unat_of_nat_less:
  "n < 2 ^ LENGTH('a) \<Longrightarrow> unat (of_nat n :: 'a::len word) = n"
  by (simp add: unat_of_nat take_bit_eq_mod)

lemma u64_of_nat_unat [simp]: "(of_nat (unat x) :: 'a::len word) = x"
  by simp

lemma unat_lt64: "unat (x :: u64) < 18446744073709551616"
  using unsigned_less [of x] by simp

lemma unat64_of_nat: "n < 18446744073709551616 \<Longrightarrow> unat (of_nat n :: u64) = n"
  by (simp add: unat_of_nat_less)

lemma of_nat_2p64: "(of_nat 18446744073709551616 :: u64) = 0"
  by (simp add: word_of_nat_eq_0_iff)

lemma unat_minus_1_64 [simp]: "unat (- 1 :: u64) = 18446744073709551615"
  by (simp add: unsigned_minus_1_eq_mask mask_eq_exp_minus_1)

lemma unat_pred:
  fixes n :: "'a::len word"
  assumes "n \<noteq> 0"
  shows "unat (n - 1) = unat n - 1"
proof -
  have "1 \<le> n"
    using assms by (simp add: word_le_nat_alt Suc_le_eq unat_gt_0)
  then show ?thesis
    by (simp add: unat_sub)
qed

lemma unat_dec_less [termination_simp]: "n \<noteq> 0 \<Longrightarrow> unat (n - 1 :: u64) < unat n"
  by (simp add: unat_pred unat_gt_0)

lemma unat_dec8: "8 \<le> n \<Longrightarrow> unat (n - 8 :: u64) = unat n - 8"
  by (simp add: unat_sub_le)

lemma unat_dec8_less [termination_simp]: "8 \<le> n \<Longrightarrow> unat (n - 8 :: u64) < unat n"
  by (simp add: unat_dec8 word_le_nat_alt)

lemma sint_of_nat_diff:
  assumes "n < 2 ^ 63" "k \<le> 2 ^ 63"
  shows "sint (of_nat n - of_nat k :: u64) = int n - int k"
proof -
  have "(of_nat n - of_nat k :: u64) = of_int (int n - int k)"
    by simp
  then show ?thesis
    using assms by (simp only: signed_of_int) (simp add: signed_take_bit_int_eq_self)
qed

text \<open>Rounding down to a power of two.\<close>

lemma and_not_mask_plus: "(x AND NOT (mask j)) + take_bit j x = (x :: 'a::len word)"
proof -
  have "(x AND NOT (mask j)) + take_bit j x = (x AND NOT (mask j)) OR take_bit j x"
    by (rule disjunctive_add) (auto simp: bit_simps)
  also have "\<dots> = x"
    by (rule bit_word_eqI) (auto simp: bit_simps)
  finally show ?thesis .
qed

lemma unat_and_not_mask: "unat (x AND NOT (mask j) :: 'a::len word) = unat x - unat x mod 2 ^ j"
proof -
  have t: "unat (take_bit j x) = unat x mod 2 ^ j"
    by (simp only: unsigned_take_bit_eq) (simp add: take_bit_eq_mod)
  have "take_bit j x \<le> x"
    by (simp add: word_le_nat_alt t)
  then have "unat (x - take_bit j x) = unat x - unat x mod 2 ^ j"
    by (simp add: unat_sub t)
  moreover have "x - take_bit j x = x AND NOT (mask j)"
    using and_not_mask_plus [of x j] by (metis add_diff_cancel_right')
  ultimately show ?thesis by simp
qed

section \<open>C bit-fields\<close>

definition bf_get :: "nat \<Rightarrow> nat \<Rightarrow> 'a::len word \<Rightarrow> 'a word" where
  "bf_get lo w x = take_bit w (drop_bit lo x)"

definition bf_set :: "nat \<Rightarrow> nat \<Rightarrow> 'a::len word \<Rightarrow> 'a word \<Rightarrow> 'a word" where
  "bf_set lo w v x = (x AND NOT (push_bit lo (mask w))) OR push_bit lo (take_bit w v)"

lemma bit_bf_get [bf_simps]:
  "bit (bf_get lo w x) n \<longleftrightarrow> n < w \<and> bit x (lo + n)"
  for x :: "'a::len word"
  by (auto simp: bf_get_def bit_simps ac_simps dest: bit_imp_le_length)

lemma bit_bf_set [bf_simps]:
  "bit (bf_set lo w v x) n \<longleftrightarrow>
     (if lo \<le> n \<and> n < lo + w then n < LENGTH('a) \<and> bit v (n - lo) else bit x n)"
  for x :: "'a::len word"
  by (auto simp: bf_set_def bit_simps not_le not_less dest: bit_imp_le_length)

lemma bf_get_set_same [bf_simps]:
  fixes x :: "'a::len word"
  assumes "lo + w \<le> LENGTH('a)"
  shows "bf_get lo w (bf_set lo w v x) = take_bit w v"
  by (rule bit_word_eqI) (use assms in \<open>auto simp: bf_simps bit_take_bit_iff\<close>)

lemma bf_get_set_other [bf_simps]:
  fixes x :: "'a::len word"
  assumes "lo + w \<le> lo' \<or> lo' + w' \<le> lo"
  shows "bf_get lo w (bf_set lo' w' v x) = bf_get lo w x"
  by (rule bit_word_eqI) (use assms in \<open>auto simp: bf_simps\<close>)

lemma bf_set_get [bf_simps]: "bf_set lo w (bf_get lo w x) x = x"
  for x :: "'a::len word"
  by (rule bit_word_eqI) (auto simp: bf_simps dest: bit_imp_le_length)

lemma bf_set_set [bf_simps]: "bf_set lo w v (bf_set lo w u x) = bf_set lo w v x"
  for x :: "'a::len word"
  by (rule bit_word_eqI) (auto simp: bf_simps)

lemma bf_get_less: "w < LENGTH('a) \<Longrightarrow> unat (bf_get lo w x) < 2 ^ w"
  for x :: "'a::len word"
  by (simp add: bf_get_def unsigned_take_bit_eq take_bit_nat_less_exp)

lemma bf_eqI:
  fixes x y :: "'a::len word"
  assumes "\<And>n. n < LENGTH('a) \<Longrightarrow> bit x n = bit y n"
  shows "x = y"
  using assms by (rule bit_word_eqI)

text \<open>Shift-and-mask reads, as the header macros write them, are field reads.\<close>

lemma bf_get_shift_mask: "(drop_bit lo x) AND mask w = bf_get lo w x"
  for x :: "'a::len word"
  by (simp add: bf_get_def take_bit_eq_mask ac_simps)

section \<open>Byte-addressed memory\<close>

type_synonym mem = "u64 \<Rightarrow> u8"

primrec load_bytes :: "nat \<Rightarrow> mem \<Rightarrow> u64 \<Rightarrow> 'a::len word" where
  "load_bytes 0 m a = 0"
| "load_bytes (Suc n) m a = ucast (m a) OR push_bit 8 (load_bytes n m (a + 1))"

primrec store_bytes :: "nat \<Rightarrow> 'a::len word \<Rightarrow> u64 \<Rightarrow> mem \<Rightarrow> mem" where
  "store_bytes 0 v a m = m"
| "store_bytes (Suc n) v a m = (store_bytes n (drop_bit 8 v) (a + 1) m)(a := ucast v)"

definition load16 :: "mem \<Rightarrow> u64 \<Rightarrow> u16" where "load16 m a = load_bytes 2 m a"
definition load32 :: "mem \<Rightarrow> u64 \<Rightarrow> u32" where "load32 m a = load_bytes 4 m a"
definition load64 :: "mem \<Rightarrow> u64 \<Rightarrow> u64" where "load64 m a = load_bytes 8 m a"

definition store16 :: "u16 \<Rightarrow> u64 \<Rightarrow> mem \<Rightarrow> mem" where "store16 v a m = store_bytes 2 v a m"
definition store32 :: "u32 \<Rightarrow> u64 \<Rightarrow> mem \<Rightarrow> mem" where "store32 v a m = store_bytes 4 v a m"
definition store64 :: "u64 \<Rightarrow> u64 \<Rightarrow> mem \<Rightarrow> mem" where "store64 v a m = store_bytes 8 v a m"

lemma bit_load_bytes [mem_simps]:
  "bit (load_bytes n m a :: 'a::len word) k \<longleftrightarrow>
     k < LENGTH('a) \<and> k div 8 < n \<and> bit (m (a + of_nat (k div 8))) (k mod 8)"
proof (induction n arbitrary: a k)
  case 0
  then show ?case by simp
next
  case (Suc n)
  show ?case
  proof (cases "k < 8")
    case True
    then show ?thesis
      by (auto simp: bit_simps)
  next
    case False
    then have k: "k div 8 = Suc ((k - 8) div 8)" "k mod 8 = (k - 8) mod 8"
      by (simp_all add: le_div_geq le_mod_geq)
    with False show ?thesis
      by (auto simp: bit_simps Suc.IH ac_simps dest: bit_imp_le_length)
  qed
qed

lemma store_bytes_apply [mem_simps]:
  assumes "n \<le> 2 ^ 64"
  shows "store_bytes n (v :: 'a::len word) a m x =
     (if unat (x - a) < n then ucast (drop_bit (8 * unat (x - a)) v) else m x)"
  using assms
proof (induction n arbitrary: v a)
  case 0
  then show ?case by simp
next
  case (Suc n)
  show ?case
  proof (cases "x = a")
    case True
    then show ?thesis by simp
  next
    case False
    then have "x - a \<noteq> 0" by simp
    then have u: "unat (x - (a + 1)) = unat (x - a) - 1" "0 < unat (x - a)"
      using unat_pred [of "x - a"] by (simp_all add: diff_diff_eq unat_gt_0)
    then have "8 + 8 * (unat (x - a) - 1) = 8 * unat (x - a)"
      by simp
    with u Suc False show ?thesis
      by (auto simp: drop_bit_drop_bit add.commute [of 8])
  qed
qed

lemma bit_load64 [mem_simps]:
  "bit (load64 m a) k \<longleftrightarrow> k < 64 \<and> bit (m (a + of_nat (k div 8))) (k mod 8)"
  by (auto simp: load64_def mem_simps)

lemma bit_load32 [mem_simps]:
  "bit (load32 m a) k \<longleftrightarrow> k < 32 \<and> bit (m (a + of_nat (k div 8))) (k mod 8)"
  by (auto simp: load32_def mem_simps)

lemma bit_load16 [mem_simps]:
  "bit (load16 m a) k \<longleftrightarrow> k < 16 \<and> bit (m (a + of_nat (k div 8))) (k mod 8)"
  by (auto simp: load16_def mem_simps)

lemma store64_apply [mem_simps]:
  "store64 v a m x = (if unat (x - a) < 8 then ucast (drop_bit (8 * unat (x - a)) v) else m x)"
  by (simp add: store64_def mem_simps)

lemma store32_apply [mem_simps]:
  "store32 v a m x = (if unat (x - a) < 4 then ucast (drop_bit (8 * unat (x - a)) v) else m x)"
  by (simp add: store32_def mem_simps)

lemma store16_apply [mem_simps]:
  "store16 v a m x = (if unat (x - a) < 2 then ucast (drop_bit (8 * unat (x - a)) v) else m x)"
  by (simp add: store16_def mem_simps)

lemma load_store_bytes:
  fixes v :: "'a::len word"
  assumes "8 * n = LENGTH('a)" "n \<le> 2 ^ 64"
  shows "load_bytes n (store_bytes n v a m) a = v"
proof (rule bit_word_eqI)
  fix k
  assume "k < LENGTH('a)"
  then have k: "k div 8 < n" "k div 8 < 2 ^ 64"
    using assms by auto
  then have "unat (a + of_nat (k div 8) - a) = k div 8"
    by (simp add: unat_of_nat_less)
  with k assms \<open>k < LENGTH('a)\<close>
  show "bit (load_bytes n (store_bytes n v a m) a :: 'a word) k = bit v k"
    by (simp add: mem_simps bit_simps)
qed

lemma load64_store64_same [mem_simps]: "load64 (store64 v a m) a = v"
  by (simp add: load64_def store64_def load_store_bytes)

lemma load32_store32_same [mem_simps]: "load32 (store32 v a m) a = v"
  by (simp add: load32_def store32_def load_store_bytes)

lemma load16_store16_same [mem_simps]: "load16 (store16 v a m) a = v"
  by (simp add: load16_def store16_def load_store_bytes)

text \<open>A load depends only on the bytes it reads.\<close>

lemma load_bytes_cong:
  assumes "\<And>i. i < n \<Longrightarrow> m (a + of_nat i) = m' (a + of_nat i)"
  shows "load_bytes n m a = (load_bytes n m' a :: 'a::len word)"
  by (rule bit_word_eqI) (auto simp: mem_simps assms)

lemma load64_cong:
  assumes "\<And>i. i < 8 \<Longrightarrow> m (a + of_nat i) = m' (a + of_nat i)"
  shows "load64 m a = load64 m' a"
  unfolding load64_def by (rule load_bytes_cong) (rule assms)

text \<open>Storing the value just loaded from \<open>s\<close> copies its eight bytes.\<close>

lemma store64_load64_copy [mem_simps]:
  "store64 (load64 m' s) d m x = (if unat (x - d) < 8 then m' (s + (x - d)) else m x)"
proof (cases "unat (x - d) < 8")
  case True
  have "ucast (drop_bit (8 * unat (x - d)) (load64 m' s)) = m' (s + (x - d))"
    by (rule bit_word_eqI) (use True in \<open>auto simp: mem_simps bit_simps\<close>)
  with True show ?thesis by (simp add: mem_simps)
next
  case False
  then show ?thesis by (simp add: mem_simps)
qed

lemma unat_far:
  fixes x a b :: u64
  assumes "n \<le> unat (b - a)" "n \<le> unat (a - b)" and x: "unat (x - a) < n"
  shows "n \<le> unat (x - b)"
proof (rule ccontr)
  let ?i = "unat (x - a)" and ?j = "unat (x - b)"
  assume j: "\<not> n \<le> ?j"
  have eq: "a - b = of_nat ?j - of_nat ?i" "b - a = of_nat ?i - of_nat ?j"
    by simp_all
  show False
  proof (cases "?i \<le> ?j")
    case True
    then have "a - b = of_nat (?j - ?i)"
      using eq(1) of_nat_diff [of ?i ?j] by metis
    then have "unat (a - b) = ?j - ?i"
      using unat64_of_nat [of "?j - ?i"] unat_lt64 [of "x - b"] by simp
    then show False using assms(2) j by simp
  next
    case False
    then have "b - a = of_nat (?i - ?j)"
      using eq(2) of_nat_diff [of ?j ?i] by (metis nat_le_linear)
    then have "unat (b - a) = ?i - ?j"
      using unat64_of_nat [of "?i - ?j"] unat_lt64 [of "x - a"] by simp
    then show False using assms(1) x by simp
  qed
qed

lemma load64_store64_other:
  assumes "8 \<le> unat (b - a)" "8 \<le> unat (a - b)"
  shows "load64 (store64 v a m) b = load64 m b"
proof (rule load64_cong)
  fix i :: nat assume "i < 8"
  then have "8 \<le> unat (b + of_nat i - a)"
    using unat_far [OF assms(2,1), of "b + of_nat i"] by (simp add: unat_of_nat_less)
  then show "store64 v a m (b + of_nat i) = m (b + of_nat i)"
    by (simp add: store64_apply)
qed

lemma load64_eq_iff:
  "load64 m a = load64 m' b \<longleftrightarrow> (\<forall>i<8. m (a + of_nat i) = m' (b + of_nat i))"
proof
  assume eq: "load64 m a = load64 m' b"
  show "\<forall>i<8. m (a + of_nat i) = m' (b + of_nat i)"
  proof (intro allI impI)
    fix i :: nat
    assume i: "i < 8"
    show "m (a + of_nat i) = m' (b + of_nat i)"
    proof (rule bit_word_eqI)
      fix k
      assume "k < LENGTH(8)"
      then have k: "k < 8" by simp
      have "bit (load64 m a) (8 * i + k) = bit (load64 m' b) (8 * i + k)"
        by (simp add: eq)
      with i k show "bit (m (a + of_nat i)) k = bit (m' (b + of_nat i)) k"
        by (simp add: mem_simps)
    qed
  qed
next
  assume "\<forall>i<8. m (a + of_nat i) = m' (b + of_nat i)"
  then show "load64 m a = load64 m' b"
    by (intro bit_word_eqI) (simp add: mem_simps)
qed

section \<open>Counting loops\<close>

lemma unat_inc: "i < n \<Longrightarrow> unat (i + 1 :: 'a::len word) = unat i + 1"
  by (subst unat_add_no_wrap)
    (simp_all add: word_less_nat_alt Suc_le_eq le_less_trans [OF _ unsigned_less [of n]])

lemma unat_inc_less [termination_simp]:
  "i < n \<Longrightarrow> unat n - unat (i + 1 :: 'a::len word) < unat n - unat i"
  by (simp add: unat_inc word_less_nat_alt)

function for_up :: "('a::len word \<Rightarrow> 's \<Rightarrow> 's option) \<Rightarrow> 'a word \<Rightarrow> 'a word \<Rightarrow> 's \<Rightarrow> 's option" where
  "for_up f i n w = (if i < n then do { w \<leftarrow> f i w; for_up f (i + 1) n w } else Some w)"
  by auto
termination
  by (relation "measure (\<lambda>(f, i, n, w). unat n - unat i)") (auto simp: unat_inc_less)

function for_down :: "('a::len word \<Rightarrow> 's \<Rightarrow> 's option) \<Rightarrow> 'a word \<Rightarrow> 'a word \<Rightarrow> 's \<Rightarrow> 's option" where
  "for_down f i n w = (if n < i then do { w \<leftarrow> f i w; for_down f (i - 1) n w } else Some w)"
  by auto
termination
proof (relation "measure (\<lambda>(f, i, n, w). unat i)", goal_cases)
  case (2 f i n w w')
  then have "i \<noteq> 0" by auto
  then show ?case by (simp add: unat_pred unat_gt_0)
qed simp

declare for_up.simps [simp del] for_down.simps [simp del]

lemma for_up_None: "i < n \<Longrightarrow> f i w = None \<Longrightarrow> for_up f i n w = None"
  by (simp add: for_up.simps [of f i])

lemma for_up_done: "\<not> i < n \<Longrightarrow> for_up f i n w = Some w"
  by (simp add: for_up.simps [of f i])

lemma for_up_rule:
  assumes "P (unat i) w" and "i \<le> n"
    and "\<And>j w. P (unat j) w \<Longrightarrow> i \<le> j \<Longrightarrow> j < n \<Longrightarrow> \<exists>w'. f j w = Some w' \<and> P (unat j + 1) w'"
  shows "\<exists>w'. for_up f i n w = Some w' \<and> P (unat n) w'"
  using assms
proof (induction f i n w rule: for_up.induct)
  case (1 f i n w)
  show ?case
  proof (cases "i < n")
    case True
    then obtain w1 where w1: "f i w = Some w1" "P (unat i + 1) w1"
      using 1(4) [of i w] 1(2) by auto
    have le: "i + 1 \<le> n" and up: "unat (i + 1) = unat i + 1"
      using True unat_inc [OF True] by (simp_all add: word_le_nat_alt word_less_nat_alt)
    have "\<exists>w'. for_up f (i + 1) n w1 = Some w' \<and> P (unat n) w'"
      using 1(1) [OF True, of w1] w1 le up 1(4) by (simp add: word_le_nat_alt)
    then show ?thesis using True w1 by (simp add: for_up.simps [of f i])
  next
    case False
    then have "i = n" using 1(3) by simp
    then show ?thesis using 1(2) by (simp add: for_up.simps [of f n])
  qed
qed

lemma for_down_rule:
  assumes "P (unat i) w" and "n \<le> i"
    and "\<And>j w. P (unat j) w \<Longrightarrow> n < j \<Longrightarrow> j \<le> i \<Longrightarrow> \<exists>w'. f j w = Some w' \<and> P (unat j - 1) w'"
  shows "\<exists>w'. for_down f i n w = Some w' \<and> P (unat n) w'"
  using assms
proof (induction f i n w rule: for_down.induct)
  case (1 f i n w)
  show ?case
  proof (cases "n < i")
    case True
    then obtain w1 where w1: "f i w = Some w1" "P (unat i - 1) w1"
      using 1(4) [of i w] 1(2) by auto
    have dn: "unat (i - 1) = unat i - 1"
      using True by (intro unat_pred) auto
    then have le: "n \<le> i - 1" and le': "i - 1 \<le> i"
      using True by (simp_all add: word_le_nat_alt word_less_nat_alt)
    have "\<exists>w'. for_down f (i - 1) n w1 = Some w' \<and> P (unat n) w'"
      using 1(1) [OF True, of w1] w1 le dn le' 1(4) by (simp add: order_trans [of _ "i - 1" i])
    then show ?thesis using True w1 by (simp add: for_down.simps [of f i])
  next
    case False
    then have "i = n" using 1(3) by simp
    then show ?thesis using 1(2) by (simp add: for_down.simps [of f n])
  qed
qed

end
