(* ===== verification/Kmemory.thy ===== *)
theory Kmemory
  imports Prelude
begin

text \<open>
  The memory primitives of \<^verbatim>\<open>kernel/src/memory/kmemory.cpp\<close>: \<open>memcpy\<close>, \<open>memmove\<close>,
  \<open>memcmp\<close>, \<open>memset\<close> and \<open>zeromem\<close>, each loop of the source as one recursive function over
  the byte memory. The routines align a pointer bytewise, then move 64-bit words, then
  finish bytewise; the theorems say that this is the plain bytewise operation.

  A copy loop is specified once, in the locales \<open>forward_copy\<close> and \<open>backward_copy\<close>, and
  every loop of the source is an interpretation.
\<close>

section \<open>Specification of block copies\<close>

text \<open>\<open>copyn m d s n\<close>: the memory after \<open>n\<close> bytes from \<open>s\<close> arrive at \<open>d\<close> at once.\<close>

definition copyn :: "mem \<Rightarrow> u64 \<Rightarrow> u64 \<Rightarrow> nat \<Rightarrow> mem" where
  "copyn m d s n = (\<lambda>x. if unat (x - d) < n then m (s + (x - d)) else m x)"

text \<open>
  A forward copy is safe when no byte is overwritten before it is read: the destination is
  not strictly inside the source block. A backward copy is safe in the mirrored case.
\<close>

definition fwd_safe :: "u64 \<Rightarrow> u64 \<Rightarrow> nat \<Rightarrow> bool" where
  "fwd_safe d s n \<longleftrightarrow> d = s \<or> n \<le> unat (d - s)"

definition bwd_safe :: "u64 \<Rightarrow> u64 \<Rightarrow> nat \<Rightarrow> bool" where
  "bwd_safe d s n \<longleftrightarrow> d = s \<or> n \<le> unat (s - d)"

section \<open>memcpy\<close>

text \<open>The byte loop that aligns the destination (first loop of \<open>memcpy\<close>).\<close>

function memcpy_align_d :: "mem \<Rightarrow> u64 \<Rightarrow> u64 \<Rightarrow> u64 \<Rightarrow> mem \<times> u64 \<times> u64 \<times> u64" where
  "memcpy_align_d m d s sz =
    (if sz \<noteq> 0 \<and> d AND 7 \<noteq> 0
     then memcpy_align_d (m(d := m s)) (d + 1) (s + 1) (sz - 1)
     else (m, d, s, sz))"
  by pat_completeness auto
termination
  by (relation "measure (\<lambda>(_, _, _, sz). unat sz)") (simp_all add: termination_simp)

text \<open>The byte loop that aligns the source.\<close>

function memcpy_align_s :: "mem \<Rightarrow> u64 \<Rightarrow> u64 \<Rightarrow> u64 \<Rightarrow> mem \<times> u64 \<times> u64 \<times> u64" where
  "memcpy_align_s m d s sz =
    (if sz \<noteq> 0 \<and> s AND 7 \<noteq> 0
     then memcpy_align_s (m(d := m s)) (d + 1) (s + 1) (sz - 1)
     else (m, d, s, sz))"
  by pat_completeness auto
termination
  by (relation "measure (\<lambda>(_, _, _, sz). unat sz)") (simp_all add: termination_simp)

text \<open>The 64-bit loop.\<close>

function memcpy_words :: "mem \<Rightarrow> u64 \<Rightarrow> u64 \<Rightarrow> u64 \<Rightarrow> mem \<times> u64 \<times> u64 \<times> u64" where
  "memcpy_words m d64 s64 sz =
    (if 8 \<le> sz
     then memcpy_words (store64 (load64 m s64) d64 m) (d64 + 8) (s64 + 8) (sz - 8)
     else (m, d64, s64, sz))"
  by pat_completeness auto
termination
  by (relation "measure (\<lambda>(_, _, _, sz). unat sz)") (simp_all add: termination_simp)

text \<open>The final byte loop \<open>while (sz--)\<close>.\<close>

function memcpy_tail :: "mem \<Rightarrow> u64 \<Rightarrow> u64 \<Rightarrow> u64 \<Rightarrow> mem \<times> u64 \<times> u64 \<times> u64" where
  "memcpy_tail m d s sz =
    (if sz \<noteq> 0
     then memcpy_tail (m(d := m s)) (d + 1) (s + 1) (sz - 1)
     else (m, d, s, sz))"
  by pat_completeness auto
termination
  by (relation "measure (\<lambda>(_, _, _, sz). unat sz)") (simp_all add: termination_simp)

definition memcpy :: "mem \<Rightarrow> u64 \<Rightarrow> u64 \<Rightarrow> u64 \<Rightarrow> mem" where
  "memcpy m dest src sz =
    (let (m, d, s, sz) = memcpy_align_d m dest src sz;
         (m, d, s, sz) = memcpy_align_s m d s sz;
         (m, d64, s64, sz) = memcpy_words m d s sz;
         (m, d, s, sz) = memcpy_tail m d64 s64 sz
     in m)"

section \<open>memmove\<close>

text \<open>
  The two aligning loops run on the condition \<open>(p + sz - 1) & 7\<close>, so they stop at an end
  pointer that is 1 modulo 8.
\<close>

function memmove_align_d :: "mem \<Rightarrow> u64 \<Rightarrow> u64 \<Rightarrow> u64 \<Rightarrow> mem \<times> u64" where
  "memmove_align_d m d s sz =
    (if sz \<noteq> 0 \<and> (d + sz - 1) AND 7 \<noteq> 0
     then memmove_align_d (m(d + (sz - 1) := m (s + (sz - 1)))) d s (sz - 1)
     else (m, sz))"
  by pat_completeness auto
termination
  by (relation "measure (\<lambda>(_, _, _, sz). unat sz)") (simp_all add: termination_simp)

function memmove_align_s :: "mem \<Rightarrow> u64 \<Rightarrow> u64 \<Rightarrow> u64 \<Rightarrow> mem \<times> u64" where
  "memmove_align_s m d s sz =
    (if sz \<noteq> 0 \<and> (s + sz - 1) AND 7 \<noteq> 0
     then memmove_align_s (m(d + (sz - 1) := m (s + (sz - 1)))) d s (sz - 1)
     else (m, sz))"
  by pat_completeness auto
termination
  by (relation "measure (\<lambda>(_, _, _, sz). unat sz)") (simp_all add: termination_simp)

function memmove_words :: "mem \<Rightarrow> u64 \<Rightarrow> u64 \<Rightarrow> u64 \<Rightarrow> mem \<times> u64 \<times> u64 \<times> u64" where
  "memmove_words m d64 s64 sz =
    (if 8 \<le> sz
     then memmove_words (store64 (load64 m (s64 - 8)) (d64 - 8) m) (d64 - 8) (s64 - 8) (sz - 8)
     else (m, d64, s64, sz))"
  by pat_completeness auto
termination
  by (relation "measure (\<lambda>(_, _, _, sz). unat sz)") (simp_all add: termination_simp)

function memmove_tail :: "mem \<Rightarrow> u64 \<Rightarrow> u64 \<Rightarrow> u64 \<Rightarrow> mem \<times> u64 \<times> u64 \<times> u64" where
  "memmove_tail m d s sz =
    (if sz \<noteq> 0
     then memmove_tail (m(d - 1 := m (s - 1))) (d - 1) (s - 1) (sz - 1)
     else (m, d, s, sz))"
  by pat_completeness auto
termination
  by (relation "measure (\<lambda>(_, _, _, sz). unat sz)") (simp_all add: termination_simp)

definition memmove :: "mem \<Rightarrow> u64 \<Rightarrow> u64 \<Rightarrow> u64 \<Rightarrow> mem" where
  "memmove m dest src sz =
    (if dest < src \<or> src + sz \<le> dest then memcpy m dest src sz
     else
       (let (m, sz) = memmove_align_d m dest src sz;
            (m, sz) = memmove_align_s m dest src sz;
            (m, d64, s64, sz) = memmove_words m (dest + sz) (src + sz) sz;
            (m, d, s, sz) = memmove_tail m d64 s64 sz
        in m))"

section \<open>memcmp\<close>

text \<open>Early \<open>return\<close> is \<open>Inl\<close>; a loop that runs to its end hands over its variables in \<open>Inr\<close>.\<close>

function memcmp_align :: "mem \<Rightarrow> u64 \<Rightarrow> u64 \<Rightarrow> u64 \<Rightarrow> int + (u64 \<times> u64 \<times> u64)" where
  "memcmp_align m d s sz =
    (if sz \<noteq> 0 \<and> d AND 7 \<noteq> 0
     then if m d \<noteq> m s then Inl (uint (m d) - uint (m s))
          else memcmp_align m (d + 1) (s + 1) (sz - 1)
     else Inr (d, s, sz))"
  by pat_completeness auto
termination
  by (relation "measure (\<lambda>(_, _, _, sz). unat sz)") (simp_all add: termination_simp)

text \<open>The \<open>for\<close> loop over the bytes of two different words, from index \<open>8 - k\<close> on.\<close>

primrec memcmp_bytes :: "mem \<Rightarrow> u64 \<Rightarrow> u64 \<Rightarrow> nat \<Rightarrow> int option" where
  "memcmp_bytes m d s 0 = None"
| "memcmp_bytes m d s (Suc k) =
    (if m d \<noteq> m s then Some (uint (m d) - uint (m s)) else memcmp_bytes m (d + 1) (s + 1) k)"

function memcmp_words :: "mem \<Rightarrow> u64 \<Rightarrow> u64 \<Rightarrow> u64 \<Rightarrow> int + (u64 \<times> u64 \<times> u64)" where
  "memcmp_words m d64 s64 sz =
    (if 8 \<le> sz
     then case (if load64 m d64 \<noteq> load64 m s64 then memcmp_bytes m d64 s64 8 else None) of
            Some r \<Rightarrow> Inl r
          | None \<Rightarrow> memcmp_words m (d64 + 8) (s64 + 8) (sz - 8)
     else Inr (d64, s64, sz))"
  by pat_completeness auto
termination
  by (relation "measure (\<lambda>(_, _, _, sz). unat sz)") (simp_all add: termination_simp)

function memcmp_tail :: "mem \<Rightarrow> u64 \<Rightarrow> u64 \<Rightarrow> u64 \<Rightarrow> int + (u64 \<times> u64 \<times> u64)" where
  "memcmp_tail m d s sz =
    (if sz \<noteq> 0
     then if m d \<noteq> m s then Inl (uint (m d) - uint (m s))
          else memcmp_tail m (d + 1) (s + 1) (sz - 1)
     else Inr (d, s, sz))"
  by pat_completeness auto
termination
  by (relation "measure (\<lambda>(_, _, _, sz). unat sz)") (simp_all add: termination_simp)

definition memcmp :: "mem \<Rightarrow> u64 \<Rightarrow> u64 \<Rightarrow> u64 \<Rightarrow> int" where
  "memcmp m dest src sz =
    (case memcmp_align m dest src sz of Inl r \<Rightarrow> r
     | Inr (d, s, sz) \<Rightarrow>
       (case memcmp_words m d s sz of Inl r \<Rightarrow> r
        | Inr (d, s, sz) \<Rightarrow>
          (case memcmp_tail m d s sz of Inl r \<Rightarrow> r | Inr _ \<Rightarrow> 0)))"

text \<open>Reference: the difference at the first position where the blocks differ, else 0.\<close>

primrec first_diff :: "mem \<Rightarrow> u64 \<Rightarrow> u64 \<Rightarrow> nat \<Rightarrow> int" where
  "first_diff m d s 0 = 0"
| "first_diff m d s (Suc n) =
    (if m d \<noteq> m s then uint (m d) - uint (m s) else first_diff m (d + 1) (s + 1) n)"

section \<open>memset\<close>

function memset_align :: "mem \<Rightarrow> u8 \<Rightarrow> u64 \<Rightarrow> u64 \<Rightarrow> mem \<times> u64 \<times> u64" where
  "memset_align m v dst sz =
    (if sz \<noteq> 0 \<and> dst AND 7 \<noteq> 0 then memset_align (m(dst := v)) v (dst + 1) (sz - 1)
     else (m, dst, sz))"
  by pat_completeness auto
termination
  by (relation "measure (\<lambda>(_, _, _, sz). unat sz)") (simp_all add: termination_simp)

definition memset_pattern :: "u8 \<Rightarrow> u64" where
  "memset_pattern v = fold (\<lambda>i p. push_bit 8 p OR ucast v) [1..<8] (ucast v)"

function memset_words :: "mem \<Rightarrow> u64 \<Rightarrow> u64 \<Rightarrow> u64 \<Rightarrow> mem \<times> u64 \<times> u64" where
  "memset_words m pattern dst64 sz =
    (if 8 \<le> sz then memset_words (store64 pattern dst64 m) pattern (dst64 + 8) (sz - 8)
     else (m, dst64, sz))"
  by pat_completeness auto
termination
  by (relation "measure (\<lambda>(_, _, _, sz). unat sz)") (simp_all add: termination_simp)

function memset_tail :: "mem \<Rightarrow> u8 \<Rightarrow> u64 \<Rightarrow> u64 \<Rightarrow> mem \<times> u64 \<times> u64" where
  "memset_tail m v dst sz =
    (if sz \<noteq> 0 then memset_tail (m(dst := v)) v (dst + 1) (sz - 1) else (m, dst, sz))"
  by pat_completeness auto
termination
  by (relation "measure (\<lambda>(_, _, _, sz). unat sz)") (simp_all add: termination_simp)

definition memset :: "mem \<Rightarrow> u64 \<Rightarrow> u8 \<Rightarrow> u64 \<Rightarrow> mem" where
  "memset m vaddr v sz =
    (let (m, dst, sz) = memset_align m v vaddr sz;
         (m, dst64, sz) = memset_words m (memset_pattern v) dst sz;
         (m, dst, sz) = memset_tail m v dst64 sz
     in m)"

definition zeromem :: "mem \<Rightarrow> u64 \<Rightarrow> u64 \<Rightarrow> mem" where
  "zeromem m vaddr sz = memset m vaddr 0 sz"

definition setn :: "mem \<Rightarrow> u64 \<Rightarrow> u8 \<Rightarrow> nat \<Rightarrow> mem" where
  "setn m d v n = (\<lambda>x. if unat (x - d) < n then v else m x)"

section \<open>Block copies compose\<close>

lemma copyn_0 [simp]: "copyn m d s 0 = m"
  by (simp add: copyn_def)

lemma copyn_in: "unat (x - d) < n \<Longrightarrow> copyn m d s n x = m (s + (x - d))"
  by (simp add: copyn_def)

lemma copyn_out: "\<not> unat (x - d) < n \<Longrightarrow> copyn m d s n x = m x"
  by (simp add: copyn_def)

lemma copyn_self: "copyn m d d n = m"
  by (simp add: copyn_def fun_eq_iff)

lemma copyn_1: "m(d := m s) = copyn m d s 1"
proof
  fix x
  show "(m(d := m s)) x = copyn m d s 1 x"
    by (cases "x = d") (auto simp: copyn_def unat_eq_0)
qed

lemma copyn_8: "store64 (load64 m s) d m = copyn m d s 8"
  by (simp add: copyn_def store64_load64_copy fun_eq_iff)

lemma unat_sub_of_nat:
  fixes z :: u64
  assumes "i \<le> 2 ^ 64"
  shows "unat (z - of_nat i) = (if i \<le> unat z then unat z - i else 2 ^ 64 + unat z - i)"
proof (cases "i = 2 ^ 64")
  case True
  then have "(of_nat i :: u64) = 0"
    using of_nat_2p64 by (simp del: of_nat_numeral)
  with True show ?thesis
    using unat_lt64 [of z] by (simp del: of_nat_numeral)
next
  case False
  with assms have "unat (of_nat i :: u64) = i"
    by (simp add: unat_of_nat_less)
  then show ?thesis
    using unat_sub_if' [of z "of_nat i"] by (simp add: add.commute [of "unat z"])
qed

lemma fwd_safe_mono: "fwd_safe d s n \<Longrightarrow> k \<le> n \<Longrightarrow> fwd_safe d s k"
  by (auto simp: fwd_safe_def)

lemma fwd_safe_shift: "fwd_safe (d + c) (s + c) n = fwd_safe d s n"
  by (simp add: fwd_safe_def)

lemma bwd_safe_mono: "bwd_safe d s n \<Longrightarrow> k \<le> n \<Longrightarrow> bwd_safe d s k"
  by (auto simp: bwd_safe_def)

lemma fwd_no_alias:
  assumes safe: "fwd_safe d s n" and "d \<noteq> s" and p: "p < i" "i \<le> j" "j < n" and n: "n \<le> 2 ^ 64"
  shows "s + of_nat j \<noteq> d + of_nat p"
proof
  assume "s + of_nat j = d + (of_nat p :: u64)"
  then have "d - s = of_nat j - of_nat p"
    by (simp add: algebra_simps)
  also have "\<dots> = of_nat (j - p)"
    using p by (simp add: of_nat_diff)
  finally have "unat (d - s) = j - p"
    using p n unat64_of_nat [of "j - p"] by simp
  with safe \<open>d \<noteq> s\<close> p show False
    by (simp add: fwd_safe_def)
qed

lemma copyn_add:
  assumes safe: "fwd_safe d s (i + k)" and le: "i + k \<le> 2 ^ 64"
  shows "copyn (copyn m d s i) (d + of_nat i) (s + of_nat i) k = copyn m d s (i + k)"
proof
  fix x
  let ?j = "unat (x - d)"
  have i: "i \<le> 2 ^ 64" using le by simp
  have u: "unat (x - (d + of_nat i)) = (if i \<le> ?j then ?j - i else 2 ^ 64 + ?j - i)"
    using unat_sub_of_nat [OF i, of "x - d"] by (simp add: diff_diff_eq)
  consider "?j < i" | "i \<le> ?j" "?j < i + k" | "i + k \<le> ?j"
    by linarith
  then show "copyn (copyn m d s i) (d + of_nat i) (s + of_nat i) k x = copyn m d s (i + k) x"
  proof cases
    case 1
    then have "\<not> unat (x - (d + of_nat i)) < k" using u le by simp
    with 1 show ?thesis by (simp add: copyn_in copyn_out)
  next
    case 2
    have "copyn m d s i (s + (x - d)) = m (s + (x - d))"
    proof (cases "d = s")
      case True
      then show ?thesis by (simp add: copyn_def)
    next
      case False
      have "\<not> unat (s + (x - d) - d) < i"
      proof
        assume p: "unat (s + (x - d) - d) < i"
        have "s + of_nat ?j = d + of_nat (unat (s + (x - d) - d))"
          by simp
        with fwd_no_alias [OF safe False p 2 le] show False
          by simp
      qed
      then show ?thesis by (simp add: copyn_def)
    qed
    with 2 u show ?thesis by (simp add: copyn_in)
  next
    case 3
    then have "\<not> unat (x - (d + of_nat i)) < k" using u by simp
    with 3 show ?thesis by (simp add: copyn_out)
  qed
qed

lemma copyn_add_bwd:
  assumes safe: "bwd_safe d s (i + k)" and le: "i + k \<le> 2 ^ 64"
  shows "copyn (copyn m (d + of_nat i) (s + of_nat i) k) d s i = copyn m d s (i + k)"
proof
  fix x
  let ?j = "unat (x - d)"
  have i: "i \<le> 2 ^ 64" using le by simp
  have u: "unat (y - (d + of_nat i)) = (if i \<le> unat (y - d) then unat (y - d) - i
      else 2 ^ 64 + unat (y - d) - i)" for y
    using unat_sub_of_nat [OF i, of "y - d"] by (simp add: diff_diff_eq)
  consider "?j < i" | "i \<le> ?j" "?j < i + k" | "i + k \<le> ?j"
    by linarith
  then show "copyn (copyn m (d + of_nat i) (s + of_nat i) k) d s i x = copyn m d s (i + k) x"
  proof cases
    case 1
    have "copyn m (d + of_nat i) (s + of_nat i) k (s + (x - d)) = m (s + (x - d))"
    proof (cases "d = s")
      case True
      then show ?thesis by (simp add: copyn_def)
    next
      case False
      let ?p = "unat (s + (x - d) - d)"
      have "\<not> (i \<le> ?p \<and> ?p < i + k)"
      proof
        assume p: "i \<le> ?p \<and> ?p < i + k"
        have "s - d = of_nat ?p - of_nat ?j"
          by simp
        also have "\<dots> = of_nat (?p - ?j)"
          using 1 p of_nat_diff [of ?j ?p] by simp
        finally have "unat (s - d) = ?p - ?j"
          using unat_lt64 [of "s + (x - d) - d"] unat64_of_nat [of "?p - ?j"] by simp
        with safe False have "i + k \<le> ?p - ?j"
          by (auto simp: bwd_safe_def)
        with p show False by linarith
      qed
      then have "\<not> unat (s + (x - d) - (d + of_nat i)) < k"
        unfolding u [of "s + (x - d)"] using le by (simp, linarith)
      then show ?thesis by (simp add: copyn_def)
    qed
    with 1 show ?thesis by (simp add: copyn_in copyn_out)
  next
    case 2
    then have "unat (x - (d + of_nat i)) < k" using u [of x] by simp
    with 2 show ?thesis by (simp add: copyn_in copyn_out)
  next
    case 3
    then have "\<not> unat (x - (d + of_nat i)) < k" using u [of x] by simp
    with 3 show ?thesis by (simp add: copyn_out)
  qed
qed

section \<open>Copy loops\<close>

text \<open>
  A forward loop copies \<open>w\<close> bytes per round while its guard holds. Whatever the guard, the
  rounds add up to one block copy of the bytes it consumed.
\<close>

locale forward_copy =
  fixes loop :: "mem \<Rightarrow> u64 \<Rightarrow> u64 \<Rightarrow> u64 \<Rightarrow> mem \<times> u64 \<times> u64 \<times> u64"
    and g :: "u64 \<Rightarrow> u64 \<Rightarrow> u64 \<Rightarrow> bool"
    and w :: nat
  assumes loop_unfold: "loop m d s n =
      (if g d s n then loop (copyn m d s w) (d + of_nat w) (s + of_nat w) (n - of_nat w)
       else (m, d, s, n))"
    and guard_le: "g d s n \<Longrightarrow> w \<le> unat n"
    and w_pos: "0 < w"
begin

lemma loop_copies:
  "fwd_safe d s (unat n) \<Longrightarrow>
    \<exists>k \<le> unat n. loop m d s n =
      (copyn m d s k, d + of_nat k, s + of_nat k, of_nat (unat n - k)) \<and>
      \<not> g (d + of_nat k) (s + of_nat k) (of_nat (unat n - k))"
proof (induction "unat n" arbitrary: m d s n rule: less_induct)
  case less
  show ?case
  proof (cases "g d s n")
    case False
    then show ?thesis
      by (intro exI [of _ 0]) (simp add: loop_unfold)
  next
    case True
    have w: "w \<le> unat n" using guard_le [OF True] .
    have n': "unat (n - of_nat w) = unat n - w"
      using w unat_sub_of_nat [of w n] unat_lt64 [of n] by simp
    have "fwd_safe (d + of_nat w) (s + of_nat w) (unat (n - of_nat w))"
      using less.prems by (auto simp: fwd_safe_shift n' elim: fwd_safe_mono)
    moreover have "unat (n - of_nat w) < unat n"
      using w w_pos n' by simp
    ultimately obtain k where k: "k \<le> unat n - w"
      and eq: "loop (copyn m d s w) (d + of_nat w) (s + of_nat w) (n - of_nat w) =
        (copyn (copyn m d s w) (d + of_nat w) (s + of_nat w) k, d + of_nat w + of_nat k,
         s + of_nat w + of_nat k, of_nat (unat n - w - k))"
      and ng: "\<not> g (d + of_nat w + of_nat k) (s + of_nat w + of_nat k) (of_nat (unat n - w - k))"
      using less.hyps [of "n - of_nat w" "d + of_nat w" "s + of_nat w" "copyn m d s w"]
      unfolding n' by blast
    have "copyn (copyn m d s w) (d + of_nat w) (s + of_nat w) k = copyn m d s (w + k)"
      using less.prems k w unat_lt64 [of n]
      by (intro copyn_add) (auto elim: fwd_safe_mono)
    with True eq ng k w show ?thesis
      by (intro exI [of _ "w + k"]) (simp add: loop_unfold [of m] add.assoc)
  qed
qed

text \<open>The loop continues a copy of which \<open>a\<close> bytes are already done.\<close>

lemma loop_chain:
  fixes n :: u64
  assumes safe: "fwd_safe d s (unat n)" and a: "a \<le> unat n"
  obtains b where "a \<le> b" "b \<le> unat n"
    and "loop (copyn m d s a) (d + of_nat a) (s + of_nat a) (of_nat (unat n - a)) =
      (copyn m d s b, d + of_nat b, s + of_nat b, of_nat (unat n - b))"
    and "\<not> g (d + of_nat b) (s + of_nat b) (of_nat (unat n - b))"
proof -
  have u: "unat (of_nat (unat n - a) :: u64) = unat n - a"
    using unat_lt64 [of n] by (simp add: unat64_of_nat)
  have "fwd_safe (d + of_nat a) (s + of_nat a) (unat n - a)"
    using safe by (auto simp: fwd_safe_shift elim: fwd_safe_mono)
  then obtain k where k: "k \<le> unat n - a"
    "loop (copyn m d s a) (d + of_nat a) (s + of_nat a) (of_nat (unat n - a)) =
      (copyn (copyn m d s a) (d + of_nat a) (s + of_nat a) k, d + of_nat a + of_nat k,
       s + of_nat a + of_nat k, of_nat (unat n - a - k))"
    "\<not> g (d + of_nat a + of_nat k) (s + of_nat a + of_nat k) (of_nat (unat n - a - k))"
    using loop_copies [of "d + of_nat a" "s + of_nat a" "of_nat (unat n - a)" "copyn m d s a"]
    unfolding u by blast
  have "copyn (copyn m d s a) (d + of_nat a) (s + of_nat a) k = copyn m d s (a + k)"
    using safe a k(1) unat_lt64 [of n]
    by (intro copyn_add) (auto elim: fwd_safe_mono)
  with k a show thesis
    by (intro that [of "a + k"]) (simp_all add: add.assoc)
qed

end

text \<open>A backward loop copies the last \<open>w\<close> bytes of the block that is left.\<close>

locale backward_copy =
  fixes loop :: "mem \<Rightarrow> u64 \<Rightarrow> u64 \<Rightarrow> u64 \<Rightarrow> mem \<times> u64"
    and g :: "u64 \<Rightarrow> u64 \<Rightarrow> u64 \<Rightarrow> bool"
    and w :: nat
  assumes loop_unfold: "loop m d s n =
      (if g d s n
       then loop (copyn m (d + (n - of_nat w)) (s + (n - of_nat w)) w) d s (n - of_nat w)
       else (m, n))"
    and guard_le: "g d s n \<Longrightarrow> w \<le> unat n"
    and w_pos: "0 < w"
begin

text \<open>What is left after the loop, finished by a block copy, is the whole block copy.\<close>

lemma loop_finish:
  "bwd_safe d s (unat n) \<Longrightarrow> loop m d s n = (m', n') \<Longrightarrow>
    unat n' \<le> unat n \<and> \<not> g d s n' \<and> copyn m' d s (unat n') = copyn m d s (unat n)"
proof (induction "unat n" arbitrary: m n rule: less_induct)
  case less
  show ?case
  proof (cases "g d s n")
    case False
    then show ?thesis
      using less.prems by (simp add: loop_unfold)
  next
    case True
    have w: "w \<le> unat n" using guard_le [OF True] .
    have n': "unat (n - of_nat w) = unat n - w"
      using w unat_sub_of_nat [of w n] unat_lt64 [of n] by simp
    let ?m = "copyn m (d + (n - of_nat w)) (s + (n - of_nat w)) w"
    have "copyn ?m d s (unat n - w) = copyn m d s (unat n - w + w)"
      using copyn_add_bwd [of d s "unat n - w" w m] less.prems w unat_lt64 [of n]
      by (simp add: of_nat_diff)
    moreover have "loop ?m d s (n - of_nat w) = (m', n')"
      using less.prems True by (simp add: loop_unfold [of m])
    moreover have "bwd_safe d s (unat (n - of_nat w))"
      using less.prems by (auto simp: n' elim: bwd_safe_mono)
    ultimately show ?thesis
      using less.hyps [of "n - of_nat w" ?m] w w_pos n' by auto
  qed
qed

end

lemmas copy_loop_simps = memcpy_align_d.simps memcpy_align_s.simps memcpy_words.simps
  memcpy_tail.simps memmove_align_d.simps memmove_align_s.simps memmove_words.simps
  memmove_tail.simps

declare copy_loop_simps [simp del]

interpretation cpd: forward_copy memcpy_align_d "\<lambda>d s n. n \<noteq> 0 \<and> d AND 7 \<noteq> 0" 1
proof unfold_locales
  show "memcpy_align_d m d s n = (if n \<noteq> 0 \<and> d AND 7 \<noteq> 0
      then memcpy_align_d (copyn m d s 1) (d + of_nat 1) (s + of_nat 1) (n - of_nat 1)
      else (m, d, s, n))" for m d s n
    by (subst memcpy_align_d.simps) (simp add: copyn_1)
qed (auto simp: Suc_le_eq unat_gt_0)

interpretation cps: forward_copy memcpy_align_s "\<lambda>d s n. n \<noteq> 0 \<and> s AND 7 \<noteq> 0" 1
proof unfold_locales
  show "memcpy_align_s m d s n = (if n \<noteq> 0 \<and> s AND 7 \<noteq> 0
      then memcpy_align_s (copyn m d s 1) (d + of_nat 1) (s + of_nat 1) (n - of_nat 1)
      else (m, d, s, n))" for m d s n
    by (subst memcpy_align_s.simps) (simp add: copyn_1)
qed (auto simp: Suc_le_eq unat_gt_0)

interpretation cpw: forward_copy memcpy_words "\<lambda>d s n. 8 \<le> n" 8
proof unfold_locales
  show "memcpy_words m d s n = (if 8 \<le> n
      then memcpy_words (copyn m d s 8) (d + of_nat 8) (s + of_nat 8) (n - of_nat 8)
      else (m, d, s, n))" for m d s n
    by (subst memcpy_words.simps) (simp add: copyn_8)
qed (auto simp: word_le_nat_alt)

interpretation cpt: forward_copy memcpy_tail "\<lambda>d s n. n \<noteq> 0" 1
proof unfold_locales
  show "memcpy_tail m d s n = (if n \<noteq> 0
      then memcpy_tail (copyn m d s 1) (d + of_nat 1) (s + of_nat 1) (n - of_nat 1)
      else (m, d, s, n))" for m d s n
    by (subst memcpy_tail.simps) (simp add: copyn_1)
qed (auto simp: Suc_le_eq unat_gt_0)

interpretation mvd: backward_copy memmove_align_d "\<lambda>d s n. n \<noteq> 0 \<and> (d + n - 1) AND 7 \<noteq> 0" 1
proof unfold_locales
  show "memmove_align_d m d s n = (if n \<noteq> 0 \<and> (d + n - 1) AND 7 \<noteq> 0
      then memmove_align_d (copyn m (d + (n - of_nat 1)) (s + (n - of_nat 1)) 1) d s (n - of_nat 1)
      else (m, n))" for m d s n
    by (subst memmove_align_d.simps) (simp add: copyn_1)
qed (auto simp: Suc_le_eq unat_gt_0)

interpretation mvs: backward_copy memmove_align_s "\<lambda>d s n. n \<noteq> 0 \<and> (s + n - 1) AND 7 \<noteq> 0" 1
proof unfold_locales
  show "memmove_align_s m d s n = (if n \<noteq> 0 \<and> (s + n - 1) AND 7 \<noteq> 0
      then memmove_align_s (copyn m (d + (n - of_nat 1)) (s + (n - of_nat 1)) 1) d s (n - of_nat 1)
      else (m, n))" for m d s n
    by (subst memmove_align_s.simps) (simp add: copyn_1)
qed (auto simp: Suc_le_eq unat_gt_0)

text \<open>The word and tail loops move end pointers, which are the block starts plus what is left.\<close>

definition memmove_words_at :: "mem \<Rightarrow> u64 \<Rightarrow> u64 \<Rightarrow> u64 \<Rightarrow> mem \<times> u64" where
  "memmove_words_at m d s n = (case memmove_words m (d + n) (s + n) n of (m', _, _, n') \<Rightarrow> (m', n'))"

definition memmove_tail_at :: "mem \<Rightarrow> u64 \<Rightarrow> u64 \<Rightarrow> u64 \<Rightarrow> mem \<times> u64" where
  "memmove_tail_at m d s n = (case memmove_tail m (d + n) (s + n) n of (m', _, _, n') \<Rightarrow> (m', n'))"

interpretation mvw: backward_copy memmove_words_at "\<lambda>d s n. 8 \<le> n" 8
proof unfold_locales
  show "memmove_words_at m d s n = (if 8 \<le> n
      then memmove_words_at (copyn m (d + (n - of_nat 8)) (s + (n - of_nat 8)) 8) d s (n - of_nat 8)
      else (m, n))" for m d s n
    by (simp add: memmove_words_at_def memmove_words.simps [of m] copyn_8 add_diff_eq)
qed (auto simp: word_le_nat_alt)

interpretation mvt: backward_copy memmove_tail_at "\<lambda>d s n. n \<noteq> 0" 1
proof unfold_locales
  show "memmove_tail_at m d s n = (if n \<noteq> 0
      then memmove_tail_at (copyn m (d + (n - of_nat 1)) (s + (n - of_nat 1)) 1) d s (n - of_nat 1)
      else (m, n))" for m d s n
    by (simp add: memmove_tail_at_def memmove_tail.simps [of m] copyn_1 add_diff_eq)
qed (auto simp: Suc_le_eq unat_gt_0)

lemma memmove_words_pointers:
  "memmove_words m (d + n) (s + n) n = (m', d', s', n') \<Longrightarrow> d' = d + n' \<and> s' = s + n'"
proof (induction "unat n" arbitrary: m n rule: less_induct)
  case less
  show ?case
  proof (cases "8 \<le> n")
    case True
    let ?m = "store64 (load64 m (s + n - 8)) (d + n - 8) m"
    have "memmove_words ?m (d + (n - 8)) (s + (n - 8)) (n - 8) = (m', d', s', n')"
      using less.prems True by (simp add: memmove_words.simps [of m] add_diff_eq)
    then show ?thesis
      using less.hyps [of "n - 8" ?m] True by (simp add: unat_dec8_less)
  next
    case False
    then show ?thesis
      using less.prems by (auto simp: memmove_words.simps [of m])
  qed
qed

section \<open>Correctness of memcpy and memmove\<close>

lemma memcpy_copies:
  assumes "fwd_safe dest src (unat sz)"
  shows "memcpy m dest src sz = copyn m dest src (unat sz)"
proof -
  obtain a where a: "a \<le> unat sz" "memcpy_align_d m dest src sz =
      (copyn m dest src a, dest + of_nat a, src + of_nat a, of_nat (unat sz - a))"
    using cpd.loop_chain [OF assms, of 0 m] by auto
  obtain b where b: "b \<le> unat sz" "memcpy_align_s (copyn m dest src a) (dest + of_nat a)
      (src + of_nat a) (of_nat (unat sz - a)) =
      (copyn m dest src b, dest + of_nat b, src + of_nat b, of_nat (unat sz - b))"
    using cps.loop_chain [OF assms a(1)] by metis
  obtain c where c: "c \<le> unat sz" "memcpy_words (copyn m dest src b) (dest + of_nat b)
      (src + of_nat b) (of_nat (unat sz - b)) =
      (copyn m dest src c, dest + of_nat c, src + of_nat c, of_nat (unat sz - c))"
    using cpw.loop_chain [OF assms b(1)] by metis
  obtain k where k: "k \<le> unat sz" "of_nat (unat sz - k) = (0 :: u64)"
    "memcpy_tail (copyn m dest src c) (dest + of_nat c) (src + of_nat c) (of_nat (unat sz - c)) =
      (copyn m dest src k, dest + of_nat k, src + of_nat k, of_nat (unat sz - k))"
    using cpt.loop_chain [OF assms c(1)] by metis
  have "unat sz - k = 0"
    using k(2) unat64_of_nat [of "unat sz - k"] unat_lt64 [of sz] by simp
  with k(1) have "k = unat sz" by simp
  with a b c k show ?thesis
    by (simp add: memcpy_def)
qed

lemma memmove_tail_0:
  "bwd_safe d s (unat n) \<Longrightarrow> memmove_tail m (d + n) (s + n) n = (m', d', s', n') \<Longrightarrow>
    m' = copyn m d s (unat n)"
  using mvt.loop_finish [of d s n m m' n'] by (auto simp: memmove_tail_at_def)

lemma memmove_words_finish:
  assumes "bwd_safe d s (unat n)" and w: "memmove_words m (d + n) (s + n) n = (m', d', s', n')"
  shows "unat n' \<le> unat n" "copyn m' d s (unat n') = copyn m d s (unat n)"
    "d' = d + n'" "s' = s + n'"
proof -
  have "memmove_words_at m d s n = (m', n')"
    by (simp add: memmove_words_at_def w)
  then show "unat n' \<le> unat n" "copyn m' d s (unat n') = copyn m d s (unat n)"
    using mvw.loop_finish assms(1) by blast+
  show "d' = d + n'" "s' = s + n'"
    using memmove_words_pointers [OF w] by blast+
qed

lemma memmove_copies:
  assumes src: "unat src + unat sz < 2 ^ 64" and dest: "unat dest + unat sz \<le> 2 ^ 64"
  shows "memmove m dest src sz = copyn m dest src (unat sz)"
proof (cases "dest < src \<or> src + sz \<le> dest")
  case True
  have "unat (src + sz) = unat src + unat sz"
    using src by (simp add: unat_add_no_wrap)
  then have "unat dest < unat src \<or> unat src + unat sz \<le> unat dest"
    using True by (simp add: word_le_nat_alt word_less_nat_alt)
  then have "fwd_safe dest src (unat sz)"
    using src unat_sub_if' [of dest src] by (cases "unat src \<le> unat dest") (auto simp: fwd_safe_def)
  with True show ?thesis
    by (simp add: memmove_def memcpy_copies)
next
  case False
  then have "unat src \<le> unat dest"
    by (simp add: word_le_nat_alt word_less_nat_alt)
  then have safe: "bwd_safe dest src (unat sz)"
    using dest unat_sub_if' [of src dest] word_unat_eq_iff [of dest src]
    by (cases "unat src = unat dest") (simp_all add: bwd_safe_def)
  obtain m1 n1 where 1: "memmove_align_d m dest src sz = (m1, n1)"
    by fastforce
  note f1 = mvd.loop_finish [OF safe 1]
  then have safe1: "bwd_safe dest src (unat n1)"
    using safe by (auto elim: bwd_safe_mono)
  obtain m2 n2 where 2: "memmove_align_s m1 dest src n1 = (m2, n2)"
    by fastforce
  note f2 = mvs.loop_finish [OF safe1 2]
  then have safe2: "bwd_safe dest src (unat n2)"
    using safe1 by (auto elim: bwd_safe_mono)
  obtain m3 d3 s3 n3 where 3: "memmove_words m2 (dest + n2) (src + n2) n2 = (m3, d3, s3, n3)"
    by (metis prod_cases4)
  note f3 = memmove_words_finish [OF safe2 3]
  then have safe3: "bwd_safe dest src (unat n3)"
    using safe2 by (auto elim: bwd_safe_mono)
  obtain m4 d4 s4 n4 where 4: "memmove_tail m3 (dest + n3) (src + n3) n3 = (m4, d4, s4, n4)"
    by (metis prod_cases4)
  have "m4 = copyn m3 dest src (unat n3)"
    using memmove_tail_0 [OF safe3 4] .
  also have "\<dots> = copyn m dest src (unat sz)"
    using f1 f2 f3(2) by simp
  finally show ?thesis
    using False 1 2 3 4 f3(3,4) by (simp add: memmove_def)
qed

text \<open>
  C11: \<open>memcpy\<close>, with its two aligning loops, its 64-bit loop and its tail loop, is the
  simultaneous copy of the block whenever the destination does not lie strictly inside the
  source block, for every alignment and every size: each byte of the destination block
  receives the byte the source block had before the call, and no other byte changes.
\<close>

theorem memcpy_correct:
  assumes "dest = src \<or> unat sz \<le> unat (dest - src)"
  shows "memcpy m dest src sz x =
    (if unat (x - dest) < unat sz then m (src + (x - dest)) else m x)"
  using assms by (simp add: memcpy_copies fwd_safe_def copyn_def)

theorem memcpy_correct_witness:
  "memcpy (\<lambda>x. ucast x) 0x1003 0x2000 21 0x1004 = 0x01"
  using memcpy_correct [of "0x1003" "0x2000" 21 "\<lambda>x. ucast x" "0x1004"] by simp

text \<open>
  C21: \<open>memmove\<close> is the simultaneous copy of the block for every pair of blocks that do not
  wrap around the address space, overlapping or not: the source is read as it was before the
  call even where the destination overwrites it.
\<close>

theorem memmove_correct:
  assumes "unat src + unat sz < 2 ^ 64" and "unat dest + unat sz \<le> 2 ^ 64"
  shows "memmove m dest src sz x =
    (if unat (x - dest) < unat sz then m (src + (x - dest)) else m x)"
  using assms by (simp add: memmove_copies copyn_def)

theorem memmove_correct_witness:
  "memmove (\<lambda>x. ucast x) 0x1003 0x1000 21 0x1013 = 0x10"
  using memmove_correct [of "0x1000" 21 "0x1003" "\<lambda>x. ucast x" "0x1013"] by simp

section \<open>Correctness of memcmp\<close>

lemma byte_diff_0 [simp]: "uint (a :: u8) = uint b \<longleftrightarrow> a = b"
  by (simp add: word_uint_eq_iff)

lemma first_diff_add:
  "first_diff m d s (i + k) =
    (if first_diff m d s i \<noteq> 0 then first_diff m d s i
     else first_diff m (d + of_nat i) (s + of_nat i) k)"
  by (induction i arbitrary: d s) (auto simp: add.assoc)

lemma first_diff_0_iff:
  "first_diff m d s n = 0 \<longleftrightarrow> (\<forall>i < n. m (d + of_nat i) = m (s + of_nat i))"
  by (induction n arbitrary: d s) (auto simp: add.assoc All_less_Suc2)

lemma memcmp_bytes_first_diff:
  "memcmp_bytes m d s k = (if first_diff m d s k = 0 then None else Some (first_diff m d s k))"
  by (induction k arbitrary: d s) auto

locale compare_loop =
  fixes loop :: "mem \<Rightarrow> u64 \<Rightarrow> u64 \<Rightarrow> u64 \<Rightarrow> int + (u64 \<times> u64 \<times> u64)"
    and g :: "u64 \<Rightarrow> u64 \<Rightarrow> u64 \<Rightarrow> bool"
    and w :: nat
  assumes loop_unfold: "loop m d s n =
      (if g d s n
       then if first_diff m d s w \<noteq> 0 then Inl (first_diff m d s w)
            else loop m (d + of_nat w) (s + of_nat w) (n - of_nat w)
       else Inr (d, s, n))"
    and guard_le: "g d s n \<Longrightarrow> w \<le> unat n"
    and w_pos: "0 < w"
begin

lemma loop_first_diff:
  "case loop m d s n of
     Inl r \<Rightarrow> r = first_diff m d s (unat n)
   | Inr (d', s', n') \<Rightarrow> first_diff m d s (unat n) = first_diff m d' s' (unat n') \<and> \<not> g d' s' n'"
proof (induction "unat n" arbitrary: d s n rule: less_induct)
  case less
  show ?case
  proof (cases "g d s n")
    case False
    then show ?thesis by (simp add: loop_unfold)
  next
    case True
    have w: "w \<le> unat n" using guard_le [OF True] .
    have n': "unat (n - of_nat w) = unat n - w"
      using w unat_sub_of_nat [of w n] unat_lt64 [of n] by simp
    have split: "first_diff m d s (unat n) = (if first_diff m d s w \<noteq> 0 then first_diff m d s w
       else first_diff m (d + of_nat w) (s + of_nat w) (unat (n - of_nat w)))"
      using first_diff_add [of m d s w "unat n - w"] w n' by simp
    have "unat (n - of_nat w) < unat n"
      using w w_pos n' by simp
    then show ?thesis
      using less [of "n - of_nat w" "d + of_nat w" "s + of_nat w"] True
      unfolding split by (cases "first_diff m d s w = 0") (simp_all add: loop_unfold [of m d s n])
  qed
qed

end

declare memcmp_align.simps [simp del] memcmp_words.simps [simp del] memcmp_tail.simps [simp del]

interpretation cma: compare_loop memcmp_align "\<lambda>d s n. n \<noteq> 0 \<and> d AND 7 \<noteq> 0" 1
  by unfold_locales
    (subst memcmp_align.simps, simp_all add: Suc_le_eq unat_gt_0)

interpretation cmt: compare_loop memcmp_tail "\<lambda>d s n. n \<noteq> 0" 1
  by unfold_locales
    (subst memcmp_tail.simps, simp_all add: Suc_le_eq unat_gt_0)

interpretation cmw: compare_loop memcmp_words "\<lambda>d s n. 8 \<le> n" 8
proof unfold_locales
  show "memcmp_words m d s n =
      (if 8 \<le> n
       then if first_diff m d s 8 \<noteq> 0 then Inl (first_diff m d s 8)
            else memcmp_words m (d + of_nat 8) (s + of_nat 8) (n - of_nat 8)
       else Inr (d, s, n))" for m d s n
    by (subst memcmp_words.simps)
      (auto simp: memcmp_bytes_first_diff load64_eq_iff first_diff_0_iff)
qed (auto simp: word_le_nat_alt)

text \<open>
  \<open>memcmp\<close>, comparing eight bytes at a time, returns for every size and alignment what
  the bytewise comparison returns: the difference of the first bytes that differ, 0 if none.
\<close>

theorem memcmp_correct: "memcmp m dest src sz = first_diff m dest src (unat sz)"
  using cma.loop_first_diff [of m dest src sz] cmw.loop_first_diff cmt.loop_first_diff
  by (fastforce simp: memcmp_def split: sum.splits prod.splits)

section \<open>Correctness of memset\<close>

lemma setn_0 [simp]: "setn m d v 0 = m"
  by (simp add: setn_def)

lemma setn_1: "m(d := v) = setn m d v 1"
  by (auto simp: setn_def unat_eq_0 fun_eq_iff)

lemma setn_add:
  assumes le: "i + k \<le> 2 ^ 64"
  shows "setn (setn m d v i) (d + of_nat i) v k = setn m d v (i + k)"
proof
  fix x
  have "unat (x - (d + of_nat i)) = (if i \<le> unat (x - d) then unat (x - d) - i
      else 2 ^ 64 + unat (x - d) - i)"
    using unat_sub_of_nat [of i "x - d"] le by (simp add: diff_diff_eq)
  then show "setn (setn m d v i) (d + of_nat i) v k x = setn m d v (i + k) x"
    using le by (cases "i \<le> unat (x - d)") (auto simp: setn_def)
qed

locale fill_loop =
  fixes loop :: "mem \<Rightarrow> u64 \<Rightarrow> u64 \<Rightarrow> mem \<times> u64 \<times> u64"
    and g :: "u64 \<Rightarrow> u64 \<Rightarrow> bool"
    and v :: u8
    and w :: nat
  assumes loop_unfold: "loop m d n =
      (if g d n then loop (setn m d v w) (d + of_nat w) (n - of_nat w) else (m, d, n))"
    and guard_le: "g d n \<Longrightarrow> w \<le> unat n"
    and w_pos: "0 < w"
begin

text \<open>What is left after the loop, finished by a block fill, is the whole block fill.\<close>

lemma loop_finish:
  "loop m d n = (m', d', n') \<Longrightarrow> \<not> g d' n' \<and> setn m' d' v (unat n') = setn m d v (unat n)"
proof (induction "unat n" arbitrary: m d n rule: less_induct)
  case less
  show ?case
  proof (cases "g d n")
    case False
    then show ?thesis using less.prems by (simp add: loop_unfold)
  next
    case True
    have w: "w \<le> unat n" using guard_le [OF True] .
    have n': "unat (n - of_nat w) = unat n - w"
      using w unat_sub_of_nat [of w n] unat_lt64 [of n] by simp
    have "setn (setn m d v w) (d + of_nat w) v (unat (n - of_nat w)) = setn m d v (unat n)"
      using setn_add [of w "unat n - w" m d v] w unat_lt64 [of n] n' by simp
    moreover have "loop (setn m d v w) (d + of_nat w) (n - of_nat w) = (m', d', n')"
      using less.prems True by (simp add: loop_unfold [of m])
    ultimately show ?thesis
      using less.hyps [of "n - of_nat w" "setn m d v w" "d + of_nat w"] w w_pos n' by simp
  qed
qed

end

declare memset_align.simps [simp del] memset_words.simps [simp del] memset_tail.simps [simp del]

lemma fold_const: "fold (\<lambda>_. f) xs = f ^^ length xs"
  by (induction xs) (simp_all add: funpow_swap1 fun_eq_iff)

lemma bit_memset_pattern_step:
  fixes v :: u8
  assumes "k \<le> i" "i < 8" "j < 8"
  shows "bit (((\<lambda>p :: u64. push_bit 8 p OR ucast v) ^^ i) (ucast v)) (8 * k + j) = bit v j"
  using assms
proof (induction i arbitrary: k)
  case 0
  then show ?case by (simp add: bit_simps)
next
  case (Suc i)
  then show ?case
    using bit_imp_le_length [of v "8 * k + j"]
    by (cases k) (auto simp: bit_simps)
qed

lemma memset_pattern_byte: "k < 8 \<Longrightarrow> ucast (drop_bit (8 * k) (memset_pattern v)) = v"
  by (intro bit_word_eqI)
    (simp add: bit_simps memset_pattern_def fold_const bit_memset_pattern_step)

lemma setn_8: "store64 (memset_pattern v) d m = setn m d v 8"
  by (auto simp: fun_eq_iff setn_def store64_apply memset_pattern_byte)

interpretation msa: fill_loop "\<lambda>m d n. memset_align m v d n" "\<lambda>d n. n \<noteq> 0 \<and> d AND 7 \<noteq> 0" v 1 for v
proof unfold_locales
  show "memset_align m v d n = (if n \<noteq> 0 \<and> d AND 7 \<noteq> 0
      then memset_align (setn m d v 1) v (d + of_nat 1) (n - of_nat 1) else (m, d, n))" for m d n
    by (subst memset_align.simps) (simp add: setn_1)
qed (auto simp: Suc_le_eq unat_gt_0)

interpretation msw: fill_loop "\<lambda>m d n. memset_words m (memset_pattern v) d n" "\<lambda>d n. 8 \<le> n" v 8 for v
proof unfold_locales
  show "memset_words m (memset_pattern v) d n = (if 8 \<le> n
      then memset_words (setn m d v 8) (memset_pattern v) (d + of_nat 8) (n - of_nat 8)
      else (m, d, n))" for m d n
    by (subst memset_words.simps) (simp add: setn_8)
qed (auto simp: word_le_nat_alt)

interpretation mst: fill_loop "\<lambda>m d n. memset_tail m v d n" "\<lambda>d n. n \<noteq> 0" v 1 for v
proof unfold_locales
  show "memset_tail m v d n = (if n \<noteq> 0
      then memset_tail (setn m d v 1) v (d + of_nat 1) (n - of_nat 1) else (m, d, n))" for m d n
    by (subst memset_tail.simps) (simp add: setn_1)
qed (auto simp: Suc_le_eq unat_gt_0)

lemma memset_fills: "memset m d v n = setn m d v (unat n)"
proof -
  obtain m1 d1 n1 where 1: "memset_align m v d n = (m1, d1, n1)"
    by (metis prod_cases3)
  obtain m2 d2 n2 where 2: "memset_words m1 (memset_pattern v) d1 n1 = (m2, d2, n2)"
    by (metis prod_cases3)
  obtain m3 d3 n3 where 3: "memset_tail m2 v d2 n2 = (m3, d3, n3)"
    by (metis prod_cases3)
  from msa.loop_finish [OF 1] msw.loop_finish [OF 2] mst.loop_finish [OF 3]
  have "n3 = 0 \<and> setn m3 d3 v (unat n3) = setn m d v (unat n)"
    by metis
  then show ?thesis
    by (auto simp: memset_def 1 2 3)
qed

text \<open>
  \<open>memset\<close> stores its byte, replicated into a 64-bit pattern where possible, at exactly
  the \<open>size\<close> addresses from \<open>vaddr\<close> on; \<open>zeromem\<close> does so with 0. No other byte changes.
\<close>

theorem memset_correct:
  "memset m vaddr v sz x = (if unat (x - vaddr) < unat sz then v else m x) \<and>
   zeromem m vaddr sz x = (if unat (x - vaddr) < unat sz then 0 else m x)"
  by (simp add: zeromem_def memset_fills setn_def)

end
