(* ===== verification/Spinlock.thy ===== *)
theory Spinlock
  imports Prelude
begin

text \<open>
  The spinlock of \<^verbatim>\<open>kernel/src/core/sync.h\<close>, in two views. The sequential view runs
  \<open>acquireSpinlock\<close> on a lock no other processor touches: the loop returns or spins for ever
  (\<open>None\<close>), which is how the components that use locks show that they never re-enter one. The
  concurrent view is a step relation on the lock word and a program counter per thread.
\<close>

section \<open>The code\<close>

text \<open>\<open>__sync_lock_test_and_set\<close>: the old value, and the lock word it leaves.\<close>

definition sync_lock_test_and_set :: "u32 \<Rightarrow> u32 \<Rightarrow> u32 \<times> u32" where
  "sync_lock_test_and_set lockVar v = (lockVar, v)"

partial_function (option) acquireSpinlock :: "u32 \<Rightarrow> u32 option" where
  "acquireSpinlock lockVar =
    (let (old, new) = sync_lock_test_and_set lockVar 1
     in if old \<noteq> 0 then acquireSpinlock new else Some new)"

definition releaseSpinlock :: "u32 \<Rightarrow> u32" where
  "releaseSpinlock lockVar = 0"

text \<open>Program counter of a thread: outside, in the \<open>while\<close> of acquire, or past it.\<close>

datatype lock_pc = Idle | Spinning | Critical

record lock_state =
  lockVar :: u32
  pcs :: "nat \<Rightarrow> lock_pc"

text \<open>
  One step of one thread. The atomic test-and-set is one step; it stores 1 also when it fails.
\<close>

inductive lock_step :: "lock_state \<Rightarrow> lock_state \<Rightarrow> bool" where
  call: "pcs s t = Idle \<Longrightarrow> lock_step s (s\<lparr>pcs := (pcs s)(t := Spinning)\<rparr>)"
| spin: "pcs s t = Spinning \<Longrightarrow> sync_lock_test_and_set (lockVar s) 1 = (old, new) \<Longrightarrow> old \<noteq> 0 \<Longrightarrow>
    lock_step s (s\<lparr>lockVar := new\<rparr>)"
| enter: "pcs s t = Spinning \<Longrightarrow> sync_lock_test_and_set (lockVar s) 1 = (old, new) \<Longrightarrow> old = 0 \<Longrightarrow>
    lock_step s (s\<lparr>lockVar := new, pcs := (pcs s)(t := Critical)\<rparr>)"
| release: "pcs s t = Critical \<Longrightarrow>
    lock_step s (s\<lparr>lockVar := releaseSpinlock (lockVar s), pcs := (pcs s)(t := Idle)\<rparr>)"

text \<open>\<open>DECLARE_SPINLOCK\<close>: the lock word is 0 and nobody has called.\<close>

definition DECLARE_SPINLOCK :: lock_state where
  "DECLARE_SPINLOCK = \<lparr>lockVar = 0, pcs = (\<lambda>_. Idle)\<rparr>"

inductive lock_reach :: "lock_state \<Rightarrow> bool" where
  init: "lock_reach DECLARE_SPINLOCK"
| step: "lock_reach s \<Longrightarrow> lock_step s s' \<Longrightarrow> lock_reach s'"

inductive_simps lock_step_simps: "lock_step s s'"

text \<open>The invariant: the lock word is 0 or 1, and 1 exactly while one thread is critical.\<close>

definition lock_inv :: "lock_state \<Rightarrow> bool" where
  "lock_inv s \<longleftrightarrow>
    (lockVar s = 0 \<and> (\<forall>t. pcs s t \<noteq> Critical)) \<or>
    (lockVar s = 1 \<and> (\<exists>!t. pcs s t = Critical))"

section \<open>Sequential facts\<close>

lemma acquire_free [simp]: "acquireSpinlock 0 = Some 1"
  by (subst acquireSpinlock.simps) (simp add: sync_lock_test_and_set_def)

lemma acquire_held_aux: "acquireSpinlock l = Some r \<Longrightarrow> l = 0"
  by (erule acquireSpinlock.raw_induct [where P = "\<lambda>l r. l = 0", rotated])
    (force simp: sync_lock_test_and_set_def split: if_splits)

lemma acquire_held [simp]: "l \<noteq> 0 \<Longrightarrow> acquireSpinlock l = None"
  using acquire_held_aux by (cases "acquireSpinlock l") auto

lemma release_0 [simp]: "releaseSpinlock l = 0"
  by (simp add: releaseSpinlock_def)

section \<open>Concurrent facts\<close>

lemma lock_inv_init: "lock_inv DECLARE_SPINLOCK"
  by (simp add: lock_inv_def DECLARE_SPINLOCK_def)

lemma lock_inv_step: "lock_step s s' \<Longrightarrow> lock_inv s \<Longrightarrow> lock_inv s'"
proof (induction rule: lock_step.induct)
  case (call s t)
  then show ?case by (auto simp: lock_inv_def) (metis lock_pc.distinct(3))+
next
  case (spin s t old new)
  then show ?case by (auto simp: lock_inv_def sync_lock_test_and_set_def)
next
  case (enter s t old new)
  then show ?case by (auto simp: lock_inv_def sync_lock_test_and_set_def)
next
  case (release s t)
  then show ?case by (auto simp: lock_inv_def)
qed

lemma lock_reach_inv: "lock_reach s \<Longrightarrow> lock_inv s"
  by (induction rule: lock_reach.induct) (auto intro: lock_inv_init lock_inv_step)

text \<open>
  C5: mutual exclusion. In every state any number of threads can reach through
  \<open>acquireSpinlock\<close> and \<open>releaseSpinlock\<close>, at most one thread is between the two, and the lock
  word is 0 exactly when there is none.
\<close>

theorem spinlock_mutual_exclusion:
  assumes "lock_reach s"
  shows "(pcs s t = Critical \<and> pcs s u = Critical \<longrightarrow> t = u) \<and>
    (lockVar s = 0 \<longleftrightarrow> (\<forall>t. pcs s t \<noteq> Critical))"
  using lock_reach_inv [OF assms] by (auto simp: lock_inv_def)

theorem spinlock_mutual_exclusion_witness:
  "lock_reach \<lparr>lockVar = 0, pcs = (\<lambda>_. Idle)(3 := Spinning)\<rparr> \<and>
   (lockVar \<lparr>lockVar = 0, pcs = (\<lambda>_. Idle)(3 := Spinning)\<rparr> = 0 \<longleftrightarrow>
     (\<forall>t. ((\<lambda>_. Idle)(3 := Spinning)) (t :: nat) \<noteq> Critical))"
proof -
  have r: "lock_reach \<lparr>lockVar = 0, pcs = (\<lambda>_. Idle)(3 := Spinning)\<rparr>"
    using lock_reach.step [OF lock_reach.init lock_step.call [of DECLARE_SPINLOCK 3]]
    by (simp add: DECLARE_SPINLOCK_def)
  show ?thesis
    using r spinlock_mutual_exclusion [OF r, of 0 0] by simp
qed

text \<open>
  C23: no deadlock by the lock itself. In every reachable state some thread can step out of
  the protocol's waiting: either a thread holds the lock and its release is enabled, leaving
  the lock free, or the lock is free and any spinning thread's next test-and-set lets it in.
\<close>

theorem spinlock_progress:
  assumes "lock_reach s" and "pcs s t = Spinning"
  shows "(\<exists>s'. lock_step s s' \<and> pcs s' t = Critical) \<or>
    (\<exists>u s'. pcs s u = Critical \<and> lock_step s s' \<and> lockVar s' = 0 \<and> pcs s' t = Spinning \<and>
      (\<exists>s''. lock_step s' s'' \<and> pcs s'' t = Critical))"
proof -
  have enter: "\<exists>r'. lock_step r r' \<and> pcs r' t = Critical"
    if "pcs r t = Spinning" "lockVar r = 0" for r
    using lock_step.enter [OF that(1), of 0 1] that(2)
    by (fastforce simp: sync_lock_test_and_set_def)
  show ?thesis
  proof (cases "lockVar s = 0")
    case True
    then show ?thesis using enter assms(2) by blast
  next
    case False
    then obtain u where u: "pcs s u = Critical"
      using lock_reach_inv [OF assms(1)] by (auto simp: lock_inv_def)
    let ?s' = "s\<lparr>lockVar := releaseSpinlock (lockVar s), pcs := (pcs s)(u := Idle)\<rparr>"
    have "pcs ?s' t = Spinning" "lockVar ?s' = 0"
      using u assms(2) by auto
    then show ?thesis
      using u lock_step.release [OF u] enter [of ?s'] by blast
  qed
qed

theorem spinlock_progress_witness:
  "\<exists>s. lock_reach s \<and> pcs s 3 = Spinning \<and>
    ((\<exists>s'. lock_step s s' \<and> pcs s' 3 = Critical) \<or>
     (\<exists>u s'. pcs s u = Critical \<and> lock_step s s' \<and> lockVar s' = 0 \<and> pcs s' 3 = Spinning \<and>
       (\<exists>s''. lock_step s' s'' \<and> pcs s'' 3 = Critical)))"
proof -
  let ?s = "\<lparr>lockVar = 0, pcs = (\<lambda>_. Idle)(3 := Spinning)\<rparr>"
  have r: "lock_reach ?s"
    using lock_reach.step [OF lock_reach.init lock_step.call [of DECLARE_SPINLOCK 3]]
    by (simp add: DECLARE_SPINLOCK_def)
  have "pcs ?s 3 = Spinning" by simp
  with r spinlock_progress [OF r this] show ?thesis by blast
qed

end
