(* ===== verification/KHeap.thy ===== *)
theory KHeap
  imports Kmemory Spinlock "HOL-Library.Monad_Syntax"
begin

text \<open>
  The kernel heap of \<^verbatim>\<open>kernel/src/memory/kheap.cpp\<close> and \<^verbatim>\<open>kheap.h\<close>: a doubly linked
  chain of segment headers inside the byte memory, first-fit allocation with splitting, and
  merging on release. A header is read and written at its offsets in the packed struct
  (\<open>magic\<close> 0, \<open>flags\<close> 7, \<open>size\<close> 8, \<open>next\<close> 16, \<open>prev\<close> 24). The abstract heap is a list of blocks
  (size in bytes with header, free flag) that tile the region; the refinement lemmas say
  what each operation does to that list, and which bytes it leaves alone.
\<close>

section \<open>Segment headers\<close>

definition KERNEL_HEAP_SEGMENT_HDR_SIGNATURE :: "u8 list" where
  "KERNEL_HEAP_SEGMENT_HDR_SIGNATURE = [0x48, 0x45, 0x41, 0x50, 0x48, 0x44, 0x52]"

definition sizeof_HeapSegmentHeader :: u64 where
  "sizeof_HeapSegmentHeader = 32"

definition seg_free :: "mem \<Rightarrow> u64 \<Rightarrow> bool" where
  "seg_free m seg = (bf_get 0 1 (m (seg + 7)) \<noteq> 0)"

definition seg_size :: "mem \<Rightarrow> u64 \<Rightarrow> u64" where
  "seg_size m seg = load64 m (seg + 8)"

definition seg_next :: "mem \<Rightarrow> u64 \<Rightarrow> u64" where
  "seg_next m seg = load64 m (seg + 16)"

definition seg_prev :: "mem \<Rightarrow> u64 \<Rightarrow> u64" where
  "seg_prev m seg = load64 m (seg + 24)"

definition set_seg_free :: "bool \<Rightarrow> u64 \<Rightarrow> mem \<Rightarrow> mem" where
  "set_seg_free f seg m = m(seg + 7 := bf_set 0 1 (of_bool f) (m (seg + 7)))"

definition set_seg_flags :: "u8 \<Rightarrow> u64 \<Rightarrow> mem \<Rightarrow> mem" where
  "set_seg_flags v seg m = m(seg + 7 := v)"

definition set_seg_size :: "u64 \<Rightarrow> u64 \<Rightarrow> mem \<Rightarrow> mem" where
  "set_seg_size v seg m = store64 v (seg + 8) m"

definition set_seg_next :: "u64 \<Rightarrow> u64 \<Rightarrow> mem \<Rightarrow> mem" where
  "set_seg_next v seg m = store64 v (seg + 16) m"

definition set_seg_prev :: "u64 \<Rightarrow> u64 \<Rightarrow> mem \<Rightarrow> mem" where
  "set_seg_prev v seg m = store64 v (seg + 24) m"

text \<open>
  \<open>WRITE_SEGMENT_MAGIC_FIELD\<close> copies the seven bytes of the signature literal; the check
  compares them. The literal is immutable, so both read it as a constant.
\<close>

definition WRITE_SEGMENT_MAGIC_FIELD :: "u64 \<Rightarrow> mem \<Rightarrow> mem" where
  "WRITE_SEGMENT_MAGIC_FIELD seg m =
    (\<lambda>x. if unat (x - seg) < 7 then KERNEL_HEAP_SEGMENT_HDR_SIGNATURE ! unat (x - seg) else m x)"

definition seg_magic_ok :: "mem \<Rightarrow> u64 \<Rightarrow> bool" where
  "seg_magic_ok m seg =
    (map (\<lambda>i. m (seg + of_nat i)) [0..<7] = KERNEL_HEAP_SEGMENT_HDR_SIGNATURE)"

section \<open>The allocator\<close>

text \<open>The allocator object, its lock, and the memory its segments live in.\<close>

record kheap =
  m_heapSize :: u64
  m_firstSegment :: u64
  kheap_lock :: u32
  ram :: mem

definition PAGE_SIZE :: u64 where
  "PAGE_SIZE = 0x1000"

text \<open>\<open>lockPages\<close> is the page frame allocator's operation on its own state \<open>p\<close>.\<close>

definition heap_init ::
  "(u64 \<Rightarrow> u64 \<Rightarrow> 'p \<Rightarrow> 'p) \<Rightarrow> u64 \<Rightarrow> u64 \<Rightarrow> 'p \<Rightarrow> kheap \<Rightarrow> 'p \<times> kheap" where
  "heap_init lockPages base sz p h =
    (let p = lockPages base (sz div PAGE_SIZE) p;
         m = WRITE_SEGMENT_MAGIC_FIELD base (ram h);
         m = set_seg_flags 1 base m;
         m = set_seg_size sz base m;
         m = set_seg_next 0 base m;
         m = set_seg_prev 0 base m
     in (p, h\<lparr>m_heapSize := sz, m_firstSegment := base, ram := m\<rparr>))"

partial_function (option) findFreeSegment :: "mem \<Rightarrow> u64 \<Rightarrow> u64 \<Rightarrow> u64 option" where
  "findFreeSegment m seg minSize =
    (if seg = 0 then Some 0
     else if seg_free m seg \<and> minSize \<le> seg_size m seg then Some seg
     else findFreeSegment m (seg_next m seg) minSize)"

definition MIN_HEAP_SEGMENT_CAPACITY :: int where
  "MIN_HEAP_SEGMENT_CAPACITY = 1"

definition splitSegment :: "mem \<Rightarrow> u64 \<Rightarrow> u64 \<Rightarrow> bool \<times> mem" where
  "splitSegment m segment sz =
    (if sint (seg_size m segment - (sz + sizeof_HeapSegmentHeader)) < MIN_HEAP_SEGMENT_CAPACITY * 2
     then (False, m)
     else
       (let newSegment = segment + sz;
            m = WRITE_SEGMENT_MAGIC_FIELD newSegment m;
            m = set_seg_free (seg_free m segment) newSegment m;
            m = set_seg_size (seg_size m segment - sz) newSegment m;
            m = set_seg_next (seg_next m segment) newSegment m;
            m = set_seg_prev segment newSegment m;
            m = set_seg_size sz segment m;
            m = set_seg_next newSegment segment m
        in (True, m)))"

definition mergeSegmentWithPrevious :: "mem \<Rightarrow> u64 \<Rightarrow> bool \<times> mem" where
  "mergeSegmentWithPrevious m segment =
    (let previousSegment = seg_prev m segment
     in if previousSegment = 0 then (False, m)
        else
          (let m = set_seg_size (seg_size m previousSegment + seg_size m segment) previousSegment m;
               m = set_seg_next (seg_next m segment) previousSegment m;
               m = (if seg_next m previousSegment \<noteq> 0
                    then set_seg_prev previousSegment (seg_next m previousSegment) m else m)
           in (True, m)))"

definition mergeSegmentWithNext :: "mem \<Rightarrow> u64 \<Rightarrow> bool \<times> mem" where
  "mergeSegmentWithNext m segment =
    (let nextSegment = seg_next m segment
     in if nextSegment = 0 then (False, m)
        else
          (let m = set_seg_size (seg_size m segment + seg_size m nextSegment) segment m;
               m = set_seg_next (seg_next m nextSegment) segment m;
               m = (if seg_next m segment \<noteq> 0
                    then set_seg_prev segment (seg_next m segment) m else m)
           in (True, m)))"

text \<open>\<open>None\<close>: the call never returns (the lock is held, or the chain is cyclic).\<close>

definition heap_allocate :: "kheap \<Rightarrow> u64 \<Rightarrow> (u64 \<times> kheap) option" where
  "heap_allocate h sz = do {
     l \<leftarrow> acquireSpinlock (kheap_lock h);
     let h = h\<lparr>kheap_lock := l\<rparr>;
     let newSegmentSize = sz + sizeof_HeapSegmentHeader;
     segment \<leftarrow> findFreeSegment (ram h) (m_firstSegment h) (newSegmentSize + sizeof_HeapSegmentHeader);
     if segment = 0 then Some (0, h\<lparr>kheap_lock := releaseSpinlock (kheap_lock h)\<rparr>)
     else
       (case splitSegment (ram h) segment newSegmentSize of
          (False, m) \<Rightarrow> Some (0, h\<lparr>kheap_lock := releaseSpinlock (kheap_lock h), ram := m\<rparr>)
        | (True, m) \<Rightarrow>
            Some (segment + sizeof_HeapSegmentHeader,
                  h\<lparr>kheap_lock := releaseSpinlock (kheap_lock h), ram := set_seg_free False segment m\<rparr>))
   }"

definition heap_free :: "kheap \<Rightarrow> u64 \<Rightarrow> kheap option" where
  "heap_free h ptr = do {
     l \<leftarrow> acquireSpinlock (kheap_lock h);
     let h = h\<lparr>kheap_lock := l\<rparr>;
     let segment = ptr - sizeof_HeapSegmentHeader;
     if \<not> seg_magic_ok (ram h) segment
     then Some (h\<lparr>kheap_lock := releaseSpinlock (kheap_lock h)\<rparr>)
     else do {
       let m = set_seg_free True segment (ram h);
       let m = (if seg_next m segment \<noteq> 0 \<and> seg_free m (seg_next m segment)
                then snd (mergeSegmentWithNext m segment) else m);
       let m = (if seg_prev m segment \<noteq> 0 \<and> seg_free m (seg_prev m segment)
                then snd (mergeSegmentWithPrevious m segment) else m);
       Some (h\<lparr>kheap_lock := releaseSpinlock (kheap_lock h), ram := m\<rparr>)
     }
   }"

definition heap_reallocate :: "kheap \<Rightarrow> u64 \<Rightarrow> u64 \<Rightarrow> (u64 \<times> kheap) option" where
  "heap_reallocate h ptr newSize =
    (if ptr = 0 then heap_allocate h newSize
     else do {
       l \<leftarrow> acquireSpinlock (kheap_lock h);
       let h = h\<lparr>kheap_lock := l\<rparr>;
       let segment = ptr - sizeof_HeapSegmentHeader;
       if \<not> seg_magic_ok (ram h) segment
       then Some (0, h\<lparr>kheap_lock := releaseSpinlock (kheap_lock h)\<rparr>)
       else if newSize + sizeof_HeapSegmentHeader \<le> seg_size (ram h) segment
       then Some (ptr, h\<lparr>kheap_lock := releaseSpinlock (kheap_lock h),
                        ram := snd (splitSegment (ram h) segment (newSize + sizeof_HeapSegmentHeader))\<rparr>)
       else do {
         let h = h\<lparr>kheap_lock := releaseSpinlock (kheap_lock h)\<rparr>;
         (newPtr, h) \<leftarrow> heap_allocate h newSize;
         if newPtr = 0 then Some (0, h)
         else do {
           let h = h\<lparr>ram := memcpy (ram h) newPtr ptr
                     (seg_size (ram h) segment - sizeof_HeapSegmentHeader)\<rparr>;
           h \<leftarrow> heap_free h ptr;
           Some (newPtr, h)
         }
       }
     })"

text \<open>\<open>__detectHeapCorruption\<close>: walks the chain; \<open>Some True\<close> when a signature is damaged.\<close>

partial_function (option) detectHeapCorruption :: "mem \<Rightarrow> u64 \<Rightarrow> bool option" where
  "detectHeapCorruption m seg =
    (if seg = 0 then Some False
     else if \<not> seg_magic_ok m seg then Some True
     else detectHeapCorruption m (seg_next m seg))"

section \<open>The wrappers of kmemory.cpp\<close>

definition kmalloc :: "kheap \<Rightarrow> u64 \<Rightarrow> (u64 \<times> kheap) option" where
  "kmalloc h sz = heap_allocate h sz"

definition kfree :: "kheap \<Rightarrow> u64 \<Rightarrow> kheap option" where
  "kfree h ptr = (if ptr = 0 then Some h else heap_free h ptr)"

definition krealloc :: "kheap \<Rightarrow> u64 \<Rightarrow> u64 \<Rightarrow> (u64 \<times> kheap) option" where
  "krealloc h ptr sz = heap_reallocate h ptr sz"

definition kmallocAligned :: "kheap \<Rightarrow> u64 \<Rightarrow> u64 \<Rightarrow> (u64 \<times> kheap) option" where
  "kmallocAligned h sz alignment = do {
     (original, h) \<leftarrow> kmalloc h (sz + alignment + 8);
     if original = 0 then Some (0, h)
     else do {
       let offset = alignment + 8;
       let aligned = (original + offset) AND NOT (alignment - 1);
       Some (aligned, h\<lparr>ram := store64 original (aligned - 8) (ram h)\<rparr>)
     }
   }"

definition kfreeAligned :: "kheap \<Rightarrow> u64 \<Rightarrow> kheap option" where
  "kfreeAligned h ptr =
    (if ptr = 0 then Some h else kfree h (load64 (ram h) (ptr - 8)))"

section \<open>Reading back header fields\<close>

lemmas seg_defs = seg_free_def seg_size_def seg_next_def seg_prev_def set_seg_free_def
  set_seg_flags_def set_seg_size_def set_seg_next_def set_seg_prev_def seg_magic_ok_def
  WRITE_SEGMENT_MAGIC_FIELD_def

named_theorems seg_simps

lemma seg_free_set_free [seg_simps]: "seg_free (set_seg_free f a m) a = f"
  using bf_get_set_same [of 0 1 "of_bool f" "m (a + 7)"] by (simp add: seg_defs)

lemma seg_free_set_flags [seg_simps]: "seg_free (set_seg_flags 1 a m) a"
  by (simp add: seg_defs bf_get_def)

lemma seg_get_set_same [seg_simps]:
  "seg_size (set_seg_size v a m) a = v"
  "seg_next (set_seg_next v a m) a = v"
  "seg_prev (set_seg_prev v a m) a = v"
  by (simp_all add: seg_defs load64_store64_same)

lemma seg_get_set_field [seg_simps]:
  "seg_size (set_seg_next v a m) a = seg_size m a"
  "seg_size (set_seg_prev v a m) a = seg_size m a"
  "seg_next (set_seg_size v a m) a = seg_next m a"
  "seg_next (set_seg_prev v a m) a = seg_next m a"
  "seg_prev (set_seg_size v a m) a = seg_prev m a"
  "seg_prev (set_seg_next v a m) a = seg_prev m a"
  by (simp_all add: seg_defs load64_store64_other)

lemma seg_free_set_field [seg_simps]:
  "seg_free (set_seg_size v a m) a = seg_free m a"
  "seg_free (set_seg_next v a m) a = seg_free m a"
  "seg_free (set_seg_prev v a m) a = seg_free m a"
  by (simp_all add: seg_defs store64_apply)

lemma load64_fun_upd_other:
  assumes "8 \<le> unat (x - a)"
  shows "load64 (m(x := v)) a = load64 m a"
proof (rule load64_cong)
  fix i :: nat assume "i < 8"
  with assms show "(m(x := v)) (a + of_nat i) = m (a + of_nat i)"
    by (auto simp: unat_of_nat_less)
qed

lemma seg_get_set_free [seg_simps]:
  "seg_size (set_seg_free f a m) a = seg_size m a"
  "seg_next (set_seg_free f a m) a = seg_next m a"
  "seg_prev (set_seg_free f a m) a = seg_prev m a"
  "seg_size (set_seg_flags w a m) a = seg_size m a"
  "seg_next (set_seg_flags w a m) a = seg_next m a"
  "seg_prev (set_seg_flags w a m) a = seg_prev m a"
  by (simp_all add: seg_defs load64_fun_upd_other)

lemma seg_magic_set_field [seg_simps]:
  "seg_magic_ok (set_seg_size v a m) a = seg_magic_ok m a"
  "seg_magic_ok (set_seg_next v a m) a = seg_magic_ok m a"
  "seg_magic_ok (set_seg_prev v a m) a = seg_magic_ok m a"
  "seg_magic_ok (set_seg_free f a m) a = seg_magic_ok m a"
  "seg_magic_ok (set_seg_flags w a m) a = seg_magic_ok m a"
  by (simp_all add: seg_defs store64_apply upt_rec)

lemma seg_magic_write [seg_simps]: "seg_magic_ok (WRITE_SEGMENT_MAGIC_FIELD a m) a"
  by (simp add: seg_defs upt_rec KERNEL_HEAP_SEGMENT_HDR_SIGNATURE_def)

section \<open>Bytes an operation leaves alone\<close>

text \<open>\<open>agree a n m m'\<close>: the memories hold the same \<open>n\<close> bytes from \<open>a\<close> on.\<close>

definition agree :: "u64 \<Rightarrow> nat \<Rightarrow> mem \<Rightarrow> mem \<Rightarrow> bool" where
  "agree a n m m' \<longleftrightarrow> (\<forall>x. unat (x - a) < n \<longrightarrow> m x = m' x)"

lemma agree_at: "agree a n m m' \<Longrightarrow> i < n \<Longrightarrow> i < 2 ^ 64 \<Longrightarrow> m (a + of_nat i) = m' (a + of_nat i)"
  by (simp add: agree_def unat64_of_nat)

lemma agree_load64:
  assumes "agree a n m m'" "i + 8 \<le> n" "i + 8 \<le> 2 ^ 64"
  shows "load64 m (a + of_nat i) = load64 m' (a + of_nat i)"
proof (rule load64_cong)
  fix j :: nat assume "j < 8"
  then show "m (a + of_nat i + of_nat j) = m' (a + of_nat i + of_nat j)"
    using agree_at [OF assms(1), of "i + j"] assms by (simp add: add.assoc)
qed

lemma agree_fields:
  assumes "agree a 32 m m'"
  shows "seg_size m a = seg_size m' a" "seg_next m a = seg_next m' a"
    "seg_prev m a = seg_prev m' a" "seg_free m a = seg_free m' a"
    "seg_magic_ok m a = seg_magic_ok m' a"
proof -
  have "map (\<lambda>i. m (a + of_nat i)) [0..<7] = map (\<lambda>i. m' (a + of_nat i)) [0..<7]"
    by (rule map_cong) (auto intro: agree_at [OF assms])
  then show "seg_magic_ok m a = seg_magic_ok m' a"
    by (simp only: seg_magic_ok_def)
qed (use agree_load64 [OF assms, of 8] agree_load64 [OF assms, of 16]
    agree_load64 [OF assms, of 24] agree_at [OF assms, of 7] in \<open>simp_all add: seg_defs\<close>)

text \<open>\<open>outside a n m m'\<close>: the memories differ at most in the \<open>n\<close> bytes from \<open>a\<close> on.\<close>

definition outside :: "u64 \<Rightarrow> nat \<Rightarrow> mem \<Rightarrow> mem \<Rightarrow> bool" where
  "outside a n m m' \<longleftrightarrow> (\<forall>x. n \<le> unat (x - a) \<longrightarrow> m x = m' x)"

lemma outside_refl [simp]: "outside a n m m"
  by (simp add: outside_def)

lemma outside_trans: "outside a n m m' \<Longrightarrow> outside a n m' m'' \<Longrightarrow> outside a n m m''"
  by (simp add: outside_def)

lemma outside_sym: "outside a n m m' \<Longrightarrow> outside a n m' m"
  by (simp add: outside_def)

lemma store64_outside:
  assumes "i + 8 \<le> n" "i + 8 \<le> 2 ^ 64"
  shows "outside a n m (store64 v (a + of_nat i) m)"
proof -
  have "8 \<le> unat (x - (a + of_nat i))" if "n \<le> unat (x - a)" for x
    using that assms unat_sub_of_nat [of i "x - a"] by (simp add: diff_diff_eq)
  then show ?thesis
    by (fastforce simp: outside_def store64_apply)
qed

lemma set_seg_outside:
  "outside a 32 m (set_seg_size v a m)" "outside a 32 m (set_seg_next v a m)"
  "outside a 32 m (set_seg_prev v a m)" "outside a 32 m (set_seg_free f a m)"
  "outside a 32 m (set_seg_flags w a m)" "outside a 32 m (WRITE_SEGMENT_MAGIC_FIELD a m)"
  using store64_outside [of 8 32 a m v] store64_outside [of 16 32 a m v]
    store64_outside [of 24 32 a m v]
  by (auto simp: seg_defs outside_def)

text \<open>A block of \<open>k\<close> bytes at offset \<open>i\<close> of a region, and what lies beside it.\<close>

lemma unat_diff_offset:
  fixes x a :: u64
  assumes "i \<le> 2 ^ 64"
  shows "unat (x - (a + of_nat i)) = (if i \<le> unat (x - a) then unat (x - a) - i
    else 2 ^ 64 + unat (x - a) - i)"
  using unat_sub_of_nat [OF assms, of "x - a"] by (simp add: diff_diff_eq)

lemma outside_widen:
  assumes "outside (a + of_nat i) k m m'" "i + k \<le> n" "n \<le> 2 ^ 64"
  shows "outside a n m m'"
  using assms by (auto simp: outside_def unat_diff_offset)

lemma outside_agree_before:
  assumes "outside (a + of_nat i) k m m'" "n \<le> i" "i + k \<le> 2 ^ 64"
  shows "agree a n m m'"
  using assms by (auto simp: outside_def agree_def unat_diff_offset)

lemma outside_agree_after:
  assumes "outside a k m m'" "k \<le> i" "i + n \<le> 2 ^ 64"
  shows "agree (a + of_nat i) n m m'"
proof -
  have "k \<le> unat (x - a)" if "unat (x - (a + of_nat i)) < n" for x
    using that assms(2,3) by (cases "i \<le> unat (x - a)") (auto simp: unat_diff_offset)
  then show ?thesis
    using assms(1) by (simp add: outside_def agree_def)
qed

section \<open>The block list a heap represents\<close>

type_synonym blk = "nat \<times> bool"

abbreviation total :: "blk list \<Rightarrow> nat" where
  "total bs \<equiv> sum_list (map fst bs)"

text \<open>
  The header at \<open>a\<close> describes block \<open>b\<close>; \<open>e\<close> is the end of the heap, where \<open>next\<close> is null.
\<close>

definition hdr :: "mem \<Rightarrow> u64 \<Rightarrow> u64 \<Rightarrow> blk \<Rightarrow> bool" where
  "hdr m e a b \<longleftrightarrow> seg_magic_ok m a \<and> seg_size m a = of_nat (fst b) \<and> seg_free m a = snd b \<and>
    seg_next m a = (if a + of_nat (fst b) = e then 0 else a + of_nat (fst b))"

primrec hdrs :: "mem \<Rightarrow> u64 \<Rightarrow> u64 \<Rightarrow> blk list \<Rightarrow> bool" where
  "hdrs m e a [] \<longleftrightarrow> True"
| "hdrs m e a (b # bs) \<longleftrightarrow> hdr m e a b \<and> hdrs m e (a + of_nat (fst b)) bs"

text \<open>\<open>prev\<close> links: the first block's is \<open>p\<close>, every other one's is its predecessor.\<close>

primrec prevs :: "mem \<Rightarrow> u64 \<Rightarrow> u64 \<Rightarrow> blk list \<Rightarrow> bool" where
  "prevs m p a [] \<longleftrightarrow> True"
| "prevs m p a (b # bs) \<longleftrightarrow> seg_prev m a = p \<and> prevs m a (a + of_nat (fst b)) bs"

definition blocks_ok :: "u64 \<Rightarrow> blk list \<Rightarrow> bool" where
  "blocks_ok base bs \<longleftrightarrow> base \<noteq> 0 \<and> bs \<noteq> [] \<and> (\<forall>b \<in> set bs. 32 \<le> fst b) \<and>
    unat base + total bs < 2 ^ 64 \<and> total bs < 2 ^ 63"

text \<open>The heap invariant: blocks tile the heap and the forward chain visits them in order.\<close>

definition heap_wf :: "kheap \<Rightarrow> blk list \<Rightarrow> bool" where
  "heap_wf h bs \<longleftrightarrow> blocks_ok (m_firstSegment h) bs \<and> m_heapSize h = of_nat (total bs) \<and>
    kheap_lock h = 0 \<and>
    hdrs (ram h) (m_firstSegment h + of_nat (total bs)) (m_firstSegment h) bs"

text \<open>The stronger invariant the comments of the source assume: \<open>prev\<close> links are right too.\<close>

definition heap_dll :: "kheap \<Rightarrow> blk list \<Rightarrow> bool" where
  "heap_dll h bs \<longleftrightarrow> heap_wf h bs \<and> prevs (ram h) 0 (m_firstSegment h) bs"

lemma hdrs_append:
  "hdrs m e a (xs @ ys) \<longleftrightarrow> hdrs m e a xs \<and> hdrs m e (a + of_nat (total xs)) ys"
  by (induction xs arbitrary: a) (auto simp: add.assoc)

lemma hdr_cong: "agree a 32 m m' \<Longrightarrow> hdr m e a b = hdr m' e a b"
  by (simp add: hdr_def agree_fields)

lemma agree_subset:
  assumes "agree a n m m'" "i + k \<le> n" "n \<le> 2 ^ 64"
  shows "agree (a + of_nat i) k m m'"
proof -
  have "unat (x - a) < n" if "unat (x - (a + of_nat i)) < k" for x
    using that assms(2,3) unat_lt64 [of "x - a"]
    by (cases "i \<le> unat (x - a)") (auto simp: unat_diff_offset)
  then show ?thesis using assms(1) by (simp add: agree_def)
qed

lemma agree_prefix: "agree a n m m' \<Longrightarrow> k \<le> n \<Longrightarrow> agree a k m m'"
  by (auto simp: agree_def)

lemma hdrs_cong:
  "agree a (total bs) m m' \<Longrightarrow> total bs \<le> 2 ^ 64 \<Longrightarrow> \<forall>b \<in> set bs. 32 \<le> fst b \<Longrightarrow>
    hdrs m e a bs = hdrs m' e a bs"
proof (induction bs arbitrary: a)
  case (Cons b bs)
  have "agree a 32 m m'"
    using Cons.prems by (auto intro: agree_prefix)
  moreover have "agree (a + of_nat (fst b)) (total bs) m m'"
    using Cons.prems by (intro agree_subset [of a "fst b + total bs"]) auto
  ultimately show ?case
    using Cons by (simp add: hdr_cong)
qed simp

lemma prevs_cong:
  "agree a (total bs) m m' \<Longrightarrow> total bs \<le> 2 ^ 64 \<Longrightarrow> \<forall>b \<in> set bs. 32 \<le> fst b \<Longrightarrow>
    prevs m p a bs = prevs m' p a bs"
proof (induction bs arbitrary: a p)
  case (Cons b bs)
  have "agree a 32 m m'"
    using Cons.prems by (auto intro: agree_prefix)
  moreover have "agree (a + of_nat (fst b)) (total bs) m m'"
    using Cons.prems by (intro agree_subset [of a "fst b + total bs"]) auto
  ultimately show ?case
    using Cons by (simp add: agree_fields)
qed simp

text \<open>The address of the last block of a non-empty prefix; the null pointer for an empty one.\<close>

definition last_addr :: "u64 \<Rightarrow> u64 \<Rightarrow> blk list \<Rightarrow> u64" where
  "last_addr p a xs = (if xs = [] then p else a + of_nat (total (butlast xs)))"

lemma prevs_append:
  "prevs m p a (xs @ ys) \<longleftrightarrow>
    prevs m p a xs \<and> prevs m (last_addr p a xs) (a + of_nat (total xs)) ys"
  by (induction xs arbitrary: a p) (auto simp: add.assoc last_addr_def)

section \<open>Splitting\<close>

text \<open>Two headers that do not overlap.\<close>

definition far :: "u64 \<Rightarrow> u64 \<Rightarrow> bool" where
  "far a b \<longleftrightarrow> 32 \<le> unat (b - a) \<and> 32 \<le> unat (a - b)"

lemma far_sym: "far a b \<Longrightarrow> far b a"
  by (simp add: far_def)

lemma far_offset:
  assumes "32 \<le> k" "k + 32 \<le> 2 ^ 64"
  shows "far a (a + of_nat k)" "far (a + of_nat k) a"
proof -
  have "unat (of_nat k :: u64) = k" using assms by (simp add: unat64_of_nat)
  moreover have "unat (- (of_nat k) :: u64) = 2 ^ 64 - k"
    using assms unat_sub_of_nat [of k 0] by simp
  ultimately show "far a (a + of_nat k)" "far (a + of_nat k) a"
    using assms by (simp_all add: far_def)
qed

lemma far_agree: "far a b \<Longrightarrow> outside b 32 m m' \<Longrightarrow> agree a 32 m m'"
  using unat_far [of 32 b a] by (auto simp: agree_def outside_def far_def)

lemma far_fields [seg_simps]:
  assumes "far a b"
  shows
  "seg_size (set_seg_size v b m) a = seg_size m a" "seg_size (set_seg_next v b m) a = seg_size m a"
  "seg_size (set_seg_prev v b m) a = seg_size m a" "seg_size (set_seg_free f b m) a = seg_size m a"
  "seg_size (WRITE_SEGMENT_MAGIC_FIELD b m) a = seg_size m a"
  "seg_next (set_seg_size v b m) a = seg_next m a" "seg_next (set_seg_next v b m) a = seg_next m a"
  "seg_next (set_seg_prev v b m) a = seg_next m a" "seg_next (set_seg_free f b m) a = seg_next m a"
  "seg_next (WRITE_SEGMENT_MAGIC_FIELD b m) a = seg_next m a"
  "seg_prev (set_seg_size v b m) a = seg_prev m a" "seg_prev (set_seg_next v b m) a = seg_prev m a"
  "seg_prev (set_seg_prev v b m) a = seg_prev m a" "seg_prev (set_seg_free f b m) a = seg_prev m a"
  "seg_prev (WRITE_SEGMENT_MAGIC_FIELD b m) a = seg_prev m a"
  "seg_free (set_seg_size v b m) a = seg_free m a" "seg_free (set_seg_next v b m) a = seg_free m a"
  "seg_free (set_seg_prev v b m) a = seg_free m a" "seg_free (set_seg_free f b m) a = seg_free m a"
  "seg_free (WRITE_SEGMENT_MAGIC_FIELD b m) a = seg_free m a"
  "seg_magic_ok (set_seg_size v b m) a = seg_magic_ok m a"
  "seg_magic_ok (set_seg_next v b m) a = seg_magic_ok m a"
  "seg_magic_ok (set_seg_prev v b m) a = seg_magic_ok m a"
  "seg_magic_ok (set_seg_free f b m) a = seg_magic_ok m a"
  "seg_magic_ok (WRITE_SEGMENT_MAGIC_FIELD b m) a = seg_magic_ok m a"
  by (rule agree_fields [OF far_agree [OF assms], symmetric], rule set_seg_outside)+

lemma outside_set_far:
  assumes "outside a n m m'" "i + 32 \<le> n" "n \<le> 2 ^ 64"
  shows "outside a n m (set_seg_size v (a + of_nat i) m')"
    "outside a n m (set_seg_next v (a + of_nat i) m')"
    "outside a n m (set_seg_prev v (a + of_nat i) m')"
    "outside a n m (set_seg_free f (a + of_nat i) m')"
    "outside a n m (WRITE_SEGMENT_MAGIC_FIELD (a + of_nat i) m')"
  by (rule outside_trans [OF assms(1)], rule outside_widen [OF _ assms(2,3)], rule set_seg_outside)+

lemmas outside_set_here = outside_set_far [of _ _ _ _ 0, simplified]

definition split_fits :: "u64 \<Rightarrow> u64 \<Rightarrow> bool" where
  "split_fits segSize sz \<longleftrightarrow> \<not> sint (segSize - (sz + sizeof_HeapSegmentHeader)) < MIN_HEAP_SEGMENT_CAPACITY * 2"

lemma split_fits_nat:
  assumes "n < 2 ^ 63" "k + 32 \<le> 2 ^ 63"
  shows "split_fits (of_nat n) (of_nat k) \<longleftrightarrow> k + 34 \<le> n"
proof -
  have "sint (of_nat n - of_nat (k + 32) :: u64) = int n - int (k + 32)"
    using assms by (intro sint_of_nat_diff) auto
  then show ?thesis
    by (auto simp: split_fits_def sizeof_HeapSegmentHeader_def MIN_HEAP_SEGMENT_CAPACITY_def)
qed

lemma splitSegment_fails:
  "\<not> split_fits (seg_size m a) sz \<Longrightarrow> splitSegment m a sz = (False, m)"
  by (simp add: splitSegment_def split_fits_def)

lemma splitSegment_splits:
  assumes h: "hdr m e a (n, f)" and k: "32 \<le> k" "k + 34 \<le> n" "n < 2 ^ 63" and e: "a + of_nat k \<noteq> e"
  obtains m' where "splitSegment m a (of_nat k) = (True, m')" "hdr m' e a (k, f)"
    "hdr m' e (a + of_nat k) (n - k, f)" "outside a n m m'"
    "seg_prev m' a = seg_prev m a" "seg_prev m' (a + of_nat k) = a"
proof -
  let ?ns = "a + of_nat k" and ?m' = "snd (splitSegment m a (of_nat k))"
  have far: "far a ?ns" "far ?ns a"
    using k by (auto intro: far_offset)
  have "split_fits (seg_size m a) (of_nat k)"
    using h k split_fits_nat [of n k] by (simp add: hdr_def)
  then have fits: "\<not> sint (seg_size m a - (of_nat k + sizeof_HeapSegmentHeader))
      < MIN_HEAP_SEGMENT_CAPACITY * 2"
    by (simp add: split_fits_def)
  note split = splitSegment_def [of m a "of_nat k", unfolded Let_def if_not_P [OF fits]]
  have "?ns + of_nat (n - k) = a + of_nat n"
    using k by (simp add: of_nat_diff)
  then have "hdr ?m' e ?ns (n - k, f)"
    using h k far by (simp add: split hdr_def seg_simps of_nat_diff)
  moreover have "hdr ?m' e a (k, f)"
    using h e far by (simp add: split hdr_def seg_simps)
  moreover have "outside a n m ?m'"
    unfolding split snd_conv
    by (intro outside_set_here outside_set_far outside_refl) (use k in auto)
  moreover have "seg_prev ?m' a = seg_prev m a" "seg_prev ?m' ?ns = a"
    using far by (simp_all add: split seg_simps)
  ultimately show thesis
    using that [of ?m'] split by simp
qed

section \<open>First fit\<close>

text \<open>The first free block of at least \<open>k\<close> bytes, with the blocks before and after it.\<close>

fun first_fit :: "nat \<Rightarrow> blk list \<Rightarrow> (blk list \<times> nat \<times> blk list) option" where
  "first_fit k [] = None"
| "first_fit k ((n, f) # bs) =
    (if f \<and> k \<le> n then Some ([], n, bs)
     else map_option (\<lambda>(xs, n', ys). ((n, f) # xs, n', ys)) (first_fit k bs))"

lemma first_fit_Some:
  "first_fit k bs = Some (xs, n, ys) \<Longrightarrow>
    bs = xs @ (n, True) # ys \<and> k \<le> n \<and> (\<forall>b \<in> set xs. \<not> (snd b \<and> k \<le> fst b))"
  by (induction k bs arbitrary: xs n ys rule: first_fit.induct) (fastforce split: if_splits)+

lemma first_fit_None: "first_fit k bs = None \<longleftrightarrow> (\<forall>b \<in> set bs. \<not> (snd b \<and> k \<le> fst b))"
  by (induction k bs rule: first_fit.induct) auto

lemma total_pos: "bs \<noteq> [] \<Longrightarrow> \<forall>b \<in> set bs. 32 \<le> fst b \<Longrightarrow> 32 \<le> total bs"
  by (cases bs) auto

text \<open>Inside a region that does not wrap, offsets and addresses correspond.\<close>

lemma offset_eq_iff:
  assumes "unat a + n < 2 ^ 64" "i \<le> n" "j \<le> n"
  shows "a + of_nat i = a + (of_nat j :: u64) \<longleftrightarrow> i = j"
proof -
  have "unat (of_nat i :: u64) = i" "unat (of_nat j :: u64) = j"
    using assms by (simp_all add: unat64_of_nat)
  then show ?thesis by (metis add_left_cancel)
qed

lemma unat_offset:
  fixes a :: u64
  assumes "unat a + i < 2 ^ 64"
  shows "unat (a + of_nat i) = unat a + i"
  using assms unat_add_no_wrap [of a "of_nat i"] by (simp add: unat64_of_nat)

lemma offset_nonzero:
  fixes a :: u64
  assumes "unat a + i < 2 ^ 64" "a \<noteq> 0"
  shows "a + of_nat i \<noteq> 0"
  using unat_offset [OF assms(1)] assms(2) by (metis add_is_0 unat_eq_0)

lemma of_nat_le64:
  assumes "k < 2 ^ 64" "n < 2 ^ 64"
  shows "(of_nat k :: u64) \<le> of_nat n \<longleftrightarrow> k \<le> n"
  using assms by (simp add: word_le_nat_alt unat64_of_nat)

definition fit_addr :: "u64 \<Rightarrow> (blk list \<times> nat \<times> blk list) option \<Rightarrow> u64" where
  "fit_addr a r = (case r of None \<Rightarrow> 0 | Some (xs, n, ys) \<Rightarrow> a + of_nat (total xs))"

lemma hdr_next:
  assumes "hdr m e a b" "e = a + of_nat (fst b + r)" "unat a + (fst b + r) < 2 ^ 64"
  shows "seg_next m a = (if r = 0 then 0 else a + of_nat (fst b))"
  using assms offset_eq_iff [of a "fst b + r" "fst b" "fst b + r"] by (simp add: hdr_def)

lemma findFreeSegment_0 [simp]: "findFreeSegment m 0 k = Some 0"
  by (subst findFreeSegment.simps) simp

lemma findFreeSegment_first_fit:
  assumes "hdrs m (a + of_nat (total bs)) a bs" "bs \<noteq> []" "a \<noteq> 0" "unat a + total bs < 2 ^ 64"
    "\<forall>b \<in> set bs. 32 \<le> fst b" "k < 2 ^ 64"
  shows "findFreeSegment m a (of_nat k) = Some (fit_addr a (first_fit k bs))"
  using assms
proof (induction bs arbitrary: a)
  case (Cons b bs)
  obtain n f where b: "b = (n, f)" by fastforce
  have h: "hdr m (a + of_nat (fst b + total bs)) a b"
    using Cons.prems by simp
  have "(of_nat k \<le> seg_size m a) = (k \<le> n)" "seg_free m a = f"
    using h b Cons.prems of_nat_le64 [of k n] by (simp_all add: hdr_def)
  then have step: "findFreeSegment m a (of_nat k) =
      (if f \<and> k \<le> n then Some a else findFreeSegment m (seg_next m a) (of_nat k))"
    using Cons.prems(3) by (subst findFreeSegment.simps) simp
  show ?case
  proof (cases "bs = []")
    case True
    then have "seg_next m a = 0"
      using hdr_next [OF h refl] Cons.prems by simp
    with True step show ?thesis
      by (simp add: b fit_addr_def)
  next
    case False
    have pos: "32 \<le> total bs"
      using total_pos [OF False] Cons.prems(5) by simp
    have wrap: "unat a + (fst b + total bs) < 2 ^ 64"
      using Cons.prems(4) by simp
    have nxt: "seg_next m a = a + of_nat n"
      unfolding hdr_next [OF h refl wrap] using pos b by (metis fst_conv not_numeral_le_zero)
    have "findFreeSegment m (a + of_nat n) (of_nat k) =
        Some (fit_addr (a + of_nat n) (first_fit k bs))"
    proof (rule Cons.IH)
      show "hdrs m (a + of_nat n + of_nat (total bs)) (a + of_nat n) bs"
        using Cons.prems(1) b by (simp add: add.assoc)
      show "a + of_nat n \<noteq> 0" "unat (a + of_nat n) + total bs < 2 ^ 64"
        using wrap b Cons.prems(3) offset_nonzero [of a n] unat_offset [of a n] by simp_all
    qed (use False Cons.prems in simp_all)
    with step nxt b show ?thesis
      by (cases "first_fit k bs") (auto simp: fit_addr_def add.assoc)
  qed
qed simp

section \<open>Replacing one block of the list\<close>

lemma replace_agree:
  assumes "outside (base + of_nat (total xs)) n m m'" "total (xs @ (n, f) # ys) \<le> 2 ^ 64"
  shows "agree base (total xs) m m'"
    "agree (base + of_nat (total xs) + of_nat n) (total ys) m m'"
  using assms outside_agree_before [OF assms(1), of "total xs"]
    outside_agree_after [OF assms(1), of n "total ys"] by simp_all

lemma hdrs_replace:
  assumes h: "hdrs m e base (xs @ (n, f) # ys)"
    and o: "outside (base + of_nat (total xs)) n m m'"
    and zs: "hdrs m' e (base + of_nat (total xs)) zs" "total zs = n"
    and ok: "total (xs @ (n, f) # ys) \<le> 2 ^ 64" "\<forall>b \<in> set (xs @ ys). 32 \<le> fst b"
  shows "hdrs m' e base (xs @ zs @ ys)"
proof -
  note ag = replace_agree [OF o ok(1)]
  have "hdrs m' e base xs"
    using h hdrs_cong [OF ag(1)] ok by (simp add: hdrs_append)
  moreover have "hdrs m' e (base + of_nat (total xs) + of_nat n) ys"
    using h hdrs_cong [OF ag(2)] ok by (simp add: hdrs_append)
  ultimately show ?thesis
    using zs by (simp add: hdrs_append)
qed

lemma prevs_replace:
  assumes h: "prevs m p base (xs @ (n, f) # ys)"
    and o: "outside (base + of_nat (total xs)) n m m'"
    and zs: "prevs m' (last_addr p base xs) (base + of_nat (total xs)) zs" "total zs = n" "zs \<noteq> []"
    and last: "ys = [] \<or> length zs = 1"
    and ok: "total (xs @ (n, f) # ys) \<le> 2 ^ 64" "\<forall>b \<in> set (xs @ ys). 32 \<le> fst b"
  shows "prevs m' p base (xs @ zs @ ys)"
proof -
  note ag = replace_agree [OF o ok(1)]
  have "prevs m' p base xs"
    using h prevs_cong [OF ag(1)] ok by (simp add: prevs_append)
  moreover have "prevs m' (base + of_nat (total xs)) (base + of_nat (total xs) + of_nat n) ys"
    using h prevs_cong [OF ag(2)] ok by (simp add: prevs_append)
  moreover have "ys = [] \<or> last_addr (last_addr p base xs) (base + of_nat (total xs)) zs =
      base + of_nat (total xs)"
    using last by (cases zs) (auto simp: last_addr_def)
  ultimately show ?thesis
    using zs by (auto simp: prevs_append)
qed

lemma set_free_replace:
  assumes "hdrs m e base (xs @ (n, f) # ys)" "total (xs @ (n, f) # ys) \<le> 2 ^ 64"
    "\<forall>b \<in> set (xs @ (n, f) # ys). 32 \<le> fst b"
  defines "a \<equiv> base + of_nat (total xs)"
  shows "hdrs (set_seg_free g a m) e base (xs @ (n, g) # ys)"
    "prevs m p base (xs @ (n, f) # ys) \<Longrightarrow> prevs (set_seg_free g a m) p base (xs @ (n, g) # ys)"
    "outside a 32 m (set_seg_free g a m)"
proof -
  show o: "outside a 32 m (set_seg_free g a m)"
    by (rule set_seg_outside)
  then have on: "outside a n m (set_seg_free g a m)"
    using assms by (auto simp: outside_def)
  have "hdr m e a (n, f)"
    using assms by (simp add: hdrs_append)
  then have "hdrs (set_seg_free g a m) e a [(n, g)]"
    by (simp add: hdr_def seg_simps)
  from hdrs_replace [OF assms(1) on [unfolded a_def] this [unfolded a_def]] assms(2,3)
  show "hdrs (set_seg_free g a m) e base (xs @ (n, g) # ys)"
    by (simp add: a_def)
  assume p: "prevs m p base (xs @ (n, f) # ys)"
  then have "prevs (set_seg_free g a m) (last_addr p base xs) a [(n, g)]"
    by (simp add: prevs_append a_def seg_simps)
  from prevs_replace [OF p on [unfolded a_def] this [unfolded a_def]] assms(2,3)
  show "prevs (set_seg_free g a m) p base (xs @ (n, g) # ys)"
    by (simp add: a_def)
qed

lemma split_replace:
  assumes h: "hdrs m (base + of_nat (total (xs @ (n, f) # ys))) base (xs @ (n, f) # ys)"
    and ok: "blocks_ok base (xs @ (n, f) # ys)" and k: "32 \<le> k" "k + 34 \<le> n"
  defines "a \<equiv> base + of_nat (total xs)"
  obtains m' where "splitSegment m a (of_nat k) = (True, m')" "outside a n m m'"
    "hdrs m' (base + of_nat (total (xs @ (n, f) # ys))) base (xs @ (k, f) # (n - k, f) # ys)"
    "blocks_ok base (xs @ (k, f) # (n - k, f) # ys)"
    "\<And>p. ys = [] \<Longrightarrow> prevs m p base (xs @ (n, f) # ys) \<Longrightarrow> prevs m' p base (xs @ (k, f) # (n - k, f) # ys)"
proof -
  let ?e = "base + of_nat (total (xs @ (n, f) # ys))"
  have n: "n < 2 ^ 63" and tot: "total (xs @ (n, f) # ys) \<le> 2 ^ 64"
    using ok by (simp_all add: blocks_ok_def)
  have "base + of_nat (total xs + k) \<noteq> ?e"
    by (subst offset_eq_iff [of base "total (xs @ (n, f) # ys)"])
      (use ok k in \<open>auto simp: blocks_ok_def\<close>)
  then have e: "a + of_nat k \<noteq> ?e"
    by (simp add: a_def add.assoc)
  have "hdr m ?e a (n, f)"
    using h by (simp add: hdrs_append a_def)
  from splitSegment_splits [OF this k n e] obtain m' where
    m': "splitSegment m a (of_nat k) = (True, m')" "hdr m' ?e a (k, f)"
      "hdr m' ?e (a + of_nat k) (n - k, f)" and o: "outside a n m m'"
    and pv: "seg_prev m' a = seg_prev m a" "seg_prev m' (a + of_nat k) = a"
    by blast
  have zs: "hdrs m' ?e a [(k, f), (n - k, f)]" "total [(k, f), (n - k, f)] = n"
    using m' k by auto
  have blk: "\<forall>b \<in> set (xs @ ys). 32 \<le> fst b"
    using ok by (simp add: blocks_ok_def)
  have "prevs m' p base (xs @ (k, f) # (n - k, f) # ys)"
    if "ys = []" "prevs m p base (xs @ (n, f) # ys)" for p
    using prevs_replace [of m p base xs n f ys m' "[(k, f), (n - k, f)]"] that o zs(2) pv tot blk
    by (simp add: a_def prevs_append)
  moreover have "blocks_ok base (xs @ (k, f) # (n - k, f) # ys)"
    using ok k by (auto simp: blocks_ok_def)
  moreover have "hdrs m' ?e base (xs @ (k, f) # (n - k, f) # ys)"
    using hdrs_replace [OF h o [unfolded a_def] zs [unfolded a_def] tot blk] by simp
  ultimately show thesis
    using that m'(1) o by blast
qed

section \<open>allocate\<close>

text \<open>
  What \<open>allocate\<close> does to the block list: the first free block that leaves room for two
  headers is taken. The result is the offset of the user pointer and the new list.
\<close>

definition spec_allocate :: "nat \<Rightarrow> blk list \<Rightarrow> (nat \<times> blk list) option" where
  "spec_allocate k bs =
    (case first_fit (k + 64) bs of
       None \<Rightarrow> None
     | Some (xs, n, ys) \<Rightarrow>
         if n < k + 66 then None
         else Some (total xs + 32, xs @ (k + 32, False) # (n - (k + 32), True) # ys))"

lemma kheap_update_same: "kheap_lock h = 0 \<Longrightarrow> h\<lparr>kheap_lock := 0\<rparr> = h"
  by (cases h) simp

lemma heap_allocate_None:
  assumes wf: "heap_wf h bs" and k: "k + 64 < 2 ^ 64" and s: "spec_allocate k bs = None"
  shows "heap_allocate h (of_nat k) = Some (0, h)"
proof -
  have lock: "kheap_lock h = 0" and ok: "blocks_ok (m_firstSegment h) bs"
    and hd: "hdrs (ram h) (m_firstSegment h + of_nat (total bs)) (m_firstSegment h) bs"
    using wf by (simp_all add: heap_wf_def)
  have find: "findFreeSegment (ram h) (m_firstSegment h) (of_nat (k + 64)) =
      Some (fit_addr (m_firstSegment h) (first_fit (k + 64) bs))"
    using ok hd k by (intro findFreeSegment_first_fit) (auto simp: blocks_ok_def)
  show ?thesis
  proof (cases "first_fit (k + 64) bs")
    case None
    with find lock show ?thesis
      by (simp add: heap_allocate_def sizeof_HeapSegmentHeader_def fit_addr_def add.assoc
          kheap_update_same)
  next
    case (Some r)
    then obtain xs n ys where r: "first_fit (k + 64) bs = Some (xs, n, ys)"
      by (cases r) auto
    note bs = first_fit_Some [OF r]
    have n: "n < k + 66" "n < 2 ^ 63"
      using s r ok bs by (auto simp: spec_allocate_def blocks_ok_def split: if_splits)
    have "seg_size (ram h) (m_firstSegment h + of_nat (total xs)) = of_nat n"
      using hd bs by (auto simp: hdrs_append hdr_def)
    moreover have "\<not> split_fits (of_nat n) (of_nat (k + 32))"
      using split_fits_nat [of n "k + 32"] n bs by simp
    ultimately have "splitSegment (ram h) (m_firstSegment h + of_nat (total xs)) (of_nat (k + 32)) =
        (False, ram h)"
      by (intro splitSegment_fails) simp
    with find r lock show ?thesis
      by (cases h) (simp add: heap_allocate_def sizeof_HeapSegmentHeader_def fit_addr_def add.assoc
          Let_def)
  qed
qed

text \<open>The bytes of the chosen free block: the only ones a successful call writes.\<close>

lemma heap_allocate_fit:
  assumes wf: "heap_wf h bs" and k: "k + 64 < 2 ^ 64" and r: "first_fit (k + 64) bs = Some (xs, n, ys)"
    and n: "k + 66 \<le> n"
  defines "bs' \<equiv> xs @ (k + 32, False) # (n - (k + 32), True) # ys"
  obtains h' where
    "heap_allocate h (of_nat k) = Some (m_firstSegment h + of_nat (total xs + 32), h')" "heap_wf h' bs'"
    "m_firstSegment h' = m_firstSegment h"
    "outside (m_firstSegment h + of_nat (total xs)) n (ram h) (ram h')"
    "ys = [] \<longrightarrow> heap_dll h bs \<longrightarrow> heap_dll h' bs'"
proof -
  let ?base = "m_firstSegment h" and ?m = "ram h"
  have lock: "kheap_lock h = 0" and ok: "blocks_ok ?base bs"
    and hd: "hdrs ?m (?base + of_nat (total bs)) ?base bs"
    using wf by (simp_all add: heap_wf_def)
  have find: "findFreeSegment ?m ?base (of_nat (k + 64)) = Some (fit_addr ?base (first_fit (k + 64) bs))"
    using ok hd k by (intro findFreeSegment_first_fit) (auto simp: blocks_ok_def)
  have bs: "bs = xs @ (n, True) # ys" using first_fit_Some [OF r] by simp
  let ?a = "?base + of_nat (total xs)"
  obtain m' where m': "splitSegment ?m ?a (of_nat (k + 32)) = (True, m')" and o: "outside ?a n ?m m'"
    and hd': "hdrs m' (?base + of_nat (total bs)) ?base (xs @ (k + 32, True) # (n - (k + 32), True) # ys)"
    and ok': "blocks_ok ?base (xs @ (k + 32, True) # (n - (k + 32), True) # ys)"
    and pv': "\<And>p. ys = [] \<Longrightarrow> prevs ?m p ?base bs \<Longrightarrow>
      prevs m' p ?base (xs @ (k + 32, True) # (n - (k + 32), True) # ys)"
    using split_replace [of ?m ?base xs n True ys "k + 32"] hd ok n unfolding bs by auto
  have tot: "total (xs @ (k + 32, True) # (n - (k + 32), True) # ys) = total bs"
    using bs n by simp
  have le: "total (xs @ (k + 32, True) # (n - (k + 32), True) # ys) \<le> 2 ^ 64"
    "\<forall>b \<in> set (xs @ (k + 32, True) # (n - (k + 32), True) # ys). 32 \<le> fst b"
    using ok' by (auto simp: blocks_ok_def)
  let ?m2 = "set_seg_free False ?a m'"
  let ?h' = "h\<lparr>kheap_lock := 0, ram := ?m2\<rparr>"
  note fr = set_free_replace [OF hd' le, where g = False]
  have nz: "?a \<noteq> 0"
    using ok bs offset_nonzero [of ?base "total xs"] by (simp add: blocks_ok_def)
  have "heap_allocate h (of_nat k) = Some (?a + 32, ?h')"
    using find r lock m' nz
    by (simp add: heap_allocate_def sizeof_HeapSegmentHeader_def fit_addr_def add.assoc Let_def)
  moreover have wf': "heap_wf ?h' bs'"
    using fr(1) ok' wf tot unfolding bs'_def by (simp add: heap_wf_def blocks_ok_def)
  moreover have "outside ?a n ?m ?m2"
    using o n by (intro outside_set_here) (use ok bs in \<open>auto simp: blocks_ok_def\<close>)
  moreover have "heap_dll ?h' bs'" if "ys = []" "heap_dll h bs"
    using wf' fr(2) pv' that unfolding bs'_def by (simp add: heap_dll_def)
  ultimately show thesis
    using that [of ?h'] by (simp add: add.assoc)
qed

lemma heap_allocate_Some:
  assumes wf: "heap_wf h bs" and k: "k + 64 < 2 ^ 64" and s: "spec_allocate k bs = Some (off, bs')"
  obtains h' xs n ys where
    "heap_allocate h (of_nat k) = Some (m_firstSegment h + of_nat off, h')" "heap_wf h' bs'"
    "m_firstSegment h' = m_firstSegment h"
    "bs = xs @ (n, True) # ys" "off = total xs + 32" "k + 66 \<le> n"
    "bs' = xs @ (k + 32, False) # (n - (k + 32), True) # ys"
    "outside (m_firstSegment h + of_nat (total xs)) n (ram h) (ram h')"
    "ys = [] \<longrightarrow> heap_dll h bs \<longrightarrow> heap_dll h' bs'"
proof -
  obtain xs n ys where r: "first_fit (k + 64) bs = Some (xs, n, ys)" and n: "k + 66 \<le> n"
    and off: "off = total xs + 32" and bs': "bs' = xs @ (k + 32, False) # (n - (k + 32), True) # ys"
    using s by (auto simp: spec_allocate_def split: option.splits if_splits)
  have bs: "bs = xs @ (n, True) # ys" using first_fit_Some [OF r] by simp
  obtain h' where
    "heap_allocate h (of_nat k) = Some (m_firstSegment h + of_nat (total xs + 32), h')"
    "heap_wf h' (xs @ (k + 32, False) # (n - (k + 32), True) # ys)"
    "m_firstSegment h' = m_firstSegment h"
    "outside (m_firstSegment h + of_nat (total xs)) n (ram h) (ram h')"
    "ys = [] \<longrightarrow> heap_dll h bs \<longrightarrow> heap_dll h' (xs @ (k + 32, False) # (n - (k + 32), True) # ys)"
    by (rule heap_allocate_fit [OF wf k r n])
  then show thesis
    using that [of h' xs n ys] bs bs' off n by simp
qed

section \<open>Merging\<close>

text \<open>Both merges absorb the header at \<open>b\<close> into the one at \<open>a\<close>.\<close>

definition absorb :: "mem \<Rightarrow> u64 \<Rightarrow> u64 \<Rightarrow> mem" where
  "absorb m a b =
    (let m = set_seg_next (seg_next (set_seg_size (seg_size m a + seg_size m b) a m) b) a
               (set_seg_size (seg_size m a + seg_size m b) a m)
     in if seg_next m a \<noteq> 0 then set_seg_prev a (seg_next m a) m else m)"

lemma merge_absorb:
  "seg_prev m s \<noteq> 0 \<Longrightarrow> snd (mergeSegmentWithPrevious m s) = absorb m (seg_prev m s) s"
  "seg_next m s \<noteq> 0 \<Longrightarrow> snd (mergeSegmentWithNext m s) = absorb m s (seg_next m s)"
  by (simp_all add: mergeSegmentWithPrevious_def mergeSegmentWithNext_def absorb_def Let_def)

lemma set_prev_head:
  assumes "total ys \<le> 2 ^ 64" "\<forall>b \<in> set ys. 32 \<le> fst b"
  shows "hdrs (set_seg_prev v c m) e c ys = hdrs m e c ys"
    "prevs m p c ys \<Longrightarrow> prevs (set_seg_prev v c m) v c ys"
proof -
  have tl: "agree (c + of_nat (fst b)) (total zs) m (set_seg_prev v c m)" if "ys = b # zs" for b zs
    using assms that by (intro outside_agree_after [OF set_seg_outside(3)]) auto
  show "hdrs (set_seg_prev v c m) e c ys = hdrs m e c ys"
  proof (cases ys)
    case (Cons b zs)
    with assms show ?thesis
      using hdrs_cong [OF tl [OF Cons]] by (simp add: hdr_def seg_simps)
  qed simp
  show "prevs (set_seg_prev v c m) v c ys" if "prevs m p c ys"
  proof (cases ys)
    case (Cons b zs)
    with assms that show ?thesis
      using prevs_cong [OF tl [OF Cons]] by (simp add: seg_simps)
  qed simp
qed

text \<open>Bytes that are no header byte of the list keep their value.\<close>

definition payload_same :: "u64 \<Rightarrow> blk list \<Rightarrow> mem \<Rightarrow> mem \<Rightarrow> bool" where
  "payload_same base bs m m' \<longleftrightarrow>
    (\<forall>x. (\<forall>i < length bs. 32 \<le> unat (x - (base + of_nat (total (take i bs))))) \<longrightarrow> m x = m' x)"

lemma payload_same_refl [simp]: "payload_same base bs m m"
  by (simp add: payload_same_def)

lemma payload_same_trans:
  "payload_same base bs m m' \<Longrightarrow> payload_same base bs m' m'' \<Longrightarrow> payload_same base bs m m''"
  by (simp add: payload_same_def)

lemma outside_payload_same:
  "outside (base + of_nat (total xs)) 32 m m' \<Longrightarrow> ys \<noteq> [] \<Longrightarrow> payload_same base (xs @ ys) m m'"
  by (auto simp: outside_def payload_same_def dest!: spec [of _ "length xs"])

lemma payload_same_merged:
  assumes "payload_same base (xs @ (n1 + n2, f) # ys) m m'"
  shows "payload_same base (xs @ (n1, f1) # (n2, f2) # ys) m m'"
  unfolding payload_same_def
proof (intro allI impI)
  fix x
  assume x: "\<forall>i < length (xs @ (n1, f1) # (n2, f2) # ys).
    32 \<le> unat (x - (base + of_nat (total (take i (xs @ (n1, f1) # (n2, f2) # ys)))))"
  have "32 \<le> unat (x - (base + of_nat (total (take i (xs @ (n1 + n2, f) # ys)))))"
    if i: "i < length (xs @ (n1 + n2, f) # ys)" for i
  proof (cases "i \<le> length xs")
    case True
    with x [rule_format, of i] show ?thesis by simp
  next
    case False
    then obtain j where "i = length xs + Suc j"
      by (metis add_Suc_right less_imp_Suc_add not_le)
    with x [rule_format, of "Suc i"] i show ?thesis
      by (simp add: add.assoc)
  qed
  with assms show "m x = m' x"
    by (simp add: payload_same_def)
qed

lemma absorb_replace:
  assumes h: "hdrs m (base + of_nat (total (xs @ (n1, f1) # (n2, f2) # ys))) base
      (xs @ (n1, f1) # (n2, f2) # ys)"
    and ok: "blocks_ok base (xs @ (n1, f1) # (n2, f2) # ys)"
    and pv: "prevs m p base (xs @ (n1, f1) # (n2, f2) # ys)"
  defines "a \<equiv> base + of_nat (total xs)"
  defines "m' \<equiv> absorb m a (a + of_nat n1)"
  shows "hdrs m' (base + of_nat (total (xs @ (n1, f1) # (n2, f2) # ys))) base (xs @ (n1 + n2, f1) # ys)"
    and "prevs m' p base (xs @ (n1 + n2, f1) # ys)"
    and "payload_same base (xs @ (n1, f1) # (n2, f2) # ys) m m'"
proof -
  let ?T = "total (xs @ (n1, f1) # (n2, f2) # ys)"
  let ?e = "base + of_nat ?T" and ?b = "a + of_nat n1"
  let ?c = "a + of_nat (n1 + n2)"
  have T: "unat base + ?T < 2 ^ 64" "?T < 2 ^ 63" "base \<noteq> 0"
    and blk: "32 \<le> n1" "32 \<le> n2" "\<forall>b \<in> set xs. 32 \<le> fst b" "\<forall>b \<in> set ys. 32 \<le> fst b"
    using ok by (auto simp: blocks_ok_def)
  have ha: "hdr m ?e a (n1, f1)" and hb: "hdr m ?e ?b (n2, f2)"
    using h by (auto simp: hdrs_append a_def)
  have far: "far a ?b" "far ?b a"
    using blk T by (auto intro!: far_offset)
  define m1 where "m1 = set_seg_size (of_nat (n1 + n2)) a m"
  define m2 where "m2 = set_seg_next (seg_next m1 ?b) a m1"
  have nxt: "seg_next m2 a = (if ?c = ?e then 0 else ?c)"
    using hb far by (simp add: m2_def m1_def seg_simps hdr_def add.assoc)
  have m': "m' = (if seg_next m2 a \<noteq> 0 then set_seg_prev a (seg_next m2 a) m2 else m2)"
    using ha hb by (simp add: m'_def absorb_def Let_def m1_def m2_def hdr_def)
  have o32: "outside a 32 m m2"
    unfolding m1_def m2_def by (intro outside_set_here) auto
  have agx: "agree base (total xs) m m2"
    using o32 T blk by (intro outside_agree_before [of base "total xs" 32]) (auto simp: a_def)
  have agy: "agree ?c (total ys) m m2"
    using T blk by (intro outside_agree_after [OF o32]) auto
  let ?zs = "xs @ [(n1 + n2, f1)]"
  have ceq: "?c = base + of_nat (total ?zs)"
    by (simp add: a_def add.assoc)
  have small: "total xs \<le> 2 ^ 64" "total ys \<le> 2 ^ 64" "total ?zs \<le> 2 ^ 64"
    "\<forall>b \<in> set ?zs. 32 \<le> fst b"
    using T blk by auto
  have "hdr m2 ?e a (n1 + n2, f1)"
    using ha nxt by (simp add: hdr_def m2_def m1_def seg_simps)
  then have hz: "hdrs m2 ?e base ?zs"
    using h hdrs_cong [OF agx small(1) blk(3)] by (simp add: hdrs_append a_def)
  have hy: "hdrs m2 ?e ?c ys"
    using h hdrs_cong [OF agy small(2) blk(4)] by (simp add: hdrs_append a_def add.assoc)
  have "seg_prev m2 a = last_addr p base xs"
    using pv by (simp add: m2_def m1_def seg_simps prevs_append a_def)
  then have pz: "prevs m2 p base ?zs"
    using pv prevs_cong [OF agx small(1) blk(3)] by (simp add: prevs_append a_def)
  have py: "prevs m2 ?b ?c ys"
    using pv prevs_cong [OF agy small(2) blk(4)] by (simp add: prevs_append a_def add.assoc)
  have la: "last_addr p base ?zs = a"
    by (simp add: last_addr_def a_def)
  have "hdrs m' ?e base (?zs @ ys) \<and> prevs m' p base (?zs @ ys) \<and>
    payload_same base (xs @ (n1, f1) # (n2, f2) # ys) m m'"
  proof (cases "ys = []")
    case True
    then have "m' = m2"
      using m' nxt ceq by (simp add: add.assoc)
    then show ?thesis
      using True hz pz o32 outside_payload_same [of base xs m m2] by (simp add: a_def)
  next
    case False
    have ty: "32 \<le> total ys"
      using total_pos [OF False blk(4)] .
    have "?c \<noteq> ?e"
      unfolding ceq by (subst offset_eq_iff [of base ?T]) (use T ty in \<open>auto simp del: sum_list_eq_0_iff\<close>)
    moreover have "?c \<noteq> 0"
      unfolding ceq by (rule offset_nonzero) (use T ty in auto)
    ultimately have m'2: "m' = set_seg_prev a ?c m2"
      using m' nxt by simp
    have oc: "outside ?c 32 m2 m'"
      unfolding m'2 by (rule set_seg_outside)
    then have ag: "agree base (total ?zs) m2 m'"
      unfolding ceq by (rule outside_agree_before) (use T ty in auto)
    have "hdrs m' ?e base ?zs" "prevs m' p base ?zs"
      using hz pz hdrs_cong [OF ag small(3,4)] prevs_cong [OF ag small(3,4)] by simp_all
    moreover have "hdrs m' ?e ?c ys" "prevs m' a ?c ys"
      using hy py set_prev_head [OF small(2) blk(4)] m'2 by simp_all
    moreover have "payload_same base (xs @ (n1, f1) # (n2, f2) # ys) m m2"
      using o32 outside_payload_same [of base xs m m2] by (simp add: a_def)
    moreover have "payload_same base (xs @ (n1, f1) # (n2, f2) # ys) m2 m'"
      using oc False ceq outside_payload_same [of base "xs @ [(n1, f1), (n2, f2)]" m2 m' ys]
      by (simp add: add.assoc)
    ultimately show ?thesis
      unfolding hdrs_append [of m' ?e base ?zs ys] prevs_append [of m' p base ?zs ys] la ceq [symmetric]
      by (blast intro: payload_same_trans)
  qed
  then show "hdrs m' ?e base (xs @ (n1 + n2, f1) # ys)" "prevs m' p base (xs @ (n1 + n2, f1) # ys)"
    "payload_same base (xs @ (n1, f1) # (n2, f2) # ys) m m'"
    by simp_all
qed

section \<open>free\<close>

text \<open>What \<open>free\<close> does to the block list: the block becomes free and joins free neighbours.\<close>

fun merge_next :: "nat \<Rightarrow> blk list \<Rightarrow> nat \<times> blk list" where
  "merge_next n ((n2, True) # ys) = (n + n2, ys)"
| "merge_next n ys = (n, ys)"

definition spec_free :: "blk list \<Rightarrow> nat \<Rightarrow> blk list \<Rightarrow> blk list" where
  "spec_free xs n ys =
    (let (n, ys) = merge_next n ys
     in if xs \<noteq> [] \<and> snd (last xs) then butlast xs @ (fst (last xs) + n, True) # ys
        else xs @ (n, True) # ys)"

lemma heap_next_free:
  assumes "hdrs m (base + of_nat (total (xs @ (n, f) # ys))) base (xs @ (n, f) # ys)"
    and "blocks_ok base (xs @ (n, f) # ys)"
  defines "a \<equiv> base + of_nat (total xs)"
  shows "(seg_next m a \<noteq> 0 \<and> seg_free m (seg_next m a)) \<longleftrightarrow> (\<exists>n2 zs. ys = (n2, True) # zs)"
    and "ys \<noteq> [] \<Longrightarrow> seg_next m a = a + of_nat n"
proof -
  let ?T = "total (xs @ (n, f) # ys)"
  have h: "hdr m (base + of_nat ?T) a (n, f)" "hdrs m (base + of_nat ?T) (a + of_nat n) ys"
    using assms by (simp_all add: hdrs_append)
  have T: "unat base + ?T < 2 ^ 64" "base \<noteq> 0"
    using assms by (auto simp: blocks_ok_def)
  have a: "a + of_nat n = base + of_nat (total xs + n)"
    by (simp add: a_def add.assoc)
  show nx: "seg_next m a = a + of_nat n" if "ys \<noteq> []"
  proof -
    have "32 \<le> total ys"
      using total_pos [OF that] assms(2) by (simp add: blocks_ok_def)
    then have "a + of_nat n \<noteq> base + of_nat ?T"
      unfolding a by (subst offset_eq_iff [of base ?T]) (use T in \<open>auto simp del: sum_list_eq_0_iff\<close>)
    then show ?thesis using h by (simp add: hdr_def)
  qed
  show "(seg_next m a \<noteq> 0 \<and> seg_free m (seg_next m a)) \<longleftrightarrow> (\<exists>n2 zs. ys = (n2, True) # zs)"
  proof (cases ys)
    case Nil
    then show ?thesis using h(1) by (simp add: hdr_def a)
  next
    case (Cons b zs)
    have "a + of_nat n \<noteq> 0"
      unfolding a by (rule offset_nonzero) (use T in auto)
    then show ?thesis
      using nx h(2) Cons by (cases b) (auto simp: hdr_def)
  qed
qed

lemma heap_prev_free:
  assumes h: "hdrs m e base (xs @ ys)" and ok: "blocks_ok base (xs @ ys)"
    and pv: "prevs m 0 base (xs @ ys)" and ys: "ys \<noteq> []"
  defines "a \<equiv> base + of_nat (total xs)"
  shows "(seg_prev m a \<noteq> 0 \<and> seg_free m (seg_prev m a)) \<longleftrightarrow> xs \<noteq> [] \<and> snd (last xs)"
    and "xs \<noteq> [] \<Longrightarrow> seg_prev m a = base + of_nat (total (butlast xs)) \<and> seg_prev m a \<noteq> 0"
proof -
  have p: "seg_prev m a = last_addr 0 base xs"
    using pv ys by (cases ys) (auto simp: prevs_append a_def)
  have xs: "total (butlast xs) + fst (last xs) = total xs" if "xs \<noteq> []"
    using arg_cong [OF append_butlast_last_id [OF that], of total] by simp
  have nz: "base + of_nat (total (butlast xs)) \<noteq> 0" if "xs \<noteq> []"
    by (rule offset_nonzero) (use ok xs [OF that] in \<open>auto simp: blocks_ok_def\<close>)
  show "seg_prev m a = base + of_nat (total (butlast xs)) \<and> seg_prev m a \<noteq> 0" if "xs \<noteq> []"
    using that p nz by (simp add: last_addr_def)
  have "hdr m e (base + of_nat (total (butlast xs))) (last xs)" if "xs \<noteq> []"
    using h hdrs_append [of m e base "butlast xs" "[last xs]"] that by (simp add: hdrs_append)
  then show "(seg_prev m a \<noteq> 0 \<and> seg_free m (seg_prev m a)) \<longleftrightarrow> xs \<noteq> [] \<and> snd (last xs)"
    using p nz by (auto simp: last_addr_def hdr_def)
qed

text \<open>A memory that represents a block list with right links both ways.\<close>

definition rep :: "u64 \<Rightarrow> blk list \<Rightarrow> mem \<Rightarrow> bool" where
  "rep base bs m \<longleftrightarrow> blocks_ok base bs \<and> hdrs m (base + of_nat (total bs)) base bs \<and> prevs m 0 base bs"

lemma heap_dll_rep:
  "heap_dll h bs \<longleftrightarrow> rep (m_firstSegment h) bs (ram h) \<and> m_heapSize h = of_nat (total bs) \<and> kheap_lock h = 0"
  by (auto simp: heap_dll_def heap_wf_def rep_def)

lemma rep_absorb:
  assumes "rep base (xs @ (n1, f1) # (n2, f2) # ys) m"
  defines "a \<equiv> base + of_nat (total xs)"
  shows "rep base (xs @ (n1 + n2, f1) # ys) (absorb m a (a + of_nat n1))"
    and "payload_same base (xs @ (n1, f1) # (n2, f2) # ys) m (absorb m a (a + of_nat n1))"
  using assms absorb_replace [of m base xs n1 f1 n2 f2 ys 0]
  by (auto simp: rep_def a_def add.assoc blocks_ok_def)

lemma rep_merge_next:
  assumes r: "rep base (xs @ (n, True) # ys) m" and mn: "merge_next n ys = (n', ys')"
  defines "a \<equiv> base + of_nat (total xs)"
  defines "m' \<equiv> (if seg_next m a \<noteq> 0 \<and> seg_free m (seg_next m a)
      then snd (mergeSegmentWithNext m a) else m)"
  shows "rep base (xs @ (n', True) # ys') m'"
    and "payload_same base (xs @ (n, True) # ys) m m'"
    and "payload_same base (xs @ (n', True) # ys') m1 m2 \<Longrightarrow> payload_same base (xs @ (n, True) # ys) m1 m2"
    and "total (xs @ (n', True) # ys') = total (xs @ (n, True) # ys)"
proof -
  note nx = heap_next_free [of m base xs n True ys, folded a_def]
  have "rep base (xs @ (n', True) # ys') m' \<and> payload_same base (xs @ (n, True) # ys) m m' \<and>
    (payload_same base (xs @ (n', True) # ys') m1 m2 \<longrightarrow> payload_same base (xs @ (n, True) # ys) m1 m2) \<and>
    total (xs @ (n', True) # ys') = total (xs @ (n, True) # ys)"
  proof (cases "\<exists>n2 zs. ys = (n2, True) # zs")
    case True
    then obtain n2 where ys: "ys = (n2, True) # ys'" and n': "n' = n + n2"
      using mn by auto
    have "m' = absorb m a (a + of_nat n)"
      using r nx True ys by (auto simp: m'_def rep_def merge_absorb)
    then show ?thesis
      using rep_absorb [OF r [unfolded ys]] ys n' payload_same_merged [of base xs n n2 True ys' m1 m2]
      by (auto simp: a_def)
  next
    case False
    then have "merge_next n ys = (n, ys)"
      by (cases "(n, ys)" rule: merge_next.cases) auto
    moreover have "m' = m"
      using r nx(1) False by (auto simp: m'_def rep_def)
    ultimately show ?thesis using r mn by simp
  qed
  then show "rep base (xs @ (n', True) # ys') m'" "payload_same base (xs @ (n, True) # ys) m m'"
    "payload_same base (xs @ (n', True) # ys') m1 m2 \<Longrightarrow> payload_same base (xs @ (n, True) # ys) m1 m2"
    "total (xs @ (n', True) # ys') = total (xs @ (n, True) # ys)"
    by blast+
qed

lemma rep_merge_prev:
  assumes r: "rep base (xs @ (n, True) # ys) m"
  defines "a \<equiv> base + of_nat (total xs)"
  defines "m' \<equiv> (if seg_prev m a \<noteq> 0 \<and> seg_free m (seg_prev m a)
      then snd (mergeSegmentWithPrevious m a) else m)"
  defines "bs' \<equiv> (if xs \<noteq> [] \<and> snd (last xs) then butlast xs @ (fst (last xs) + n, True) # ys
        else xs @ (n, True) # ys)"
  shows "rep base bs' m'" and "payload_same base (xs @ (n, True) # ys) m m'"
    and "total bs' = total (xs @ (n, True) # ys)"
proof -
  note pv = heap_prev_free [of m _ base xs "(n, True) # ys", folded a_def]
  have "rep base bs' m' \<and> payload_same base (xs @ (n, True) # ys) m m' \<and>
    total bs' = total (xs @ (n, True) # ys)"
  proof (cases "xs \<noteq> [] \<and> snd (last xs)")
    case True
    then obtain zs n0 where xs: "xs = zs @ [(n0, True)]"
      by (metis append_butlast_last_id surjective_pairing)
    have "seg_prev m a = base + of_nat (total zs)" "seg_prev m a \<noteq> 0" "seg_free m (seg_prev m a)"
      using r pv xs by (auto simp: rep_def)
    then have "m' = absorb m (base + of_nat (total zs)) a"
      by (simp add: m'_def merge_absorb)
    moreover have "a = base + of_nat (total zs) + of_nat n0"
      by (simp add: a_def xs add.assoc)
    ultimately show ?thesis
      using rep_absorb [of base zs n0 True n True ys m] r xs by (simp add: bs'_def)
  next
    case False
    then have "m' = m"
      using r pv(1) by (auto simp: m'_def rep_def)
    then show ?thesis using r False by (auto simp: bs'_def)
  qed
  then show "rep base bs' m'" "payload_same base (xs @ (n, True) # ys) m m'"
    "total bs' = total (xs @ (n, True) # ys)"
    by blast+
qed

lemma heap_free_refines:
  assumes d: "heap_dll h (xs @ (n, f) # ys)"
  obtains h' where "heap_free h (m_firstSegment h + of_nat (total xs) + 32) = Some h'"
    "heap_dll h' (spec_free xs n ys)" "m_firstSegment h' = m_firstSegment h"
    "payload_same (m_firstSegment h) (xs @ (n, f) # ys) (ram h) (ram h')"
proof -
  let ?base = "m_firstSegment h"
  let ?a = "?base + of_nat (total xs)"
  have r: "rep ?base (xs @ (n, f) # ys) (ram h)" and lock: "kheap_lock h = 0"
    and sz: "m_heapSize h = of_nat (total (xs @ (n, f) # ys))"
    using d by (simp_all add: heap_dll_rep)
  have magic: "seg_magic_ok (ram h) ?a"
    using r by (simp add: rep_def hdrs_append hdr_def)
  let ?m = "set_seg_free True ?a (ram h)"
  have r1: "rep ?base (xs @ (n, True) # ys) ?m"
    using r set_free_replace [of "ram h" _ ?base xs n f ys, where g = True]
    by (auto simp: rep_def blocks_ok_def)
  have ps: "payload_same ?base (xs @ (n, True) # ys) m1 m2 \<longleftrightarrow> payload_same ?base (xs @ (n, f) # ys) m1 m2"
    for m1 m2
  proof -
    have "total (take i (xs @ (n, True) # ys)) = total (take i (xs @ (n, f) # ys))" for i
      by (cases "i - length xs") auto
    then show ?thesis by (simp add: payload_same_def)
  qed
  have p1: "payload_same ?base (xs @ (n, f) # ys) (ram h) ?m"
    by (rule outside_payload_same [OF set_seg_outside(4)]) simp
  obtain n' ys' where mn: "merge_next n ys = (n', ys')"
    by fastforce
  define m2 where "m2 = (if seg_next ?m ?a \<noteq> 0 \<and> seg_free ?m (seg_next ?m ?a)
      then snd (mergeSegmentWithNext ?m ?a) else ?m)"
  note r2 = rep_merge_next [OF r1 mn, folded m2_def]
  define m3 where "m3 = (if seg_prev m2 ?a \<noteq> 0 \<and> seg_free m2 (seg_prev m2 ?a)
      then snd (mergeSegmentWithPrevious m2 ?a) else m2)"
  note r3 = rep_merge_prev [OF r2(1), folded m3_def]
  let ?h' = "h\<lparr>kheap_lock := 0, ram := m3\<rparr>"
  have "heap_free h (?a + 32) = Some ?h'"
    using lock magic
    by (simp add: heap_free_def sizeof_HeapSegmentHeader_def Let_def m2_def [symmetric])
      (simp add: m3_def)
  moreover have "heap_dll ?h' (spec_free xs n ys)"
    using r3(1,3) r2(4) sz mn by (simp add: heap_dll_rep spec_free_def)
  moreover have "payload_same ?base (xs @ (n, f) # ys) (ram h) m3"
    using payload_same_trans [OF p1] payload_same_trans [OF r2(2) r2(3) [OF r3(2)]] ps by blast
  ultimately show thesis
    using that [of ?h'] by simp
qed

section \<open>Properties of the heap\<close>

text \<open>
  \<open>init\<close> sets up one free segment that covers the whole region, with both links null.
\<close>

theorem heap_init_correct:
  assumes "base \<noteq> 0" "32 \<le> unat sz" "unat base + unat sz < 2 ^ 64" "unat sz < 2 ^ 63"
    "kheap_lock h = 0"
  shows "heap_dll (snd (heap_init lockPages base sz p h)) [(unat sz, True)]"
  using assms by (simp add: heap_dll_def heap_wf_def heap_init_def Let_def blocks_ok_def hdr_def seg_simps)

theorem heap_init_correct_witness:
  "heap_dll (snd (heap_init (\<lambda>_ _ p. p) 0x200000 0x60000000 ()
     \<lparr>m_heapSize = 0, m_firstSegment = 0, kheap_lock = 0, ram = (\<lambda>_. 0)\<rparr>)) [(0x60000000, True)]"
  using heap_init_correct [of "0x200000" "0x60000000"
      "\<lparr>m_heapSize = 0, m_firstSegment = 0, kheap_lock = 0, ram = (\<lambda>_. 0)\<rparr>" "\<lambda>_ _ p. p" "()"]
  by simp

text \<open>
  C1: \<open>allocate\<close> refines first fit on the block list. On every well-formed heap the call
  returns: null, with nothing changed, when the first free block of sufficient size is
  missing or too tight for a second segment; otherwise the address behind the header of that
  block, with the block split into a used one of the requested size and a free remainder,
  the heap well-formed again and its lock released.
\<close>

theorem heap_allocate_refines:
  assumes "heap_wf h bs" and "k + 64 < 2 ^ 64"
  shows "case spec_allocate k bs of
      None \<Rightarrow> heap_allocate h (of_nat k) = Some (0, h)
    | Some (off, bs') \<Rightarrow> \<exists>h'. heap_allocate h (of_nat k) = Some (m_firstSegment h + of_nat off, h') \<and>
        heap_wf h' bs' \<and> m_firstSegment h' = m_firstSegment h"
proof (cases "spec_allocate k bs")
  case None
  then show ?thesis using heap_allocate_None [OF assms] by simp
next
  case (Some r)
  then obtain off bs' where s: "spec_allocate k bs = Some (off, bs')"
    by (cases r) auto
  obtain h' where "heap_allocate h (of_nat k) = Some (m_firstSegment h + of_nat off, h')"
    "heap_wf h' bs'" "m_firstSegment h' = m_firstSegment h"
    by (rule heap_allocate_Some [OF assms s])
  with s show ?thesis by simp
qed

text \<open>A heap of one free block, for concrete instances.\<close>

definition heap1 :: kheap where
  "heap1 = snd (heap_init (\<lambda>_ _ p. p) 0x200000 0x1000 ()
     \<lparr>m_heapSize = 0, m_firstSegment = 0, kheap_lock = 0, ram = (\<lambda>_. 0)\<rparr>)"

lemma heap1_dll: "heap_dll heap1 [(0x1000, True)]"
  by (simp add: heap1_def heap_dll_def heap_wf_def heap_init_def Let_def blocks_ok_def hdr_def seg_simps)

lemma heap1_base: "m_firstSegment heap1 = 0x200000"
  by (simp add: heap1_def heap_init_def Let_def)

theorem heap_allocate_refines_witness:
  "\<exists>h'. heap_allocate heap1 100 = Some (0x200020, h') \<and> heap_wf h' [(132, False), (3964, True)]"
  using heap_allocate_refines [of heap1 "[(0x1000, True)]" 100] heap1_dll heap1_base
  by (auto simp: heap_dll_def spec_allocate_def)

text \<open>
  C18: allocation safety. A non-null result points behind the header of a block that was
  free, the requested bytes fit into that block, and no byte outside it has changed; so the
  contents of every block in use survive, and the new block overlaps none of them.
\<close>

theorem heap_allocate_safe:
  assumes "heap_wf h bs" and "k + 64 < 2 ^ 64" and "heap_allocate h (of_nat k) = Some (p, h')" and "p \<noteq> 0"
  shows "\<exists>xs n ys. bs = xs @ (n, True) # ys \<and> p = m_firstSegment h + of_nat (total xs + 32) \<and>
    32 + k + 34 \<le> n \<and>
    (\<forall>x. n \<le> unat (x - (m_firstSegment h + of_nat (total xs))) \<longrightarrow> ram h' x = ram h x)"
proof (cases "spec_allocate k bs")
  case None
  then show ?thesis using heap_allocate_None [OF assms(1,2)] assms(3,4) by simp
next
  case (Some r)
  then obtain off bs' where "spec_allocate k bs = Some (off, bs')"
    by (cases r) auto
  then obtain h2 xs n ys where
    "heap_allocate h (of_nat k) = Some (m_firstSegment h + of_nat off, h2)"
    "bs = xs @ (n, True) # ys" "off = total xs + 32" "k + 66 \<le> n"
    "outside (m_firstSegment h + of_nat (total xs)) n (ram h) (ram h2)"
    by (rule heap_allocate_Some [OF assms(1,2)])
  then show ?thesis
    using assms(3) by (intro exI [of _ xs] exI [of _ n] exI [of _ ys]) (simp add: outside_def)
qed

theorem heap_allocate_safe_witness:
  "\<exists>p h'. heap_allocate heap1 100 = Some (p, h') \<and> p \<noteq> 0 \<and>
    (\<exists>xs n ys. [(0x1000, True)] = xs @ (n, True) # ys \<and> p = 0x200000 + of_nat (total xs + 32))"
proof -
  have wf: "heap_wf heap1 [(0x1000, True)]"
    using heap1_dll by (simp add: heap_dll_def)
  have "spec_allocate 100 [(0x1000, True)] = Some (32, [(132, False), (3964, True)])"
    by (simp add: spec_allocate_def)
  from heap_allocate_Some [OF wf _ this] obtain h' where
    h': "heap_allocate heap1 (of_nat 100) = Some (m_firstSegment heap1 + of_nat 32, h')"
    by auto
  then show ?thesis
    using heap_allocate_safe [OF wf _ h'] heap1_base by fastforce
qed

text \<open>
  C2: \<open>free\<close> refines coalescing on the block list. On a heap whose links are right both
  ways, releasing the pointer of any block makes the block free, joins it with a free
  neighbour on either side, keeps every link right, releases the lock, and changes no byte
  that is not a header byte.
\<close>

theorem heap_free_correct:
  assumes "heap_dll h (xs @ (n, f) # ys)"
  shows "\<exists>h'. heap_free h (m_firstSegment h + of_nat (total xs) + 32) = Some h' \<and>
    heap_dll h' (spec_free xs n ys) \<and>
    payload_same (m_firstSegment h) (xs @ (n, f) # ys) (ram h) (ram h')"
  using heap_free_refines [OF assms] by metis

theorem heap_free_correct_witness:
  "\<exists>h'. heap_free heap1 0x200020 = Some h' \<and> heap_dll h' [(0x1000, True)]"
  using heap_free_correct [of heap1 "[]" "0x1000" True "[]"] heap1_dll heap1_base
  by (auto simp: spec_free_def)

text \<open>
  C19: round trip. On a heap that is one free block, \<open>kmalloc\<close> followed by \<open>kfree\<close> of the
  pointer it returned gives a heap that is again that one free block.
\<close>

theorem kmalloc_kfree_roundtrip:
  assumes "heap_dll h [(n, True)]" and "k + 66 \<le> n"
  shows "\<exists>p h' h''. kmalloc h (of_nat k) = Some (p, h') \<and> p \<noteq> 0 \<and> kfree h' p = Some h'' \<and>
    heap_dll h'' [(n, True)]"
proof -
  have wf: "heap_wf h [(n, True)]" and n: "n < 2 ^ 63" and nz: "unat (m_firstSegment h) + n < 2 ^ 64"
    "m_firstSegment h \<noteq> 0"
    using assms by (simp_all add: heap_dll_def heap_wf_def blocks_ok_def)
  have s: "spec_allocate k [(n, True)] = Some (32, [(k + 32, False), (n - (k + 32), True)])"
    using assms(2) by (simp add: spec_allocate_def)
  obtain h' where h': "heap_allocate h (of_nat k) = Some (m_firstSegment h + of_nat 32, h')"
    "m_firstSegment h' = m_firstSegment h" "heap_dll h' [(k + 32, False), (n - (k + 32), True)]"
    using heap_allocate_Some [OF wf _ s] assms n by (auto simp: Cons_eq_append_conv)
  obtain h'' where "heap_free h' (m_firstSegment h' + of_nat (total []) + 32) = Some h''"
    "heap_dll h'' (spec_free [] (k + 32) [(n - (k + 32), True)])"
    using heap_free_refines [of h' "[]" "k + 32" False "[(n - (k + 32), True)]"] h'(3) by auto
  moreover have "m_firstSegment h + of_nat 32 \<noteq> 0"
    using offset_nonzero [of "m_firstSegment h" 32] nz assms(2) by simp
  ultimately show ?thesis
    using h' assms(2) by (auto simp: kmalloc_def kfree_def spec_free_def)
qed

theorem kmalloc_kfree_roundtrip_witness:
  "\<exists>p h' h''. kmalloc heap1 (of_nat 100) = Some (p, h') \<and> p \<noteq> 0 \<and> kfree h' p = Some h'' \<and>
    heap_dll h'' [(0x1000, True)]"
  using kmalloc_kfree_roundtrip [of heap1 "0x1000" 100] heap1_dll by simp

text \<open>
  splitting leaves a stale link. When \<open>allocate\<close> splits a block that has a successor,
  the successor's \<open>prev\<close> still names the block just handed out, not the new remainder in
  front of it: the heap is well-formed in the forward direction only.
\<close>

theorem heap_allocate_stale_prev:
  assumes dll: "heap_dll h (xs @ (n, True) # (n2, f2) # ys)" and n: "k + 66 \<le> n"
    and first: "\<forall>b \<in> set xs. \<not> (snd b \<and> k + 64 \<le> fst b)"
  shows "\<exists>p h'. heap_allocate h (of_nat k) = Some (p, h') \<and>
    heap_wf h' (xs @ (k + 32, False) # (n - (k + 32), True) # (n2, f2) # ys) \<and>
    seg_prev (ram h') (m_firstSegment h + of_nat (total xs + n)) = m_firstSegment h + of_nat (total xs) \<and>
    \<not> heap_dll h' (xs @ (k + 32, False) # (n - (k + 32), True) # (n2, f2) # ys)"
proof -
  let ?base = "m_firstSegment h" and ?ys = "(n2, f2) # ys"
  let ?bs = "xs @ (n, True) # ?ys" and ?bs' = "xs @ (k + 32, False) # (n - (k + 32), True) # ?ys"
  have wf: "heap_wf h ?bs" and ok: "blocks_ok ?base ?bs" and pv: "prevs (ram h) 0 ?base ?bs"
    using dll by (simp_all add: heap_dll_def heap_wf_def)
  have n63: "n < 2 ^ 63" using ok by (simp add: blocks_ok_def)
  have "first_fit (k + 64) (zs @ (n, True) # ?ys) = Some (zs, n, ?ys)"
    if "\<forall>b \<in> set zs. \<not> (snd b \<and> k + 64 \<le> fst b)" for zs
    using that n by (induction zs) (auto simp: split_beta)
  then have r: "first_fit (k + 64) ?bs = Some (xs, n, ?ys)"
    using first by blast
  have k: "k + 64 < 2 ^ 64" using n n63 by simp
  obtain h' where h': "heap_allocate h (of_nat k) = Some (?base + of_nat (total xs + 32), h')"
    "heap_wf h' ?bs'" "m_firstSegment h' = ?base"
    and o: "outside (?base + of_nat (total xs)) n (ram h) (ram h')"
    by (rule heap_allocate_fit [OF wf k r n])
  let ?c = "?base + of_nat (total xs) + of_nat n"
  have "agree ?c 32 (ram h) (ram h')"
    by (rule outside_agree_after [OF o]) (use ok in \<open>auto simp: blocks_ok_def\<close>)
  then have prev: "seg_prev (ram h') ?c = ?base + of_nat (total xs)"
    using pv agree_fields(3) by (simp add: prevs_append)
  have "of_nat (k + 32) \<noteq> (0 :: u64)"
    using unat64_of_nat [of "k + 32"] k by auto
  then have "\<not> heap_dll h' ?bs'"
    using prev h'(3) n by (simp add: heap_dll_def prevs_append of_nat_diff add.assoc)
  with h' prev show ?thesis
    by (simp add: add.assoc)
qed

text \<open>Two allocations and a release leave a free block in front of one in use.\<close>

lemma heap3_exists: "\<exists>h. heap_dll h [(132, True), (132, False), (3832, True)]"
proof -
  have alloc: "\<exists>h'. heap_dll h' (xs @ [(132, False), (n - 132, True)])"
    if "heap_dll h (xs @ [(n, True)])" "166 \<le> n" "\<forall>b \<in> set xs. \<not> snd b" for h xs n
  proof -
    have wf: "heap_wf h (xs @ [(n, True)])" using that(1) by (simp add: heap_dll_def)
    have "first_fit (100 + 64) (xs @ [(n, True)]) = Some (xs, n, [])"
      using that(2,3) by (induction xs) auto
    from heap_allocate_fit [OF wf _ this] that show ?thesis by auto
  qed
  obtain h1 where "heap_dll h1 ([] @ [(132, False), (3964, True)])"
    using alloc [of heap1 "[]" 4096] heap1_dll by auto
  then obtain h2 where "heap_dll h2 ([(132, False)] @ [(132, False), (3832, True)])"
    using alloc [of h1 "[(132, False)]" 3964] by auto
  then obtain h3 where "heap_dll h3 (spec_free [] 132 [(132, False), (3832, True)])"
    using heap_free_refines [of h2 "[]" 132 False "[(132, False), (3832, True)]"] by auto
  then show ?thesis by (auto simp: spec_free_def)
qed

theorem heap_allocate_stale_prev_witness:
  "\<exists>h p h'. heap_dll h [(132, True), (132, False), (3832, True)] \<and>
    heap_allocate h (of_nat 10) = Some (p, h') \<and>
    \<not> heap_dll h' [(42, False), (90, True), (132, False), (3832, True)]"
proof -
  obtain h where h: "heap_dll h ([] @ (132, True) # (132, False) # [(3832, True)])"
    using heap3_exists by auto
  from heap_allocate_stale_prev [OF h, of 10] h show ?thesis by fastforce
qed

text \<open>
  The consequence of the stale link. If the third block's \<open>prev\<close> names the first,
  free, block although a block in use lies between them, then freeing the third block adds
  its size to the first one: no block list describes the heap any more, and the block in use
  is no longer on the chain.
\<close>

theorem heap_free_stale_prev_corrupts:
  assumes wf: "heap_wf h [(n1, True), (n2, False), (n3, False)]"
    and stale: "seg_prev (ram h) (m_firstSegment h + of_nat (n1 + n2)) = m_firstSegment h"
  shows "\<exists>h'. heap_free h (m_firstSegment h + of_nat (n1 + n2) + 32) = Some h' \<and>
    seg_size (ram h') (m_firstSegment h) = of_nat (n1 + n3) \<and>
    seg_next (ram h') (m_firstSegment h) = 0 \<and> (\<nexists>bs. heap_wf h' bs)"
proof -
  let ?base = "m_firstSegment h" and ?bs = "[(n1, True), (n2, False), (n3, False)]"
  let ?c = "?base + of_nat (n1 + n2)"
  have ok: "unat ?base + (n1 + n2 + n3) < 2 ^ 64" "n1 + n2 + n3 < 2 ^ 63" "?base \<noteq> 0"
      "32 \<le> n1" "32 \<le> n2" "32 \<le> n3"
    and lock: "kheap_lock h = 0" and hs: "m_heapSize h = of_nat (n1 + n2 + n3)"
    using wf by (auto simp: heap_wf_def blocks_ok_def add.assoc)
  have hd: "hdr (ram h) (?base + of_nat (n1 + n2 + n3)) ?base (n1, True)"
    "hdr (ram h) (?base + of_nat (n1 + n2 + n3)) ?c (n3, False)"
    using wf by (simp_all add: heap_wf_def add.assoc)
  have far: "far ?base ?c" "far ?c ?base"
    using ok far_offset [of "n1 + n2" ?base] by simp_all
  have next0: "seg_next (ram h) ?c = 0"
    using hd(2) by (simp add: hdr_def add.assoc)
  let ?m = "set_seg_free True ?c (ram h)"
  let ?m' = "absorb ?m ?base ?c"
  have f: "heap_free h (?c + 32) = Some (h\<lparr>kheap_lock := 0, ram := ?m'\<rparr>)"
    using lock hd far next0 stale ok(3)
    by (simp add: heap_free_def sizeof_HeapSegmentHeader_def Let_def seg_simps hdr_def merge_absorb)
  have sz: "seg_size ?m' ?base = of_nat (n1 + n3)" "seg_next ?m' ?base = 0"
    using hd far next0 by (simp_all add: absorb_def Let_def seg_simps hdr_def)
  have False if w: "heap_wf (h\<lparr>kheap_lock := 0, ram := ?m'\<rparr>) bs" for bs
  proof -
    from w obtain b bs2 where bs: "bs = b # bs2" by (cases bs) (auto simp: heap_wf_def blocks_ok_def)
    have tot: "of_nat (total bs) = (of_nat (n1 + n2 + n3) :: u64)" "total bs < 2 ^ 63"
      and T: "unat ?base + total bs < 2 ^ 64"
      using w hs by (auto simp: heap_wf_def blocks_ok_def)
    then have teq: "total bs = n1 + n2 + n3"
      using ok(2) unat64_of_nat [of "total bs"] unat64_of_nat [of "n1 + n2 + n3"] by simp
    have hb: "hdr ?m' (?base + of_nat (fst b + total bs2)) ?base b"
      using w bs by (simp add: heap_wf_def)
    have "of_nat (fst b) = (of_nat (n1 + n3) :: u64)"
      using hb sz by (simp add: hdr_def)
    then have b: "fst b = n1 + n3"
      using ok(2) tot(2) bs unat64_of_nat [of "fst b"] unat64_of_nat [of "n1 + n3"] by simp
    have "seg_next ?m' ?base = (if total bs2 = 0 then 0 else ?base + of_nat (fst b))"
      using T bs by (intro hdr_next [OF hb refl]) simp
    moreover have "?base + of_nat (fst b) \<noteq> 0"
      using ok b by (intro offset_nonzero) auto
    ultimately have "total bs2 = 0"
      using sz(2) by (metis)
    with teq b bs ok show False by simp
  qed
  with f sz show ?thesis by auto
qed

text \<open>Three blocks of 64 bytes with the stale link of C12, as bytes.\<close>

definition write_hdr :: "u64 \<Rightarrow> u64 \<Rightarrow> bool \<Rightarrow> u64 \<Rightarrow> u64 \<Rightarrow> mem \<Rightarrow> mem" where
  "write_hdr a sz f nx pv m =
    set_seg_prev pv a (set_seg_next nx a (set_seg_size sz a (set_seg_free f a
      (WRITE_SEGMENT_MAGIC_FIELD a m))))"

lemma write_hdr_same:
  "seg_size (write_hdr a sz f nx pv m) a = sz" "seg_free (write_hdr a sz f nx pv m) a = f"
  "seg_next (write_hdr a sz f nx pv m) a = nx" "seg_prev (write_hdr a sz f nx pv m) a = pv"
  "seg_magic_ok (write_hdr a sz f nx pv m) a"
  by (simp_all add: write_hdr_def seg_simps)

lemma write_hdr_far:
  assumes "far b a"
  shows "seg_size (write_hdr a sz f nx pv m) b = seg_size m b"
    "seg_free (write_hdr a sz f nx pv m) b = seg_free m b"
    "seg_next (write_hdr a sz f nx pv m) b = seg_next m b"
    "seg_prev (write_hdr a sz f nx pv m) b = seg_prev m b"
    "seg_magic_ok (write_hdr a sz f nx pv m) b = seg_magic_ok m b"
  using assms by (simp_all add: write_hdr_def seg_simps)

definition stale_heap :: kheap where
  "stale_heap = \<lparr>m_heapSize = 192, m_firstSegment = 0x200000, kheap_lock = 0,
     ram = write_hdr 0x200000 64 True 0x200040 0
       (write_hdr 0x200040 64 False 0x200080 0x200000
       (write_hdr 0x200080 64 False 0 0x200000 (\<lambda>_. 0)))\<rparr>"

theorem heap_free_stale_prev_corrupts_witness:
  "\<exists>h'. heap_free stale_heap 0x2000A0 = Some h' \<and> seg_size (ram h') 0x200000 = 128 \<and> (\<nexists>bs. heap_wf h' bs)"
proof -
  have far: "far 0x200040 0x200000" "far 0x200080 0x200000" "far 0x200080 0x200040"
    by (simp_all add: far_def)
  have wf: "heap_wf stale_heap [(64, True), (64, False), (64, False)]"
    by (simp add: stale_heap_def heap_wf_def blocks_ok_def hdr_def write_hdr_same write_hdr_far far)
  have "seg_prev (ram stale_heap) (m_firstSegment stale_heap + of_nat (64 + 64)) = m_firstSegment stale_heap"
    by (simp add: stale_heap_def write_hdr_same write_hdr_far far)
  from heap_free_stale_prev_corrupts [OF wf this] show ?thesis
    by (auto simp: stale_heap_def)
qed

text \<open>
  \<open>allocate\<close> does not guard \<open>size + 2 * sizeof(HeapSegmentHeader)\<close> against wrap-around. A
  request of \<open>2^64 - 64\<close> bytes on a heap whose first block is free returns a non-null
  pointer, and the header of the "new" segment is written in the 32 bytes before the heap.
\<close>

theorem heap_allocate_overflow:
  assumes wf: "heap_wf h ((n, True) # bs)"
  shows "\<exists>h'. heap_allocate h (- 64) = Some (m_firstSegment h + 32, h') \<and>
    seg_magic_ok (ram h') (m_firstSegment h - 32) \<and> seg_size (ram h') (m_firstSegment h) = - 32"
proof -
  let ?a = "m_firstSegment h" and ?m = "ram h"
  have lock: "kheap_lock h = 0" and nz: "?a \<noteq> 0" and n: "32 \<le> n" "n < 2 ^ 63"
    and h: "seg_size ?m ?a = of_nat n" "seg_free ?m ?a"
    using wf by (auto simp: heap_wf_def blocks_ok_def hdr_def)
  have far: "far ?a (?a - 32)" "far (?a - 32) ?a"
    using unat_sub_of_nat [of 32 0] by (simp_all add: far_def)
  have find: "findFreeSegment ?m ?a 0 = Some ?a"
    using nz h by (subst findFreeSegment.simps) simp
  have "sint (of_nat n :: u64) = int n"
    using sint_of_nat_diff [of n 0] n by simp
  then have "\<not> sint (seg_size ?m ?a - (- 32 + sizeof_HeapSegmentHeader)) < MIN_HEAP_SEGMENT_CAPACITY * 2"
    using h n by (simp add: sizeof_HeapSegmentHeader_def MIN_HEAP_SEGMENT_CAPACITY_def)
  note split = splitSegment_def [of ?m ?a "- 32", unfolded Let_def if_not_P [OF this]]
  have f: "fst (splitSegment ?m ?a (- 32))"
    "seg_magic_ok (snd (splitSegment ?m ?a (- 32))) (?a - 32)"
    "seg_size (snd (splitSegment ?m ?a (- 32))) ?a = - 32"
    using far by (simp_all add: split seg_simps)
  then show ?thesis
    using lock find nz far
    by (cases "splitSegment ?m ?a (- 32)")
      (auto simp: heap_allocate_def sizeof_HeapSegmentHeader_def Let_def seg_simps)
qed

theorem heap_allocate_overflow_witness:
  "\<exists>h'. heap_allocate heap1 (- 64) = Some (0x200020, h') \<and> seg_magic_ok (ram h') 0x1FFFE0"
  using heap_allocate_overflow [of heap1 "0x1000" "[]"] heap1_dll
  by (auto simp: heap_dll_def heap1_base)

section \<open>Writing into a block, and reallocate\<close>

text \<open>\<open>inside a n m m'\<close>: the memories differ at most in the payload of the block at \<open>a\<close>.\<close>

definition inside :: "u64 \<Rightarrow> nat \<Rightarrow> mem \<Rightarrow> mem \<Rightarrow> bool" where
  "inside a n m m' \<longleftrightarrow> (\<forall>x. unat (x - a) < 32 \<or> n \<le> unat (x - a) \<longrightarrow> m x = m' x)"

lemma inside_outside: "inside a n m m' \<Longrightarrow> outside a n m m'"
  and inside_agree: "inside a n m m' \<Longrightarrow> agree a 32 m m'"
  by (auto simp: inside_def outside_def agree_def)

lemma payload_write:
  assumes i: "inside (base + of_nat (total xs)) n m m'" and ok: "blocks_ok base (xs @ (n, f) # ys)"
  shows "hdrs m e base (xs @ (n, f) # ys) \<Longrightarrow> hdrs m' e base (xs @ (n, f) # ys)"
    and "prevs m p base (xs @ (n, f) # ys) \<Longrightarrow> prevs m' p base (xs @ (n, f) # ys)"
proof -
  let ?a = "base + of_nat (total xs)"
  note o = inside_outside [OF i] and ag = inside_agree [OF i]
  have le: "total (xs @ (n, f) # ys) \<le> 2 ^ 64" "\<forall>b \<in> set (xs @ ys). 32 \<le> fst b"
    using ok by (auto simp: blocks_ok_def)
  show "hdrs m' e base (xs @ (n, f) # ys)" if h: "hdrs m e base (xs @ (n, f) # ys)"
    using hdrs_replace [OF h o, of "[(n, f)]"] h hdr_cong [OF ag] le by (simp add: hdrs_append)
  show "prevs m' p base (xs @ (n, f) # ys)" if h: "prevs m p base (xs @ (n, f) # ys)"
    using prevs_replace [OF h o, of "[(n, f)]"] h agree_fields(3) [OF ag] le by (simp add: prevs_append)
qed

lemma heap_wf_payload_write:
  assumes "heap_wf h (xs @ (n, f) # ys)" "inside (m_firstSegment h + of_nat (total xs)) n (ram h) m'"
  shows "heap_wf (h\<lparr>ram := m'\<rparr>) (xs @ (n, f) # ys)"
    and "heap_dll h (xs @ (n, f) # ys) \<Longrightarrow> heap_dll (h\<lparr>ram := m'\<rparr>) (xs @ (n, f) # ys)"
  using assms payload_write [OF assms(2)] by (simp_all add: heap_wf_def heap_dll_def)

lemma payload_offset:
  assumes ok: "blocks_ok base (xs @ (n, f) # ys)" and d: "32 \<le> d" "d < n"
    and i: "i < length (xs @ (n, f) # ys)"
  shows "32 \<le> unat (base + of_nat (total xs + d) - (base + of_nat (total (take i (xs @ (n, f) # ys)))))"
proof -
  let ?s = "total (take i (xs @ (n, f) # ys))" and ?t = "total xs + d" and ?T = "total (xs @ (n, f) # ys)"
  have T: "?T < 2 ^ 63" and ge: "\<forall>b \<in> set xs. 32 \<le> fst b"
    using ok by (auto simp: blocks_ok_def)
  have sT: "?s \<le> ?T"
    using arg_cong [OF append_take_drop_id [of i "xs @ (n, f) # ys"], of total]
    by (simp only: map_append sum_list_append)
  have t: "unat (of_nat ?t :: u64) = ?t"
    by (rule unat64_of_nat) (use d T in simp)
  have u: "unat (base + of_nat ?t - (base + of_nat ?s)) =
      (if ?s \<le> ?t then ?t - ?s else 2 ^ 64 + ?t - ?s)"
    using unat_sub_of_nat [of ?s "of_nat ?t"] sT T t by simp
  show ?thesis
  proof (cases "i \<le> length xs")
    case True
    have "total (take i xs) + total (drop i xs) = total xs"
      by (metis append_take_drop_id map_append sum_list_append)
    then have "?s + 32 \<le> ?t" using True d by simp
    then show ?thesis using u by simp
  next
    case False
    then have "total xs + n \<le> ?s"
      by (cases "i - length xs") auto
    then show ?thesis using u d sT T by simp
  qed
qed

text \<open>
  \<open>reallocate\<close> to a smaller size keeps the pointer, but the part it cuts off becomes a
  segment that is marked in use and that no caller holds a pointer to: the bytes are lost to
  the allocator.
\<close>

theorem heap_reallocate_shrink_leaks:
  assumes wf: "heap_wf h (xs @ (n, False) # ys)" and k: "k + 32 + 34 \<le> n"
  defines "ptr \<equiv> m_firstSegment h + of_nat (total xs) + 32"
  shows "\<exists>h'. heap_reallocate h ptr (of_nat k) = Some (ptr, h') \<and>
    heap_wf h' (xs @ (k + 32, False) # (n - (k + 32), False) # ys)"
proof -
  let ?base = "m_firstSegment h" and ?bs = "xs @ (n, False) # ys"
  let ?a = "?base + of_nat (total xs)"
  have ok: "blocks_ok ?base ?bs" and lock: "kheap_lock h = 0"
    and hd: "hdrs (ram h) (?base + of_nat (total ?bs)) ?base ?bs"
    using wf by (simp_all add: heap_wf_def)
  have small: "unat ?base + (total xs + n) < 2 ^ 64" "n < 2 ^ 63" "?base \<noteq> 0"
    using ok by (auto simp: blocks_ok_def)
  obtain m' where m': "splitSegment (ram h) ?a (of_nat (k + 32)) = (True, m')"
    "hdrs m' (?base + of_nat (total ?bs)) ?base (xs @ (k + 32, False) # (n - (k + 32), False) # ys)"
    "blocks_ok ?base (xs @ (k + 32, False) # (n - (k + 32), False) # ys)"
    using split_replace [OF hd ok, of "k + 32"] k by auto
  have a: "seg_magic_ok (ram h) ?a" "seg_size (ram h) ?a = of_nat n"
    using hd by (auto simp: hdrs_append hdr_def)
  have le: "of_nat (k + 32) \<le> (of_nat n :: u64)"
    using k small by (subst of_nat_le64) auto
  have "ptr \<noteq> 0"
    using offset_nonzero [of ?base "total xs + 32"] small k by (simp add: ptr_def add.assoc)
  then have "heap_reallocate h ptr (of_nat k) = Some (ptr, h\<lparr>kheap_lock := 0, ram := m'\<rparr>)"
    using lock a le m'(1)
    by (simp add: heap_reallocate_def ptr_def sizeof_HeapSegmentHeader_def Let_def)
  moreover have "heap_wf (h\<lparr>kheap_lock := 0, ram := m'\<rparr>) (xs @ (k + 32, False) # (n - (k + 32), False) # ys)"
    using wf m'(2,3) k by (simp add: heap_wf_def)
  ultimately show ?thesis by blast
qed

theorem heap_reallocate_shrink_leaks_witness:
  "\<exists>h h'. heap_wf h [(132, False), (3964, True)] \<and>
    heap_reallocate h (m_firstSegment h + 32) (of_nat 10) = Some (m_firstSegment h + 32, h') \<and>
    heap_wf h' [(42, False), (90, False), (3964, True)]"
proof -
  have "heap_wf heap1 [(0x1000, True)]" using heap1_dll by (simp add: heap_dll_def)
  then obtain h where h: "heap_wf h ([] @ (132, False) # [(3964, True)])"
    using heap_allocate_fit [of heap1 "[(0x1000, True)]" 100 "[]" "0x1000" "[]"] by auto
  from heap_reallocate_shrink_leaks [OF h, of 10] h show ?thesis by auto
qed

text \<open>The copy from a block to a later one reads and writes payload bytes only.\<close>

lemma memcpy_between:
  assumes T: "s + n \<le> d" "d + n < 2 ^ 64"
  shows "memcpy m (base + of_nat d) (base + of_nat s) (of_nat n) = copyn m (base + of_nat d) (base + of_nat s) n"
proof -
  have n: "unat (of_nat n :: u64) = n"
    by (rule unat64_of_nat) (use T in simp)
  have "base + of_nat d - (base + of_nat s) = (of_nat (d - s) :: u64)"
    using T by (simp add: of_nat_diff)
  then have "unat (base + of_nat d - (base + of_nat s)) = d - s"
    using T unat64_of_nat [of "d - s"] by simp
  moreover have "n \<le> d - s" using T by linarith
  ultimately have "fwd_safe (base + of_nat d) (base + of_nat s) n"
    by (simp add: fwd_safe_def)
  with n show ?thesis by (simp add: memcpy_copies)
qed

lemma copyn_inside:
  assumes "n \<le> k" "k + 32 \<le> 2 ^ 64"
  shows "inside a (k + 32) m (copyn m (a + 32) s n)"
  unfolding inside_def
proof (intro allI impI)
  fix x assume "unat (x - a) < 32 \<or> k + 32 \<le> unat (x - a)"
  then have "\<not> unat (x - (a + 32)) < n"
    using assms unat_diff_offset [of 32 x a] by auto
  then show "m x = copyn m (a + 32) s n x" by (simp add: copyn_out)
qed

text \<open>
  \<open>reallocate\<close> to a larger size, when first fit picks the last block, returns the block
  carved from there, its first bytes are the bytes of the old block, and the old block has
  been released: the heap is the one \<open>allocate\<close>, copy and \<open>free\<close> specify, with right links.
\<close>

theorem heap_reallocate_grow:
  assumes dll: "heap_dll h (xs @ (n, False) # ys @ [(l, True)])"
    and last: "first_fit (k + 64) (xs @ (n, False) # ys @ [(l, True)]) = Some (xs @ (n, False) # ys, l, [])"
    and k: "n < k + 32" "k + 66 \<le> l"
  defines "old \<equiv> m_firstSegment h + of_nat (total xs + 32)"
    and "new \<equiv> m_firstSegment h + of_nat (total (xs @ (n, False) # ys) + 32)"
  shows "\<exists>h'. heap_reallocate h old (of_nat k) = Some (new, h') \<and>
    heap_dll h' (spec_free xs n (ys @ [(k + 32, False), (l - (k + 32), True)])) \<and>
    (\<forall>i < n - 32. ram h' (new + of_nat i) = ram h (old + of_nat i))"
proof -
  let ?base = "m_firstSegment h" and ?bs = "xs @ (n, False) # ys @ [(l, True)]"
  let ?zs = "xs @ (n, False) # ys"
  let ?bs' = "xs @ (n, False) # ys @ [(k + 32, False), (l - (k + 32), True)]"
  let ?a = "?base + of_nat (total xs)" and ?b = "?base + of_nat (total ?zs)"
  have wf: "heap_wf h ?bs" and lock: "kheap_lock h = 0"
    and ok: "unat ?base + total ?bs < 2 ^ 64" "total ?bs < 2 ^ 63" "?base \<noteq> 0" "32 \<le> n"
    and ha: "seg_magic_ok (ram h) ?a" "seg_size (ram h) ?a = of_nat n"
    using dll by (auto simp: heap_dll_def heap_wf_def blocks_ok_def hdrs_append hdr_def)
  have oldnz: "old \<noteq> 0" and newnz: "new \<noteq> 0"
    unfolding old_def new_def by (rule offset_nonzero; use ok k in simp)+
  have nle: "\<not> of_nat (k + 32) \<le> (of_nat n :: u64)"
    using k ok of_nat_le64 [of "k + 32" n] by simp
  have k64: "k + 64 < 2 ^ 64" using k ok by simp
  obtain h1 where h1: "heap_allocate h (of_nat k) = Some (new, h1)" "m_firstSegment h1 = ?base"
    "heap_dll h1 ?bs'" and o: "outside ?b l (ram h) (ram h1)"
    using heap_allocate_fit [OF wf k64 last k(2)] dll unfolding new_def by auto
  have agh: "agree ?base (total ?zs) (ram h) (ram h1)"
    by (rule outside_agree_before [OF o]) (use ok in auto)
  have "agree ?a n (ram h) (ram h1)"
    by (rule agree_subset [OF agh]) (use ok in auto)
  then have sz1: "seg_size (ram h1) ?a = of_nat n" and dat: "\<And>i. i < n \<Longrightarrow> ram h1 (?a + of_nat i) = ram h (?a + of_nat i)"
    using ha agree_fields(1) [OF agree_prefix [OF _ ok(4)]] agree_at ok by (force, force)
  define m2 where "m2 = copyn (ram h1) new old (n - 32)"
  have cpy: "memcpy (ram h1) new old (of_nat n - 32) = m2"
    using memcpy_between [of "total xs + 32" "n - 32" "total ?zs + 32" "ram h1" ?base] ok
    by (simp add: m2_def new_def old_def of_nat_diff add.assoc)
  have new: "new = ?b + 32" by (simp add: new_def add.assoc)
  have "inside ?b (k + 32) (ram h1) m2"
    unfolding m2_def new by (rule copyn_inside) (use k ok in auto)
  then have d2: "heap_dll (h1\<lparr>ram := m2\<rparr>) (?zs @ (k + 32, False) # [(l - (k + 32), True)])"
    using heap_wf_payload_write(2) [of h1 ?zs "k + 32" False] h1 by (simp add: heap_dll_def)
  obtain h3 where h3: "heap_free (h1\<lparr>ram := m2\<rparr>) (?base + of_nat (total xs) + 32) = Some h3"
    "heap_dll h3 (spec_free xs n (ys @ [(k + 32, False), (l - (k + 32), True)]))"
    "payload_same ?base ?bs' m2 (ram h3)"
    using heap_free_refines [of "h1\<lparr>ram := m2\<rparr>" xs n False "ys @ [(k + 32, False), (l - (k + 32), True)]"]
      d2 h1(2) by auto
  have "heap_reallocate h old (of_nat k) = Some (new, h3)"
    using oldnz newnz lock ha nle h1(1) sz1 cpy h3(1)
    by (simp add: heap_reallocate_def old_def sizeof_HeapSegmentHeader_def Let_def add.assoc
        kheap_update_same)
  moreover have "ram h3 (new + of_nat i) = ram h (old + of_nat i)" if i: "i < n - 32" for i
  proof -
    have okb: "blocks_ok ?base (?zs @ (k + 32, False) # [(l - (k + 32), True)])"
      using d2 h1(2) by (simp add: heap_dll_def heap_wf_def)
    have "ram h3 (?base + of_nat (total ?zs + (32 + i))) = m2 (?base + of_nat (total ?zs + (32 + i)))"
      using h3(3) payload_offset [OF okb, of "32 + i"] i k by (simp add: payload_same_def)
    moreover have "m2 (new + of_nat i) = ram h1 (old + of_nat i)"
      using i ok by (simp add: m2_def copyn_def unat64_of_nat)
    moreover have "ram h1 (old + of_nat i) = ram h (old + of_nat i)"
      using dat [of "32 + i"] i by (simp add: old_def add.assoc)
    ultimately show ?thesis
      by (simp add: new_def add.assoc)
  qed
  ultimately show ?thesis using h3(2) by blast
qed

theorem heap_reallocate_grow_witness:
  "\<exists>h h'. heap_dll h [(132, False), (3964, True)] \<and>
    heap_reallocate h (m_firstSegment h + 32) (of_nat 200) = Some (m_firstSegment h + 164, h') \<and>
    heap_dll h' [(132, True), (232, False), (3732, True)] \<and>
    (\<forall>i < 100. ram h' (m_firstSegment h + 164 + of_nat i) = ram h (m_firstSegment h + 32 + of_nat i))"
proof -
  have wf: "heap_wf heap1 [(0x1000, True)]" using heap1_dll by (simp add: heap_dll_def)
  obtain h where h: "heap_dll h ([] @ (132, False) # [] @ [(3964, True)])"
    using heap_allocate_fit [OF wf, of 100 "[]" "0x1000" "[]"] heap1_dll by auto
  from heap_reallocate_grow [OF h, of 200] h show ?thesis
    by (auto simp: spec_free_def)
qed

section \<open>Aligned allocation\<close>

lemma align_up_bounds:
  fixes x :: nat
  shows "x < x + 2 ^ j - (x + 2 ^ j) mod 2 ^ j" "x + 2 ^ j - (x + 2 ^ j) mod 2 ^ j \<le> x + 2 ^ j"
    "(2 ^ j :: nat) dvd x + 2 ^ j - (x + 2 ^ j) mod 2 ^ j"
proof -
  have "(x + 2 ^ j) mod 2 ^ j < (2 ^ j :: nat)" by simp
  then show "x < x + 2 ^ j - (x + 2 ^ j) mod 2 ^ j" by linarith
  show "(2 ^ j :: nat) dvd x + 2 ^ j - (x + 2 ^ j) mod 2 ^ j"
    by (simp only: minus_mod_eq_mult_div dvd_triv_left)
qed simp

lemma store64_inside:
  assumes "32 \<le> i" "i + 8 \<le> n" "n \<le> 2 ^ 64"
  shows "inside a n m (store64 v (a + of_nat i) m)"
proof -
  have "8 \<le> unat (x - (a + of_nat i))" if "unat (x - a) < 32 \<or> n \<le> unat (x - a)" for x
    using that assms unat_diff_offset [of i x a] by auto
  then show ?thesis
    by (fastforce simp: inside_def store64_apply)
qed

lemma kmallocAligned_block:
  assumes wf: "heap_wf h bs" and k: "k + 2 ^ j + 72 < (2 ^ 64 :: nat)"
    and s: "spec_allocate (k + 2 ^ j + 8) bs = Some (off, bs')"
  obtains p h' xs ys where "kmallocAligned h (of_nat k) (2 ^ j) = Some (p, h')"
    "2 ^ j dvd unat p" "bs' = xs @ (k + 2 ^ j + 40, False) # ys" "off = total xs + 32"
    "unat (m_firstSegment h + of_nat off) + 8 < unat p"
    "unat p + k \<le> unat (m_firstSegment h + of_nat off) + (k + 2 ^ j + 8)"
    "heap_wf h' bs'" "m_firstSegment h' = m_firstSegment h"
    "kfreeAligned h' p = kfree h' (m_firstSegment h + of_nat off)"
proof -
  let ?base = "m_firstSegment h" and ?K = "k + 2 ^ j + 8"
  have k64: "?K + 64 < 2 ^ 64" using k by simp
  obtain h1 xs n ys where h1: "heap_allocate h (of_nat ?K) = Some (?base + of_nat off, h1)" "heap_wf h1 bs'"
      "m_firstSegment h1 = ?base"
    and bs: "bs = xs @ (n, True) # ys" and off: "off = total xs + 32" and n: "?K + 66 \<le> n"
    and bs': "bs' = xs @ (?K + 32, False) # (n - (?K + 32), True) # ys"
    by (rule heap_allocate_Some [OF wf k64 s])
  let ?a = "?base + of_nat (total xs)" and ?o = "?base + of_nat off"
  have ok: "unat ?base + (total xs + n) < 2 ^ 64" "?base \<noteq> 0"
    using wf bs by (auto simp: heap_wf_def blocks_ok_def)
  have o: "unat ?o = unat ?base + off"
    using ok off n by (intro unat_offset) simp
  then have onz: "?o \<noteq> 0" using off by auto
  have "j < 64"
    using k by (metis add_lessD1 add.commute nat_power_less_imp_less zero_less_numeral)
  then have al: "(2 ^ j :: u64) - 1 = mask j" "unat (2 ^ j :: u64) = 2 ^ j"
    using unat64_of_nat [of "2 ^ j"] k by (simp_all add: mask_eq_exp_minus_1)
  let ?x = "?o + (2 ^ j + 8)"
  have x: "unat ?x = unat ?o + 8 + 2 ^ j"
  proof -
    have "unat (2 ^ j + 8 :: u64) = 2 ^ j + 8"
      using unat_add_no_wrap [of "2 ^ j :: u64" 8] al k by simp
    then show ?thesis
      using unat_add_no_wrap [of ?o "2 ^ j + 8"] o off ok n by simp
  qed
  define p where "p = ?x AND NOT (mask j)"
  have p: "unat p = unat ?o + 8 + 2 ^ j - (unat ?o + 8 + 2 ^ j) mod 2 ^ j"
    by (simp add: p_def unat_and_not_mask x)
  note b = align_up_bounds [where x = "unat ?o + 8" and j = j, folded p]
  let ?m = "store64 ?o (p - 8) (ram h1)"
  have call: "kmallocAligned h (of_nat k) (2 ^ j) = Some (p, h1\<lparr>ram := ?m\<rparr>)"
    using h1(1) onz al by (simp add: kmallocAligned_def kmalloc_def p_def Let_def add.assoc)
  define q where "q = unat p - 8 - unat ?a"
  have a: "unat ?a + 32 = unat ?o"
    using o off ok unat_offset [of ?base "total xs"] by simp
  have "of_nat (unat ?a + q + 8) = p"
    using b(1) a by (simp add: q_def del: of_nat_add)
  then have pq: "p - 8 = ?a + of_nat q"
    by (simp add: algebra_simps)
  have "inside ?a (?K + 32) (ram h1) ?m"
    unfolding pq by (rule store64_inside) (use b a k in \<open>auto simp: q_def\<close>)
  then have "heap_wf (h1\<lparr>ram := ?m\<rparr>) bs'"
    using heap_wf_payload_write(1) h1(2,3) unfolding bs' by simp
  moreover have "bs' = xs @ (k + 2 ^ j + 40, False) # (n - (?K + 32), True) # ys"
    by (simp add: bs')
  moreover have "kfreeAligned (h1\<lparr>ram := ?m\<rparr>) p = kfree (h1\<lparr>ram := ?m\<rparr>) ?o"
    using b(1) by (auto simp: kfreeAligned_def load64_store64_same)
  ultimately show thesis
    using that [OF call] b off h1(3) by auto
qed

text \<open>
  \<open>kmallocAligned\<close> with a power-of-two alignment. The call returns on every well-formed
  heap; a non-null result is a multiple of the alignment, the requested bytes and the saved
  pointer in front of them lie inside the block \<open>kmalloc\<close> returned, the heap stays
  well-formed, and \<open>kfreeAligned\<close> releases exactly that block.
\<close>

theorem kmallocAligned_correct:
  assumes wf: "heap_wf h bs" and k: "k + 2 ^ j + 72 < (2 ^ 64 :: nat)"
    and s: "spec_allocate (k + 2 ^ j + 8) bs = Some (off, bs')"
  shows "\<exists>p h' orig. kmallocAligned h (of_nat k) (2 ^ j) = Some (p, h') \<and>
    orig = m_firstSegment h + of_nat off \<and> 2 ^ j dvd unat p \<and>
    unat orig + 8 < unat p \<and> unat p + k \<le> unat orig + (k + 2 ^ j + 8) \<and>
    heap_wf h' bs' \<and> kfreeAligned h' p = kfree h' orig"
  using kmallocAligned_block [OF assms] by metis

theorem kmallocAligned_correct_witness:
  "\<exists>p h'. kmallocAligned heap1 (of_nat 100) (2 ^ 6) = Some (p, h') \<and> 64 dvd unat p \<and>
    heap_wf h' [(204, False), (3892, True)]"
proof -
  have wf: "heap_wf heap1 [(0x1000, True)]" using heap1_dll by (simp add: heap_dll_def)
  have s: "spec_allocate (100 + 2 ^ 6 + 8) [(0x1000, True)] = Some (32, [(204, False), (3892, True)])"
    by (simp add: spec_allocate_def)
  show ?thesis
    using kmallocAligned_correct [OF wf _ s] by fastforce
qed

end
