(* ===== verification/PageFrame.thy ===== *)
theory PageFrame
  imports KHeap
begin

text \<open>
  The physical page allocator of \<^verbatim>\<open>kernel/src/paging/page_frame_allocator.cpp\<close> with the linear
  address translation of \<^verbatim>\<open>phys_addr_translation.cpp\<close>: the bitmap as bytes of memory, page
  locking and release with the memory counters, and the two request operations. Both
  spinlocks are part of the state. The abstract view is the set of used page indices; the
  theorems say which index each operation claims, that it was free, and what it returns.
\<close>

section \<open>Linear translation\<close>

text \<open>\<open>off\<close> is \<open>KERNEL_VIRTUAL_BASE - __kern_phys_base\<close>.\<close>

definition physToVirtAddr :: "u64 \<Rightarrow> u64 \<Rightarrow> u64" where
  "physToVirtAddr off paddr = paddr + off"

definition virtToPhysAddr :: "u64 \<Rightarrow> u64 \<Rightarrow> u64" where
  "virtToPhysAddr off vaddr = vaddr - off"

lemma va_pa [simp]: "physToVirtAddr off (virtToPhysAddr off a) = a"
  and pa_va [simp]: "virtToPhysAddr off (physToVirtAddr off a) = a"
  by (simp_all add: physToVirtAddr_def virtToPhysAddr_def)

section \<open>The bitmap\<close>

record pfa =
  m_totalSystemMemory :: u64
  m_freeSystemMemory :: u64
  m_usedSystemMemory :: u64
  m_lastTrackedFreePage :: u64
  bm_size :: u64
  bm_buffer :: u64
  kpage_allocator_lock :: u32
  kpage_request_lock :: u32
  va_off :: u64
  vram :: mem

definition bitmap_initialize :: "u64 \<Rightarrow> u64 \<Rightarrow> pfa \<Rightarrow> pfa" where
  "bitmap_initialize sz buffer s =
    s\<lparr>bm_size := sz, bm_buffer := buffer, vram := memset (vram s) buffer 0xff sz\<rparr>"

definition addrToIndex :: "u64 \<Rightarrow> u64" where
  "addrToIndex addr = addr div PAGE_SIZE"

definition getPageValue :: "pfa \<Rightarrow> u64 \<Rightarrow> bool" where
  "getPageValue s addr =
    (let index = addrToIndex addr;
         byteIdx = index div 8;
         bitIdx = index mod 8;
         mask = push_bit (unat bitIdx) (1 :: u8)
     in 0 < vram s (bm_buffer s + byteIdx) AND mask)"

definition setPageValue :: "pfa \<Rightarrow> u64 \<Rightarrow> bool \<Rightarrow> bool \<times> pfa" where
  "setPageValue s addr v =
    (let index = addrToIndex addr
     in if bm_size s * 8 < index then (False, s)
        else
          (let byteIdx = index div 8;
               bitIdx = index mod 8;
               mask = push_bit (unat bitIdx) (1 :: u8);
               a = bm_buffer s + byteIdx;
               m = (vram s)(a := vram s a AND NOT mask);
               m = (if v then m(a := m a OR mask) else m)
           in (True, s\<lparr>vram := m\<rparr>)))"

definition markPageFree :: "pfa \<Rightarrow> u64 \<Rightarrow> bool \<times> pfa" where
  "markPageFree s addr = setPageValue s addr False"

definition markPageUsed :: "pfa \<Rightarrow> u64 \<Rightarrow> bool \<times> pfa" where
  "markPageUsed s addr = setPageValue s addr True"

definition isPageFree :: "pfa \<Rightarrow> u64 \<Rightarrow> bool" where
  "isPageFree s addr = (getPageValue s addr = False)"

definition isPageUsed :: "pfa \<Rightarrow> u64 \<Rightarrow> bool" where
  "isPageUsed s addr = (getPageValue s addr = True)"

section \<open>Releasing and locking pages\<close>

text \<open>Each operation is \<open>None\<close> when it would spin for ever on a lock.\<close>

definition freePhysicalPage :: "u64 \<Rightarrow> pfa \<Rightarrow> pfa option" where
  "freePhysicalPage paddr s = do {
     l \<leftarrow> acquireSpinlock (kpage_allocator_lock s);
     let s = s\<lparr>kpage_allocator_lock := l\<rparr>;
     if isPageFree s paddr
     then Some (s\<lparr>kpage_allocator_lock := releaseSpinlock (kpage_allocator_lock s)\<rparr>)
     else do {
       let (ok, s) = markPageFree s paddr;
       let s = (if ok then s\<lparr>m_freeSystemMemory := m_freeSystemMemory s + PAGE_SIZE,
                             m_usedSystemMemory := m_usedSystemMemory s - PAGE_SIZE\<rparr> else s);
       Some (s\<lparr>kpage_allocator_lock := releaseSpinlock (kpage_allocator_lock s)\<rparr>)
     }
   }"

definition lockPhysicalPage :: "u64 \<Rightarrow> pfa \<Rightarrow> pfa option" where
  "lockPhysicalPage paddr s = do {
     l \<leftarrow> acquireSpinlock (kpage_allocator_lock s);
     let s = s\<lparr>kpage_allocator_lock := l\<rparr>;
     if isPageUsed s paddr
     then Some (s\<lparr>kpage_allocator_lock := releaseSpinlock (kpage_allocator_lock s)\<rparr>)
     else do {
       let (ok, s) = markPageUsed s paddr;
       let s = (if ok then s\<lparr>m_freeSystemMemory := m_freeSystemMemory s - PAGE_SIZE,
                             m_usedSystemMemory := m_usedSystemMemory s + PAGE_SIZE\<rparr> else s);
       Some (s\<lparr>kpage_allocator_lock := releaseSpinlock (kpage_allocator_lock s)\<rparr>)
     }
   }"

text \<open>The loops over \<open>pages\<close> consecutive pages; \<open>k\<close> is the number of rounds left.\<close>

primrec pages_loop :: "(u64 \<Rightarrow> pfa \<Rightarrow> pfa option) \<Rightarrow> nat \<Rightarrow> u64 \<Rightarrow> pfa \<Rightarrow> pfa option" where
  "pages_loop f 0 page s = Some s"
| "pages_loop f (Suc k) page s = do { s \<leftarrow> f page s; pages_loop f k (page + PAGE_SIZE) s }"

definition freePhysicalPages :: "u64 \<Rightarrow> u64 \<Rightarrow> pfa \<Rightarrow> pfa option" where
  "freePhysicalPages paddr pages s = pages_loop freePhysicalPage (unat pages) paddr s"

definition lockPhysicalPages :: "u64 \<Rightarrow> u64 \<Rightarrow> pfa \<Rightarrow> pfa option" where
  "lockPhysicalPages paddr pages s = pages_loop lockPhysicalPage (unat pages) paddr s"

definition freePage :: "u64 \<Rightarrow> pfa \<Rightarrow> pfa option" where
  "freePage vaddr s = do {
     l \<leftarrow> acquireSpinlock (kpage_allocator_lock s);
     let s = s\<lparr>kpage_allocator_lock := l\<rparr>;
     let paddr = virtToPhysAddr (va_off s) vaddr;
     if isPageFree s paddr
     then Some (s\<lparr>kpage_allocator_lock := releaseSpinlock (kpage_allocator_lock s)\<rparr>)
     else do {
       let (ok, s) = markPageFree s paddr;
       let s = (if ok then s\<lparr>m_freeSystemMemory := m_freeSystemMemory s + PAGE_SIZE,
                             m_usedSystemMemory := m_usedSystemMemory s - PAGE_SIZE\<rparr> else s);
       Some (s\<lparr>kpage_allocator_lock := releaseSpinlock (kpage_allocator_lock s)\<rparr>)
     }
   }"

definition freePages :: "u64 \<Rightarrow> u64 \<Rightarrow> pfa \<Rightarrow> pfa option" where
  "freePages vaddr pages s = pages_loop freePage (unat pages) vaddr s"

definition lockPage :: "u64 \<Rightarrow> pfa \<Rightarrow> pfa option" where
  "lockPage vaddr s = do {
     l \<leftarrow> acquireSpinlock (kpage_allocator_lock s);
     let s = s\<lparr>kpage_allocator_lock := l\<rparr>;
     let paddr = virtToPhysAddr (va_off s) vaddr;
     if isPageUsed s paddr
     then Some (s\<lparr>kpage_allocator_lock := releaseSpinlock (kpage_allocator_lock s)\<rparr>)
     else do {
       let (ok, s) = markPageUsed s paddr;
       let s = (if ok then s\<lparr>m_freeSystemMemory := m_freeSystemMemory s - PAGE_SIZE,
                             m_usedSystemMemory := m_usedSystemMemory s + PAGE_SIZE\<rparr> else s);
       Some (s\<lparr>kpage_allocator_lock := releaseSpinlock (kpage_allocator_lock s)\<rparr>)
     }
   }"

definition lockPages :: "u64 \<Rightarrow> u64 \<Rightarrow> pfa \<Rightarrow> pfa option" where
  "lockPages vaddr pages s = pages_loop lockPage (unat pages) vaddr s"

section \<open>Requesting pages\<close>

definition release_request :: "pfa \<Rightarrow> pfa" where
  "release_request s = s\<lparr>kpage_request_lock := releaseSpinlock (kpage_request_lock s)\<rparr>"

partial_function (option) requestFreePage_loop :: "pfa \<Rightarrow> u64 \<Rightarrow> (u64 \<times> pfa) option" where
  "requestFreePage_loop s page =
    (if page < m_totalSystemMemory s
     then if isPageUsed s page then requestFreePage_loop s (page + PAGE_SIZE)
          else do {
            s \<leftarrow> lockPhysicalPage page s;
            Some (physToVirtAddr (va_off s) page,
                  release_request (s\<lparr>m_lastTrackedFreePage := page + PAGE_SIZE\<rparr>))
          }
     else Some (0, release_request s))"

definition requestFreePage :: "pfa \<Rightarrow> (u64 \<times> pfa) option" where
  "requestFreePage s = do {
     l \<leftarrow> acquireSpinlock (kpage_request_lock s);
     requestFreePage_loop (s\<lparr>kpage_request_lock := l\<rparr>) (m_lastTrackedFreePage s)
   }"

definition requestFreePageZeroed :: "pfa \<Rightarrow> (u64 \<times> pfa) option" where
  "requestFreePageZeroed s = do {
     (page, s) \<leftarrow> requestFreePage s;
     Some (page, s\<lparr>vram := zeromem (vram s) page PAGE_SIZE\<rparr>)
   }"

text \<open>The inner loops of \<open>requestFreePages\<close>: test a block, lock a block, track a free page.\<close>

partial_function (option) block_is_free :: "pfa \<Rightarrow> u64 \<Rightarrow> u64 \<Rightarrow> bool option" where
  "block_is_free s p e =
    (if p < e then if isPageUsed s p then Some False else block_is_free s (p + PAGE_SIZE) e
     else Some True)"

partial_function (option) lock_block :: "u64 \<Rightarrow> u64 \<Rightarrow> pfa \<Rightarrow> pfa option" where
  "lock_block p e s =
    (if p < e then Option.bind (lockPhysicalPage p s) (lock_block (p + PAGE_SIZE) e) else Some s)"

partial_function (option) track_free_page :: "pfa \<Rightarrow> u64 \<Rightarrow> pfa option" where
  "track_free_page s pg =
    (if pg < m_totalSystemMemory s
     then if isPageFree s pg then Some (s\<lparr>m_lastTrackedFreePage := pg\<rparr>)
          else track_free_page s (pg + PAGE_SIZE)
     else Some s)"

partial_function (option) requestFreePages_loop :: "pfa \<Rightarrow> u64 \<Rightarrow> u64 \<Rightarrow> (u64 \<times> pfa) option" where
  "requestFreePages_loop s page pages =
    (if page < m_totalSystemMemory s
     then Option.bind (block_is_free s page (page + PAGE_SIZE * pages)) (\<lambda>found.
            if \<not> found then requestFreePages_loop s (page + PAGE_SIZE) pages
            else do {
              s \<leftarrow> lock_block page (page + PAGE_SIZE * pages) s;
              s \<leftarrow> track_free_page s (m_lastTrackedFreePage s);
              Some (physToVirtAddr (va_off s) page, release_request s)
            })
     else Some (0, release_request s))"

definition requestFreePages :: "pfa \<Rightarrow> u64 \<Rightarrow> (u64 \<times> pfa) option" where
  "requestFreePages s pages = do {
     l \<leftarrow> acquireSpinlock (kpage_request_lock s);
     requestFreePages_loop (s\<lparr>kpage_request_lock := l\<rparr>) (m_lastTrackedFreePage s) pages
   }"

definition requestFreePagesZeroed :: "pfa \<Rightarrow> u64 \<Rightarrow> (u64 \<times> pfa) option" where
  "requestFreePagesZeroed s pages = do {
     (page, s) \<leftarrow> requestFreePages s pages;
     if page = 0 then Some (0, s)
     else Some (page, s\<lparr>vram := zeromem (vram s) page (PAGE_SIZE * pages)\<rparr>)
   }"

text \<open>The wrappers of \<^verbatim>\<open>kmemory.cpp\<close>.\<close>

definition allocPage :: "pfa \<Rightarrow> (u64 \<times> pfa) option" where
  "allocPage s = requestFreePage s"

definition zallocPage :: "pfa \<Rightarrow> (u64 \<times> pfa) option" where
  "zallocPage s = requestFreePageZeroed s"

definition allocPages :: "pfa \<Rightarrow> u64 \<Rightarrow> (u64 \<times> pfa) option" where
  "allocPages s pages = requestFreePages s pages"

definition zallocPages :: "pfa \<Rightarrow> u64 \<Rightarrow> (u64 \<times> pfa) option" where
  "zallocPages s pages = requestFreePagesZeroed s pages"

section \<open>The bitmap as a predicate on page indices\<close>

definition page_used :: "pfa \<Rightarrow> u64 \<Rightarrow> bool" where
  "page_used s i = bit (vram s (bm_buffer s + i div 8)) (unat (i mod 8))"

lemma getPageValue_used [simp]: "getPageValue s a = page_used s (addrToIndex a)"
  by (simp add: getPageValue_def page_used_def Let_def word_gt_0 push_bit_eq_mult
      and_exp_eq_0_iff_not_bit)

lemma isPage_used [simp]:
  "isPageUsed s a = page_used s (addrToIndex a)" "isPageFree s a = (\<not> page_used s (addrToIndex a))"
  by (simp_all add: isPageUsed_def isPageFree_def)

text \<open>The state after the bit of one page is written.\<close>

definition with_bit :: "pfa \<Rightarrow> u64 \<Rightarrow> bool \<Rightarrow> pfa" where
  "with_bit s i v =
    (let a = bm_buffer s + i div 8
     in s\<lparr>vram := (vram s)(a := (if v then set_bit (unat (i mod 8)) (vram s a)
                             else unset_bit (unat (i mod 8)) (vram s a)))\<rparr>)"

lemma mod8_less: "unat (i mod 8 :: u64) < 8"
  using word_mod_less_divisor [of 8 i] by (simp add: word_less_nat_alt)

lemma setPageValue_with_bit:
  "setPageValue s a v =
    (if bm_size s * 8 < addrToIndex a then (False, s) else (True, with_bit s (addrToIndex a) v))"
proof -
  have "(x AND NOT (push_bit k 1)) OR push_bit k 1 = set_bit k x"
    "x AND NOT (push_bit k 1) = unset_bit k x" for x :: u8 and k
    by (rule bit_word_eqI; auto simp: bit_simps)+
  then show ?thesis
    by (simp add: setPageValue_def with_bit_def Let_def)
qed

lemma page_used_with_bit [simp]:
  "page_used (with_bit s i v) j = (if j = i then v else page_used s j)"
proof -
  have "j div 8 = i div 8 \<and> unat (j mod 8) = unat (i mod 8) \<longleftrightarrow> j = i"
    by (metis div_mult_mod_eq unsigned_word_eqI)
  then show ?thesis
    using mod8_less [of i] mod8_less [of j]
    by (auto simp: page_used_def with_bit_def Let_def bit_simps)
qed

lemma with_bit_fields [simp]:
  "m_totalSystemMemory (with_bit s i v) = m_totalSystemMemory s"
  "m_freeSystemMemory (with_bit s i v) = m_freeSystemMemory s"
  "m_usedSystemMemory (with_bit s i v) = m_usedSystemMemory s"
  "m_lastTrackedFreePage (with_bit s i v) = m_lastTrackedFreePage s"
  "bm_size (with_bit s i v) = bm_size s" "bm_buffer (with_bit s i v) = bm_buffer s"
  "kpage_allocator_lock (with_bit s i v) = kpage_allocator_lock s"
  "kpage_request_lock (with_bit s i v) = kpage_request_lock s"
  "va_off (with_bit s i v) = va_off s"
  by (simp_all add: with_bit_def Let_def)

lemma page_used_update [simp]:
  "page_used (s\<lparr>m_freeSystemMemory := f\<rparr>) i = page_used s i"
  "page_used (s\<lparr>m_usedSystemMemory := u\<rparr>) i = page_used s i"
  "page_used (s\<lparr>m_lastTrackedFreePage := p\<rparr>) i = page_used s i"
  "page_used (s\<lparr>kpage_allocator_lock := l\<rparr>) i = page_used s i"
  "page_used (s\<lparr>kpage_request_lock := l\<rparr>) i = page_used s i"
  by (simp_all add: page_used_def)

lemma with_bit_update:
  "with_bit (s\<lparr>kpage_allocator_lock := l\<rparr>) i v = (with_bit s i v)\<lparr>kpage_allocator_lock := l\<rparr>"
  by (simp add: with_bit_def Let_def)

text \<open>What claiming or releasing page \<open>i\<close> does; out-of-range indices are ignored.\<close>

definition claim :: "pfa \<Rightarrow> u64 \<Rightarrow> pfa" where
  "claim s i =
    (if page_used s i \<or> bm_size s * 8 < i then s
     else (with_bit s i True)\<lparr>m_freeSystemMemory := m_freeSystemMemory s - PAGE_SIZE,
                            m_usedSystemMemory := m_usedSystemMemory s + PAGE_SIZE\<rparr>)"

definition unclaim :: "pfa \<Rightarrow> u64 \<Rightarrow> pfa" where
  "unclaim s i =
    (if \<not> page_used s i \<or> bm_size s * 8 < i then s
     else (with_bit s i False)\<lparr>m_freeSystemMemory := m_freeSystemMemory s + PAGE_SIZE,
                             m_usedSystemMemory := m_usedSystemMemory s - PAGE_SIZE\<rparr>)"

lemma pfa_lock_same: "kpage_allocator_lock s = 0 \<Longrightarrow> s\<lparr>kpage_allocator_lock := 0\<rparr> = s"
  and pfa_request_same: "kpage_request_lock s = 0 \<Longrightarrow> s\<lparr>kpage_request_lock := 0\<rparr> = s"
  by (cases s; simp)+

lemma lockPhysicalPage_claim:
  assumes "kpage_allocator_lock s = 0"
  shows "lockPhysicalPage a s = Some (claim s (addrToIndex a))"
  using assms pfa_lock_same [of "with_bit s (addrToIndex a) True"]
  by (cases s) (simp add: lockPhysicalPage_def claim_def markPageUsed_def setPageValue_with_bit Let_def
      with_bit_update page_used_def with_bit_def)

lemma freePhysicalPage_unclaim:
  assumes "kpage_allocator_lock s = 0"
  shows "freePhysicalPage a s = Some (unclaim s (addrToIndex a))"
  using assms pfa_lock_same [of "with_bit s (addrToIndex a) False"]
  by (cases s) (simp add: freePhysicalPage_def unclaim_def markPageFree_def setPageValue_with_bit Let_def
      with_bit_update page_used_def with_bit_def)

lemma lockPage_physical: "lockPage v s = lockPhysicalPage (virtToPhysAddr (va_off s) v) s"
  and freePage_physical: "freePage v s = freePhysicalPage (virtToPhysAddr (va_off s) v) s"
  by (cases "acquireSpinlock (kpage_allocator_lock s)";
      simp add: lockPage_def lockPhysicalPage_def freePage_def freePhysicalPage_def Let_def)+

lemma claim_fields [simp]:
  "m_totalSystemMemory (claim s i) = m_totalSystemMemory s"
  "m_lastTrackedFreePage (claim s i) = m_lastTrackedFreePage s"
  "bm_size (claim s i) = bm_size s" "bm_buffer (claim s i) = bm_buffer s"
  "kpage_allocator_lock (claim s i) = kpage_allocator_lock s"
  "kpage_request_lock (claim s i) = kpage_request_lock s"
  "va_off (claim s i) = va_off s"
  by (simp_all add: claim_def)

lemma page_used_claim:
  "i \<le> bm_size s * 8 \<Longrightarrow> page_used (claim s i) j = (j = i \<or> page_used s j)"
  by (auto simp: claim_def)

lemma page_used_unclaim:
  "i \<le> bm_size s * 8 \<Longrightarrow> page_used (unclaim s i) j = (j \<noteq> i \<and> page_used s j)"
  by (auto simp: unclaim_def)

section \<open>Page addresses\<close>

definition pg :: "nat \<Rightarrow> u64" where
  "pg i = of_nat i * PAGE_SIZE"

lemma pg_Suc: "pg i + PAGE_SIZE = pg (Suc i)"
  by (simp add: pg_def distrib_right add.commute)

lemma unat_pg: "i < 2 ^ 52 \<Longrightarrow> unat (pg i) = i * 4096"
proof -
  assume i: "i < 2 ^ 52"
  have "pg i = of_nat (i * 4096)" by (simp add: pg_def PAGE_SIZE_def)
  with i show ?thesis by (simp only:) (rule unat64_of_nat, simp)
qed

lemma addrToIndex_pg: "i < 2 ^ 52 \<Longrightarrow> addrToIndex (pg i) = of_nat i"
  by (simp add: addrToIndex_def word_unat_eq_iff unat_div unat_pg PAGE_SIZE_def unat64_of_nat)

lemma pg_less: "i < 2 ^ 52 \<Longrightarrow> n < 2 ^ 52 \<Longrightarrow> pg i < pg n \<longleftrightarrow> i < n"
  by (simp add: word_less_nat_alt unat_pg)

lemma of_nat_index_eq: "i < 2 ^ 52 \<Longrightarrow> j < 2 ^ 52 \<Longrightarrow> (of_nat i :: u64) = of_nat j \<longleftrightarrow> i = j"
  by (simp add: word_unat_eq_iff unat64_of_nat)

section \<open>Requests\<close>

text \<open>
  The allocator's invariant: \<open>n\<close> pages of memory, the bitmap has a bit for each of them, the
  search starts at page \<open>i\<close>, and neither lock is held.
\<close>

definition pfa_wf :: "pfa \<Rightarrow> nat \<Rightarrow> nat \<Rightarrow> bool" where
  "pfa_wf s n i \<longleftrightarrow> m_totalSystemMemory s = pg n \<and> m_lastTrackedFreePage s = pg i \<and> i \<le> n \<and>
    n < 2 ^ 52 \<and> n \<le> 8 * unat (bm_size s) \<and> unat (bm_size s) < 2 ^ 60 \<and>
    kpage_allocator_lock s = 0 \<and> kpage_request_lock s = 0"

text \<open>The first free page from \<open>i\<close> on.\<close>

definition first_free :: "pfa \<Rightarrow> nat \<Rightarrow> nat \<Rightarrow> nat option" where
  "first_free s i n = find (\<lambda>j. \<not> page_used s (of_nat j)) [i..<n]"

lemma first_free_step:
  "first_free s i n =
    (if i < n then if page_used s (of_nat i) then first_free s (Suc i) n else Some i else None)"
  by (simp add: first_free_def upt_rec)

lemma first_free_Some:
  "first_free s i n = Some j \<Longrightarrow>
    i \<le> j \<and> j < n \<and> \<not> page_used s (of_nat j) \<and> (\<forall>k. i \<le> k \<and> k < j \<longrightarrow> page_used s (of_nat k))"
proof -
  assume "first_free s i n = Some j"
  then obtain q where q: "q < n - i" "\<not> page_used s (of_nat (i + q))" "j = i + q"
    "\<forall>k < q. page_used s (of_nat (i + k))"
    by (auto simp: first_free_def find_Some_iff simp del: of_nat_add)
  have "page_used s (of_nat k)" if "i \<le> k" "k < j" for k
    using q(3,4) that by (metis add_diff_inverse_nat add_less_cancel_left linorder_not_le)
  with q show ?thesis by auto
qed

lemma first_free_None:
  "first_free s i n = None \<longleftrightarrow> (\<forall>j. i \<le> j \<and> j < n \<longrightarrow> page_used s (of_nat j))"
  by (auto simp: first_free_def find_None_iff)

definition request_result :: "pfa \<Rightarrow> nat option \<Rightarrow> u64 \<times> pfa" where
  "request_result s r =
    (case r of None \<Rightarrow> (0, release_request s)
     | Some j \<Rightarrow> (physToVirtAddr (va_off s) (pg j),
                  release_request ((claim s (of_nat j))\<lparr>m_lastTrackedFreePage := pg (Suc j)\<rparr>)))"

lemma requestFreePage_loop_result:
  assumes "m_totalSystemMemory s = pg n" "n < 2 ^ 52" "kpage_allocator_lock s = 0" "i \<le> n"
  shows "requestFreePage_loop s (pg i) = Some (request_result s (first_free s i n))"
  using assms(4)
proof (induction "n - i" arbitrary: i)
  case 0
  then show ?case
    using assms by (subst requestFreePage_loop.simps) (simp add: pg_less request_result_def first_free_step)
next
  case (Suc d)
  then have i: "i < n" "i < 2 ^ 52" using assms by auto
  have "requestFreePage_loop s (pg (Suc i)) = Some (request_result s (first_free s (Suc i) n))"
    using Suc i by (intro Suc.hyps) auto
  then show ?case
    using i assms
    by (subst requestFreePage_loop.simps)
      (simp add: pg_less addrToIndex_pg pg_Suc lockPhysicalPage_claim first_free_step [of s i]
        request_result_def)
qed

lemma index_in_bitmap:
  assumes "pfa_wf s n i" "j < n"
  shows "(of_nat j :: u64) < bm_size s * 8"
proof -
  have "unat (bm_size s * 8) = unat (bm_size s) * 8"
    using assms unat_mult_lem [of "bm_size s" 8] by (simp add: pfa_wf_def)
  then show ?thesis
    using assms by (simp add: pfa_wf_def word_less_nat_alt unat64_of_nat)
qed

lemma requestFreePage_result:
  assumes wf: "pfa_wf s n i"
  shows "requestFreePage s = Some (case first_free s i n of
      None \<Rightarrow> (0, s)
    | Some j \<Rightarrow> (physToVirtAddr (va_off s) (pg j),
        (claim s (of_nat j))\<lparr>m_lastTrackedFreePage := pg (Suc j)\<rparr>))"
proof -
  let ?s = "s\<lparr>kpage_request_lock := 1\<rparr>"
  have "first_free ?s i n = first_free s i n"
    by (simp add: first_free_def)
  then have "requestFreePage s = Some (request_result ?s (first_free s i n))"
    using wf requestFreePage_loop_result [of ?s n i] by (simp add: requestFreePage_def pfa_wf_def)
  moreover have "release_request ((claim ?s j)\<lparr>m_lastTrackedFreePage := p\<rparr>) =
      (claim s j)\<lparr>m_lastTrackedFreePage := p\<rparr>" for j p
    using wf by (cases s) (simp add: release_request_def claim_def with_bit_def page_used_def pfa_wf_def Let_def)
  moreover have "release_request ?s = s"
    using wf by (cases s) (simp add: release_request_def pfa_wf_def)
  ultimately show ?thesis
    by (simp add: request_result_def split: option.split)
qed

section \<open>Contiguous requests\<close>

definition block_free :: "pfa \<Rightarrow> nat \<Rightarrow> nat \<Rightarrow> bool" where
  "block_free s j k = list_all (\<lambda>q. \<not> page_used s (of_nat q)) [j..<j + k]"

definition first_block :: "pfa \<Rightarrow> nat \<Rightarrow> nat \<Rightarrow> nat \<Rightarrow> nat option" where
  "first_block s i n k = find (\<lambda>j. block_free s j k) [i..<n]"

primrec claims :: "nat \<Rightarrow> nat \<Rightarrow> pfa \<Rightarrow> pfa" where
  "claims 0 j s = s"
| "claims (Suc k) j s = claims k (Suc j) (claim s (of_nat j))"

lemma block_free_iff: "block_free s j k \<longleftrightarrow> (\<forall>q. j \<le> q \<and> q < j + k \<longrightarrow> \<not> page_used s (of_nat q))"
  by (auto simp: block_free_def list_all_iff)

lemma pg_add: "pg j + PAGE_SIZE * of_nat k = pg (j + k)"
  by (simp add: pg_def algebra_simps)

lemma block_is_free_correct:
  "j + k < 2 ^ 52 \<Longrightarrow> block_is_free s (pg j) (pg (j + k)) = Some (block_free s j k)"
proof (induction k arbitrary: j)
  case 0
  then show ?case
    by (subst block_is_free.simps) (simp add: block_free_def)
next
  case (Suc k)
  then have "block_is_free s (pg (Suc j)) (pg (Suc j + k)) = Some (block_free s (Suc j) k)"
    by (intro Suc.IH) simp
  moreover have "pg j < pg (Suc (j + k))"
    using Suc.prems by (subst pg_less) auto
  moreover have "block_free s j (Suc k) \<longleftrightarrow> \<not> page_used s (of_nat j) \<and> block_free s (Suc j) k"
    by (simp add: block_free_def upt_conv_Cons del: upt_Suc)
  ultimately show ?case
    using Suc.prems by (subst block_is_free.simps) (simp add: addrToIndex_pg pg_Suc)
qed

lemma lock_block_claims:
  "j + k < 2 ^ 52 \<Longrightarrow> kpage_allocator_lock s = 0 \<Longrightarrow>
    lock_block (pg j) (pg (j + k)) s = Some (claims k j s)"
proof (induction k arbitrary: j s)
  case 0
  then show ?case
    by (subst lock_block.simps) simp
next
  case (Suc k)
  then have "lock_block (pg (Suc j)) (pg (Suc j + k)) (claim s (of_nat j)) =
      Some (claims k (Suc j) (claim s (of_nat j)))"
    by (intro Suc.IH) auto
  moreover have "pg j < pg (Suc (j + k))"
    using Suc.prems by (subst pg_less) auto
  ultimately show ?case
    using Suc.prems by (subst lock_block.simps) (simp add: addrToIndex_pg pg_Suc lockPhysicalPage_claim)
qed

lemma track_free_page_correct:
  assumes "m_totalSystemMemory s = pg n" "n < 2 ^ 52" "i \<le> n"
  shows "track_free_page s (pg i) =
    Some (case first_free s i n of None \<Rightarrow> s | Some q \<Rightarrow> s\<lparr>m_lastTrackedFreePage := pg q\<rparr>)"
  using assms(3)
proof (induction "n - i" arbitrary: i)
  case 0
  then show ?case
    using assms by (subst track_free_page.simps) (simp add: first_free_step)
next
  case (Suc d)
  then have i: "i < n" "i < 2 ^ 52" using assms by auto
  have "track_free_page s (pg (Suc i)) =
      Some (case first_free s (Suc i) n of None \<Rightarrow> s | Some q \<Rightarrow> s\<lparr>m_lastTrackedFreePage := pg q\<rparr>)"
    using Suc i by (intro Suc.hyps) auto
  then show ?case
    using i assms
    by (subst track_free_page.simps)
      (simp add: pg_less addrToIndex_pg pg_Suc first_free_step [of s i])
qed

lemma claims_fields [simp]:
  "m_totalSystemMemory (claims k j s) = m_totalSystemMemory s"
  "m_lastTrackedFreePage (claims k j s) = m_lastTrackedFreePage s"
  "bm_size (claims k j s) = bm_size s" "bm_buffer (claims k j s) = bm_buffer s"
  "kpage_allocator_lock (claims k j s) = kpage_allocator_lock s"
  "kpage_request_lock (claims k j s) = kpage_request_lock s"
  "va_off (claims k j s) = va_off s"
  by (induction k arbitrary: j s) simp_all

lemma page_used_claims:
  "(\<And>q. j \<le> q \<Longrightarrow> q < j + k \<Longrightarrow> of_nat q \<le> bm_size s * 8) \<Longrightarrow>
    page_used (claims k j s) p = (p \<in> of_nat ` {j..<j + k} \<or> page_used s p)"
proof (induction k arbitrary: j s)
  case (Suc k)
  have "page_used (claims k (Suc j) (claim s (of_nat j))) p =
      (p \<in> of_nat ` {Suc j..<Suc j + k} \<or> page_used (claim s (of_nat j)) p)"
    using Suc.prems by (intro Suc.IH) auto
  moreover have "page_used (claim s (of_nat j)) p = (p = of_nat j \<or> page_used s p)"
    using Suc.prems [of j] by (simp add: page_used_claim)
  moreover have "{j..<j + Suc k} = insert j {Suc j..<Suc j + k}"
    by auto
  ultimately show ?case
    by (simp only: claims.simps image_insert insert_iff) blast
qed auto

definition requests_result :: "pfa \<Rightarrow> nat \<Rightarrow> nat \<Rightarrow> nat \<Rightarrow> nat option \<Rightarrow> u64 \<times> pfa" where
  "requests_result s i n k r =
    (case r of None \<Rightarrow> (0, release_request s)
     | Some j \<Rightarrow>
        (physToVirtAddr (va_off s) (pg j),
         release_request (case first_free (claims k j s) i n of None \<Rightarrow> claims k j s
           | Some q \<Rightarrow> (claims k j s)\<lparr>m_lastTrackedFreePage := pg q\<rparr>)))"

lemma requestFreePages_loop_result:
  assumes s: "m_totalSystemMemory s = pg n" "n + k < 2 ^ 52" "kpage_allocator_lock s = 0"
    "m_lastTrackedFreePage s = pg i0" "i0 \<le> n" and i: "i \<le> n"
  shows "requestFreePages_loop s (pg i) (of_nat k) = Some (requests_result s i0 n k (first_block s i n k))"
  using i
proof (induction "n - i" arbitrary: i)
  case 0
  then show ?case
    using s by (subst requestFreePages_loop.simps) (simp add: requests_result_def first_block_def)
next
  case (Suc d)
  then have i: "i < n" "i + k < 2 ^ 52" using s by auto
  have IH: "requestFreePages_loop s (pg (Suc i)) (of_nat k) =
      Some (requests_result s i0 n k (first_block s (Suc i) n k))"
    using Suc i by (intro Suc.hyps) auto
  have fb: "first_block s i n k = (if block_free s i k then Some i else first_block s (Suc i) n k)"
    using i by (simp add: first_block_def upt_conv_Cons)
  have tr: "track_free_page (claims k i s) (pg i0) = Some (case first_free (claims k i s) i0 n of
      None \<Rightarrow> claims k i s | Some q \<Rightarrow> (claims k i s)\<lparr>m_lastTrackedFreePage := pg q\<rparr>)"
    using s by (intro track_free_page_correct) auto
  have lt: "pg i < m_totalSystemMemory s"
    using i s by (simp add: pg_less)
  show ?case
  proof (cases "block_free s i k")
    case True
    then show ?thesis
      using lt s tr fb block_is_free_correct [OF i(2), of s] lock_block_claims [OF i(2) s(3)]
      by (subst requestFreePages_loop.simps)
        (auto simp: pg_add requests_result_def split: option.split)
  next
    case False
    then show ?thesis
      using lt IH fb block_is_free_correct [OF i(2), of s]
      by (subst requestFreePages_loop.simps) (simp add: pg_add pg_Suc)
  qed
qed

section \<open>Properties\<close>

text \<open>
  C4: \<open>requestFreePage\<close> returns on every well-formed allocator. If a page from the tracked
  position on is free, it returns the kernel address of the first one; that page was free,
  is used afterwards, no other page changes its state, the counters move by one page, the
  search position moves past it and both locks are free. Otherwise it returns null and
  changes nothing.
\<close>

theorem requestFreePage_correct:
  assumes wf: "pfa_wf s n i"
  shows "case first_free s i n of
      None \<Rightarrow> requestFreePage s = Some (0, s) \<and> (\<forall>j. i \<le> j \<and> j < n \<longrightarrow> page_used s (of_nat j))
    | Some j \<Rightarrow> \<exists>s'. requestFreePage s = Some (physToVirtAddr (va_off s) (pg j), s') \<and>
        i \<le> j \<and> j < n \<and> \<not> page_used s (of_nat j) \<and>
        (\<forall>q. page_used s' q = (q = of_nat j \<or> page_used s q)) \<and>
        m_freeSystemMemory s' = m_freeSystemMemory s - PAGE_SIZE \<and>
        m_usedSystemMemory s' = m_usedSystemMemory s + PAGE_SIZE \<and> pfa_wf s' n (Suc j)"
proof (cases "first_free s i n")
  case None
  then show ?thesis
    using requestFreePage_result [OF wf] first_free_None [of s i n] by simp
next
  case (Some j)
  note j = first_free_Some [OF Some]
  have le: "(of_nat j :: u64) \<le> bm_size s * 8"
    using index_in_bitmap [OF wf, of j] j by simp
  then have nl: "\<not> bm_size s * 8 < of_nat j"
    by (simp add: not_less)
  let ?s' = "(claim s (of_nat j))\<lparr>m_lastTrackedFreePage := pg (Suc j)\<rparr>"
  have "requestFreePage s = Some (physToVirtAddr (va_off s) (pg j), ?s')"
    using requestFreePage_result [OF wf] Some by simp
  moreover have "\<forall>q. page_used ?s' q = (q = of_nat j \<or> page_used s q)"
    using le by (simp add: page_used_claim)
  moreover have "m_freeSystemMemory ?s' = m_freeSystemMemory s - PAGE_SIZE"
    "m_usedSystemMemory ?s' = m_usedSystemMemory s + PAGE_SIZE"
    using j nl by (simp_all add: claim_def)
  moreover have "pfa_wf ?s' n (Suc j)"
    using wf j by (simp add: pfa_wf_def)
  ultimately show ?thesis using j Some by auto
qed

text \<open>A small allocator: 16 pages, page 3 and page 5 free.\<close>

definition pfa16 :: pfa where
  "pfa16 = \<lparr>m_totalSystemMemory = 0x10000, m_freeSystemMemory = 0x2000, m_usedSystemMemory = 0xe000,
     m_lastTrackedFreePage = 0, bm_size = 3, bm_buffer = 0x500000, kpage_allocator_lock = 0,
     kpage_request_lock = 0, va_off = 0xffff800000000000, vram = (\<lambda>x. if x = 0x500000 then 0xd7 else 0xff)\<rparr>"

lemma pfa16_wf: "pfa_wf pfa16 16 0"
  by (simp add: pfa_wf_def pfa16_def pg_def PAGE_SIZE_def)

lemma pfa16_first: "first_free pfa16 0 16 = Some 3"
  by (simp add: first_free_def page_used_def pfa16_def upt_rec)

theorem requestFreePage_correct_witness:
  "\<exists>s'. requestFreePage pfa16 = Some (0xffff800000003000, s') \<and> page_used s' 3 \<and> \<not> page_used s' 5"
  using requestFreePage_correct [OF pfa16_wf]
  by (auto simp: pfa16_first physToVirtAddr_def pg_def PAGE_SIZE_def)
     (auto simp: pfa16_def page_used_def)

lemma requestFreePages_result:
  assumes wf: "pfa_wf s n i" and k: "n + k < 2 ^ 52"
  shows "requestFreePages s (of_nat k) = Some (case first_block s i n k of
      None \<Rightarrow> (0, s)
    | Some j \<Rightarrow> (physToVirtAddr (va_off s) (pg j), release_request
        (case first_free (claims k j (s\<lparr>kpage_request_lock := 1\<rparr>)) i n of
           None \<Rightarrow> claims k j (s\<lparr>kpage_request_lock := 1\<rparr>)
         | Some q \<Rightarrow> (claims k j (s\<lparr>kpage_request_lock := 1\<rparr>))\<lparr>m_lastTrackedFreePage := pg q\<rparr>)))"
proof -
  let ?s = "s\<lparr>kpage_request_lock := 1\<rparr>"
  have "first_block ?s i n k = first_block s i n k"
    by (simp add: first_block_def block_free_def)
  then have "requestFreePages s (of_nat k) = Some (requests_result ?s i n k (first_block s i n k))"
    using wf k requestFreePages_loop_result [of ?s n k i i] by (simp add: requestFreePages_def pfa_wf_def)
  moreover have "release_request ?s = s"
    using wf by (cases s) (simp add: release_request_def pfa_wf_def)
  ultimately show ?thesis
    by (simp add: requests_result_def split: option.split)
qed



text \<open>
  locking a free page and then releasing it restores the allocator exactly: bitmap,
  counters and locks.
\<close>

theorem lock_free_roundtrip:
  assumes wf: "pfa_wf s n i" and j: "j < n" "\<not> page_used s (of_nat j)"
  shows "Option.bind (lockPhysicalPage (pg j) s) (freePhysicalPage (pg j)) = Some s"
proof -
  have idx: "addrToIndex (pg j) = of_nat j" and nl: "\<not> bm_size s * 8 < of_nat j"
    using wf j index_in_bitmap [OF wf j(1)] by (auto simp: pfa_wf_def addrToIndex_pg)
  let ?a = "bm_buffer s + of_nat j div 8" and ?b = "unat (of_nat j mod 8 :: u64)"
  have "unset_bit ?b (set_bit ?b (vram s ?a)) = vram s ?a"
    using j(2) by (intro bit_word_eqI) (auto simp: bit_simps page_used_def)
  moreover have "bit (set_bit ?b (vram s ?a)) ?b"
    using mod8_less [of "of_nat j"] by (simp add: bit_simps)
  ultimately have "unclaim (claim s (of_nat j)) (of_nat j) = s"
    using j(2) nl by (cases s) (auto simp: unclaim_def claim_def with_bit_def Let_def page_used_def)
  then show ?thesis
    using wf idx by (simp add: pfa_wf_def lockPhysicalPage_claim freePhysicalPage_unclaim)
qed

theorem lock_free_roundtrip_witness:
  "Option.bind (lockPhysicalPage (pg 3) pfa16) (freePhysicalPage (pg 3)) = Some pfa16"
  using lock_free_roundtrip [OF pfa16_wf, of 3] by (simp add: page_used_def pfa16_def)

text \<open>
  a released page below the tracked position is not found again. When all pages from
  that position on are used, releasing an earlier page makes it free, and the next request
  still reports that memory is exhausted.
\<close>

theorem freed_page_not_reused:
  assumes wf: "pfa_wf s n i" and full: "\<forall>q. i \<le> q \<and> q < n \<longrightarrow> page_used s (of_nat q)" and j: "j < i"
  shows "\<exists>s'. freePhysicalPage (pg j) s = Some s' \<and> \<not> page_used s' (of_nat j) \<and>
    requestFreePage s' = Some (0, s')"
proof -
  have jn: "j < n" "n < 2 ^ 52" using wf j by (auto simp: pfa_wf_def)
  have le: "of_nat j \<le> bm_size s * 8"
    using index_in_bitmap [OF wf jn(1)] by simp
  let ?s' = "unclaim s (of_nat j)"
  have f: "freePhysicalPage (pg j) s = Some ?s'"
    using wf jn by (simp add: pfa_wf_def freePhysicalPage_unclaim addrToIndex_pg)
  have wf': "pfa_wf ?s' n i"
    using wf by (simp add: pfa_wf_def unclaim_def)
  have "page_used ?s' (of_nat q)" if "i \<le> q" "q < n" for q
    using that full j jn by (simp add: page_used_unclaim [OF le] of_nat_index_eq)
  then have "first_free ?s' i n = None"
    by (simp add: first_free_None)
  then show ?thesis
    using f requestFreePage_result [OF wf'] page_used_unclaim [OF le] by simp
qed

theorem freed_page_not_reused_witness:
  "\<exists>s'. freePhysicalPage (pg 1) (pfa16\<lparr>m_lastTrackedFreePage := pg 16\<rparr>) = Some s' \<and>
     \<not> page_used s' 1 \<and> requestFreePage s' = Some (0, s')"
proof -
  have "pfa_wf (pfa16\<lparr>m_lastTrackedFreePage := pg 16\<rparr>) 16 16"
    by (simp add: pfa_wf_def pfa16_def pg_def PAGE_SIZE_def)
  moreover have "\<forall>q. 16 \<le> q \<and> q < 16 \<longrightarrow> page_used (pfa16\<lparr>m_lastTrackedFreePage := pg 16\<rparr>) (of_nat q)"
    by auto
  ultimately show ?thesis
    using freed_page_not_reused [of "pfa16\<lparr>m_lastTrackedFreePage := pg 16\<rparr>" 16 16 1] by simp
qed

text \<open>
  \<open>requestFreePageZeroed\<close> does not test the pointer: when no page is left it zeroes the
  page at address 0 and returns null.
\<close>

theorem requestFreePageZeroed_null:
  assumes "pfa_wf s n i" and "first_free s i n = None"
  shows "requestFreePageZeroed s = Some (0, s\<lparr>vram := (\<lambda>x. if unat x < 4096 then 0 else vram s x)\<rparr>)"
  using requestFreePage_result [OF assms(1)] assms(2)
  by (simp add: requestFreePageZeroed_def zeromem_def memset_fills setn_def PAGE_SIZE_def)

theorem requestFreePageZeroed_null_witness:
  "\<exists>s'. requestFreePageZeroed (pfa16\<lparr>m_lastTrackedFreePage := pg 16\<rparr>) = Some (0, s') \<and> vram s' 0x10 = 0"
proof -
  have wf: "pfa_wf (pfa16\<lparr>m_lastTrackedFreePage := pg 16\<rparr>) 16 16"
    by (simp add: pfa_wf_def pfa16_def pg_def PAGE_SIZE_def)
  have "first_free (pfa16\<lparr>m_lastTrackedFreePage := pg 16\<rparr>) 16 16 = None"
    by (simp add: first_free_def)
  from requestFreePageZeroed_null [OF wf this] show ?thesis by simp
qed

text \<open>
  a bitmap write. For an index below \<open>8 * m_size\<close> the bit of that page and no other is
  written and the byte lies in the buffer; for the index \<open>8 * m_size\<close> itself, which the guard
  lets pass, the byte written is the first one behind the buffer.
\<close>

theorem setPageValue_bounds:
  assumes "unat (bm_size s) < 2 ^ 60" and "unat (addrToIndex a) \<le> 8 * unat (bm_size s)"
  shows "\<exists>s'. setPageValue s a v = (True, s') \<and>
    (\<forall>j. page_used s' j = (if j = addrToIndex a then v else page_used s j)) \<and>
    (\<forall>x. x \<noteq> bm_buffer s + addrToIndex a div 8 \<longrightarrow> vram s' x = vram s x) \<and>
    (unat (addrToIndex a div 8) < unat (bm_size s) \<longleftrightarrow> addrToIndex a \<noteq> bm_size s * 8)"
proof -
  have m: "unat (bm_size s * 8) = unat (bm_size s) * 8"
    using assms(1) unat_mult_lem [of "bm_size s" 8] by simp
  then have "\<not> bm_size s * 8 < addrToIndex a"
    using assms(2) by (simp add: word_less_nat_alt)
  then have set: "setPageValue s a v = (True, with_bit s (addrToIndex a) v)"
    by (simp add: setPageValue_with_bit)
  have "unat (addrToIndex a) div 8 < unat (bm_size s) \<longleftrightarrow> unat (addrToIndex a) \<noteq> unat (bm_size s) * 8"
    using assms(2) by (auto simp: div_less_iff_less_mult)
  then have "unat (addrToIndex a div 8) < unat (bm_size s) \<longleftrightarrow> addrToIndex a \<noteq> bm_size s * 8"
    using m by (simp add: unat_div word_unat_eq_iff)
  moreover have "vram (with_bit s (addrToIndex a) v) x = vram s x" if "x \<noteq> bm_buffer s + addrToIndex a div 8" for x
    using that by (simp add: with_bit_def Let_def)
  ultimately show ?thesis
    using set by simp
qed

theorem setPageValue_bounds_witness:
  "\<exists>s'. setPageValue pfa16 (pg 24) False = (True, s') \<and> \<not> page_used s' 24"
proof -
  have "addrToIndex (pg 24) = 24" "bm_size pfa16 = 3"
    using addrToIndex_pg [of 24] by (simp_all add: pfa16_def)
  then show ?thesis
    using setPageValue_bounds [of pfa16 "pg 24" False] by auto
qed

end
