(* ===== verification/PageTables.thy ===== *)
theory PageTables
  imports PageFrame "HOL-Library.Sublist"
begin

text \<open>
  Four-level page tables as the kernel (\<^verbatim>\<open>kernel/src/paging/page.h\<close>) and the boot loader
  (\<^verbatim>\<open>bootloader/paging.h\<close>) lay them out: a table is a page of 512 eight-byte entries, an
  entry is a 64-bit word of bit-fields. This theory holds the entry format, the tables as
  trees over the byte memory, and the interface \<open>frame_supply\<close> between the code that extends a
  tree and the allocator it takes pages from, with the lemmas about extending a tree proved
  once against that interface.
\<close>

section \<open>Page table entries\<close>

definition pte_present :: "u64 \<Rightarrow> u64" where "pte_present e = bf_get 0 1 e"
definition pte_readWrite :: "u64 \<Rightarrow> u64" where "pte_readWrite e = bf_get 1 1 e"
definition pte_userSupervisor :: "u64 \<Rightarrow> u64" where "pte_userSupervisor e = bf_get 2 1 e"
definition pte_pageWriteThrough :: "u64 \<Rightarrow> u64" where "pte_pageWriteThrough e = bf_get 3 1 e"
definition pte_pageCacheDisabled :: "u64 \<Rightarrow> u64" where "pte_pageCacheDisabled e = bf_get 4 1 e"
definition pte_pageAccessType :: "u64 \<Rightarrow> u64" where "pte_pageAccessType e = bf_get 7 1 e"
definition pte_pageFrameNumber :: "u64 \<Rightarrow> u64" where "pte_pageFrameNumber e = bf_get 12 36 e"

definition set_pte_present :: "u64 \<Rightarrow> u64 \<Rightarrow> u64" where "set_pte_present v e = bf_set 0 1 v e"
definition set_pte_readWrite :: "u64 \<Rightarrow> u64 \<Rightarrow> u64" where "set_pte_readWrite v e = bf_set 1 1 v e"
definition set_pte_userSupervisor :: "u64 \<Rightarrow> u64 \<Rightarrow> u64" where
  "set_pte_userSupervisor v e = bf_set 2 1 v e"
definition set_pte_pageWriteThrough :: "u64 \<Rightarrow> u64 \<Rightarrow> u64" where
  "set_pte_pageWriteThrough v e = bf_set 3 1 v e"
definition set_pte_pageCacheDisabled :: "u64 \<Rightarrow> u64 \<Rightarrow> u64" where
  "set_pte_pageCacheDisabled v e = bf_set 4 1 v e"
definition set_pte_pageAccessType :: "u64 \<Rightarrow> u64 \<Rightarrow> u64" where
  "set_pte_pageAccessType v e = bf_set 7 1 v e"
definition set_pte_pageFrameNumber :: "u64 \<Rightarrow> u64 \<Rightarrow> u64" where
  "set_pte_pageFrameNumber v e = bf_set 12 36 v e"

lemmas pte_defs = pte_present_def pte_readWrite_def pte_userSupervisor_def pte_pageWriteThrough_def
  pte_pageCacheDisabled_def pte_pageAccessType_def pte_pageFrameNumber_def set_pte_present_def
  set_pte_readWrite_def set_pte_userSupervisor_def set_pte_pageWriteThrough_def
  set_pte_pageCacheDisabled_def set_pte_pageAccessType_def set_pte_pageFrameNumber_def

text \<open>An entry for an intermediate table, as both \<open>mapPage\<close> functions fill it in.\<close>

definition table_entry :: "u64 \<Rightarrow> u64 \<Rightarrow> u64 \<Rightarrow> u64" where
  "table_entry priv t e =
    set_pte_pageFrameNumber (drop_bit 12 t)
      (set_pte_userSupervisor priv (set_pte_readWrite 1 (set_pte_present 1 e)))"

section \<open>Frames and entries in memory\<close>

text \<open>
  \<open>off\<close> is the distance between the address a table is accessed at and its physical address.
  A frame is page-aligned in physical memory and its number fits the 36-bit field.
\<close>

definition frame_ok :: "u64 \<Rightarrow> u64 \<Rightarrow> bool" where
  "frame_ok off a \<longleftrightarrow> unat (a - off) mod 4096 = 0 \<and> unat (a - off) < 2 ^ 48"

definition entry_at :: "mem \<Rightarrow> u64 \<Rightarrow> nat \<Rightarrow> u64" where
  "entry_at m a i = load64 m (a + 8 * of_nat i)"

definition child :: "u64 \<Rightarrow> u64 \<Rightarrow> u64" where
  "child off e = push_bit 12 (pte_pageFrameNumber e) + off"

lemma pte_table_entry:
  "pte_present (table_entry priv t e) = 1"
  "pte_pageFrameNumber (table_entry priv t e) = take_bit 36 (drop_bit 12 t)"
  "pte_readWrite (table_entry priv t e) = 1"
  "pte_userSupervisor (table_entry priv t e) = take_bit 1 priv"
  by (simp_all add: table_entry_def pte_defs bf_get_set_same bf_get_set_other)

lemma child_table_entry:
  assumes "frame_ok off a"
  shows "child off (table_entry priv (a - off) e) = a"
proof -
  let ?t = "a - off"
  have "push_bit 12 (take_bit 36 (drop_bit 12 ?t)) = ?t"
  proof (rule bit_word_eqI)
    fix n assume n: "n < LENGTH(64)"
    have lo: "\<not> bit ?t n" if "n < 12"
    proof -
      have "take_bit 12 ?t = 0"
        using assms by (simp add: frame_ok_def word_unat_eq_iff take_bit_eq_mod unat_mod)
      then show ?thesis using that by (metis bit_take_bit_iff bit_0_eq bot_apply bot_bool_def)
    qed
    have hi: "\<not> bit ?t n" if "48 \<le> n"
    proof -
      have "take_bit 48 ?t = ?t"
        using assms by (simp add: frame_ok_def word_unat_eq_iff unsigned_take_bit_eq take_bit_nat_eq_self)
      then show ?thesis using that by (metis bit_take_bit_iff not_less)
    qed
    show "bit (push_bit 12 (take_bit 36 (drop_bit 12 ?t))) n = bit ?t n"
      using n lo hi by (cases "n < 12"; cases "48 \<le> n") (simp_all add: bit_simps less_diff_conv2)
  qed
  then show ?thesis
    by (simp add: child_def pte_table_entry)
qed

lemma slot_position:
  assumes "frame_ok off a" "i < 512"
  shows "unat (a + 8 * of_nat i - off) = unat (a - off) + 8 * i"
proof -
  have eq: "a + 8 * of_nat i - off = (a - off) + of_nat (8 * i)"
    by simp
  show ?thesis
    unfolding eq using assms by (intro unat_offset) (simp add: frame_ok_def)
qed

lemma slot_multiple:
  assumes "frame_ok off a" "i < 512"
  obtains k where "unat (a - off) = 4096 * k" "unat (a + 8 * of_nat i - off) = 8 * (512 * k + i)"
    "k < 2 ^ 36"
proof -
  obtain k where k: "unat (a - off) = 4096 * k"
    using assms by (auto simp: frame_ok_def mod_eq_0_iff_dvd elim: dvdE)
  moreover have "k < 2 ^ 36"
    using k assms by (simp add: frame_ok_def)
  ultimately show thesis
    using that slot_position [OF assms] by simp
qed

lemma unat_diff_via:
  fixes p q off :: u64
  shows "unat (q - p) = (if unat (p - off) \<le> unat (q - off) then unat (q - off) - unat (p - off)
      else 2 ^ 64 + unat (q - off) - unat (p - off))"
  using unat_sub_if' [of "q - off" "p - off"] by (simp add: add.commute [of "unat (q - off)"])

lemma eight_apart:
  fixes x y :: nat
  assumes "x \<noteq> y" "x < 2 ^ 60" "y < 2 ^ 60"
  shows "8 \<le> (if 8 * x \<le> 8 * y then 8 * y - 8 * x else 2 ^ 64 + 8 * y - 8 * x)"
proof (cases "x < y")
  case True
  then show ?thesis by simp
next
  case False
  then show ?thesis using assms by simp
qed

lemma slots_far:
  assumes a: "frame_ok off a" "i < 512" and b: "frame_ok off b" "j < 512" and ne: "\<not> (a = b \<and> i = j)"
  shows "8 \<le> unat ((b + 8 * of_nat j) - (a + 8 * of_nat i))"
proof -
  obtain k where k: "unat (a - off) = 4096 * k" "unat (a + 8 * of_nat i - off) = 8 * (512 * k + i)" "k < 2 ^ 36"
    using slot_multiple [OF a] .
  obtain l where l: "unat (b - off) = 4096 * l" "unat (b + 8 * of_nat j - off) = 8 * (512 * l + j)" "l < 2 ^ 36"
    using slot_multiple [OF b] .
  have "512 * k + i \<noteq> 512 * l + j"
  proof
    assume eq: "512 * k + i = 512 * l + j"
    then have "k = l" using a(2) b(2) by linarith
    then have "a - off = b - off" using k(1) l(1) by (simp add: word_unat_eq_iff)
    with eq \<open>k = l\<close> ne show False by simp
  qed
  then show ?thesis
    unfolding unat_diff_via [of "b + 8 * of_nat j" "a + 8 * of_nat i" off] k(2) l(2)
    by (rule eight_apart) (use k(3) l(3) a(2) b(2) in simp_all)
qed

lemma entry_at_store:
  assumes a: "frame_ok off a" "i < 512" and b: "frame_ok off b" "j < 512"
  shows "entry_at (store64 v (a + 8 * of_nat i) m) b j = (if a = b \<and> i = j then v else entry_at m b j)"
proof (cases "a = b \<and> i = j")
  case True
  then show ?thesis by (simp add: entry_at_def load64_store64_same)
next
  case False
  then have "8 \<le> unat ((b + 8 * of_nat j) - (a + 8 * of_nat i))" "8 \<le> unat ((a + 8 * of_nat i) - (b + 8 * of_nat j))"
    using slots_far [OF a b] slots_far [OF b a] by blast+
  then show ?thesis
    using False by (simp only: entry_at_def load64_store64_other if_False)
qed

section \<open>Tables as a tree\<close>

text \<open>
  Over an entry function \<open>E\<close> (table, index): the table a path of indices leads to. A tree is
  well-formed when the tables on paths of up to three indices are frames in use and no table
  is reached by two paths.
\<close>

definition tbl_step :: "u64 \<Rightarrow> (u64 \<Rightarrow> nat \<Rightarrow> u64) \<Rightarrow> nat \<Rightarrow> u64 \<Rightarrow> u64 option" where
  "tbl_step off E i a = (if pte_present (E a i) = 0 then None else Some (child off (E a i)))"

primrec tbl_walk :: "u64 \<Rightarrow> (u64 \<Rightarrow> nat \<Rightarrow> u64) \<Rightarrow> u64 \<Rightarrow> nat list \<Rightarrow> u64 option" where
  "tbl_walk off E a [] = Some a"
| "tbl_walk off E a (i # p) = Option.bind (tbl_step off E i a) (\<lambda>b. tbl_walk off E b p)"

definition path3 :: "nat list \<Rightarrow> bool" where
  "path3 p \<longleftrightarrow> length p \<le> 3 \<and> (\<forall>i \<in> set p. i < 512)"

definition tree_wf :: "u64 \<Rightarrow> (u64 \<Rightarrow> nat \<Rightarrow> u64) \<Rightarrow> u64 \<Rightarrow> u64 set \<Rightarrow> bool" where
  "tree_wf off E r own \<longleftrightarrow>
    (\<forall>p a. path3 p \<and> tbl_walk off E r p = Some a \<longrightarrow> a \<in> own) \<and>
    (\<forall>p q a. path3 p \<and> path3 q \<and> tbl_walk off E r p = Some a \<and> tbl_walk off E r q = Some a \<longrightarrow> p = q)"

lemma tree_wf_own: "tree_wf off E r own \<Longrightarrow> path3 p \<Longrightarrow> tbl_walk off E r p = Some a \<Longrightarrow> a \<in> own"
  by (auto simp: tree_wf_def)

lemma tree_wf_inj:
  "tree_wf off E r own \<Longrightarrow> path3 p \<Longrightarrow> path3 q \<Longrightarrow> tbl_walk off E r p = Some a \<Longrightarrow>
    tbl_walk off E r q = Some a \<Longrightarrow> p = q"
  unfolding tree_wf_def by blast

lemma tbl_walk_snoc:
  "tbl_walk off E r (p @ [i]) = Option.bind (tbl_walk off E r p) (tbl_step off E i)"
  by (induction p arbitrary: r) (auto simp: Option.bind_assoc split: Option.bind_splits)

lemma path3_snoc: "path3 (p @ [i]) \<longleftrightarrow> path3 p \<and> length p < 3 \<and> i < 512"
  by (auto simp: path3_def)

text \<open>Linking a fresh, empty table \<open>c\<close> into a free slot of a table of the tree.\<close>

lemma walk_link:
  assumes wf: "tree_wf off E r own" and A: "tbl_walk off E r p = Some A" "path3 (p @ [i])"
    and free: "pte_present (E A i) = 0" and c: "c \<notin> own"
    and E': "\<And>B j. B \<in> own \<Longrightarrow> j < 512 \<Longrightarrow> \<not> (B = A \<and> j = i) \<Longrightarrow> E' B j = E B j"
    and new: "pte_present (E' A i) \<noteq> 0" "child off (E' A i) = c" and zero: "\<And>j. j < 512 \<Longrightarrow> pte_present (E' c j) = 0"
    and q: "path3 q"
  shows "tbl_walk off E' r q =
    (if prefix (p @ [i]) q then if q = p @ [i] then Some c else None else tbl_walk off E r q)"
  using q
proof (induction q rule: rev_induct)
  case Nil
  then show ?case by simp
next
  case (snoc j q)
  then have q3: "path3 q" and j: "j < 512" by (auto simp: path3_snoc)
  note IH = snoc.IH [OF q3]
  show ?case
  proof (cases "prefix (p @ [i]) (q @ [j])")
    case True
    then consider "q @ [j] = p @ [i]" | "prefix (p @ [i]) q" by (auto simp: prefix_snoc)
    then show ?thesis
    proof cases
      case 1
      then have "\<not> prefix (p @ [i]) q" by (auto dest: prefix_length_le)
      then show ?thesis
        using IH 1 A(1) new by (simp add: tbl_walk_snoc tbl_step_def)
    next
      case 2
      then have "q @ [j] \<noteq> p @ [i]" by (auto dest: prefix_length_le)
      then show ?thesis
        using IH 2 True zero [OF j] by (simp add: tbl_walk_snoc tbl_step_def)
    qed
  next
    case False
    then have np: "\<not> prefix (p @ [i]) q" by (auto simp: prefix_snoc)
    have "tbl_step off E' j B = tbl_step off E j B" if B: "tbl_walk off E r q = Some B" for B
    proof -
      have "B \<in> own" using wf q3 B by (auto simp: tree_wf_def)
      moreover have "\<not> (B = A \<and> j = i)"
      proof
        assume "B = A \<and> j = i"
        moreover from this have "q = p"
          using tree_wf_inj [OF wf q3 _ B] A by (auto simp: path3_snoc)
        ultimately show False using False by simp
      qed
      ultimately show ?thesis using E' j by (simp add: tbl_step_def)
    qed
    then show ?thesis
      using IH np False by (cases "tbl_walk off E r q") (auto simp: tbl_walk_snoc)
  qed
qed

lemma tree_wf_link:
  assumes wf: "tree_wf off E r own" and A: "tbl_walk off E r p = Some A" "path3 (p @ [i])"
    and free: "pte_present (E A i) = 0" and c: "c \<notin> own"
    and E': "\<And>B j. B \<in> own \<Longrightarrow> j < 512 \<Longrightarrow> \<not> (B = A \<and> j = i) \<Longrightarrow> E' B j = E B j"
    and new: "pte_present (E' A i) \<noteq> 0" "child off (E' A i) = c" and zero: "\<And>j. j < 512 \<Longrightarrow> pte_present (E' c j) = 0"
  shows "tree_wf off E' r (insert c own)"
proof -
  note w = walk_link [OF assms]
  have own: "a \<in> own" if "path3 q" "tbl_walk off E r q = Some a" for q a
    using wf that by (auto simp: tree_wf_def)
  show ?thesis
    unfolding tree_wf_def
  proof (intro conjI allI impI)
    fix q a assume "path3 q \<and> tbl_walk off E' r q = Some a"
    then show "a \<in> insert c own"
      using w [of q] own [of q a] by (auto split: if_splits)
  next
    fix q q' a
    assume h: "path3 q \<and> path3 q' \<and> tbl_walk off E' r q = Some a \<and> tbl_walk off E' r q' = Some a"
    show "q = q'"
    proof (cases "a = c")
      case True
      then show ?thesis
        using h w [of q] w [of q'] own [of q a] own [of q' a] c by (auto split: if_splits)
    next
      case False
      then have "tbl_walk off E r q = Some a" "tbl_walk off E r q' = Some a"
        using h w [of q] w [of q'] by (metis option.distinct(1) option.inject)+
      with h show ?thesis using tree_wf_inj [OF wf] by blast
    qed
  qed
qed

text \<open>Writing an entry of a bottom-level table changes no walk.\<close>

lemma walk_leaf:
  assumes wf: "tree_wf off E r own" and T: "tbl_walk off E r p = Some T" "path3 p" "length p = 3"
    and E': "\<And>B j. B \<in> own \<Longrightarrow> j < 512 \<Longrightarrow> B \<noteq> T \<Longrightarrow> E' B j = E B j"
    and q: "path3 q"
  shows "tbl_walk off E' r q = tbl_walk off E r q"
  using q
proof (induction q rule: rev_induct)
  case (snoc j q)
  then have q3: "path3 q" "j < 512" "length q < 3" by (auto simp: path3_snoc)
  have "tbl_step off E' j B = tbl_step off E j B" if B: "tbl_walk off E r q = Some B" for B
  proof -
    have "B \<in> own" using wf q3 B by (auto simp: tree_wf_def)
    moreover have "B \<noteq> T"
      using tree_wf_inj [OF wf q3(1) T(2) B] T q3(3) by auto
    ultimately show ?thesis using E' q3 by (simp add: tbl_step_def)
  qed
  then show ?case
    using snoc.IH [OF q3(1)] by (cases "tbl_walk off E r q") (simp_all add: tbl_walk_snoc)
qed simp

lemma tree_wf_leaf:
  assumes "tree_wf off E r own" "tbl_walk off E r p = Some T" "path3 p" "length p = 3"
    and "\<And>B j. B \<in> own \<Longrightarrow> j < 512 \<Longrightarrow> B \<noteq> T \<Longrightarrow> E' B j = E B j"
  shows "tree_wf off E' r own"
proof -
  note w = walk_leaf [OF assms]
  show ?thesis
    unfolding tree_wf_def
  proof (intro conjI allI impI)
    fix q a assume "path3 q \<and> tbl_walk off E' r q = Some a"
    then show "a \<in> own" using w tree_wf_own [OF assms(1)] by auto
  next
    fix q q' a
    assume "path3 q \<and> path3 q' \<and> tbl_walk off E' r q = Some a \<and> tbl_walk off E' r q' = Some a"
    then show "q = q'" using w tree_wf_inj [OF assms(1)] by metis
  qed
qed

text \<open>The present bottom-level entry at a path of three indices and a slot.\<close>

definition leaf :: "u64 \<Rightarrow> (u64 \<Rightarrow> nat \<Rightarrow> u64) \<Rightarrow> u64 \<Rightarrow> nat list \<Rightarrow> nat \<Rightarrow> u64 option" where
  "leaf off E r p j =
    (case tbl_walk off E r p of None \<Rightarrow> None
     | Some T \<Rightarrow> if pte_present (E T j) = 0 then None else Some (E T j))"

section \<open>Extending a tree\<close>

text \<open>
  One level of \<open>mapPage\<close>: the next table of the entry at \<open>ep\<close>, requested and linked in when the
  entry is not present. \<open>get\<close> and \<open>put\<close> access the memory in the allocator's state.
\<close>

definition descend ::
  "('s \<Rightarrow> (u64 \<times> 's) option) \<Rightarrow> ('s \<Rightarrow> mem) \<Rightarrow> (mem \<Rightarrow> 's \<Rightarrow> 's) \<Rightarrow> u64 \<Rightarrow> u64 \<Rightarrow> u64 \<Rightarrow> 's \<Rightarrow> (u64 \<times> 's) option"
  where
  "descend alloc get put off priv ep s =
    (if pte_present (load64 (get s) ep) = 0
     then do {
       (page, s) \<leftarrow> alloc s;
       Some (page, put (store64 (table_entry priv (page - off) (load64 (get s) ep)) ep (get s)) s)
     }
     else Some (child off (load64 (get s) ep), s))"

definition map_walk ::
  "('s \<Rightarrow> (u64 \<times> 's) option) \<Rightarrow> ('s \<Rightarrow> mem) \<Rightarrow> (mem \<Rightarrow> 's \<Rightarrow> 's) \<Rightarrow> u64 \<Rightarrow> u64 \<Rightarrow> u64 \<Rightarrow>
    nat \<Rightarrow> nat \<Rightarrow> nat \<Rightarrow> nat \<Rightarrow> (u64 \<Rightarrow> u64) \<Rightarrow> 's \<Rightarrow> 's option" where
  "map_walk alloc get put off priv r i4 i3 i2 i1 f s = do {
     (t3, s) \<leftarrow> descend alloc get put off priv (r + 8 * of_nat i4) s;
     (t2, s) \<leftarrow> descend alloc get put off priv (t3 + 8 * of_nat i3) s;
     (t1, s) \<leftarrow> descend alloc get put off priv (t2 + 8 * of_nat i2) s;
     let ep = t1 + 8 * of_nat i1;
     Some (put (store64 (f (load64 (get s) ep)) ep (get s)) s)
   }"

text \<open>
  What a supplier of page-table pages promises: a page not in use before, zeroed, with the
  contents of all pages in use kept; and writing inside a page in use does not disturb it.
\<close>

locale frame_supply =
  fixes alloc :: "'s \<Rightarrow> (u64 \<times> 's) option"
    and get :: "'s \<Rightarrow> mem" and put :: "mem \<Rightarrow> 's \<Rightarrow> 's"
    and off :: u64
    and inv :: "'s \<Rightarrow> bool" and own :: "'s \<Rightarrow> u64 set" and avail :: "'s \<Rightarrow> nat"
  assumes get_put: "get (put m s) = m"
    and alloc_ok: "inv s \<Longrightarrow> 0 < avail s \<Longrightarrow>
      \<exists>a s'. alloc s = Some (a, s') \<and> inv s' \<and> a \<notin> own s \<and> own s' = insert a (own s) \<and>
        avail s = Suc (avail s') \<and> (\<forall>x. unat (x - a) < 4096 \<longrightarrow> get s' x = 0) \<and>
        (\<forall>b \<in> own s. \<forall>x. unat (x - b) < 4096 \<longrightarrow> get s' x = get s x)"
    and own_frame: "inv s \<Longrightarrow> a \<in> own s \<Longrightarrow> frame_ok off a"
    and put_inv: "inv s \<Longrightarrow> a \<in> own s \<Longrightarrow> (\<And>x. 4096 \<le> unat (x - a) \<Longrightarrow> m x = get s x) \<Longrightarrow>
      inv (put m s) \<and> own (put m s) = own s \<and> avail (put m s) = avail s"
begin

abbreviation ent :: "'s \<Rightarrow> u64 \<Rightarrow> nat \<Rightarrow> u64" where
  "ent s \<equiv> entry_at (get s)"

lemma entry_at_page:
  assumes "i < 512" "\<And>x. unat (x - a) < 4096 \<Longrightarrow> m x = m' x"
  shows "entry_at m a i = entry_at m' a i"
  unfolding entry_at_def
proof (rule load64_cong)
  fix k :: nat assume "k < 8"
  then have "unat (of_nat (8 * i + k) :: u64) = 8 * i + k"
    using assms(1) by (intro unat64_of_nat) simp
  then show "m (a + 8 * of_nat i + of_nat k) = m' (a + 8 * of_nat i + of_nat k)"
    using assms \<open>k < 8\<close> by (intro assms(2)) (simp add: add.assoc)
qed

lemma entry_at_zero:
  assumes "i < 512" "\<And>x. unat (x - a) < 4096 \<Longrightarrow> m x = 0"
  shows "entry_at m a i = 0"
proof -
  have "entry_at m a i = entry_at (\<lambda>_. 0) a i"
    using assms by (intro entry_at_page) auto
  also have "\<dots> = 0"
    by (rule bit_word_eqI) (simp add: entry_at_def bit_load64)
  finally show ?thesis .
qed

text \<open>Writing one entry of a table in use.\<close>

lemma write_entry:
  fixes v :: u64
  assumes "inv s" "A \<in> own s" "i < 512"
  defines "s' \<equiv> put (store64 v (A + 8 * of_nat i) (get s)) s"
  shows "inv s'" "own s' = own s" "avail s' = avail s"
    and "B \<in> own s \<Longrightarrow> j < 512 \<Longrightarrow> ent s' B j = (if A = B \<and> i = j then v else ent s B j)"
proof -
  have "8 \<le> unat (x - (A + 8 * of_nat i))" if "4096 \<le> unat (x - A)" for x
    using that assms(3) unat_diff_offset [of "8 * i" x A] by (simp split: if_splits)
  then have "store64 v (A + 8 * of_nat i) (get s) x = get s x" if "4096 \<le> unat (x - A)" for x
    using that by (fastforce simp: store64_apply)
  from put_inv [OF assms(1,2) this] show "inv s'" "own s' = own s" "avail s' = avail s"
    by (simp_all add: s'_def)
  show "ent s' B j = (if A = B \<and> i = j then v else ent s B j)" if "B \<in> own s" "j < 512"
    using entry_at_store [OF own_frame [OF assms(1,2)] assms(3) own_frame [OF assms(1) that(1)] that(2)]
    by (simp add: s'_def get_put)
qed

lemma descend_ok:
  assumes inv: "inv s" and wf: "tree_wf off (ent s) r (own s)" and A: "tbl_walk off (ent s) r p = Some A"
    and p: "path3 (p @ [i])" and av: "0 < avail s"
  obtains c s' where "descend alloc get put off priv (A + 8 * of_nat i) s = Some (c, s')"
    "inv s'" "tree_wf off (ent s') r (own s')" "tbl_walk off (ent s') r (p @ [i]) = Some c"
    "avail s \<le> Suc (avail s')"
    "\<And>q j. path3 q \<Longrightarrow> length q = 3 \<Longrightarrow> j < 512 \<Longrightarrow> leaf off (ent s') r q j = leaf off (ent s) r q j"
    "own s \<subseteq> own s'"
proof (cases "pte_present (ent s A i) = 0")
  case False
  then have "descend alloc get put off priv (A + 8 * of_nat i) s = Some (child off (ent s A i), s)"
    by (simp add: descend_def entry_at_def)
  moreover have "tbl_walk off (ent s) r (p @ [i]) = Some (child off (ent s A i))"
    using False A by (simp add: tbl_walk_snoc tbl_step_def)
  ultimately show thesis using that inv wf by simp
next
  case True
  have i: "i < 512" and p3: "path3 p" "length p < 3" using p by (auto simp: path3_snoc)
  have Ao: "A \<in> own s" using tree_wf_own [OF wf p3(1) A] .
  obtain c s1 where al: "alloc s = Some (c, s1)" and inv1: "inv s1" and c: "c \<notin> own s"
    and own1: "own s1 = insert c (own s)" and av1: "avail s = Suc (avail s1)"
    and z: "\<And>x. unat (x - c) < 4096 \<Longrightarrow> get s1 x = 0"
    and same: "\<And>b x. b \<in> own s \<Longrightarrow> unat (x - b) < 4096 \<Longrightarrow> get s1 x = get s x"
    using alloc_ok [OF inv av] by blast
  have e1: "ent s1 B j = ent s B j" if "B \<in> own s" "j < 512" for B j
    using that same by (intro entry_at_page) auto
  have z1: "ent s1 c j = 0" if "j < 512" for j
    using that z by (intro entry_at_zero) auto
  let ?e = "table_entry priv (c - off) (ent s A i)"
  let ?s' = "put (store64 ?e (A + 8 * of_nat i) (get s1)) s1"
  have A1: "A \<in> own s1" using Ao own1 by simp
  note w = write_entry [OF inv1 A1 i, where v = ?e]
  have d: "descend alloc get put off priv (A + 8 * of_nat i) s = Some (c, ?s')"
    using True al e1 [OF Ao i] by (simp add: descend_def entry_at_def)
  have old: "ent ?s' B j = ent s B j" if "B \<in> own s" "j < 512" "\<not> (B = A \<and> j = i)" for B j
    using that w(4) [where B = B and j = j] own1 e1 by auto
  have new: "ent ?s' A i = ?e" using w(4) [OF A1 i] by simp
  have zero: "pte_present (ent ?s' c j) = 0" if "j < 512" for j
  proof -
    have "c \<in> own s1" "A \<noteq> c" using own1 c Ao by auto
    then have "ent ?s' c j = 0" using w(4) [where B = c and j = j] z1 that by auto
    then show ?thesis by (simp add: pte_present_def bf_get_def)
  qed
  have fr: "frame_ok off c" using own_frame [OF inv1, of c] own1 by simp
  have pe: "pte_present ?e \<noteq> 0" "child off ?e = c"
    using child_table_entry [OF fr] by (simp_all add: pte_table_entry)
  have wf': "tree_wf off (ent ?s') r (insert c (own s))"
    by (rule tree_wf_link [OF wf A p True c]) (use old pe zero in \<open>auto simp: new\<close>)
  have wk: "tbl_walk off (ent ?s') r q =
      (if prefix (p @ [i]) q then if q = p @ [i] then Some c else None else tbl_walk off (ent s) r q)"
    if "path3 q" for q
    by (rule walk_link [OF wf A p True c]) (use old pe zero that in \<open>auto simp: new\<close>)
  have lf: "leaf off (ent ?s') r q j = leaf off (ent s) r q j" if q: "path3 q" "length q = 3" "j < 512" for q j
  proof (cases "prefix (p @ [i]) q")
    case pre: True
    then obtain q' where q': "q = p @ i # q'" by (auto simp: prefix_def)
    have "tbl_walk off (ent s) r q = None"
      using A True unfolding q' by (induction p arbitrary: r) (auto simp: tbl_step_def split: Option.bind_splits)
    then show ?thesis
      using wk [OF q(1)] pre zero q(3) by (simp add: leaf_def)
  next
    case False
    show ?thesis
    proof (cases "tbl_walk off (ent s) r q")
      case None
      then show ?thesis using wk [OF q(1)] False by (simp add: leaf_def)
    next
      case (Some T)
      have "T \<in> own s" using tree_wf_own [OF wf q(1) Some] .
      moreover have "T \<noteq> A" using tree_wf_inj [OF wf q(1) p3(1) Some] A p3(2) q(2) by auto
      ultimately show ?thesis using wk [OF q(1)] False Some old q(3) by (simp add: leaf_def)
    qed
  qed
  show thesis
    using that [OF d] w(1-3) wf' own1 wk [of "p @ [i]"] p av1 lf by auto
qed

text \<open>An allocation leaves the tree alone.\<close>

lemma alloc_tree:
  assumes inv: "inv s" and wf: "tree_wf off (ent s) r (own s)" and av: "0 < avail s"
  obtains a s' where "alloc s = Some (a, s')" "inv s'" "tree_wf off (ent s') r (own s')" "a \<notin> own s"
    "own s' = insert a (own s)" "avail s = Suc (avail s')"
    "\<And>q j. path3 q \<Longrightarrow> j < 512 \<Longrightarrow> leaf off (ent s') r q j = leaf off (ent s) r q j"
proof -
  obtain a s' where al: "alloc s = Some (a, s')" and s': "inv s'" "a \<notin> own s" "own s' = insert a (own s)"
    "avail s = Suc (avail s')"
    and same: "\<And>b x. b \<in> own s \<Longrightarrow> unat (x - b) < 4096 \<Longrightarrow> get s' x = get s x"
    using alloc_ok [OF inv av] by blast
  have e: "ent s' B j = ent s B j" if "B \<in> own s" "j < 512" for B j
    using that same by (intro entry_at_page) auto
  have wk: "tbl_walk off (ent s') r q = tbl_walk off (ent s) r q" if "path3 q" for q
    using that
  proof (induction q rule: rev_induct)
    case (snoc j q)
    then show ?case
      using tree_wf_own [OF wf, of q] e
      by (cases "tbl_walk off (ent s) r q") (auto simp: tbl_walk_snoc path3_snoc tbl_step_def)
  qed simp
  have "tree_wf off (ent s') r (own s')"
    using wf wk s'(3) unfolding tree_wf_def by auto
  moreover have "leaf off (ent s') r q j = leaf off (ent s) r q j" if "path3 q" "j < 512" for q j
    using wk [OF that(1)] e tree_wf_own [OF wf that(1)] that(2) by (auto simp: leaf_def split: option.split)
  ultimately show thesis using that al s' by blast
qed

end

context frame_supply
begin

text \<open>Writing one bottom-level entry.\<close>

lemma leaf_write:
  fixes v :: u64
  assumes inv: "inv s" and wf: "tree_wf off (ent s) r (own s)" and T: "tbl_walk off (ent s) r p = Some T"
    and p: "path3 p" "length p = 3" and i: "i < 512"
  defines "s' \<equiv> put (store64 v (T + 8 * of_nat i) (get s)) s"
  shows "inv s'" "tree_wf off (ent s') r (own s')" "avail s' = avail s"
    "\<And>q j. path3 q \<Longrightarrow> length q = 3 \<Longrightarrow> j < 512 \<Longrightarrow> leaf off (ent s') r q j =
      (if q = p \<and> j = i then if pte_present v = 0 then None else Some v else leaf off (ent s) r q j)"
proof -
  have To: "T \<in> own s" using tree_wf_own [OF wf p(1) T] .
  note w = write_entry [OF inv To i, where v = v, folded s'_def]
  show "inv s'" "avail s' = avail s" using w by auto
  have E': "ent s' B j = ent s B j" if "B \<in> own s" "j < 512" "B \<noteq> T" for B j
    using w(4) [where B = B and j = j] that by auto
  show "tree_wf off (ent s') r (own s')"
    using tree_wf_leaf [OF wf T p E'] w(2) by simp
  fix q :: "nat list" and j :: nat assume q: "path3 q" "length q = 3" "j < 512"
  have wk: "tbl_walk off (ent s') r q = tbl_walk off (ent s) r q"
    by (rule walk_leaf [OF wf T p E' q(1)])
  show "leaf off (ent s') r q j =
      (if q = p \<and> j = i then if pte_present v = 0 then None else Some v else leaf off (ent s) r q j)"
  proof (cases "tbl_walk off (ent s) r q")
    case None
    then show ?thesis using wk T by (auto simp: leaf_def)
  next
    case (Some B)
    have "B = T \<longleftrightarrow> q = p" using tree_wf_inj [OF wf q(1) p(1) Some] T Some by auto
    then show ?thesis
      using wk Some w(4) [OF tree_wf_own [OF wf q(1) Some] q(3)] by (auto simp: leaf_def)
  qed
qed

lemma map_walk_ok:
  assumes inv: "inv s" and wf: "tree_wf off (ent s) r (own s)" and av: "3 \<le> avail s"
    and i: "i4 < 512" "i3 < 512" "i2 < 512" "i1 < 512"
  obtains e0 s' where "map_walk alloc get put off priv r i4 i3 i2 i1 f s = Some s'" "inv s'"
    "tree_wf off (ent s') r (own s')" "avail s \<le> avail s' + 3"
    "\<And>e. leaf off (ent s) r [i4, i3, i2] i1 = Some e \<Longrightarrow> e0 = e"
    "\<And>q j. path3 q \<Longrightarrow> length q = 3 \<Longrightarrow> j < 512 \<Longrightarrow> leaf off (ent s') r q j =
      (if q = [i4, i3, i2] \<and> j = i1 then if pte_present (f e0) = 0 then None else Some (f e0)
       else leaf off (ent s) r q j)"
    "own s \<subseteq> own s'"
proof -
  have p: "path3 ([] @ [i4])" "path3 ([i4] @ [i3])" "path3 ([i4, i3] @ [i2])"
    using i by (auto simp: path3_def)
  obtain t3 s1 where 1: "descend alloc get put off priv (r + 8 * of_nat i4) s = Some (t3, s1)"
    "inv s1" "tree_wf off (ent s1) r (own s1)" "tbl_walk off (ent s1) r ([] @ [i4]) = Some t3"
    "avail s \<le> Suc (avail s1)"
    and l1: "\<And>q j. path3 q \<Longrightarrow> length q = 3 \<Longrightarrow> j < 512 \<Longrightarrow> leaf off (ent s1) r q j = leaf off (ent s) r q j"
    and o1: "own s \<subseteq> own s1"
    by (rule descend_ok [OF inv wf _ p(1), of r priv]) (use av in auto)
  obtain t2 s2 where 2: "descend alloc get put off priv (t3 + 8 * of_nat i3) s1 = Some (t2, s2)"
    "inv s2" "tree_wf off (ent s2) r (own s2)" "tbl_walk off (ent s2) r ([i4] @ [i3]) = Some t2"
    "avail s1 \<le> Suc (avail s2)"
    and l2: "\<And>q j. path3 q \<Longrightarrow> length q = 3 \<Longrightarrow> j < 512 \<Longrightarrow> leaf off (ent s2) r q j = leaf off (ent s1) r q j"
    and o2: "own s1 \<subseteq> own s2"
    by (rule descend_ok [OF 1(2,3) _ p(2), of t3 priv]) (use av 1 in auto)
  obtain t1 s3 where 3: "descend alloc get put off priv (t2 + 8 * of_nat i2) s2 = Some (t1, s3)"
    "inv s3" "tree_wf off (ent s3) r (own s3)" "tbl_walk off (ent s3) r ([i4, i3] @ [i2]) = Some t1"
    "avail s2 \<le> Suc (avail s3)"
    and l3: "\<And>q j. path3 q \<Longrightarrow> length q = 3 \<Longrightarrow> j < 512 \<Longrightarrow> leaf off (ent s3) r q j = leaf off (ent s2) r q j"
    and o3: "own s2 \<subseteq> own s3"
    by (rule descend_ok [OF 2(2,3) _ p(3), of t2 priv]) (use av 1 2 in auto)
  let ?e0 = "ent s3 t1 i1"
  let ?s' = "put (store64 (f ?e0) (t1 + 8 * of_nat i1) (get s3)) s3"
  have t1: "tbl_walk off (ent s3) r [i4, i3, i2] = Some t1" using 3(4) by simp
  have p3: "path3 [i4, i3, i2]" "length [i4, i3, i2] = 3" using i by (auto simp: path3_def)
  note w = leaf_write [OF 3(2,3) t1 p3 i(4), where v = "f ?e0"]
  have ow: "own ?s' = own s3"
    using write_entry(2) [OF 3(2) tree_wf_own [OF 3(3) p3(1) t1] i(4)] .
  have "map_walk alloc get put off priv r i4 i3 i2 i1 f s = Some ?s'"
    using 1(1) 2(1) 3(1) by (simp add: map_walk_def entry_at_def Let_def)
  moreover have "?e0 = e" if "leaf off (ent s) r [i4, i3, i2] i1 = Some e" for e
  proof -
    have "leaf off (ent s3) r [i4, i3, i2] i1 = Some e"
      using that l1 [OF p3 i(4)] l2 [OF p3 i(4)] l3 [OF p3 i(4)] by simp
    then show ?thesis using t1 by (simp add: leaf_def split: if_splits)
  qed
  ultimately show thesis
    using that [of ?s' ?e0] w 1(5) 2(5) 3(5) l1 l2 l3 o1 o2 o3 ow by simp
qed

end

end
