(* ===== verification/Paging.thy ===== *)
theory Paging
  imports PageTables
begin

text \<open>
  The kernel's paging code, \<^verbatim>\<open>kernel/src/paging/page.cpp\<close>: index extraction, the table walk
  \<open>getPteForAddr\<close>, \<open>mapPage\<close> and the attribute setters, over the memory in the page frame
  allocator's state. The page frame allocator is an instance of the interface \<open>frame_supply\<close>,
  so that what \<open>mapPage\<close> does to a tree of tables follows from the lemmas proved there.

  The memory is indexed by the kernel's linear addresses. \<open>mapPage\<close> also uses physical
  addresses as pointers, through the identity mapping the boot loader sets up: the parameter
  \<open>lin\<close> is that address translation, and \<open>boot_lin\<close> states what the code relies on.
\<close>

section \<open>The code\<close>

definition getPageTableIndicesFromVirtualAddress :: "u64 \<Rightarrow> u64 \<times> u64 \<times> u64 \<times> u64" where
  "getPageTableIndicesFromVirtualAddress vaddr =
    (let vaddr = drop_bit 12 vaddr; ipt = vaddr AND 0x1ff;
         vaddr = drop_bit 9 vaddr; ipdt = vaddr AND 0x1ff;
         vaddr = drop_bit 9 vaddr; ipdpt = vaddr AND 0x1ff;
         vaddr = drop_bit 9 vaddr; ipml4 = vaddr AND 0x1ff
     in (ipml4, ipdpt, ipdt, ipt))"

definition USERSPACE_PAGE :: u64 where "USERSPACE_PAGE = 1"
definition KERNEL_PAGE :: u64 where "KERNEL_PAGE = 0"
definition PAGE_ATTRIB_CACHE_DISABLED :: u8 where "PAGE_ATTRIB_CACHE_DISABLED = 0x01"
definition PAGE_ATTRIB_WRITE_THROUGH :: u8 where "PAGE_ATTRIB_WRITE_THROUGH = 0x02"
definition PAGE_ATTRIB_ACCESS_TYPE :: u8 where "PAGE_ATTRIB_ACCESS_TYPE = 0x04"

text \<open>Pointers to entries of the four levels; \<open>off\<close> is the distance \<open>__va\<close> adds.\<close>

definition getPml4Entry :: "u64 \<Rightarrow> u64 \<Rightarrow> u64" where
  "getPml4Entry vaddr pml4 = pml4 + 8 * (drop_bit 39 vaddr AND 0x1ff)"

definition getPdptEntry :: "u64 \<Rightarrow> u64 \<Rightarrow> u64 \<Rightarrow> u64" where
  "getPdptEntry off vaddr pdpt = physToVirtAddr off (pdpt + 8 * (drop_bit 30 vaddr AND 0x1ff))"

definition getPdtEntry :: "u64 \<Rightarrow> u64 \<Rightarrow> u64 \<Rightarrow> u64" where
  "getPdtEntry off vaddr pdt = physToVirtAddr off (pdt + 8 * (drop_bit 21 vaddr AND 0x1ff))"

definition getPteFromPageTable :: "u64 \<Rightarrow> u64 \<Rightarrow> u64 \<Rightarrow> u64" where
  "getPteFromPageTable off vaddr pt = physToVirtAddr off (pt + 8 * (drop_bit 12 vaddr AND 0x1ff))"

definition getNextLevelPageTable :: "u64 \<Rightarrow> u64" where
  "getNextLevelPageTable entry = push_bit 12 (pte_pageFrameNumber entry)"

text \<open>The pointer to the bottom-level entry, 0 for \<open>nullptr\<close>.\<close>

definition getPteForAddr :: "pfa \<Rightarrow> u64 \<Rightarrow> u64 \<Rightarrow> u64" where
  "getPteForAddr s vaddr pml4 =
    (let m = vram s; off = va_off s;
         pml4Entry = getPml4Entry vaddr pml4
     in if pte_present (load64 m pml4Entry) = 0 then 0
        else let pdptEntry = getPdptEntry off vaddr (getNextLevelPageTable (load64 m pml4Entry))
     in if pte_present (load64 m pdptEntry) = 0 then 0
        else let pdtEntry = getPdtEntry off vaddr (getNextLevelPageTable (load64 m pdptEntry))
     in if pte_present (load64 m pdtEntry) = 0 then 0
        else let pte = getPteFromPageTable off vaddr (getNextLevelPageTable (load64 m pdtEntry))
     in if pte_present (load64 m pte) = 0 then 0 else pte)"

text \<open>
  One level of \<open>mapPage\<close>: the (physical) address of the next table, requested and entered when
  the entry is not present. \<open>ep\<close> is the address of the entry.
\<close>

definition next_table :: "u64 \<Rightarrow> pfa \<Rightarrow> (u64 \<times> pfa) option" where
  "next_table ep s =
    (if pte_present (load64 (vram s) ep) = 0
     then do {
       (page, s) \<leftarrow> requestFreePageZeroed s;
       let t = virtToPhysAddr (va_off s) page;
       let e = load64 (vram s) ep;
       let e = set_pte_present 1 e;
       let e = set_pte_readWrite 1 e;
       let e = set_pte_userSupervisor USERSPACE_PAGE e;
       let e = set_pte_pageFrameNumber (drop_bit 12 t) e;
       Some (t, s\<lparr>vram := store64 e ep (vram s)\<rparr>)
     }
     else Some (push_bit 12 (pte_pageFrameNumber (load64 (vram s) ep)), s))"

text \<open>
  The bottom-level entry. An attribute is assigned to a 1-bit field as \<open>attribs & MASK\<close>, so
  only bit 0 of the masked value is stored.
\<close>

definition leaf_entry :: "u64 \<Rightarrow> u8 \<Rightarrow> u8 \<Rightarrow> u64 \<Rightarrow> u64" where
  "leaf_entry paddr privilegeLevel attribs e =
    (let e = set_pte_present 1 e;
         e = set_pte_readWrite 1 e;
         e = set_pte_userSupervisor (ucast privilegeLevel) e;
         e = set_pte_pageCacheDisabled (ucast (attribs AND PAGE_ATTRIB_CACHE_DISABLED)) e;
         e = set_pte_pageWriteThrough (ucast (attribs AND PAGE_ATTRIB_WRITE_THROUGH)) e;
         e = set_pte_pageAccessType (ucast (attribs AND PAGE_ATTRIB_ACCESS_TYPE)) e
     in set_pte_pageFrameNumber (drop_bit 12 paddr) e)"

definition mapPage ::
  "(u64 \<Rightarrow> u64) \<Rightarrow> u64 \<Rightarrow> u64 \<Rightarrow> u8 \<Rightarrow> u8 \<Rightarrow> u64 \<Rightarrow> pfa \<Rightarrow> pfa option" where
  "mapPage lin vaddr paddr privilegeLevel attribs pml4 s =
    (let (pml4Index, pdptIndex, pdtIndex, ptIndex) = getPageTableIndicesFromVirtualAddress vaddr
     in do {
       (pdpt, s) \<leftarrow> next_table (lin (pml4 + 8 * pml4Index)) s;
       (pdt, s) \<leftarrow> next_table (lin (pdpt + 8 * pdptIndex)) s;
       (pt, s) \<leftarrow> next_table (lin (pdt + 8 * pdtIndex)) s;
       let pte = lin (pt + 8 * ptIndex);
       Some (s\<lparr>vram := store64 (leaf_entry paddr privilegeLevel attribs (load64 (vram s) pte)) pte (vram s)\<rparr>)
     })"

text \<open>
  The attribute setters. \<open>None\<close> is the access through the null pointer when the address is
  not mapped; the following \<open>invlpg\<close> has no effect on memory.
\<close>

definition update_pte :: "(u64 \<Rightarrow> u64) \<Rightarrow> u64 \<Rightarrow> u64 \<Rightarrow> pfa \<Rightarrow> pfa option" where
  "update_pte f vaddr pml4 s =
    (let pte = getPteForAddr s vaddr pml4
     in if pte = 0 then None
        else Some (s\<lparr>vram := store64 (f (load64 (vram s) pte)) pte (vram s)\<rparr>))"

definition changePageAttribs :: "u64 \<Rightarrow> u8 \<Rightarrow> u64 \<Rightarrow> pfa \<Rightarrow> pfa option" where
  "changePageAttribs vaddr attribs pml4 s =
    update_pte (\<lambda>e.
      let e = set_pte_pageCacheDisabled (ucast (attribs AND PAGE_ATTRIB_CACHE_DISABLED)) e;
          e = set_pte_pageWriteThrough (ucast (attribs AND PAGE_ATTRIB_WRITE_THROUGH)) e
      in set_pte_pageAccessType (ucast (attribs AND PAGE_ATTRIB_ACCESS_TYPE)) e) vaddr pml4 s"

definition markPageUncacheable :: "u64 \<Rightarrow> u64 \<Rightarrow> pfa \<Rightarrow> pfa option" where
  "markPageUncacheable vaddr pml4 s = update_pte (set_pte_pageCacheDisabled 1) vaddr pml4 s"

definition markPageWriteThrough :: "u64 \<Rightarrow> u64 \<Rightarrow> pfa \<Rightarrow> pfa option" where
  "markPageWriteThrough vaddr pml4 s = update_pte (set_pte_pageWriteThrough 1) vaddr pml4 s"

definition markPageAccessType :: "u64 \<Rightarrow> u64 \<Rightarrow> pfa \<Rightarrow> pfa option" where
  "markPageAccessType vaddr pml4 s = update_pte (set_pte_pageAccessType 1) vaddr pml4 s"

definition createUserspacePml4 :: "u64 \<Rightarrow> pfa \<Rightarrow> (u64 \<times> pfa) option" where
  "createUserspacePml4 kernelPml4 s = do {
     (userPml4, s) \<leftarrow> requestFreePageZeroed s;
     Some (userPml4, s\<lparr>vram := store64 (load64 (vram s) (kernelPml4 + 8 * 511)) (userPml4 + 8 * 511) (vram s)\<rparr>)
   }"

text \<open>\<open>~(PAGE_SIZE - 1)\<close> is an int in the source; its conversion to 64 bits is sign-extending.\<close>

definition pageAlignAddress :: "u64 \<Rightarrow> u64" where
  "pageAlignAddress addr = (addr + PAGE_SIZE - 1) AND NOT (PAGE_SIZE - 1)"

section \<open>The page frame allocator supplies frames\<close>

abbreviation put_vram :: "mem \<Rightarrow> pfa \<Rightarrow> pfa" where
  "put_vram m s \<equiv> s\<lparr>vram := m\<rparr>"

text \<open>The bytes of the bitmap, and a page's distance from them.\<close>

definition in_bitmap :: "pfa \<Rightarrow> u64 \<Rightarrow> bool" where
  "in_bitmap s x \<longleftrightarrow> unat (x - bm_buffer s) < unat (bm_size s)"

definition off_bitmap :: "pfa \<Rightarrow> u64 \<Rightarrow> bool" where
  "off_bitmap s a \<longleftrightarrow> (\<forall>x. unat (x - a) < 4096 \<longrightarrow> \<not> in_bitmap s x)"

definition pfa_pos :: "pfa \<Rightarrow> nat" where
  "pfa_pos s = unat (m_lastTrackedFreePage s) div 4096"

definition supply_inv :: "u64 \<Rightarrow> nat \<Rightarrow> pfa \<Rightarrow> bool" where
  "supply_inv off n s \<longleftrightarrow> pfa_wf s n (pfa_pos s) \<and> va_off s = off \<and> n < 2 ^ 36 \<and>
    (\<forall>j < n. \<not> page_used s (of_nat j) \<longrightarrow> off_bitmap s (pg j + off))"

definition supply_own :: "u64 \<Rightarrow> nat \<Rightarrow> pfa \<Rightarrow> u64 set" where
  "supply_own off n s = {pg j + off | j. j < n \<and> page_used s (of_nat j) \<and> off_bitmap s (pg j + off)}"

definition supply_avail :: "nat \<Rightarrow> pfa \<Rightarrow> nat" where
  "supply_avail n s = length (filter (\<lambda>j. \<not> page_used s (of_nat j)) [pfa_pos s..<n])"

lemma pfa_pos_pg: "m_lastTrackedFreePage s = pg i \<Longrightarrow> i < 2 ^ 52 \<Longrightarrow> pfa_pos s = i"
  by (simp add: pfa_pos_def unat_pg)

lemma frame_ok_pg: "j < 2 ^ 36 \<Longrightarrow> frame_ok off (pg j + off)"
  by (simp add: frame_ok_def unat_pg)

text \<open>Different pages do not overlap.\<close>

lemma pages_disjoint:
  assumes "i < 2 ^ 36" "j < 2 ^ 36" "unat (x - (pg i + off)) < 4096" "unat (x - (pg j + off)) < 4096"
  shows "i = j"
proof -
  have pos: "unat (x - off) div 4096 = k" if "k < 2 ^ 36" "unat (x - (pg k + off)) < 4096" for k
  proof -
    have "x - off = pg k + of_nat (unat (x - (pg k + off)))"
      by simp
    moreover have "unat (pg k + of_nat (unat (x - (pg k + off)))) = unat (pg k) + unat (x - (pg k + off))"
      using that by (intro unat_offset) (simp add: unat_pg)
    ultimately have "unat (x - off) = k * 4096 + unat (x - (pg k + off))"
      using that(1) by (simp add: unat_pg)
    with that(2) show ?thesis by simp
  qed
  from pos [OF assms(1,3)] pos [OF assms(2,4)] show ?thesis by simp
qed

lemma pg_eq: "i < 2 ^ 52 \<Longrightarrow> j < 2 ^ 52 \<Longrightarrow> pg i = pg j \<longleftrightarrow> i = j"
  by (metis pg_less less_irrefl linorder_neqE_nat)

text \<open>The bitmap bits of pages inside the memory are read from bitmap bytes.\<close>

lemma page_used_bitmap_cong:
  assumes "pfa_wf s n i" "j < n" "bm_buffer s' = bm_buffer s" "\<And>x. in_bitmap s x \<Longrightarrow> vram s' x = vram s x"
  shows "page_used s' (of_nat j) = page_used s (of_nat j)"
proof -
  have "unat (of_nat j div 8 :: u64) = j div 8"
    using assms(1,2) by (simp add: unat_div unat64_of_nat pfa_wf_def)
  then have "in_bitmap s (bm_buffer s + of_nat j div 8)"
    using assms(1,2) by (simp add: in_bitmap_def pfa_wf_def less_mult_imp_div_less)
  then show ?thesis
    using assms(3,4) by (simp add: page_used_def)
qed

lemma first_free_avail:
  assumes "0 < length (filter (\<lambda>j. \<not> page_used s (of_nat j)) [i..<n])"
  obtains j where "first_free s i n = Some j"
    "length (filter (\<lambda>j. \<not> page_used s (of_nat j)) [i..<n]) =
      Suc (length (filter (\<lambda>j. \<not> page_used s (of_nat j)) [Suc j..<n]))"
proof -
  have "\<exists>j. first_free s i n = Some j \<and> length (filter (\<lambda>j. \<not> page_used s (of_nat j)) [i..<n]) =
      Suc (length (filter (\<lambda>j. \<not> page_used s (of_nat j)) [Suc j..<n]))"
    using assms
  proof (induction "n - i" arbitrary: i)
    case (Suc d)
    then have i: "i < n" by simp
    show ?case
    proof (cases "page_used s (of_nat i)")
      case True
      then show ?thesis
        using Suc.hyps(1) [of "Suc i"] Suc.hyps(2) Suc.prems i
        by (simp add: first_free_step [of s i] upt_conv_Cons [OF i])
    next
      case False
      then show ?thesis
        using i by (simp add: first_free_step [of s i] upt_conv_Cons [OF i])
    qed
  qed simp
  then show thesis using that by blast
qed

lemma requestFreePageZeroed_result:
  assumes "pfa_wf s n i" "first_free s i n = Some j"
  shows "requestFreePageZeroed s = Some (pg j + va_off s,
    (claim s (of_nat j))\<lparr>m_lastTrackedFreePage := pg (Suc j),
      vram := setn (vram (claim s (of_nat j))) (pg j + va_off s) 0 4096\<rparr>)"
  using requestFreePage_result [OF assms(1)] assms(2)
  by (simp add: requestFreePageZeroed_def zeromem_def memset_fills PAGE_SIZE_def physToVirtAddr_def)

lemma claim_vram:
  assumes "pfa_wf s n i" "j < n" "\<not> in_bitmap s x"
  shows "vram (claim s (of_nat j)) x = vram s x"
proof -
  have "unat (of_nat j div 8 :: u64) = j div 8"
    using assms(1,2) by (simp add: unat_div unat64_of_nat pfa_wf_def)
  then have "in_bitmap s (bm_buffer s + of_nat j div 8)"
    using assms(1,2) by (simp add: in_bitmap_def pfa_wf_def less_mult_imp_div_less)
  then have "x \<noteq> bm_buffer s + of_nat j div 8" using assms(3) by auto
  then show ?thesis by (simp add: claim_def with_bit_def Let_def)
qed

lemma supply_alloc:
  assumes inv: "supply_inv off n s" and av: "0 < supply_avail n s"
  shows "\<exists>a s'. requestFreePageZeroed s = Some (a, s') \<and> supply_inv off n s' \<and> a \<notin> supply_own off n s \<and>
    supply_own off n s' = insert a (supply_own off n s) \<and> supply_avail n s = Suc (supply_avail n s') \<and>
    (\<forall>x. unat (x - a) < 4096 \<longrightarrow> vram s' x = 0) \<and>
    (\<forall>b \<in> supply_own off n s. \<forall>x. unat (x - b) < 4096 \<longrightarrow> vram s' x = vram s x)"
proof -
  let ?i = "pfa_pos s"
  have wf: "pfa_wf s n ?i" and off: "va_off s = off" and n: "n < 2 ^ 36"
    and fb: "\<And>j. j < n \<Longrightarrow> \<not> page_used s (of_nat j) \<Longrightarrow> off_bitmap s (pg j + off)"
    using inv by (auto simp: supply_inv_def)
  obtain j where ff: "first_free s ?i n = Some j"
    and len: "supply_avail n s = Suc (length (filter (\<lambda>j. \<not> page_used s (of_nat j)) [Suc j..<n]))"
    using first_free_avail av by (metis supply_avail_def)
  note j = first_free_Some [OF ff]
  let ?a = "pg j + off"
  let ?s1 = "(claim s (of_nat j))\<lparr>m_lastTrackedFreePage := pg (Suc j)\<rparr>"
  define s' where "s' = ?s1\<lparr>vram := setn (vram (claim s (of_nat j))) ?a 0 4096\<rparr>"
  have req: "requestFreePageZeroed s = Some (?a, s')"
    using requestFreePageZeroed_result [OF wf ff] off by (simp add: s'_def)
  have bm: "in_bitmap s' = in_bitmap s" "off_bitmap s' = off_bitmap s"
    by (simp_all add: fun_eq_iff in_bitmap_def off_bitmap_def s'_def)
  have pos: "pfa_pos s' = Suc j"
    using j n by (intro pfa_pos_pg) (simp_all add: s'_def)
  have wf1: "pfa_wf ?s1 n (Suc j)" using wf j by (simp add: pfa_wf_def)
  then have wf': "pfa_wf s' n (Suc j)" by (simp add: pfa_wf_def s'_def)
  have le: "(of_nat j :: u64) \<le> bm_size s * 8"
    using index_in_bitmap [OF wf, of j] j by simp
  have used: "page_used s' (of_nat q) = (q = j \<or> page_used s (of_nat q))" if "q < n" for q
  proof -
    have "page_used s' (of_nat q) = page_used ?s1 (of_nat q)"
    proof (rule page_used_bitmap_cong [OF wf1 that])
      fix x assume "in_bitmap ?s1 x"
      then have "in_bitmap s x" by (simp add: in_bitmap_def)
      then have "\<not> unat (x - ?a) < 4096" using fb j by (auto simp: off_bitmap_def)
      then show "vram s' x = vram ?s1 x" by (simp add: s'_def setn_def)
    qed (simp add: s'_def)
    then show ?thesis
      using that j n by (simp add: page_used_claim [OF le] of_nat_index_eq)
  qed
  have "supply_own off n s' = insert ?a (supply_own off n s)"
    unfolding supply_own_def bm using used j fb [of j] by auto
  moreover have "?a \<notin> supply_own off n s"
    using j n by (auto simp: supply_own_def pg_eq)
  moreover have "supply_inv off n s'"
    using wf' used fb n off unfolding supply_inv_def bm pos by (auto simp: s'_def)
  moreover have "supply_avail n s = Suc (supply_avail n s')"
  proof -
    have "filter (\<lambda>q. \<not> page_used s' (of_nat q)) [Suc j..<n] = filter (\<lambda>q. \<not> page_used s (of_nat q)) [Suc j..<n]"
      using used by (intro filter_cong) auto
    then show ?thesis using len pos by (simp add: supply_avail_def)
  qed
  moreover have "vram s' x = 0" if "unat (x - ?a) < 4096" for x
    using that by (simp add: s'_def setn_def)
  moreover have "vram s' x = vram s x" if b: "b \<in> supply_own off n s" "unat (x - b) < 4096" for b x
  proof -
    obtain q where q: "q < n" "page_used s (of_nat q)" "off_bitmap s (pg q + off)" "b = pg q + off"
      using b(1) by (auto simp: supply_own_def)
    then have "\<not> in_bitmap s x" using b(2) by (auto simp: off_bitmap_def)
    moreover have "\<not> unat (x - ?a) < 4096"
      using pages_disjoint [of j q x off] q b(2) j n by auto
    ultimately show ?thesis
      using claim_vram [OF wf, of j x] j by (simp add: s'_def setn_def)
  qed
  ultimately show ?thesis using req by blast
qed

lemma supply_put:
  assumes inv: "supply_inv off n s" and a: "a \<in> supply_own off n s"
    and m: "\<And>x. 4096 \<le> unat (x - a) \<Longrightarrow> m x = vram s x"
  shows "supply_inv off n (put_vram m s) \<and> supply_own off n (put_vram m s) = supply_own off n s \<and>
    supply_avail n (put_vram m s) = supply_avail n s"
proof -
  have wf: "pfa_wf s n (pfa_pos s)" using inv by (simp add: supply_inv_def)
  have ob: "off_bitmap s a" using a by (auto simp: supply_own_def)
  have used: "page_used (put_vram m s) (of_nat q) = page_used s (of_nat q)" if "q < n" for q
  proof (rule page_used_bitmap_cong [OF wf that])
    fix x assume "in_bitmap s x"
    then have "4096 \<le> unat (x - a)" using ob by (auto simp: off_bitmap_def not_less [symmetric])
    then show "vram (put_vram m s) x = vram s x" using m by simp
  qed simp
  have eq: "off_bitmap (put_vram m s) = off_bitmap s" "pfa_pos (put_vram m s) = pfa_pos s"
    by (simp_all add: fun_eq_iff off_bitmap_def in_bitmap_def pfa_pos_def)
  have "filter (\<lambda>q. \<not> page_used (put_vram m s) (of_nat q)) [pfa_pos s..<n] =
      filter (\<lambda>q. \<not> page_used s (of_nat q)) [pfa_pos s..<n]"
    using used by (intro filter_cong) auto
  then show ?thesis
    using inv used wf unfolding supply_inv_def supply_own_def supply_avail_def eq
    by (auto simp: pfa_wf_def)
qed

interpretation ksup: frame_supply requestFreePageZeroed vram put_vram off "supply_inv off n"
  "supply_own off n" "supply_avail n" for off n
proof unfold_locales
  show "frame_ok off a" if "supply_inv off n s" "a \<in> supply_own off n s" for s a
    using that frame_ok_pg by (auto simp: supply_own_def supply_inv_def)
qed (use supply_alloc supply_put in \<open>auto\<close>)

section \<open>Walks\<close>

text \<open>The index of a level, as a number.\<close>

definition vidx :: "nat \<Rightarrow> u64 \<Rightarrow> nat" where
  "vidx k v = unat (drop_bit k v AND 0x1ff)"

definition vpath :: "u64 \<Rightarrow> nat list" where
  "vpath v = [vidx 39 v, vidx 30 v, vidx 21 v]"

lemma vidx_less: "vidx k v < 512"
proof -
  have "drop_bit k v AND 0x1ff = take_bit 9 (drop_bit k v)"
    by (simp add: take_bit_eq_mask mask_eq_exp_minus_1)
  then show ?thesis
    using take_bit_nat_less_exp [of 9 "unat (drop_bit k v)"] by (simp add: vidx_def unsigned_take_bit_eq)
qed

lemma of_nat_vidx: "of_nat (vidx k v) = drop_bit k v AND 0x1ff"
  by (simp add: vidx_def)

lemma indices_vidx:
  "getPageTableIndicesFromVirtualAddress v =
    (of_nat (vidx 39 v), of_nat (vidx 30 v), of_nat (vidx 21 v), of_nat (vidx 12 v))"
  by (simp add: getPageTableIndicesFromVirtualAddress_def Let_def of_nat_vidx drop_bit_drop_bit)

lemma vpath_path3: "path3 (vpath v)" "length (vpath v) = 3"
  by (simp_all add: vpath_def path3_def vidx_less)

text \<open>What the processor finds for an address: the present bottom-level entry.\<close>

definition pte_of :: "pfa \<Rightarrow> u64 \<Rightarrow> u64 \<Rightarrow> u64 option" where
  "pte_of s pml4 v = leaf (va_off s) (entry_at (vram s)) pml4 (vpath v) (vidx 12 v)"

lemma getPteForAddr_walk:
  "getPteForAddr s v pml4 =
    (case tbl_walk (va_off s) (entry_at (vram s)) pml4 (vpath v) of None \<Rightarrow> 0
     | Some T \<Rightarrow> if pte_present (entry_at (vram s) T (vidx 12 v)) = 0 then 0 else T + 8 * of_nat (vidx 12 v))"
  by (simp add: getPteForAddr_def Let_def vpath_def tbl_step_def entry_at_def of_nat_vidx getPml4Entry_def
      getPdptEntry_def getPdtEntry_def getPteFromPageTable_def physToVirtAddr_def child_def
      getNextLevelPageTable_def add.assoc add.commute [of _ "va_off s"] add.left_commute [of _ "va_off s"])

lemma getPteForAddr_pte_of:
  "getPteForAddr s v pml4 \<noteq> 0 \<Longrightarrow> pte_of s pml4 v = Some (load64 (vram s) (getPteForAddr s v pml4))"
  "pte_of s pml4 v = None \<Longrightarrow> getPteForAddr s v pml4 = 0"
  "pte_of s pml4 v = Some e \<Longrightarrow> load64 (vram s) (getPteForAddr s v pml4) = e"
  by (auto simp: getPteForAddr_walk pte_of_def leaf_def entry_at_def split: option.splits if_splits)

section \<open>mapPage extends the tree\<close>

text \<open>
  What the boot loader's tables give: a physical address of the memory and its linear
  address both denote the linear one.
\<close>

definition boot_lin :: "(u64 \<Rightarrow> u64) \<Rightarrow> u64 \<Rightarrow> nat \<Rightarrow> bool" where
  "boot_lin lin off n \<longleftrightarrow> (\<forall>p. unat p < 4096 * n \<longrightarrow> lin p = p + off \<and> lin (p + off) = p + off)"

lemma lin_entry:
  assumes "boot_lin lin off n" "supply_inv off n s" "T \<in> supply_own off n s" "i < 512"
  shows "lin (T - off + 8 * of_nat i) = T + 8 * of_nat i" "lin (T + 8 * of_nat i) = T + 8 * of_nat i"
proof -
  obtain j where j: "j < n" "T = pg j + off" "j < 2 ^ 36"
    using assms(2,3) by (auto simp: supply_own_def supply_inv_def)
  have u: "unat (T - off + 8 * of_nat i) < 4096 * n"
  proof -
    have "T - off + 8 * of_nat i = pg j + of_nat (8 * i)"
      using j(2) by simp
    moreover have "unat (pg j + of_nat (8 * i)) = unat (pg j) + 8 * i"
      using j assms(4) by (intro unat_offset) (simp add: unat_pg)
    ultimately have "unat (T - off + 8 * of_nat i) = j * 4096 + 8 * i"
      using j by (simp add: unat_pg)
    with j(1) assms(4) show ?thesis by simp
  qed
  have "T - off + 8 * of_nat i + off = T + 8 * of_nat i" by simp
  with u assms(1) show "lin (T - off + 8 * of_nat i) = T + 8 * of_nat i" "lin (T + 8 * of_nat i) = T + 8 * of_nat i"
    unfolding boot_lin_def by metis+
qed

lemma next_table_descend:
  assumes "supply_inv off n s" "0 < supply_avail n s"
  shows "next_table ep s =
    map_option (\<lambda>(t, s'). (t - off, s')) (descend requestFreePageZeroed vram put_vram off USERSPACE_PAGE ep s)"
proof -
  obtain a s' where "requestFreePageZeroed s = Some (a, s')" "supply_inv off n s'"
    using supply_alloc [OF assms] by blast
  then show ?thesis
    by (simp add: next_table_def descend_def child_def table_entry_def supply_inv_def virtToPhysAddr_def Let_def)
qed

lemma mapPage_map_walk:
  assumes inv: "supply_inv off n s" and wf: "tree_wf off (entry_at (vram s)) pml4 (supply_own off n s)"
    and av: "3 \<le> supply_avail n s" and lin: "boot_lin lin off n"
  shows "mapPage lin v pa priv attribs pml4 s =
    map_walk requestFreePageZeroed vram put_vram off USERSPACE_PAGE pml4 (vidx 39 v) (vidx 30 v) (vidx 21 v)
      (vidx 12 v) (leaf_entry pa priv attribs) s"
proof -
  let ?d = "descend requestFreePageZeroed vram put_vram off USERSPACE_PAGE"
  have p: "path3 ([] @ [vidx 39 v])" "path3 ([vidx 39 v] @ [vidx 30 v])"
    "path3 ([vidx 39 v, vidx 30 v] @ [vidx 21 v])"
    by (auto simp: path3_def vidx_less)
  have r: "pml4 \<in> supply_own off n s"
    using tree_wf_own [OF wf, of "[]"] by (simp add: path3_def)
  obtain t3 s1 where 1: "?d (pml4 + 8 * of_nat (vidx 39 v)) s = Some (t3, s1)"
    "supply_inv off n s1" "tree_wf off (entry_at (vram s1)) pml4 (supply_own off n s1)"
    "tbl_walk off (entry_at (vram s1)) pml4 ([] @ [vidx 39 v]) = Some t3" "supply_avail n s \<le> Suc (supply_avail n s1)"
    by (rule ksup.descend_ok [OF inv wf _ p(1), of pml4 USERSPACE_PAGE]) (use av in auto)
  obtain t2 s2 where 2: "?d (t3 + 8 * of_nat (vidx 30 v)) s1 = Some (t2, s2)"
    "supply_inv off n s2" "tree_wf off (entry_at (vram s2)) pml4 (supply_own off n s2)"
    "tbl_walk off (entry_at (vram s2)) pml4 ([vidx 39 v] @ [vidx 30 v]) = Some t2" "supply_avail n s1 \<le> Suc (supply_avail n s2)"
    by (rule ksup.descend_ok [OF 1(2,3) _ p(2), of t3 USERSPACE_PAGE]) (use av 1 in auto)
  obtain t1 s3 where 3: "?d (t2 + 8 * of_nat (vidx 21 v)) s2 = Some (t1, s3)"
    "supply_inv off n s3" "tree_wf off (entry_at (vram s3)) pml4 (supply_own off n s3)"
    "tbl_walk off (entry_at (vram s3)) pml4 ([vidx 39 v, vidx 30 v] @ [vidx 21 v]) = Some t1"
    by (rule ksup.descend_ok [OF 2(2,3) _ p(3), of t2 USERSPACE_PAGE]) (use av 1 2 in auto)
  have t: "t3 \<in> supply_own off n s1" "t2 \<in> supply_own off n s2" "t1 \<in> supply_own off n s3"
    using tree_wf_own [OF 1(3) p(1) 1(4)] tree_wf_own [OF 2(3) p(2) 2(4)] tree_wf_own [OF 3(3) p(3) 3(4)] .
  have nt: "next_table (pml4 + 8 * of_nat (vidx 39 v)) s = Some (t3 - off, s1)"
    "next_table (t3 + 8 * of_nat (vidx 30 v)) s1 = Some (t2 - off, s2)"
    "next_table (t2 + 8 * of_nat (vidx 21 v)) s2 = Some (t1 - off, s3)"
    using next_table_descend [OF inv] next_table_descend [OF 1(2)] next_table_descend [OF 2(2)]
      1(1,5) 2(1,5) 3(1) av by simp_all
  show ?thesis
    using nt 1(1) 2(1) 3(1) lin_entry(2) [OF lin inv r vidx_less]
      lin_entry(1) [OF lin 1(2) t(1) vidx_less] lin_entry(1) [OF lin 2(2) t(2) vidx_less]
      lin_entry(1) [OF lin 3(2) t(3) vidx_less]
    by (simp add: mapPage_def indices_vidx map_walk_def Let_def)
qed

lemma leaf_entry_fields:
  "pte_present (leaf_entry pa priv attribs e) = 1"
  "pte_readWrite (leaf_entry pa priv attribs e) = 1"
  "pte_userSupervisor (leaf_entry pa priv attribs e) = take_bit 1 (ucast priv)"
  "pte_pageFrameNumber (leaf_entry pa priv attribs e) = take_bit 36 (drop_bit 12 pa)"
  "pte_pageCacheDisabled (leaf_entry pa priv attribs e) = take_bit 1 (ucast (attribs AND 1))"
  "pte_pageWriteThrough (leaf_entry pa priv attribs e) = take_bit 1 (ucast (attribs AND 2))"
  "pte_pageAccessType (leaf_entry pa priv attribs e) = take_bit 1 (ucast (attribs AND 4))"
  by (simp_all add: leaf_entry_def Let_def pte_defs bf_get_set_same bf_get_set_other
      PAGE_ATTRIB_CACHE_DISABLED_def PAGE_ATTRIB_WRITE_THROUGH_def PAGE_ATTRIB_ACCESS_TYPE_def)

lemma mapPage_ok:
  assumes inv: "supply_inv off n s" and wf: "tree_wf off (entry_at (vram s)) pml4 (supply_own off n s)"
    and av: "3 \<le> supply_avail n s" and lin: "boot_lin lin off n"
  obtains s' e0 where "mapPage lin v pa priv attribs pml4 s = Some s'" "supply_inv off n s'"
    "tree_wf off (entry_at (vram s')) pml4 (supply_own off n s')" "supply_avail n s \<le> supply_avail n s' + 3"
    "supply_own off n s \<subseteq> supply_own off n s'" "pte_of s' pml4 v = Some (leaf_entry pa priv attribs e0)"
    "\<And>v'. getPageTableIndicesFromVirtualAddress v' \<noteq> getPageTableIndicesFromVirtualAddress v \<Longrightarrow>
      pte_of s' pml4 v' = pte_of s pml4 v'"
proof -
  obtain e0 s' where m: "map_walk requestFreePageZeroed vram put_vram off USERSPACE_PAGE pml4 (vidx 39 v)
      (vidx 30 v) (vidx 21 v) (vidx 12 v) (leaf_entry pa priv attribs) s = Some s'" "supply_inv off n s'"
    "tree_wf off (entry_at (vram s')) pml4 (supply_own off n s')" "supply_avail n s \<le> supply_avail n s' + 3"
    "supply_own off n s \<subseteq> supply_own off n s'"
    and l: "\<And>q j. path3 q \<Longrightarrow> length q = 3 \<Longrightarrow> j < 512 \<Longrightarrow> leaf off (entry_at (vram s')) pml4 q j =
      (if q = [vidx 39 v, vidx 30 v, vidx 21 v] \<and> j = vidx 12 v
       then if pte_present (leaf_entry pa priv attribs e0) = 0 then None else Some (leaf_entry pa priv attribs e0)
       else leaf off (entry_at (vram s)) pml4 q j)"
    by (rule ksup.map_walk_ok [OF inv wf av vidx_less vidx_less vidx_less vidx_less,
        where priv = USERSPACE_PAGE and f = "leaf_entry pa priv attribs"]) blast
  have vo: "va_off s = off" "va_off s' = off" using inv m(2) by (simp_all add: supply_inv_def)
  let ?e = "leaf_entry pa priv attribs e0"
  have e: "pte_of s' pml4 v = Some ?e"
    using l [OF vpath_path3 vidx_less, of v 12 v] vo by (simp add: pte_of_def vpath_def leaf_entry_fields)
  have "pte_of s' pml4 v' = pte_of s pml4 v'"
    if "getPageTableIndicesFromVirtualAddress v' \<noteq> getPageTableIndicesFromVirtualAddress v" for v'
    using that l [OF vpath_path3 vidx_less, of v' 12 v'] vo
    by (auto simp: pte_of_def vpath_def indices_vidx)
  then show thesis
    using that mapPage_map_walk [OF inv wf av lin] m e by simp
qed

text \<open>
  C3: \<open>mapPage\<close>. On a well-formed tree of tables, with three free pages left, the call
  returns, the tree and the allocator stay well-formed, the address is afterwards mapped to
  the given frame with the given privilege, and the entry the processor finds for every
  address of any other page is what it was.
\<close>

theorem mapPage_correct:
  assumes inv: "supply_inv off n s" and wf: "tree_wf off (entry_at (vram s)) pml4 (supply_own off n s)"
    and av: "3 \<le> supply_avail n s" and lin: "boot_lin lin off n"
  shows "\<exists>s' e. mapPage lin v pa priv attribs pml4 s = Some s' \<and> supply_inv off n s' \<and>
    tree_wf off (entry_at (vram s')) pml4 (supply_own off n s') \<and>
    pte_of s' pml4 v = Some e \<and> load64 (vram s') (getPteForAddr s' v pml4) = e \<and>
    pte_present e = 1 \<and> pte_userSupervisor e = take_bit 1 (ucast priv) \<and>
    pte_pageFrameNumber e = take_bit 36 (drop_bit 12 pa) \<and>
    (\<forall>v'. getPageTableIndicesFromVirtualAddress v' \<noteq> getPageTableIndicesFromVirtualAddress v \<longrightarrow>
      pte_of s' pml4 v' = pte_of s pml4 v')"
proof -
  obtain s' e0 where "mapPage lin v pa priv attribs pml4 s = Some s'" "supply_inv off n s'"
    "tree_wf off (entry_at (vram s')) pml4 (supply_own off n s')"
    and e: "pte_of s' pml4 v = Some (leaf_entry pa priv attribs e0)"
    and "\<And>v'. getPageTableIndicesFromVirtualAddress v' \<noteq> getPageTableIndicesFromVirtualAddress v \<Longrightarrow>
      pte_of s' pml4 v' = pte_of s pml4 v'"
    by (rule mapPage_ok [OF inv wf av lin, where v = v and pa = pa and priv = priv and attribs = attribs]) blast
  then show ?thesis using getPteForAddr_pte_of(3) [OF e] by (auto simp: leaf_entry_fields)
qed

text \<open>\<open>n\<close> pages of zeroed memory, page 0 holding an empty top-level table.\<close>

definition pfa_zero :: "nat \<Rightarrow> pfa" where
  "pfa_zero n = \<lparr>m_totalSystemMemory = pg n, m_freeSystemMemory = pg (n - 1), m_usedSystemMemory = 0x1000,
     m_lastTrackedFreePage = 0, bm_size = of_nat (n div 8 + 1), bm_buffer = 0x500000, kpage_allocator_lock = 0,
     kpage_request_lock = 0, va_off = 0xffff800000000000, vram = (\<lambda>x. if x = 0x500000 then 1 else 0)\<rparr>"

definition high_lin :: "u64 \<Rightarrow> u64" where
  "high_lin p = (if p < 0x100000000 then p + 0xffff800000000000 else p)"

lemma pfa_zero_used: "page_used (pfa_zero n) i \<longleftrightarrow> i = 0"
proof -
  have "i div 8 = 0 \<and> unat (i mod 8) = 0 \<longleftrightarrow> i = 0"
    by (metis div_0 div_mult_mod_eq mod_0 mult_zero_left add_0 unat_eq_0 unsigned_0)
  then show ?thesis
    by (auto simp: page_used_def pfa_zero_def bit_1_iff)
qed

lemma pfa_zero_off_bitmap:
  assumes "n \<le> 2 ^ 20" "j < n"
  shows "off_bitmap (pfa_zero n) (pg j + 0xffff800000000000)"
  unfolding off_bitmap_def in_bitmap_def
proof (intro allI impI notI)
  fix x assume x: "unat (x - (pg j + 0xffff800000000000)) < 4096" "unat (x - bm_buffer (pfa_zero n)) < unat (bm_size (pfa_zero n))"
  define k where "k = unat (x - 0x500000)"
  have "unat (of_nat (n div 8 + 1) :: u64) = n div 8 + 1" by (rule unat64_of_nat) (use assms in simp)
  then have k: "k \<le> 2 ^ 20" "x = 0x500000 + of_nat k"
    using x(2) assms by (simp_all add: k_def pfa_zero_def del: of_nat_add of_nat_Suc)
  have "x - (pg j + 0xffff800000000000) = of_nat (0x800000500000 + k - j * 4096)"
    using assms k by (simp add: pg_def PAGE_SIZE_def of_nat_diff)
  moreover have "unat (of_nat (0x800000500000 + k - j * 4096) :: u64) = 0x800000500000 + k - j * 4096"
    by (rule unat64_of_nat) (use k assms in simp)
  ultimately have "unat (x - (pg j + 0xffff800000000000)) = 0x800000500000 + k - j * 4096"
    by (simp only:)
  with x(1) assms show False by simp
qed

lemma pfa_zero_inv: "n \<le> 2 ^ 20 \<Longrightarrow> supply_inv 0xffff800000000000 n (pfa_zero n)"
proof -
  assume n: "n \<le> 2 ^ 20"
  have "unat (of_nat (n div 8 + 1) :: u64) = n div 8 + 1" by (rule unat64_of_nat) (use n in simp)
  moreover have "n \<le> 8 + 8 * (n div 8)" "n div 8 < 1152921504606846975"
    using n div_le_dividend [of n 8] mult_div_mod_eq [of 8 n] by simp_all
  ultimately have "pfa_wf (pfa_zero n) n 0" "pfa_pos (pfa_zero n) = 0"
    using n by (simp_all add: pfa_wf_def pfa_pos_def pfa_zero_def pg_def del: of_nat_add of_nat_Suc)
  with pfa_zero_off_bitmap [OF n] n show ?thesis
    by (simp add: supply_inv_def) (simp add: pfa_zero_def)
qed

lemma pfa_zero_own: "0 < n \<Longrightarrow> n \<le> 2 ^ 20 \<Longrightarrow> 0xffff800000000000 \<in> supply_own 0xffff800000000000 n (pfa_zero n)"
  unfolding supply_own_def using pfa_zero_off_bitmap [of n 0] pfa_zero_used [of n 0]
  by (intro CollectI exI [of _ 0]) (auto simp: pg_def)

lemma pfa_zero_tree:
  assumes n: "0 < n" "n \<le> 2 ^ 20"
  shows "tree_wf 0xffff800000000000 (entry_at (vram (pfa_zero n))) 0xffff800000000000
    (supply_own 0xffff800000000000 n (pfa_zero n))"
proof -
  have z: "entry_at (vram (pfa_zero n)) 0xffff800000000000 i = 0" if "i < 512" for i
  proof (rule ksup.entry_at_zero [OF that])
    fix x assume "unat (x - 0xffff800000000000 :: u64) < 4096"
    then have "x \<noteq> 0x500000" by auto
    then show "vram (pfa_zero n) x = 0" by (simp add: pfa_zero_def)
  qed
  have w: "tbl_walk 0xffff800000000000 (entry_at (vram (pfa_zero n))) 0xffff800000000000 p = Some a \<longleftrightarrow>
      p = [] \<and> a = 0xffff800000000000" if "path3 p" for p a
    using that by (cases p) (auto simp: tbl_step_def z path3_def pte_present_def bf_get_def)
  show ?thesis
    using w pfa_zero_own [OF n] by (auto simp: tree_wf_def)
qed

lemma pfa_zero_avail: "n < 2 ^ 52 \<Longrightarrow> supply_avail n (pfa_zero n) = n - 1"
proof -
  assume n: "n < 2 ^ 52"
  have "filter (\<lambda>j. \<not> page_used (pfa_zero n) (of_nat j)) [0..<n] = [1..<n]"
  proof (cases n)
    case (Suc m)
    have "\<forall>j \<in> set [1..<n]. \<not> page_used (pfa_zero n) (of_nat j)"
      using n by (auto simp: pfa_zero_used word_unat_eq_iff unat64_of_nat)
    then have "filter (\<lambda>j. \<not> page_used (pfa_zero n) (of_nat j)) [1..<n] = [1..<n]" by (simp add: filter_id_conv)
    moreover have "[0..<n] = 0 # [1..<n]" using Suc by (simp add: upt_conv_Cons)
    ultimately show ?thesis by (simp add: pfa_zero_used)
  qed simp
  then show ?thesis by (simp add: supply_avail_def pfa_pos_def pfa_zero_def)
qed

lemma high_lin_boot: "n \<le> 2 ^ 20 \<Longrightarrow> boot_lin high_lin 0xffff800000000000 n"
  unfolding boot_lin_def
proof (intro allI impI)
  fix p :: u64 assume n: "n \<le> 2 ^ 20" and p: "unat p < 4096 * n"
  then have "unat p < 0x100000000" by simp
  moreover from this have "unat (p + 0xffff800000000000) = unat p + 0xffff800000000000"
    using unat_add_no_wrap [of p "0xffff800000000000"] by simp
  ultimately show "high_lin p = p + 0xffff800000000000 \<and> high_lin (p + 0xffff800000000000) = p + 0xffff800000000000"
    by (simp add: high_lin_def word_less_nat_alt)
qed

theorem mapPage_correct_witness:
  "\<exists>s' e. mapPage high_lin 0x7000 0x9000 1 0 0xffff800000000000 (pfa_zero 16) = Some s' \<and>
     pte_of s' 0xffff800000000000 0x7000 = Some e \<and> pte_pageFrameNumber e = 9 \<and>
     pte_of s' 0xffff800000000000 0x8000 = pte_of (pfa_zero 16) 0xffff800000000000 0x8000"
proof -
  have av: "3 \<le> supply_avail 16 (pfa_zero 16)" by (simp add: pfa_zero_avail)
  have inv: "supply_inv 0xffff800000000000 16 (pfa_zero 16)" by (rule pfa_zero_inv) simp
  have wf: "tree_wf 0xffff800000000000 (entry_at (vram (pfa_zero 16))) 0xffff800000000000
    (supply_own 0xffff800000000000 16 (pfa_zero 16))" by (rule pfa_zero_tree) simp_all
  have lin: "boot_lin high_lin 0xffff800000000000 16" by (rule high_lin_boot) simp
  show ?thesis
    using mapPage_correct [OF inv wf av lin, of "0x7000" "0x9000" 1 0]
    by (auto simp: getPageTableIndicesFromVirtualAddress_def Let_def)
qed

text \<open>
  \<open>mapPage\<close> ignores two of its three attributes. The value \<open>attribs & 0x02\<close> or \<open>attribs & 0x04\<close>
  is assigned to a 1-bit field, which keeps bit 0 only: whatever attributes are asked for,
  write-through and access-type are off in the entry that is written, and so they are after
  \<open>changePageAttribs\<close>; cache-disable is bit 0 of the attributes.
\<close>

theorem page_attribs_dropped:
  "pte_pageWriteThrough (leaf_entry pa priv attribs e) = 0 \<and>
   pte_pageAccessType (leaf_entry pa priv attribs e) = 0 \<and>
   pte_pageCacheDisabled (leaf_entry pa priv attribs e) = take_bit 1 (ucast attribs) \<and>
   (case changePageAttribs v attribs pml4 s of
      None \<Rightarrow> getPteForAddr s v pml4 = 0
    | Some s' \<Rightarrow> pte_pageWriteThrough (load64 (vram s') (getPteForAddr s v pml4)) = 0 \<and>
        pte_pageAccessType (load64 (vram s') (getPteForAddr s v pml4)) = 0)"
proof -
  have z: "take_bit 1 (ucast (attribs AND 2) :: u64) = 0" "take_bit 1 (ucast (attribs AND 4) :: u64) = 0"
    "take_bit 1 (ucast (attribs AND 1) :: u64) = take_bit 1 (ucast attribs)"
    by (simp_all only: take_bit_eq_mask unsigned_and_eq) (simp_all add: and.assoc)
  have lf: "pte_pageWriteThrough (leaf_entry pa priv attribs e) = 0"
    "pte_pageAccessType (leaf_entry pa priv attribs e) = 0"
    "pte_pageCacheDisabled (leaf_entry pa priv attribs e) = take_bit 1 (ucast attribs)"
    by (simp_all only: leaf_entry_fields z)
  show ?thesis
    using z
    by (simp add: lf changePageAttribs_def update_pte_def Let_def)
      (simp add: load64_store64_same pte_defs bf_get_set_same bf_get_set_other
        PAGE_ATTRIB_CACHE_DISABLED_def PAGE_ATTRIB_WRITE_THROUGH_def PAGE_ATTRIB_ACCESS_TYPE_def)
qed

end
