(* ===== verification/MemInit.thy ===== *)
theory MemInit
  imports Paging
begin

text \<open>
  Start-up of physical memory management, \<open>PageFrameAllocator::initializeFromMemoryMap\<close> of
  \<^verbatim>\<open>kernel/src/paging/page_frame_allocator.cpp\<close>: the scan of the firmware memory map, the
  placement of the bitmap and of the heap behind it, the marking of free pages and the final
  locking. The memory of the heap component and of the page allocator is the same memory; it
  is handed from one record to the other around the call of the heap's \<open>init\<close>.
\<close>

section \<open>Firmware memory descriptors\<close>

definition desc_type :: "mem \<Rightarrow> u64 \<Rightarrow> u32" where "desc_type m d = load32 m d"
definition desc_paddr :: "mem \<Rightarrow> u64 \<Rightarrow> u64" where "desc_paddr m d = load64 m (d + 8)"
definition desc_pageCount :: "mem \<Rightarrow> u64 \<Rightarrow> u64" where "desc_pageCount m d = load64 m (d + 24)"

definition EFI_MEMORY_TYPE_STRINGS :: "string list" where
  "EFI_MEMORY_TYPE_STRINGS =
    [''EfiReservedMemoryType'', ''EfiLoaderCode'', ''EfiLoaderData'', ''EfiBootServicesCode'',
     ''EfiBootServicesData'', ''EfiRuntimeServicesCode'', ''EfiRuntimeServicesData'',
     ''EfiConventionalMemory'', ''EfiUnusableMemory'', ''EfiACPIReclaimMemory'',
     ''EfiACPIMemoryNVS'', ''EfiMemoryMappedIO'', ''EfiMemoryMappedIOPortSpace'', ''EfiPalCode'']"

text \<open>The addresses of the descriptors, in the order of the loops.\<close>

definition descriptors :: "u64 \<Rightarrow> u64 \<Rightarrow> u64 \<Rightarrow> u64 list" where
  "descriptors memoryMap memoryDescriptorSize memoryDescriptorCount =
    map (\<lambda>i. memoryMap + of_nat i * memoryDescriptorSize) [0..<unat memoryDescriptorCount]"

section \<open>The scan\<close>

record mm_scan =
  scan_total :: u64
  scan_free :: u64
  largestFreeMemorySegment :: u64
  largestFreeMemorySegmentSize :: u64

definition scan_step :: "mem \<Rightarrow> u64 \<Rightarrow> u64 \<Rightarrow> mm_scan \<Rightarrow> mm_scan" where
  "scan_step m off desc r =
    (let bytes = desc_pageCount m desc * PAGE_SIZE;
         r = r\<lparr>scan_total := scan_total r + bytes\<rparr>
     in if desc_type m desc \<noteq> 7 then r
        else
          (let r = r\<lparr>scan_free := scan_free r + bytes\<rparr>
           in if largestFreeMemorySegmentSize r < bytes
              then
                (let virtualBase = physToVirtAddr off (desc_paddr m desc);
                     virtualRegionEnd = virtualBase + bytes
                 in if 0xffff000000000000 \<le> virtualBase \<and> virtualRegionEnd \<le> 0xffffffffffffffff
                    then r\<lparr>largestFreeMemorySegment := desc_paddr m desc,
                           largestFreeMemorySegmentSize := bytes\<rparr>
                    else r)
              else r))"

definition scan_memory_map :: "mem \<Rightarrow> u64 \<Rightarrow> u64 list \<Rightarrow> u64 \<Rightarrow> mm_scan" where
  "scan_memory_map m off descs total0 =
    fold (scan_step m off) descs
      \<lparr>scan_total = total0, scan_free = 0, largestFreeMemorySegment = 0, largestFreeMemorySegmentSize = 0\<rparr>"

text \<open>The second search, for the first free segment that can hold the bitmap.\<close>

definition fallback_segment :: "mem \<Rightarrow> u64 list \<Rightarrow> u64 \<Rightarrow> u64 option" where
  "fallback_segment m descs pageBitmapSize =
    map_option (desc_paddr m)
      (find (\<lambda>d. desc_type m d = 7 \<and> pageBitmapSize \<le> desc_pageCount m d * PAGE_SIZE) descs)"

definition place_bitmap :: "mem \<Rightarrow> u64 \<Rightarrow> u64 list \<Rightarrow> u64 \<Rightarrow> u64 \<Rightarrow> u64" where
  "place_bitmap m off descs segment pageBitmapSize =
    (let v = physToVirtAddr off segment
     in if v < 0xffff000000000000 \<or> v = 0
        then (case fallback_segment m descs pageBitmapSize of Some p \<Rightarrow> p | None \<Rightarrow> segment)
        else segment)"

section \<open>Marking pages\<close>

text \<open>
  The entry of a page is made accessible to user mode. \<open>None\<close>: the page is not mapped and the
  code writes through a null pointer.
\<close>

definition set_user :: "u64 \<Rightarrow> u64 \<Rightarrow> pfa \<Rightarrow> pfa option" where
  "set_user vaddr pml4 s = update_pte (set_pte_userSupervisor USERSPACE_PAGE) vaddr pml4 s"

partial_function (option) free_frames :: "u64 \<Rightarrow> u64 \<Rightarrow> u64 \<Rightarrow> pfa \<Rightarrow> pfa option" where
  "free_frames pml4 p e s =
    (if p < e
     then Option.bind (set_user (physToVirtAddr (va_off s) p) pml4 (snd (markPageFree s p)))
            (free_frames pml4 (p + PAGE_SIZE) e)
     else Some s)"

primrec free_descriptors :: "mem \<Rightarrow> u64 \<Rightarrow> u64 list \<Rightarrow> pfa \<Rightarrow> pfa option" where
  "free_descriptors m pml4 [] s = Some s"
| "free_descriptors m pml4 (d # ds) s =
    (if desc_type m d \<noteq> 7 then free_descriptors m pml4 ds s
     else do {
       let frameStart = desc_paddr m d;
       let frameEnd = desc_paddr m d + desc_pageCount m d * PAGE_SIZE;
       s \<leftarrow> free_frames pml4 frameStart frameEnd s;
       free_descriptors m pml4 ds s
     })"

partial_function (option) user_pages :: "u64 \<Rightarrow> u64 \<Rightarrow> u64 \<Rightarrow> pfa \<Rightarrow> pfa option" where
  "user_pages pml4 p e s =
    (if p < e then Option.bind (set_user p pml4 s) (user_pages pml4 (p + PAGE_SIZE) e) else Some s)"

section \<open>initializeFromMemoryMap\<close>

text \<open>
  \<open>cr3\<close> is the processor's page-table register. The memory map lies in memory the routine does
  not write, so the descriptors are read from the memory at entry.
\<close>

definition KERNEL_HEAP_INIT_SIZE :: u64 where
  "KERNEL_HEAP_INIT_SIZE = 0x60000000"

definition heap_init_here :: "u64 \<Rightarrow> u64 \<Rightarrow> pfa \<Rightarrow> kheap \<Rightarrow> (pfa \<times> kheap) option" where
  "heap_init_here base sz s h = do {
     s \<leftarrow> lockPages base (sz div PAGE_SIZE) s;
     let h = snd (heap_init (\<lambda>_ _ p. p) base sz () (h\<lparr>ram := vram s\<rparr>));
     Some (s\<lparr>vram := ram h\<rparr>, h)
   }"

definition initializeFromMemoryMap ::
  "u64 \<Rightarrow> u64 \<Rightarrow> u64 \<Rightarrow> u64 \<Rightarrow> pfa \<Rightarrow> kheap \<Rightarrow> (pfa \<times> kheap) option" where
  "initializeFromMemoryMap cr3 memoryMap memoryDescriptorSize memoryDescriptorCount s h = do {
     let m = vram s;
     let off = va_off s;
     let descs = descriptors memoryMap memoryDescriptorSize memoryDescriptorCount;
     let r = scan_memory_map m off descs (m_totalSystemMemory s);
     let s = s\<lparr>m_totalSystemMemory := scan_total r, m_freeSystemMemory := scan_free r\<rparr>;
     let pageBitmapSize = m_totalSystemMemory s div PAGE_SIZE div 8 + 1;
     let pageBitmapBase = place_bitmap m off descs (largestFreeMemorySegment r) pageBitmapSize;
     let pageBitmapVirtualBase = physToVirtAddr off pageBitmapBase;
     let s = bitmap_initialize pageBitmapSize pageBitmapVirtualBase s;
     let kernelHeapBase = pageBitmapVirtualBase + pageBitmapSize;
     (s, h) \<leftarrow> heap_init_here kernelHeapBase KERNEL_HEAP_INIT_SIZE s h;
     let pml4 = physToVirtAddr off cr3;
     s \<leftarrow> free_descriptors m pml4 descs s;
     s \<leftarrow> user_pages pml4 pageBitmapVirtualBase (pageBitmapVirtualBase + pageBitmapSize) s;
     s \<leftarrow> track_free_page s 0;
     let s = s\<lparr>m_usedSystemMemory := m_totalSystemMemory s - m_freeSystemMemory s\<rparr>;
     s \<leftarrow> lockPhysicalPages pageBitmapBase (pageBitmapSize div PAGE_SIZE + 1) s;
     s \<leftarrow> lockPages pageBitmapVirtualBase (pageBitmapSize div PAGE_SIZE + 1) s;
     Some (s, h)
   }"

section \<open>Properties\<close>

lemma scan_fold:
  "scan_total (fold (scan_step m off) descs r) = scan_total r + (\<Sum>d\<leftarrow>descs. desc_pageCount m d * PAGE_SIZE)"
  "scan_free (fold (scan_step m off) descs r) =
    scan_free r + (\<Sum>d\<leftarrow>descs. if desc_type m d = 7 then desc_pageCount m d * PAGE_SIZE else 0)"
  by (induction descs arbitrary: r) (simp_all add: scan_step_def Let_def add.assoc)

text \<open>
  the scan. The total is the sum over all descriptors, the free memory the sum over the
  conventional ones, both in bytes, with the wrap-around of 64-bit arithmetic.
\<close>

theorem scan_memory_map_totals:
  "scan_total (scan_memory_map m off descs t) = t + (\<Sum>d\<leftarrow>descs. desc_pageCount m d * PAGE_SIZE) \<and>
   scan_free (scan_memory_map m off descs t) =
     (\<Sum>d\<leftarrow>descs. if desc_type m d = 7 then desc_pageCount m d * PAGE_SIZE else 0)"
  by (simp add: scan_memory_map_def scan_fold)

lemma bitmap_initialize_used:
  assumes "unat (i div 8) < unat sz"
  shows "page_used (bitmap_initialize sz buffer s) i"
proof -
  have "(0xff :: u8) = mask 8" by (simp add: mask_eq_exp_minus_1)
  then have "bit (0xff :: u8) (unat (i mod 8))"
    using mod8_less [of i] by (simp only: bit_mask_iff) simp
  then show ?thesis
    using assms by (simp add: page_used_def bitmap_initialize_def memset_fills setn_def)
qed

text \<open>
  The heap's pages are not locked. The heap locks its pages while every bit of the bitmap
  is still set, so the call changes nothing at all; the marking loop runs later, and
  \<open>markPageFree\<close> on any page the bitmap covers then makes it free, whether or not the heap
  lies in it.
\<close>

theorem heap_pages_not_locked:
  assumes lock: "kpage_allocator_lock s = 0"
    and cov: "\<forall>i < unat k. unat (addrToIndex (virtToPhysAddr (va_off s) (heap + of_nat i * PAGE_SIZE)) div 8) < unat sz"
    and sz: "unat sz < 2 ^ 60"
  shows "lockPages heap k (bitmap_initialize sz buffer s) = Some (bitmap_initialize sz buffer s) \<and>
    (\<forall>i < unat k. \<forall>s'. bm_size s' = sz \<longrightarrow>
      isPageFree (snd (markPageFree s' (virtToPhysAddr (va_off s) (heap + of_nat i * PAGE_SIZE))))
        (virtToPhysAddr (va_off s) (heap + of_nat i * PAGE_SIZE)))"
proof -
  let ?b = "bitmap_initialize sz buffer s" and ?pa = "virtToPhysAddr (va_off s)"
  have f: "kpage_allocator_lock ?b = 0" "va_off ?b = va_off s"
    using lock by (simp_all add: bitmap_initialize_def)
  have one: "lockPage v ?b = Some ?b" if "unat (addrToIndex (?pa v) div 8) < unat sz" for v
    using that f bitmap_initialize_used [of "addrToIndex (?pa v)" sz buffer s]
    by (simp add: lockPage_physical lockPhysicalPage_claim claim_def)
  have loop: "pages_loop lockPage n v ?b = Some ?b"
    if "\<forall>i < n. unat (addrToIndex (?pa (v + of_nat i * PAGE_SIZE)) div 8) < unat sz" for n v
    using that
  proof (induction n arbitrary: v)
    case (Suc n)
    have "unat (addrToIndex (?pa v) div 8) < unat sz"
      using Suc.prems by (auto dest: spec [of _ 0])
    moreover have "\<forall>i < n. unat (addrToIndex (?pa (v + PAGE_SIZE + of_nat i * PAGE_SIZE)) div 8) < unat sz"
    proof (intro allI impI)
      fix i assume "i < n"
      then show "unat (addrToIndex (?pa (v + PAGE_SIZE + of_nat i * PAGE_SIZE)) div 8) < unat sz"
        using Suc.prems [rule_format, of "Suc i"] by (simp add: distrib_right add.assoc)
    qed
    ultimately show ?case using one Suc.IH by simp
  qed simp
  have "isPageFree (snd (markPageFree s' a)) a" if "bm_size s' = sz" "unat (addrToIndex a div 8) < unat sz" for s' a
  proof -
    have "unat (bm_size s' * 8) = unat sz * 8"
      using sz that(1) unat_mult_lem [of sz 8] by simp
    then have "\<not> bm_size s' * 8 < addrToIndex a"
      using that(2) by (simp add: word_less_nat_alt unat_div div_less_iff_less_mult)
    then show ?thesis
      by (simp add: markPageFree_def setPageValue_with_bit)
  qed
  then show ?thesis
    using loop [of "unat k" heap] cov by (simp add: lockPages_def)
qed

theorem heap_pages_not_locked_witness:
  "lockPages 0xffff800000004000 2 (bitmap_initialize 3 0x500000 pfa16) = Some (bitmap_initialize 3 0x500000 pfa16)"
proof -
  have off: "va_off pfa16 = 0xffff800000000000" by (simp add: pfa16_def)
  have "\<forall>i < unat (2 :: u64). unat (addrToIndex (virtToPhysAddr (va_off pfa16)
      (0xffff800000004000 + of_nat i * PAGE_SIZE)) div 8) < unat (3 :: u64)"
  proof (intro allI impI)
    fix i assume "i < unat (2 :: u64)"
    then have "i < 2" by simp
    then have "i = 0 \<or> i = 1" by linarith
    then show "unat (addrToIndex (virtToPhysAddr (va_off pfa16) (0xffff800000004000 + of_nat i * PAGE_SIZE)) div 8)
        < unat (3 :: u64)"
      by (elim disjE) (simp_all add: off virtToPhysAddr_def addrToIndex_def PAGE_SIZE_def)
  qed
  then show ?thesis
    using heap_pages_not_locked [of pfa16 2 "0xffff800000004000" 3 "0x500000"] by (simp add: pfa16_def)
qed

end
