(* ===== verification/HeapBlocks.thy ===== *)
theory HeapBlocks
  imports KHeap
begin

text \<open>
  What the containers and drivers rely on of the heap: blocks in use never overlap. The
  interface is the locale \<open>block_supply\<close>: \<open>owns h rs\<close> says that each region \<open>(p, n)\<close> of \<open>rs\<close> (\<open>n\<close>
  bytes from \<open>p\<close>) lies in a block in use. Its laws are proved of \<open>kmalloc\<close> and \<open>kfree\<close> by the
  interpretation \<open>kblocks\<close>. Releasing a block gives no law about the other blocks: the heap's
  \<open>prev\<close> links can be stale after an allocation, and a release then merges wrongly.
\<close>

section \<open>Regions\<close>

definition apart :: "u64 \<Rightarrow> nat \<Rightarrow> u64 \<Rightarrow> nat \<Rightarrow> bool" where
  "apart p n q k \<longleftrightarrow> unat p + n \<le> unat q \<or> unat q + k \<le> unat p"

lemma apart_sym: "apart p n q k \<Longrightarrow> apart q k p n"
  by (auto simp: apart_def)

lemma apart_neq:
  assumes "apart p n q k" "unat p \<le> unat a" "unat a < unat p + n" "unat q \<le> unat b" "unat b < unat q + k"
  shows "a \<noteq> b"
  using assms by (auto simp: apart_def)

locale block_supply =
  fixes alloc :: "'h \<Rightarrow> u64 \<Rightarrow> (u64 \<times> 'h) option"
    and release :: "'h \<Rightarrow> u64 \<Rightarrow> 'h option"
    and owns :: "'h \<Rightarrow> (u64 \<times> nat) list \<Rightarrow> bool"
  assumes alloc_owns: "owns h rs \<Longrightarrow> unat n < 2 ^ 63 \<Longrightarrow>
      \<exists>p h'. alloc h n = Some (p, h') \<and>
        (p = 0 \<and> h' = h \<or>
         p \<noteq> 0 \<and> unat p + unat n < 2 ^ 64 \<and> list_all (\<lambda>(q, k). apart p (unat n) q k) rs \<and>
         owns h' ((p, unat n) # rs))"
    and owns_region: "owns h rs \<Longrightarrow> (q, k) \<in> set rs \<Longrightarrow> q \<noteq> 0 \<and> unat q + k < 2 ^ 64"
    and release_returns: "owns h rs \<Longrightarrow> \<exists>h'. release h p = Some h'"
begin

text \<open>Allocation always returns: null, or a block apart from the one the client has.\<close>

lemma alloc_cases:
  assumes "owns h [(q, k)]" and "unat n < 2 ^ 63"
  obtains (null) "alloc h n = Some (0, h)"
  | (block) p h' where "alloc h n = Some (p, h')" "p \<noteq> 0" "unat p + unat n < 2 ^ 64"
      "apart p (unat n) q k" "owns h' [(p, unat n), (q, k)]"
  using alloc_owns [OF assms] by auto

lemma alloc_first_cases:
  assumes "owns h []" and "unat n < 2 ^ 63"
  obtains (null) "alloc h n = Some (0, h)"
  | (block) p h' where "alloc h n = Some (p, h')" "p \<noteq> 0" "unat p + unat n < 2 ^ 64"
      "owns h' [(p, unat n)]"
  using alloc_owns [OF assms] by auto

end

section \<open>The kernel heap supplies blocks\<close>

definition block_at :: "u64 \<Rightarrow> blk list \<Rightarrow> u64 \<Rightarrow> nat \<Rightarrow> bool" where
  "block_at base bs p n \<longleftrightarrow>
    (\<exists>xs m ys. bs = xs @ (m, False) # ys \<and> p = base + of_nat (total xs + 32) \<and> n + 32 \<le> m)"

definition heap_owns :: "kheap \<Rightarrow> (u64 \<times> nat) list \<Rightarrow> bool" where
  "heap_owns h rs \<longleftrightarrow>
    (\<exists>bs. heap_wf h bs \<and> list_all (\<lambda>(q, k). block_at (m_firstSegment h) bs q k) rs)"

lemma used_block_cases:
  assumes "xs @ (n, True) # ys = us @ (m, False) # vs"
  shows "(\<exists>zs. xs = us @ (m, False) # zs) \<or> (\<exists>zs. ys = zs @ (m, False) # vs \<and> us = xs @ (n, True) # zs)"
  using assms by (auto simp: append_eq_append_conv2 Cons_eq_append_conv append_eq_Cons_conv)

lemma block_at_unat:
  assumes "blocks_ok base bs" "bs = xs @ (m, f) # ys"
  shows "unat (base + of_nat (total xs + 32)) = unat base + total xs + 32"
    and "unat base + total xs + m < 2 ^ 64"
proof -
  have m: "32 \<le> m" using assms by (auto simp: blocks_ok_def)
  show lt: "unat base + total xs + m < 2 ^ 64"
    using assms by (auto simp: blocks_ok_def)
  show "unat (base + of_nat (total xs + 32)) = unat base + total xs + 32"
    using unat_offset [of base "total xs + 32"] lt m by simp
qed

lemma block_at_split:
  assumes ok: "blocks_ok base bs" and bs: "bs = xs @ (n, True) # ys" and k: "k + 66 \<le> n"
    and b: "block_at base bs q j"
  shows "block_at base (xs @ (k + 32, False) # (n - (k + 32), True) # ys) q j"
    and "apart (base + of_nat (total xs + 32)) k q j"
proof -
  obtain us m vs where b: "bs = us @ (m, False) # vs" "q = base + of_nat (total us + 32)" "j + 32 \<le> m"
    using b by (auto simp: block_at_def)
  note u = block_at_unat(1) [OF ok bs] block_at_unat(1) [OF ok b(1)]
  consider zs where "xs = us @ (m, False) # zs"
    | zs where "ys = zs @ (m, False) # vs" "us = xs @ (n, True) # zs"
    using used_block_cases b(1) unfolding bs by metis
  then show "block_at base (xs @ (k + 32, False) # (n - (k + 32), True) # ys) q j"
  proof cases
    case 1
    then show ?thesis
      unfolding block_at_def b(2)
      by (intro exI [of _ us] exI [of _ m] exI [of _ "zs @ (k + 32, False) # (n - (k + 32), True) # ys"])
        (use b(3) in simp)
  next
    case 2
    then show ?thesis
      unfolding block_at_def b(2)
      by (intro exI [of _ "xs @ (k + 32, False) # (n - (k + 32), True) # zs"] exI [of _ m] exI [of _ vs])
        (use b(3) k in simp)
  qed
  from used_block_cases [of xs n ys us m vs] b(1) bs show "apart (base + of_nat (total xs + 32)) k q j"
    unfolding apart_def u b(2) using k b(3) by auto
qed

lemma kfree_returns: "kheap_lock h = 0 \<Longrightarrow> \<exists>h'. kfree h p = Some h'"
  by (simp add: kfree_def heap_free_def Let_def)

lemma kmalloc_owns:
  assumes "heap_owns h rs" and n: "unat n < 2 ^ 63"
  shows "\<exists>p h'. kmalloc h n = Some (p, h') \<and>
    (p = 0 \<and> h' = h \<or>
     p \<noteq> 0 \<and> unat p + unat n < 2 ^ 64 \<and> list_all (\<lambda>(q, k). apart p (unat n) q k) rs \<and>
     heap_owns h' ((p, unat n) # rs))"
proof -
  obtain bs where wf: "heap_wf h bs"
    and rs: "list_all (\<lambda>(q, k). block_at (m_firstSegment h) bs q k) rs"
    using assms by (auto simp: heap_owns_def)
  have ok: "blocks_ok (m_firstSegment h) bs" using wf by (simp add: heap_wf_def)
  have k: "unat n + 64 < 2 ^ 64" using n by simp
  show ?thesis
  proof (cases "spec_allocate (unat n) bs")
    case None
    then show ?thesis
      using heap_allocate_None [OF wf k] by (simp add: kmalloc_def)
  next
    case (Some r)
    then obtain off bs' where "spec_allocate (unat n) bs = Some (off, bs')"
      by (cases r) auto
    then obtain h' xs m ys where a:
      "heap_allocate h (of_nat (unat n)) = Some (m_firstSegment h + of_nat off, h')" "heap_wf h' bs'"
      "m_firstSegment h' = m_firstSegment h" "bs = xs @ (m, True) # ys" "off = total xs + 32"
      "unat n + 66 \<le> m" "bs' = xs @ (unat n + 32, False) # (m - (unat n + 32), True) # ys"
      by (rule heap_allocate_Some [OF wf k])
    note u = block_at_unat [OF ok a(4)] and sp = block_at_split [OF ok a(4,6)]
    have "block_at (m_firstSegment h) bs' (m_firstSegment h + of_nat off) (unat n)"
      unfolding block_at_def a(5,7)
      by (intro exI [of _ xs] exI [of _ "unat n + 32"] exI [of _ "(m - (unat n + 32), True) # ys"]) simp
    moreover have "list_all (\<lambda>(q, k). block_at (m_firstSegment h) bs' q k) rs"
      and "list_all (\<lambda>(q, k). apart (m_firstSegment h + of_nat off) (unat n) q k) rs"
      using rs sp unfolding a(5,7) by (auto simp: list_all_iff)
    moreover have "m_firstSegment h + of_nat off \<noteq> 0"
      using u(1) unfolding a(5) by (intro notI) (simp del: of_nat_add)
    moreover have "unat (m_firstSegment h + of_nat off) + unat n < 2 ^ 64"
      using u a(6) unfolding a(5) by (simp del: of_nat_add)
    moreover have "kmalloc h n = Some (m_firstSegment h + of_nat off, h')"
      using a(1) by (simp add: kmalloc_def)
    ultimately show ?thesis
      using a(2,3) unfolding heap_owns_def
      by (intro exI [of _ "m_firstSegment h + of_nat off"] exI [of _ h'] conjI disjI2 exI [of _ bs']) simp_all
  qed
qed

text \<open>An allocation writes only inside the heap, and the block it returns lies there.\<close>

definition in_heap :: "kheap \<Rightarrow> u64 \<Rightarrow> bool" where
  "in_heap h x \<longleftrightarrow> unat (x - m_firstSegment h) < unat (m_heapSize h)"

lemma kmalloc_in_heap:
  assumes wf: "heap_wf h bs" and n: "unat n < 2 ^ 63" and a: "kmalloc h n = Some (p, h')" and p: "p \<noteq> 0"
  shows "\<forall>x. \<not> in_heap h x \<longrightarrow> ram h' x = ram h x"
    and "\<forall>i < unat n. in_heap h (p + of_nat i)"
proof -
  let ?base = "m_firstSegment h"
  have k: "unat n + 64 < 2 ^ 64" using n by simp
  obtain off bs' where s: "spec_allocate (unat n) bs = Some (off, bs')"
    using heap_allocate_None [OF wf k] a p by (cases "spec_allocate (unat n) bs") (auto simp: kmalloc_def)
  obtain h2 xs m ys where b: "heap_allocate h (of_nat (unat n)) = Some (?base + of_nat off, h2)"
    "bs = xs @ (m, True) # ys" "off = total xs + 32" "unat n + 66 \<le> m"
    "outside (?base + of_nat (total xs)) m (ram h) (ram h2)"
    by (rule heap_allocate_Some [OF wf k s])
  have eq: "p = ?base + of_nat off" "h' = h2" using a b(1) by (simp_all add: kmalloc_def)
  have tot: "total bs < 2 ^ 63" "unat (m_heapSize h) = total bs"
    using wf unat64_of_nat [of "total bs"] by (auto simp: heap_wf_def blocks_ok_def)
  show "\<forall>i < unat n. in_heap h (p + of_nat i)"
  proof (intro allI impI)
    fix i assume i: "i < unat n"
    have e: "p + of_nat i - ?base = of_nat (off + i)" by (simp add: eq)
    have lt: "off + i < total bs" using b(2-4) i by simp
    then have "unat (p + of_nat i - ?base) = off + i"
      unfolding e using tot by (intro unat64_of_nat) simp
    with lt tot show "in_heap h (p + of_nat i)" by (simp add: in_heap_def)
  qed
  show "\<forall>x. \<not> in_heap h x \<longrightarrow> ram h' x = ram h x"
  proof (intro allI impI)
    fix x assume x: "\<not> in_heap h x"
    then have far: "total bs \<le> unat (x - ?base)" using tot by (simp add: in_heap_def)
    have "unat (x - (?base + of_nat (total xs))) = unat (x - ?base) - total xs"
      using far b(2) tot unat_diff_offset [of "total xs" x ?base] by simp
    then show "ram h' x = ram h x"
      using b(2,5) far unfolding eq outside_def by simp
  qed
qed

interpretation kblocks: block_supply kmalloc kfree heap_owns
proof
  fix h rs n
  assume "heap_owns h rs" "unat (n :: u64) < 2 ^ 63"
  then show "\<exists>p h'. kmalloc h n = Some (p, h') \<and>
    (p = 0 \<and> h' = h \<or>
     p \<noteq> 0 \<and> unat p + unat n < 2 ^ 64 \<and> list_all (\<lambda>(q, k). apart p (unat n) q k) rs \<and>
     heap_owns h' ((p, unat n) # rs))"
    by (rule kmalloc_owns)
next
  fix h rs q k
  assume "heap_owns h rs" "(q, k) \<in> set rs"
  then obtain bs where wf: "heap_wf h bs" and b: "block_at (m_firstSegment h) bs q k"
    by (auto simp: heap_owns_def list_all_iff)
  then obtain xs m ys where x: "bs = xs @ (m, False) # ys"
    "q = m_firstSegment h + of_nat (total xs + 32)" "k + 32 \<le> m"
    by (auto simp: block_at_def)
  have "blocks_ok (m_firstSegment h) bs" using wf by (simp add: heap_wf_def)
  note u = block_at_unat [OF this x(1)]
  have "unat q = unat (m_firstSegment h) + total xs + 32" unfolding x(2) by (rule u(1))
  moreover from this have "q \<noteq> 0" by auto
  ultimately show "q \<noteq> 0 \<and> unat q + k < 2 ^ 64" using u(2) x(3) by simp
next
  fix h rs p
  assume "heap_owns h rs"
  then show "\<exists>h'. kfree h p = Some h'"
    by (auto simp: heap_owns_def heap_wf_def intro: kfree_returns)
qed

end
