(* ===== verification/Vector.thy ===== *)
theory Vector
  imports HeapBlocks
begin

text \<open>
  The growable array of \<^verbatim>\<open>kernel/src/core/kvector.h\<close>, with the trait of
  \<^verbatim>\<open>kstl_primitive.h\<close> that selects between assignment and placement new.

  Element objects live in an object store beside the heap: \<open>objs\<close> gives the value at an element
  address, \<open>live\<close> tells whether an object has been constructed there and not yet destroyed.
  Memory comes from \<open>kmalloc\<close> and \<open>kfree\<close> of the heap. Every operation returns \<open>None\<close> when
  it destroys or reads an object of class type that is not alive, or when the heap call never
  returns. The template argument is a record: its C++ type, its size, and the value its move
  constructor leaves behind.

  \<open>vec_rep\<close> is the abstraction: the vector holds the list \<open>xs\<close>. The interface of the heap that
  the proofs rely on is the locale \<open>block_supply\<close> of \<^verbatim>\<open>HeapBlocks\<close>.
\<close>

section \<open>Element types\<close>

datatype ctype =
    CBool | CChar | CSChar | CUChar | CWChar | CChar16 | CChar32
  | CShort | CUShort | CInt | CUInt | CLong | CULong | CLongLong | CULongLong
  | CFloat | CDouble | CLongDouble
  | CPtr ctype
  | CClass string

fun is_primitive :: "ctype \<Rightarrow> bool" where
  "is_primitive (CClass _) = False"
| "is_primitive _ = True"

record 'a elem =
  elem_type :: ctype
  sizeof_T :: u64
  moved_from :: "'a \<Rightarrow> 'a"

abbreviation prim :: "'a elem \<Rightarrow> bool" where
  "prim E \<equiv> is_primitive (elem_type E)"

section \<open>The object store\<close>

record 'a objstore =
  oheap :: kheap
  objs :: "u64 \<Rightarrow> 'a"
  live :: "u64 \<Rightarrow> bool"

text \<open>\<^verbatim>\<open>*a = v\<close> for a primitive type, \<^verbatim>\<open>new (a) T(v)\<close> for a class.\<close>

definition put_obj :: "u64 \<Rightarrow> 'a \<Rightarrow> 'a objstore \<Rightarrow> 'a objstore" where
  "put_obj a v w = w\<lparr>objs := (objs w)(a := v), live := (live w)(a := True)\<rparr>"

definition get_obj :: "'a elem \<Rightarrow> u64 \<Rightarrow> 'a objstore \<Rightarrow> 'a option" where
  "get_obj E a w = (if prim E \<or> live w a then Some (objs w a) else None)"

definition destroy :: "'a elem \<Rightarrow> u64 \<Rightarrow> 'a objstore \<Rightarrow> 'a objstore option" where
  "destroy E a w =
    (if prim E then Some w
     else if live w a then Some (w\<lparr>live := (live w)(a := False)\<rparr>)
     else None)"

definition copy_obj :: "'a elem \<Rightarrow> u64 \<Rightarrow> u64 \<Rightarrow> 'a objstore \<Rightarrow> 'a objstore option" where
  "copy_obj E src dst w = do { v \<leftarrow> get_obj E src w; Some (put_obj dst v w) }"

text \<open>Move construction followed by the destruction of the source (assignment if primitive).\<close>

definition move_obj :: "'a elem \<Rightarrow> u64 \<Rightarrow> u64 \<Rightarrow> 'a objstore \<Rightarrow> 'a objstore option" where
  "move_obj E src dst w =
    (if prim E then copy_obj E src dst w
     else do {
       v \<leftarrow> get_obj E src w;
       let w = put_obj dst v w;
       let w = w\<lparr>objs := (objs w)(src := moved_from E v)\<rparr>;
       destroy E src w
     })"

section \<open>The vector\<close>

record vector =
  m_data :: u64
  m_size :: u64
  m_capacity :: u64

text \<open>\<open>&data[i]\<close>.\<close>

definition cell :: "'a elem \<Rightarrow> u64 \<Rightarrow> u64 \<Rightarrow> u64" where
  "cell E data i = data + i * sizeof_T E"

definition vec_malloc :: "'a elem \<Rightarrow> u64 \<Rightarrow> 'a objstore \<Rightarrow> (u64 \<times> 'a objstore) option" where
  "vec_malloc E n w = do {
     (p, h) \<leftarrow> kmalloc (oheap w) (n * sizeof_T E);
     Some (p, w\<lparr>oheap := h\<rparr>)
   }"

definition vec_kfree :: "u64 \<Rightarrow> 'a objstore \<Rightarrow> 'a objstore option" where
  "vec_kfree p w = do { h \<leftarrow> kfree (oheap w) p; Some (w\<lparr>oheap := h\<rparr>) }"

definition vec_empty :: vector where
  "vec_empty = \<lparr>m_data = 0, m_size = 0, m_capacity = 0\<rparr>"

definition vec_with_capacity :: "'a elem \<Rightarrow> u64 \<Rightarrow> 'a objstore \<Rightarrow> (vector \<times> 'a objstore) option" where
  "vec_with_capacity E initialCapacity w =
    (let v = \<lparr>m_data = 0, m_size = 0, m_capacity = initialCapacity\<rparr>
     in if 0 < initialCapacity
        then do { (p, w) \<leftarrow> vec_malloc E initialCapacity w; Some (v\<lparr>m_data := p\<rparr>, w) }
        else Some (v, w))"

definition vec_copy :: "'a elem \<Rightarrow> vector \<Rightarrow> 'a objstore \<Rightarrow> (vector \<times> 'a objstore) option" where
  "vec_copy E other w =
    (let v = \<lparr>m_data = 0, m_size = m_size other, m_capacity = m_capacity other\<rparr>
     in if 0 < m_capacity v
        then do {
          (p, w) \<leftarrow> vec_malloc E (m_capacity v) w;
          w \<leftarrow> for_up (\<lambda>i. copy_obj E (cell E (m_data other) i) (cell E p i)) 0 (m_size v) w;
          Some (v\<lparr>m_data := p\<rparr>, w)
        }
        else Some (v, w))"

text \<open>The move constructor: the new vector and what is left of \<open>other\<close>.\<close>

definition vec_move :: "vector \<Rightarrow> vector \<times> vector" where
  "vec_move other =
    (\<lparr>m_data = m_data other, m_size = m_size other, m_capacity = m_capacity other\<rparr>,
     other\<lparr>m_data := 0, m_size := 0, m_capacity := 0\<rparr>)"

definition vec_destroy_all :: "'a elem \<Rightarrow> vector \<Rightarrow> 'a objstore \<Rightarrow> 'a objstore option" where
  "vec_destroy_all E v w = for_up (\<lambda>i. destroy E (cell E (m_data v) i)) 0 (m_size v) w"

text \<open>The destructor, also the first half of both assignment operators.\<close>

definition vec_release :: "'a elem \<Rightarrow> vector \<Rightarrow> 'a objstore \<Rightarrow> 'a objstore option" where
  "vec_release E v w =
    (if m_data v \<noteq> 0
     then do { w \<leftarrow> vec_destroy_all E v w; vec_kfree (m_data v) w }
     else Some w)"

text \<open>\<open>same\<close> is \<^verbatim>\<open>this == &other\<close>.\<close>

definition vec_assign ::
  "'a elem \<Rightarrow> bool \<Rightarrow> vector \<Rightarrow> vector \<Rightarrow> 'a objstore \<Rightarrow> (vector \<times> 'a objstore) option" where
  "vec_assign E same v other w =
    (if same then Some (v, w)
     else do {
       w \<leftarrow> vec_release E v w;
       let v = v\<lparr>m_size := m_size other, m_capacity := m_capacity other\<rparr>;
       (p, w) \<leftarrow> (if 0 < m_capacity v then vec_malloc E (m_capacity v) w else Some (0, w));
       w \<leftarrow> for_up (\<lambda>i. copy_obj E (cell E (m_data other) i) (cell E p i)) 0 (m_size v) w;
       Some (v\<lparr>m_data := p\<rparr>, w)
     })"

definition vec_move_assign ::
  "'a elem \<Rightarrow> bool \<Rightarrow> vector \<Rightarrow> vector \<Rightarrow> 'a objstore \<Rightarrow> (vector \<times> vector \<times> 'a objstore) option" where
  "vec_move_assign E same v other w =
    (if same then Some (v, other, w)
     else do {
       w \<leftarrow> vec_release E v w;
       let v = v\<lparr>m_data := m_data other, m_size := m_size other, m_capacity := m_capacity other\<rparr>;
       Some (v, other\<lparr>m_data := 0, m_size := 0, m_capacity := 0\<rparr>, w)
     })"

definition vec_at :: "'a elem \<Rightarrow> vector \<Rightarrow> u64 \<Rightarrow> 'a objstore \<Rightarrow> 'a option" where
  "vec_at E v index w = get_obj E (cell E (m_data v) index) w"

definition vec_reallocate ::
  "'a elem \<Rightarrow> u64 \<Rightarrow> vector \<Rightarrow> 'a objstore \<Rightarrow> (vector \<times> 'a objstore) option" where
  "vec_reallocate E newCapacity v w = do {
     (newBlock, w) \<leftarrow> vec_malloc E newCapacity w;
     if newBlock \<noteq> 0
     then do {
       w \<leftarrow> for_up (\<lambda>i. move_obj E (cell E (m_data v) i) (cell E newBlock i)) 0 (m_size v) w;
       w \<leftarrow> (if m_data v \<noteq> 0 then vec_kfree (m_data v) w else Some w);
       Some (v\<lparr>m_data := newBlock, m_capacity := newCapacity\<rparr>, w)
     }
     else Some (v, w)
   }"

text \<open>The growth step shared by \<open>pushBack\<close> and \<open>insert\<close>.\<close>

definition vec_grow :: "'a elem \<Rightarrow> vector \<Rightarrow> 'a objstore \<Rightarrow> (vector \<times> 'a objstore) option" where
  "vec_grow E v w =
    (if m_size v = m_capacity v
     then vec_reallocate E (if m_capacity v = 0 then 1 else 2 * m_capacity v) v w
     else Some (v, w))"

text \<open>
  Both overloads of \<open>pushBack\<close>: the copying one (\<open>src = None\<close>) and the one that moves from the
  object at \<open>src\<close>, which stays alive in its moved-from state.
\<close>

definition vec_pushBack :: "'a elem \<Rightarrow> 'a \<Rightarrow> vector \<Rightarrow> 'a objstore \<Rightarrow> (vector \<times> 'a objstore) option" where
  "vec_pushBack E x v w = do {
     (v, w) \<leftarrow> vec_grow E v w;
     let w = put_obj (cell E (m_data v) (m_size v)) x w;
     Some (v\<lparr>m_size := m_size v + 1\<rparr>, w)
   }"

definition vec_pushBack_move ::
  "'a elem \<Rightarrow> u64 \<Rightarrow> vector \<Rightarrow> 'a objstore \<Rightarrow> (vector \<times> 'a objstore) option" where
  "vec_pushBack_move E src v w = do {
     (v, w) \<leftarrow> vec_grow E v w;
     x \<leftarrow> get_obj E src w;
     let w = put_obj (cell E (m_data v) (m_size v)) x w;
     let w = (if prim E then w else w\<lparr>objs := (objs w)(src := moved_from E x)\<rparr>);
     Some (v\<lparr>m_size := m_size v + 1\<rparr>, w)
   }"

definition vec_insert :: "'a elem \<Rightarrow> u64 \<Rightarrow> 'a \<Rightarrow> vector \<Rightarrow> 'a objstore \<Rightarrow> (vector \<times> 'a objstore) option" where
  "vec_insert E index x v w =
    (if m_size v < index then Some (v, w)
     else do {
       (v, w) \<leftarrow> vec_grow E v w;
       w \<leftarrow> for_down (\<lambda>i. move_obj E (cell E (m_data v) (i - 1)) (cell E (m_data v) i)) (m_size v) index w;
       let w = put_obj (cell E (m_data v) index) x w;
       Some (v\<lparr>m_size := m_size v + 1\<rparr>, w)
     })"

definition vec_popBack :: "'a elem \<Rightarrow> vector \<Rightarrow> 'a objstore \<Rightarrow> (vector \<times> 'a objstore) option" where
  "vec_popBack E v w =
    (if 0 < m_size v
     then do {
       w \<leftarrow> destroy E (cell E (m_data v) (m_size v - 1)) w;
       Some (v\<lparr>m_size := m_size v - 1\<rparr>, w)
     }
     else Some (v, w))"

definition vec_erase :: "'a elem \<Rightarrow> u64 \<Rightarrow> vector \<Rightarrow> 'a objstore \<Rightarrow> (vector \<times> 'a objstore) option" where
  "vec_erase E index v w =
    (if index < m_size v
     then do {
       w \<leftarrow> destroy E (cell E (m_data v) index) w;
       w \<leftarrow> for_up
         (\<lambda>i w. do {
            w \<leftarrow> (if prim E then copy_obj E (cell E (m_data v) (i + 1)) (cell E (m_data v) i) w
                  else do {
                    w \<leftarrow> copy_obj E (cell E (m_data v) (i + 1)) (cell E (m_data v) i) w;
                    destroy E (cell E (m_data v) (i + 1)) w
                  });
            destroy E (cell E (m_data v) (i + 1)) w
          }) index (m_size v - 1) w;
       Some (v\<lparr>m_size := m_size v - 1\<rparr>, w)
     }
     else Some (v, w))"

function vec_find_loop :: "'a elem \<Rightarrow> 'a \<Rightarrow> u64 \<Rightarrow> vector \<Rightarrow> 'a objstore \<Rightarrow> u64 option" where
  "vec_find_loop E x i v w =
    (if i < m_size v
     then do {
       y \<leftarrow> get_obj E (cell E (m_data v) i) w;
       if y = x then Some i else vec_find_loop E x (i + 1) v w
     }
     else Some npos)"
  by auto
termination
  by (relation "measure (\<lambda>(E, x, i, v, w). unat (m_size v) - unat i)") (auto simp: unat_inc_less)

declare vec_find_loop.simps [simp del]

definition vec_find :: "'a elem \<Rightarrow> 'a \<Rightarrow> vector \<Rightarrow> 'a objstore \<Rightarrow> u64 option" where
  "vec_find E x v w = vec_find_loop E x 0 v w"

definition vec_isempty :: "vector \<Rightarrow> bool" where
  "vec_isempty v = (m_size v = 0)"

definition vec_reserve :: "'a elem \<Rightarrow> u64 \<Rightarrow> vector \<Rightarrow> 'a objstore \<Rightarrow> (vector \<times> 'a objstore) option" where
  "vec_reserve E newCapacity v w =
    (if m_capacity v < newCapacity then vec_reallocate E newCapacity v w else Some (v, w))"

definition vec_clear :: "'a elem \<Rightarrow> vector \<Rightarrow> 'a objstore \<Rightarrow> (vector \<times> 'a objstore) option" where
  "vec_clear E v w = do { w \<leftarrow> vec_destroy_all E v w; Some (v\<lparr>m_size := 0\<rparr>, w) }"

section \<open>Single objects\<close>

text \<open>An object of value \<open>x\<close> is readable at \<open>a\<close>.\<close>

definition holds :: "'a elem \<Rightarrow> 'a objstore \<Rightarrow> u64 \<Rightarrow> 'a \<Rightarrow> bool" where
  "holds E w a x \<longleftrightarrow> objs w a = x \<and> (prim E \<or> live w a)"

text \<open>\<open>w'\<close> differs from \<open>w\<close> at most at the addresses in \<open>A\<close>.\<close>

definition only_at :: "u64 set \<Rightarrow> 'a objstore \<Rightarrow> 'a objstore \<Rightarrow> bool" where
  "only_at A w w' \<longleftrightarrow> oheap w' = oheap w \<and>
    (\<forall>a. a \<notin> A \<longrightarrow> objs w' a = objs w a \<and> live w' a = live w a)"

lemma holds_only_at: "only_at A w w' \<Longrightarrow> a \<notin> A \<Longrightarrow> holds E w' a x = holds E w a x"
  by (auto simp: only_at_def holds_def)

lemma holds_heap [simp]: "holds E (w\<lparr>oheap := h\<rparr>) a x = holds E w a x"
  by (simp add: holds_def)

lemma get_obj_holds: "holds E w a x \<Longrightarrow> get_obj E a w = Some x"
  by (auto simp: holds_def get_obj_def)

lemma put_obj_holds: "holds E (put_obj a x w) a x" "only_at {a} w (put_obj a x w)"
  by (auto simp: holds_def put_obj_def only_at_def)

lemma copy_obj_holds:
  assumes "holds E w src x"
  shows "copy_obj E src dst w = Some (put_obj dst x w)"
  using assms by (simp add: copy_obj_def get_obj_holds)

lemma move_obj_holds:
  assumes "holds E w src x" and "src \<noteq> dst"
  shows "\<exists>w'. move_obj E src dst w = Some w' \<and> holds E w' dst x \<and> only_at {src, dst} w w'"
  using assms
  by (auto simp: move_obj_def copy_obj_holds get_obj_holds put_obj_def destroy_def holds_def only_at_def
      Let_def)

lemma destroy_holds:
  assumes "holds E w a x"
  shows "\<exists>w'. destroy E a w = Some w' \<and> only_at {a} w w'"
  using assms by (auto simp: destroy_def holds_def only_at_def)

section \<open>The list a vector holds\<close>

definition vec_rep :: "'a elem \<Rightarrow> 'a objstore \<Rightarrow> vector \<Rightarrow> 'a list \<Rightarrow> bool" where
  "vec_rep E w v xs \<longleftrightarrow>
    0 < sizeof_T E \<and> length xs = unat (m_size v) \<and> m_size v \<le> m_capacity v \<and>
    unat (m_data v) + unat (m_capacity v) * unat (sizeof_T E) < 2 ^ 64 \<and>
    (\<forall>i < length xs. holds E w (cell E (m_data v) (of_nat i)) (xs ! i))"

text \<open>The regions a vector owns: its block, if it has one.\<close>

definition vec_regions :: "'a elem \<Rightarrow> vector \<Rightarrow> (u64 \<times> nat) list" where
  "vec_regions E v =
    (if m_data v = 0 then [] else [(m_data v, unat (m_capacity v) * unat (sizeof_T E))])"

text \<open>Element addresses inside a block that does not wrap.\<close>

lemma cell_unat:
  assumes "unat d + c * unat (sizeof_T E) < 2 ^ 64" and "i \<le> c"
  shows "unat (cell E d (of_nat i)) = unat d + i * unat (sizeof_T E)"
proof -
  have le: "i * unat (sizeof_T E) \<le> c * unat (sizeof_T E)"
    using assms(2) by simp
  have "cell E d (of_nat i) = d + of_nat (i * unat (sizeof_T E))"
    by (simp add: cell_def)
  moreover have "unat d + i * unat (sizeof_T E) < 2 ^ 64"
    using assms(1) le by linarith
  ultimately show ?thesis
    by (simp only: unat_offset)
qed

lemma cell_eq_iff:
  assumes "unat d + c * unat (sizeof_T E) < 2 ^ 64" "0 < sizeof_T E" "i \<le> c" "j \<le> c"
  shows "cell E d (of_nat i) = cell E d (of_nat j) \<longleftrightarrow> i = j"
proof -
  have "0 < unat (sizeof_T E)" using assms(2) by (simp add: word_less_nat_alt)
  then show ?thesis
    using cell_unat [OF assms(1,3)] cell_unat [OF assms(1,4)]
    by (simp only: word_unat_eq_iff) simp
qed

lemma cell_apart:
  assumes d: "unat d + c * unat (sizeof_T E) < 2 ^ 64" "i < c"
    and e: "unat e + c' * unat (sizeof_T E) < 2 ^ 64" "j < c'"
    and s: "0 < sizeof_T E"
    and "apart e (c' * unat (sizeof_T E)) d (c * unat (sizeof_T E))"
  shows "cell E d (of_nat i) \<noteq> cell E e (of_nat j)"
proof -
  have s: "0 < unat (sizeof_T E)" using s by (simp add: word_less_nat_alt)
  have "i * unat (sizeof_T E) + unat (sizeof_T E) \<le> c * unat (sizeof_T E)"
    "j * unat (sizeof_T E) + unat (sizeof_T E) \<le> c' * unat (sizeof_T E)"
    using mult_le_mono1 [of "Suc i" c "unat (sizeof_T E)"] mult_le_mono1 [of "Suc j" c' "unat (sizeof_T E)"]
      d(2) e(2) by simp_all
  then show ?thesis
    using apart_neq [OF assms(6), of "cell E e (of_nat j)" "cell E d (of_nat i)"] s
      cell_unat [OF d(1), of i] cell_unat [OF e(1), of j] d(2) e(2) by auto
qed

lemma vec_rep_append:
  assumes rep: "vec_rep E w v xs" and room: "m_size v < m_capacity v"
  shows "vec_rep E (put_obj (cell E (m_data v) (m_size v)) x w) (v\<lparr>m_size := m_size v + 1\<rparr>) (xs @ [x])"
proof -
  let ?a = "cell E (m_data v) (m_size v)" and ?c = "unat (m_capacity v)"
  have r: "0 < sizeof_T E" "length xs = unat (m_size v)"
    "unat (m_data v) + ?c * unat (sizeof_T E) < 2 ^ 64"
    "\<And>i. i < length xs \<Longrightarrow> holds E w (cell E (m_data v) (of_nat i)) (xs ! i)"
    using rep by (auto simp: vec_rep_def)
  have lt: "length xs < ?c" using room r(2) by (simp add: word_less_nat_alt)
  have a: "?a = cell E (m_data v) (of_nat (length xs))" using r(2) by simp
  have "holds E (put_obj ?a x w) (cell E (m_data v) (of_nat i)) ((xs @ [x]) ! i)" if "i < Suc (length xs)" for i
  proof (cases "i = length xs")
    case True
    then show ?thesis using put_obj_holds(1) [of E ?a x w] a by simp
  next
    case False
    then have "cell E (m_data v) (of_nat i) \<noteq> ?a"
      unfolding a using cell_eq_iff [OF r(3,1), of i "length xs"] that lt by simp
    then show ?thesis
      using False that r(4) [of i] holds_only_at [OF put_obj_holds(2) [of ?a w x]] by (simp add: nth_append)
  qed
  then show ?thesis
    using r lt room unat_inc [OF room]
    by (simp add: vec_rep_def word_le_nat_alt word_less_nat_alt)
qed

section \<open>Growing\<close>

definition new_capacity :: "vector \<Rightarrow> u64" where
  "new_capacity v = (if m_capacity v = 0 then 1 else 2 * m_capacity v)"

text \<open>The loop that moves the elements to a block apart from the old one.\<close>

lemma move_all:
  assumes rep: "vec_rep E w v xs"
    and p: "unat p + c * unat (sizeof_T E) < 2 ^ 64" "length xs \<le> c"
    and ap: "apart p (c * unat (sizeof_T E)) (m_data v) (unat (m_capacity v) * unat (sizeof_T E))"
  shows "\<exists>w'. for_up (\<lambda>i. move_obj E (cell E (m_data v) i) (cell E p i)) 0 (m_size v) w = Some w' \<and>
    (\<forall>i < length xs. holds E w' (cell E p (of_nat i)) (xs ! i)) \<and> oheap w' = oheap w"
proof -
  let ?old = "\<lambda>i. cell E (m_data v) (of_nat i)" and ?new = "\<lambda>i. cell E p (of_nat i)"
  let ?P = "\<lambda>k w'. (\<forall>i < k. holds E w' (?new i) (xs ! i)) \<and>
    (\<forall>i < length xs. k \<le> i \<longrightarrow> holds E w' (?old i) (xs ! i)) \<and> oheap w' = oheap w"
  have r: "0 < sizeof_T E" "length xs = unat (m_size v)" "length xs \<le> unat (m_capacity v)"
    "unat (m_data v) + unat (m_capacity v) * unat (sizeof_T E) < 2 ^ 64"
    "\<forall>i < length xs. holds E w (?old i) (xs ! i)"
    using rep by (auto simp: vec_rep_def word_le_nat_alt)
  have on: "?old i \<noteq> ?new j" if "i < length xs" "j < length xs" for i j
    using cell_apart [OF r(4) _ p(1) _ r(1) ap, of i j] that r(3) p(2) by simp
  have oo: "?old i = ?old j \<longleftrightarrow> i = j" "?new i = ?new j \<longleftrightarrow> i = j" if "i < length xs" "j < length xs" for i j
    using cell_eq_iff [OF r(4,1), of i j] cell_eq_iff [OF p(1) r(1), of i j] that r(3) p(2) by simp_all
  have "\<exists>w'. for_up (\<lambda>i. move_obj E (cell E (m_data v) i) (cell E p i)) 0 (m_size v) w = Some w' \<and>
    ?P (unat (m_size v)) w'"
  proof (rule for_up_rule)
    show "?P (unat (0 :: u64)) w" using r(5) by simp
    fix j :: u64 and w1
    assume P: "?P (unat j) w1" and "j < m_size v"
    then have j: "unat j < length xs" using r(2) by (simp add: word_less_nat_alt)
    then obtain w2 where w2: "move_obj E (?old (unat j)) (?new (unat j)) w1 = Some w2"
      "holds E w2 (?new (unat j)) (xs ! unat j)" "only_at {?old (unat j), ?new (unat j)} w1 w2"
      using move_obj_holds [OF _ on [OF j j], of E w1 "xs ! unat j"] P j by blast
    note keep = holds_only_at [OF w2(3)]
    have "holds E w2 (?new i) (xs ! i)" if "i < unat j + 1" for i
      using that w2(2) P keep [of "?new i"] on [OF j, of i] oo(2) [of i "unat j"] j
      by (cases "i = unat j") auto
    moreover have "holds E w2 (?old i) (xs ! i)" if "i < length xs" "unat j + 1 \<le> i" for i
      using that P keep [of "?old i"] on [OF that(1) j] oo(1) [OF that(1) j] by auto
    ultimately show "\<exists>w'. move_obj E (cell E (m_data v) j) (cell E p j) w1 = Some w' \<and> ?P (unat j + 1) w'"
      using w2(1,3) P by (auto simp: only_at_def)
  qed simp
  then show ?thesis using r(2) by auto
qed

lemma mult_no_wrap:
  fixes a b :: u64
  assumes "unat a * unat b < 2 ^ 64"
  shows "unat (a * b) = unat a * unat b"
  using assms by (simp add: unat_word_ariths)

lemma vec_grow_rep:
  assumes rep: "vec_rep E w v xs" and own: "heap_owns (oheap w) (vec_regions E v)"
    and full: "m_size v = m_capacity v" and data: "m_capacity v = 0 \<longleftrightarrow> m_data v = 0"
    and fit: "2 * Suc (unat (m_capacity v)) * unat (sizeof_T E) < 2 ^ 63"
    and ok: "kmalloc (oheap w) (new_capacity v * sizeof_T E) \<noteq> Some (0, oheap w)"
  shows "\<exists>v' w'. vec_grow E v w = Some (v', w') \<and> vec_rep E w' v' xs \<and>
    m_size v' = m_size v \<and> m_capacity v' = new_capacity v \<and> m_size v' < m_capacity v'"
proof -
  let ?s = "unat (sizeof_T E)" and ?c = "unat (m_capacity v)" and ?n = "new_capacity v"
  have r: "0 < sizeof_T E" "length xs = unat (m_size v)" using rep by (auto simp: vec_rep_def)
  have s: "0 < ?s" using r(1) by (simp add: word_less_nat_alt)
  have c: "?c < 2 ^ 63"
    using fit s by (cases ?s) auto
  have n: "unat ?n = (if ?c = 0 then 1 else 2 * ?c)" "?c < unat ?n"
    using mult_no_wrap [of 2 "m_capacity v"] c
    by (auto simp: new_capacity_def unat_eq_zero unat_gt_0)
  have "unat ?n * ?s \<le> 2 * Suc ?c * ?s"
    using n(1) by (intro mult_le_mono1) auto
  then have ns: "unat (?n * sizeof_T E) = unat ?n * ?s" "unat (?n * sizeof_T E) < 2 ^ 63"
    using mult_no_wrap [of ?n "sizeof_T E"] fit by simp_all
  have lt: "m_size v < ?n" using n(2) full by (simp add: word_less_nat_alt)
  obtain p h' where a: "kmalloc (oheap w) (?n * sizeof_T E) = Some (p, h')" "p \<noteq> 0"
    "unat p + unat ?n * ?s < 2 ^ 64" "list_all (\<lambda>(q, k). apart p (unat ?n * ?s) q k) (vec_regions E v)"
    "heap_owns h' ((p, unat ?n * ?s) # vec_regions E v)"
    using kblocks.alloc_owns [OF own ns(2)] ok unfolding ns(1) by blast
  have ap: "apart p (unat ?n * ?s) (m_data v) (?c * ?s)"
    using a(4) data by (auto simp: vec_regions_def apart_def)
  have rep1: "vec_rep E (w\<lparr>oheap := h'\<rparr>) v xs"
    using rep by (simp add: vec_rep_def)
  have len: "length xs \<le> unat ?n" using lt r(2) by (simp add: word_less_nat_alt)
  obtain w2 where w2: "for_up (\<lambda>i. move_obj E (cell E (m_data v) i) (cell E p i)) 0 (m_size v)
      (w\<lparr>oheap := h'\<rparr>) = Some w2"
    "\<forall>i < length xs. holds E w2 (cell E p (of_nat i)) (xs ! i)" "oheap w2 = h'"
    using move_all [OF rep1 a(3) len ap] by auto
  obtain h3 where h3: "kfree h' (m_data v) = Some h3"
    using kblocks.release_returns [OF a(5)] by blast
  have "kfree h' 0 = Some h'" by (simp add: kfree_def)
  then have "vec_grow E v w = Some (v\<lparr>m_data := p, m_capacity := ?n\<rparr>, w2\<lparr>oheap := h3\<rparr>)"
    using a(1,2) w2 h3 full
    by (auto simp: vec_grow_def vec_reallocate_def vec_malloc_def vec_kfree_def new_capacity_def)
  moreover have "vec_rep E (w2\<lparr>oheap := h3\<rparr>) (v\<lparr>m_data := p, m_capacity := ?n\<rparr>) xs"
    using r w2(2) a(3) lt by (simp add: vec_rep_def)
  ultimately show ?thesis using lt by auto
qed

section \<open>Shifting elements\<close>

lemma vec_rep_facts:
  assumes "vec_rep E w v xs"
  shows "0 < sizeof_T E" "length xs = unat (m_size v)" "length xs \<le> unat (m_capacity v)"
    "unat (m_data v) + unat (m_capacity v) * unat (sizeof_T E) < 2 ^ 64"
    "i < length xs \<Longrightarrow> holds E w (cell E (m_data v) (of_nat i)) (xs ! i)"
    "i \<le> unat (m_capacity v) \<Longrightarrow> j \<le> unat (m_capacity v) \<Longrightarrow>
      cell E (m_data v) (of_nat i) = cell E (m_data v) (of_nat j) \<longleftrightarrow> i = j"
  using assms cell_eq_iff [of "m_data v" "unat (m_capacity v)" E i j]
  by (auto simp: vec_rep_def word_le_nat_alt)

text \<open>Moving the elements from \<open>index\<close> on one place up.\<close>

lemma shift_up:
  assumes rep: "vec_rep E w v xs" and room: "m_size v < m_capacity v" and index: "index \<le> m_size v"
  shows "\<exists>w'. for_down (\<lambda>i. move_obj E (cell E (m_data v) (i - 1)) (cell E (m_data v) i))
      (m_size v) index w = Some w' \<and>
    (\<forall>j < unat index. holds E w' (cell E (m_data v) (of_nat j)) (xs ! j)) \<and>
    (\<forall>j < length xs. unat index \<le> j \<longrightarrow> holds E w' (cell E (m_data v) (of_nat (j + 1))) (xs ! j))"
proof -
  let ?c = "\<lambda>i. cell E (m_data v) (of_nat i)"
  let ?P = "\<lambda>k w'. (\<forall>j < k. holds E w' (?c j) (xs ! j)) \<and>
    (\<forall>j < length xs. k \<le> j \<longrightarrow> holds E w' (?c (j + 1)) (xs ! j))"
  note r = vec_rep_facts [OF rep]
  have lt: "length xs < unat (m_capacity v)" using room r(2) by (simp add: word_less_nat_alt)
  have "\<exists>w'. for_down (\<lambda>i. move_obj E (cell E (m_data v) (i - 1)) (cell E (m_data v) i))
      (m_size v) index w = Some w' \<and> ?P (unat index) w'"
  proof (rule for_down_rule)
    show "?P (unat (m_size v)) w" using r(2) r(5) by auto
    show "index \<le> m_size v" by (rule index)
    fix j :: u64 and w1
    assume P: "?P (unat j) w1" and "index < j" "j \<le> m_size v"
    then have j: "j \<noteq> 0" "unat j \<le> length xs" using r(2) by (auto simp: word_le_nat_alt)
    define k where "k = unat j - 1"
    have u: "unat j = Suc k"
      using j(1) unfolding k_def by (simp add: unat_gt_0)
    then have jk: "j = of_nat (Suc k)"
      by (metis u64_of_nat_unat)
    then have "j - 1 = of_nat k" by simp
    note k = u this jk
    have src: "holds E w1 (?c k) (xs ! k)" and ne: "?c k \<noteq> ?c (Suc k)"
      using P k j(2) r(6) [of k "Suc k"] lt by (simp_all del: of_nat_Suc)
    obtain w2 where w2: "move_obj E (?c k) (?c (Suc k)) w1 = Some w2"
      "holds E w2 (?c (Suc k)) (xs ! k)" "only_at {?c k, ?c (Suc k)} w1 w2"
      using move_obj_holds [OF src ne] by blast
    note keep = holds_only_at [OF w2(3)]
    have "holds E w2 (?c i) (xs ! i)" if "i < k" for i
      using that P keep [of "?c i"] r(6) [of i k] r(6) [of i "Suc k"] k(1) j(2) lt
      by (simp del: of_nat_Suc)
    moreover have "holds E w2 (?c (i + 1)) (xs ! i)" if "i < length xs" "k \<le> i" for i
      using that P keep [of "?c (i + 1)"] r(6) [of "i + 1" k] r(6) [of "i + 1" "Suc k"] k(1) w2(2) lt
      by (cases "i = k") (simp_all del: of_nat_Suc of_nat_add)
    ultimately show "\<exists>w'. move_obj E (cell E (m_data v) (j - 1)) (cell E (m_data v) j) w1 = Some w' \<and>
        ?P (unat j - 1) w'"
      using w2(1) k by (auto simp del: of_nat_Suc of_nat_add)
  qed
  then show ?thesis by blast
qed

text \<open>Assigning the elements after \<open>index\<close> one place down (primitive types).\<close>

lemma shift_down:
  assumes rep: "vec_rep E w v xs" and pr: "prim E" and index: "index < m_size v"
  shows "\<exists>w'. for_up (\<lambda>i w. do {
        w \<leftarrow> copy_obj E (cell E (m_data v) (i + 1)) (cell E (m_data v) i) w;
        destroy E (cell E (m_data v) (i + 1)) w }) index (m_size v - 1) w = Some w' \<and>
    (\<forall>j < length xs - 1. holds E w' (cell E (m_data v) (of_nat j))
       ((take (unat index) xs @ drop (unat index + 1) xs) ! j))"
proof -
  let ?c = "\<lambda>i. cell E (m_data v) (of_nat i)"
  let ?P = "\<lambda>k w'. \<forall>j < length xs.
    holds E w' (?c j) (if unat index \<le> j \<and> j < k then xs ! (j + 1) else xs ! j)"
  note r = vec_rep_facts [OF rep]
  have ne: "m_size v \<noteq> 0" using index by auto
  have m1: "unat (m_size v - 1) = length xs - 1" "unat index < length xs"
    using index unat_pred [of "m_size v"] r(2) ne by (auto simp: word_less_nat_alt)
  have "\<exists>w'. for_up (\<lambda>i w. do {
        w \<leftarrow> copy_obj E (cell E (m_data v) (i + 1)) (cell E (m_data v) i) w;
        destroy E (cell E (m_data v) (i + 1)) w }) index (m_size v - 1) w = Some w' \<and>
    ?P (unat (m_size v - 1)) w'"
  proof (rule for_up_rule)
    show "?P (unat index) w" using r(5) by auto
    show "index \<le> m_size v - 1" using m1 by (simp add: word_le_nat_alt)
    fix j :: u64 and w1
    assume P: "?P (unat j) w1" and "index \<le> j" "j < m_size v - 1"
    then have j: "unat index \<le> unat j" "unat j + 1 < length xs" "unat (j + 1) = unat j + 1"
      using m1 unat_inc [of j "m_size v - 1"] by (auto simp: word_le_nat_alt word_less_nat_alt)
    have eq: "cell E (m_data v) (j + 1) = ?c (unat j + 1)" "cell E (m_data v) j = ?c (unat j)"
      by (simp_all add: add.commute [of 1 j])
    have "holds E w1 (?c (unat j + 1)) (xs ! (unat j + 1))" using P j by auto
    note cp = copy_obj_holds [OF this, of "?c (unat j)"]
    let ?w2 = "put_obj (?c (unat j)) (xs ! (unat j + 1)) w1"
    have "holds E ?w2 (?c i) (if unat index \<le> i \<and> i < unat j + 1 then xs ! (i + 1) else xs ! i)"
      if "i < length xs" for i
    proof (cases "i = unat j")
      case True
      then show ?thesis using put_obj_holds(1) j by simp
    next
      case False
      then have "?c i \<noteq> ?c (unat j)" using r(6) [of i "unat j"] that j r(3) by simp
      then show ?thesis
        using P that False holds_only_at [OF put_obj_holds(2) [of "?c (unat j)" w1]] by auto
    qed
    then show "\<exists>w'. (do {
        w \<leftarrow> copy_obj E (cell E (m_data v) (j + 1)) (cell E (m_data v) j) w1;
        destroy E (cell E (m_data v) (j + 1)) w }) = Some w' \<and> ?P (unat j + 1) w'"
      unfolding eq using cp pr by (simp add: destroy_def)
  qed
  then obtain w' where w': "for_up (\<lambda>i w. do {
        w \<leftarrow> copy_obj E (cell E (m_data v) (i + 1)) (cell E (m_data v) i) w;
        destroy E (cell E (m_data v) (i + 1)) w }) index (m_size v - 1) w = Some w'"
    "?P (length xs - 1) w'"
    unfolding m1(1) by blast
  have "holds E w' (?c j) ((take (unat index) xs @ drop (unat index + 1) xs) ! j)"
    if "j < length xs - 1" for j
  proof -
    have eq: "(take (unat index) xs @ drop (unat index + 1) xs) ! j =
        (if unat index \<le> j \<and> j < length xs - 1 then xs ! (j + 1) else xs ! j)"
      using that m1(2) by (auto simp: nth_append)
    have "j < length xs" using that by simp
    from w'(2) [rule_format, OF this] show ?thesis by (simp only: eq)
  qed
  then show ?thesis using w'(1) by blast
qed

section \<open>Searching\<close>

text \<open>The position of the first occurrence.\<close>

fun first_index :: "'a \<Rightarrow> 'a list \<Rightarrow> nat option" where
  "first_index x [] = None"
| "first_index x (y # ys) = (if y = x then Some 0 else map_option Suc (first_index x ys))"

lemma vec_find_loop_first_index:
  assumes rep: "vec_rep E w v xs" and "i \<le> m_size v"
  shows "vec_find_loop E x i v w =
    Some (case first_index x (drop (unat i) xs) of None \<Rightarrow> npos | Some k \<Rightarrow> i + of_nat k)"
  using assms
proof (induction E x i v w rule: vec_find_loop.induct)
  case (1 E x i v w)
  note r = vec_rep_facts [OF 1(2)]
  show ?case
  proof (cases "i < m_size v")
    case True
    then have lt: "unat i < length xs" and u: "unat (i + 1) = unat i + 1" and le: "i + 1 \<le> m_size v"
      using unat_inc [OF True] r(2) by (auto simp: word_less_nat_alt word_le_nat_alt)
    have g: "get_obj E (cell E (m_data v) i) w = Some (xs ! unat i)"
      using get_obj_holds [OF r(5) [OF lt]] by simp
    have d: "drop (unat i) xs = xs ! unat i # drop (unat i + 1) xs"
      using Cons_nth_drop_Suc [OF lt] by simp
    show ?thesis
    proof (cases "xs ! unat i = x")
      case True
      with g d \<open>i < m_size v\<close> show ?thesis by (simp add: vec_find_loop.simps [of E x i])
    next
      case False
      with g \<open>i < m_size v\<close> have "vec_find_loop E x i v w = vec_find_loop E x (i + 1) v w"
        by (simp add: vec_find_loop.simps [of E x i])
      also have "\<dots> = Some (case first_index x (drop (unat (i + 1)) xs) of None \<Rightarrow> npos
          | Some k \<Rightarrow> i + 1 + of_nat k)"
        using 1(1) [OF True] g False 1(2) le by simp
      finally show ?thesis
        using u d False by (simp split: option.splits)
    qed
  next
    case False
    then have "drop (unat i) xs = []" using 1(3) r(2) by (simp add: word_less_nat_alt)
    with False show ?thesis by (simp add: vec_find_loop.simps [of E x i])
  qed
qed

lemma first_index_None: "first_index x xs = None \<longleftrightarrow> x \<notin> set xs"
  by (induction xs) auto

lemma vec_insert_rep:
  assumes rep: "vec_rep E w v xs" and room: "m_size v < m_capacity v" and index: "index \<le> m_size v"
  shows "\<exists>v' w'. vec_insert E index x v w = Some (v', w') \<and>
    vec_rep E w' v' (take (unat index) xs @ x # drop (unat index) xs) \<and>
    m_data v' = m_data v \<and> m_capacity v' = m_capacity v"
proof -
  let ?c = "\<lambda>i. cell E (m_data v) (of_nat i)" and ?i = "unat index"
  let ?ys = "take ?i xs @ x # drop ?i xs"
  note r = vec_rep_facts [OF rep]
  have lt: "length xs < unat (m_capacity v)" and le: "?i \<le> length xs"
    using room index r(2) by (simp_all add: word_less_nat_alt word_le_nat_alt)
  obtain w1 where w1: "for_down (\<lambda>i. move_obj E (cell E (m_data v) (i - 1)) (cell E (m_data v) i))
      (m_size v) index w = Some w1"
    "\<And>j. j < ?i \<Longrightarrow> holds E w1 (?c j) (xs ! j)"
    "\<And>j. j < length xs \<Longrightarrow> ?i \<le> j \<Longrightarrow> holds E w1 (?c (j + 1)) (xs ! j)"
    using shift_up [OF rep room index] by auto
  let ?w2 = "put_obj (?c ?i) x w1"
  note put = put_obj_holds [where a = "?c ?i" and x = x and w = w1]
  have "holds E ?w2 (?c j) (?ys ! j)" if j: "j < Suc (length xs)" for j
  proof (cases "j = ?i")
    case True
    then show ?thesis using put(1) le by (simp add: nth_append)
  next
    case False
    then have "?c j \<noteq> ?c ?i" using r(6) [of j ?i] j le lt by simp
    then have "holds E ?w2 (?c j) (?ys ! j) = holds E w1 (?c j) (?ys ! j)"
      using holds_only_at [OF put(2)] by simp
    moreover have "holds E w1 (?c j) (?ys ! j)"
    proof (cases "j < ?i")
      case True
      then show ?thesis using w1(2) [of j] le by (simp add: nth_append)
    next
      case ge: False
      then obtain k where k: "j = k + 1" "?i \<le> k" using False by (cases j) auto
      then show ?thesis using w1(3) [of k] j le by (simp add: nth_append Suc_diff_le del: of_nat_add of_nat_Suc)
    qed
    ultimately show ?thesis by simp
  qed
  then have "vec_rep E ?w2 (v\<lparr>m_size := m_size v + 1\<rparr>) ?ys"
    using r(1,2,4) le lt unat_inc [OF room] by (simp add: vec_rep_def word_le_nat_alt)
  moreover have "vec_insert E index x v w = Some (v\<lparr>m_size := m_size v + 1\<rparr>, ?w2)"
    using w1(1) index room by (auto simp: vec_insert_def vec_grow_def Let_def)
  ultimately show ?thesis by simp
qed

section \<open>Properties\<close>

definition vec_elem8 :: "nat elem" where
  "vec_elem8 = \<lparr>elem_type = CULong, sizeof_T = 8, moved_from = id\<rparr>"

definition class_elem :: "nat elem" where
  "class_elem = \<lparr>elem_type = CClass ''string'', sizeof_T = 24, moved_from = (\<lambda>_. 0)\<rparr>"

definition vworld1 :: "nat objstore" where
  "vworld1 = \<lparr>oheap = heap1, objs = (\<lambda>_. 0), live = (\<lambda>_. False)\<rparr>"

text \<open>A store in which four elements 0, 1, 2, 3 of size 24 stand at \<open>0x300000\<close>.\<close>

definition vworld4 :: "nat objstore" where
  "vworld4 = \<lparr>oheap = heap1, objs = (\<lambda>a. unat ((a - 0x300000) div 24)), live = (\<lambda>_. True)\<rparr>"

definition vec4 :: vector where
  "vec4 = \<lparr>m_data = 0x300000, m_size = 4, m_capacity = 8\<rparr>"


lemma heap1_gives_8: "kmalloc heap1 8 \<noteq> Some (0, heap1)"
proof -
  have wf: "heap_wf heap1 [(0x1000, True)]"
    using heap1_dll by (simp add: heap_dll_def)
  have "spec_allocate 8 [(0x1000, True)] = Some (32, [(40, False), (4056, True)])"
    by (simp add: spec_allocate_def)
  from heap_allocate_Some [OF wf _ this] obtain h' where
    "heap_allocate heap1 (of_nat 8) = Some (m_firstSegment heap1 + of_nat 32, h')"
    by auto
  then have "kmalloc heap1 8 = Some (0x200020, h')"
    by (simp add: kmalloc_def heap1_base)
  then show ?thesis by simp
qed


text \<open>
  \<open>insert\<close> and \<open>find\<close> on a vector with room. Inserting at an index up to the size shifts the
  tail up by one and puts \<open>x\<close> there, for primitive and class types alike; beyond the size nothing
  happens. \<open>find\<close> then returns the first position of \<open>x\<close>.
\<close>

theorem vec_insert_correct:
  assumes "vec_rep E w v xs" and "m_size v < m_capacity v"
  shows "if unat index \<le> length xs
    then \<exists>v' w'. vec_insert E index x v w = Some (v', w') \<and>
      vec_rep E w' v' (take (unat index) xs @ x # drop (unat index) xs) \<and>
      m_data v' = m_data v \<and> m_capacity v' = m_capacity v \<and>
      vec_find E x v' w' =
        Some (of_nat (the (first_index x (take (unat index) xs @ x # drop (unat index) xs))))
    else vec_insert E index x v w = Some (v, w)"
proof (cases "unat index \<le> length xs")
  case True
  let ?ys = "take (unat index) xs @ x # drop (unat index) xs"
  have le: "index \<le> m_size v" using True vec_rep_facts(2) [OF assms(1)] by (simp add: word_le_nat_alt)
  obtain v' w' where i: "vec_insert E index x v w = Some (v', w')" "vec_rep E w' v' ?ys"
    "m_data v' = m_data v" "m_capacity v' = m_capacity v"
    using vec_insert_rep [OF assms le] by blast
  have "first_index x ?ys \<noteq> None" by (simp add: first_index_None)
  then have "vec_find E x v' w' = Some (of_nat (the (first_index x ?ys)))"
    using vec_find_loop_first_index [OF i(2), of 0 x] by (auto simp: vec_find_def)
  with i True show ?thesis by simp
next
  case False
  then have "m_size v < index" using vec_rep_facts(2) [OF assms(1)] by (simp add: word_less_nat_alt)
  with False show ?thesis by (simp add: vec_insert_def)
qed

text \<open>The four-element store, for both kinds of element type.\<close>

lemma vec4_rep:
  assumes "sizeof_T E = 24"
  shows "vec_rep E vworld4 vec4 [0, 1, 2, 3]"
proof -
  have "holds E vworld4 (cell E 0x300000 (of_nat i)) ([0, 1, 2, 3] ! i)" if "i < 4" for i
  proof -
    have "i = 0 \<or> i = 1 \<or> i = 2 \<or> i = 3" using that by auto
    then show ?thesis
      using assms by (elim disjE) (simp_all add: holds_def vworld4_def cell_def)
  qed
  then show ?thesis
    using assms by (simp add: vec_rep_def vec4_def)
qed

theorem vec_insert_correct_witness:
  "\<exists>v' w'. vec_insert class_elem 1 9 vec4 vworld4 = Some (v', w') \<and>
    vec_rep class_elem w' v' [0, 9, 1, 2, 3] \<and> vec_find class_elem 9 v' w' = Some 1"
proof -
  have "sizeof_T class_elem = 24" "m_size vec4 < m_capacity vec4"
    by (simp_all add: class_elem_def vec4_def)
  from vec_insert_correct [OF vec4_rep [OF this(1)] this(2), of 1 9] show ?thesis
    by auto
qed

text \<open>
  \<open>erase\<close>. For a primitive element type it removes the element at the index and closes the gap.
  For a class type it destroys the element after the index twice, so that erasing anything but
  the last element is an error; only the last element can be erased.
\<close>

theorem vec_erase_correct:
  assumes "vec_rep E w v xs" and "unat index < length xs"
  shows "if prim E \<or> unat index + 1 = length xs
    then \<exists>v' w'. vec_erase E index v w = Some (v', w') \<and>
      vec_rep E w' v' (take (unat index) xs @ drop (unat index + 1) xs)
    else vec_erase E index v w = None"
proof -
  let ?d = "\<lambda>i. cell E (m_data v) i"
  note r = vec_rep_facts [OF assms(1)]
  have lt: "index < m_size v" using assms(2) r(2) by (simp add: word_less_nat_alt)
  then have "m_size v \<noteq> 0" by auto
  then have m1: "unat (m_size v - 1) = length xs - 1" using unat_pred [of "m_size v"] r(2) by simp
  have h: "holds E w (?d index) (xs ! unat index)" using r(5) [OF assms(2)] by simp
  have rep: "vec_rep E w' (v\<lparr>m_size := m_size v - 1\<rparr>) (take (unat index) xs @ drop (unat index + 1) xs)"
    if "\<And>j. j < length xs - 1 \<Longrightarrow> holds E w' (?d (of_nat j)) ((take (unat index) xs @ drop (unat index + 1) xs) ! j)"
    for w'
    using that r(1-4) m1 assms(2) by (simp add: vec_rep_def word_le_nat_alt min_def)
  consider "prim E" | "\<not> prim E" "unat index + 1 = length xs" | "\<not> prim E" "unat index + 1 < length xs"
    using assms(2) by linarith
  then show ?thesis
  proof cases
    case 1
    then have d: "destroy E (?d index) w = Some w" by (simp add: destroy_def)
    obtain w' where w': "for_up (\<lambda>i w. do { w \<leftarrow> copy_obj E (?d (i + 1)) (?d i) w; destroy E (?d (i + 1)) w })
        index (m_size v - 1) w = Some w'"
      "\<And>j. j < length xs - 1 \<Longrightarrow>
        holds E w' (?d (of_nat j)) ((take (unat index) xs @ drop (unat index + 1) xs) ! j)"
      using shift_down [OF assms(1) 1 lt] by blast
    have "vec_erase E index v w = Some (v\<lparr>m_size := m_size v - 1\<rparr>, w')"
      using w'(1) lt 1 by (simp add: vec_erase_def d)
    then show ?thesis using rep [OF w'(2)] 1 by simp
  next
    case 2
    obtain w' where w': "destroy E (?d index) w = Some w'" "only_at {?d index} w w'"
      using destroy_holds [OF h] by blast
    have "\<not> index < m_size v - 1" using 2 m1 by (simp add: word_less_nat_alt)
    then have "vec_erase E index v w = Some (v\<lparr>m_size := m_size v - 1\<rparr>, w')"
      using w'(1) lt by (simp add: vec_erase_def for_up_done)
    moreover have "holds E w' (?d (of_nat j)) ((take (unat index) xs @ drop (unat index + 1) xs) ! j)"
      if "j < length xs - 1" for j
      using that 2 r(5) [of j] holds_only_at [OF w'(2)] r(6) [of j "unat index"] r(3) assms(2)
      by (simp add: nth_append)
    ultimately show ?thesis using rep 2 by auto
  next
    case 3
    let ?w1 = "w\<lparr>live := (live w)(?d index := False)\<rparr>"
    have "index + 1 = of_nat (unat index + 1)" by (simp add: add.commute)
    then have ne: "?d (index + 1) \<noteq> ?d index" and h1: "holds E w (?d (index + 1)) (xs ! (unat index + 1))"
      using r(6) [of "unat index + 1" "unat index"] r(5) [OF 3(2)] 3 r(3) by (simp_all add: add.commute [of index 1])
    have d: "destroy E (?d index) w = Some ?w1" using h 3(1) by (simp add: destroy_def holds_def)
    let ?w2 = "put_obj (?d index) (xs ! (unat index + 1)) ?w1"
    have "holds E ?w1 (?d (index + 1)) (xs ! (unat index + 1))" using h1 ne by (simp add: holds_def)
    note cp = copy_obj_holds [OF this, of "?d index"]
    have "live ?w2 (?d (index + 1))" using h1 ne 3(1) by (simp add: holds_def put_obj_def)
    then have dd: "do { w \<leftarrow> destroy E (?d (index + 1)) ?w2; destroy E (?d (index + 1)) w } = None"
      using 3(1) by (simp add: destroy_def)
    have "index < m_size v - 1" using 3 m1 by (simp add: word_less_nat_alt)
    then have f: "for_up (\<lambda>i w. do {
          w \<leftarrow> (if prim E then copy_obj E (?d (i + 1)) (?d i) w
                else do { w \<leftarrow> copy_obj E (?d (i + 1)) (?d i) w; destroy E (?d (i + 1)) w });
          destroy E (?d (i + 1)) w }) index (m_size v - 1) ?w1 = None"
      by (rule for_up_None) (simp only: cp dd 3(1) if_False Option.bind_lunit)
    have "vec_erase E index v w = None"
      unfolding vec_erase_def by (simp only: d f lt if_True Option.bind_lunit Option.bind_lzero)
    with 3 show ?thesis by simp
  qed
qed

theorem vec_erase_correct_witness:
  "(\<exists>v' w'. vec_erase (class_elem\<lparr>elem_type := CPtr CInt\<rparr>) 1 vec4 vworld4 = Some (v', w') \<and>
     vec_rep (class_elem\<lparr>elem_type := CPtr CInt\<rparr>) w' v' [0, 2, 3]) \<and>
   vec_erase class_elem 1 vec4 vworld4 = None"
proof -
  have s: "sizeof_T class_elem = 24" "sizeof_T (class_elem\<lparr>elem_type := CPtr CInt\<rparr>) = 24"
    and "\<not> prim class_elem"
    by (simp_all add: class_elem_def)
  then show ?thesis
    using vec_erase_correct [OF vec4_rep [OF s(2)], of 1] vec_erase_correct [OF vec4_rep [OF s(1)], of 1]
    by simp
qed

text \<open>
  \<open>pushBack\<close> when the heap has no block left. The failed reallocation is not reported: the
  element is written one place behind the vector's block and the size exceeds the capacity.
\<close>

theorem vec_pushBack_oom:
  assumes "m_size v = m_capacity v"
    and "kmalloc (oheap w) (new_capacity v * sizeof_T E) = Some (0, oheap w)"
  shows "vec_pushBack E x v w =
    Some (v\<lparr>m_size := m_capacity v + 1\<rparr>, put_obj (m_data v + m_capacity v * sizeof_T E) x w)"
  using assms
  by (simp add: vec_pushBack_def vec_grow_def vec_reallocate_def vec_malloc_def new_capacity_def cell_def Let_def)

theorem vec_pushBack_oom_witness:
  "vec_pushBack vec_elem8 7 \<lparr>m_data = 0x200020, m_size = 0x200, m_capacity = 0x200\<rparr> vworld1 =
    Some (\<lparr>m_data = 0x200020, m_size = 0x201, m_capacity = 0x200\<rparr>, put_obj 0x201020 7 vworld1)"
proof -
  have wf: "heap_wf heap1 [(0x1000, True)]"
    using heap1_dll by (simp add: heap_dll_def)
  have "spec_allocate 0x2000 [(0x1000, True)] = None"
    by (simp add: spec_allocate_def)
  from heap_allocate_None [OF wf _ this] have "kmalloc heap1 0x2000 = Some (0, heap1)"
    by (simp add: kmalloc_def)
  then show ?thesis
    using vec_pushBack_oom [of "\<lparr>m_data = 0x200020, m_size = 0x200, m_capacity = 0x200\<rparr>" vworld1 vec_elem8 7]
    by (simp add: new_capacity_def vec_elem8_def vworld1_def)
qed

end
