(* ===== verification/KConv.thy ===== *)
theory KConv
  imports Kmemory "HOL-Library.Signed_Division"
begin

text \<open>
  The number and C-string routines at the top of \<^verbatim>\<open>kernel/src/core/kstring.cpp\<close>: \<open>lltoa\<close>,
  \<open>itoa\<close>, \<open>htoa\<close> and the word-at-a-time \<open>strlen\<close>, on the byte memory. A conversion returns the
  status (0 or -1) and the memory with the buffer filled. The reference for the conversions is
  \<open>dec\<close>, the list of decimal digits; the reference for \<open>strlen\<close> is the offset of the first zero
  byte. \<open>strlen\<close> returns \<open>None\<close> only if there is no zero byte to find.
\<close>

section \<open>Operations\<close>

abbreviation ascii_0 :: u8 where
  "ascii_0 \<equiv> 48"

text \<open>The first loop of \<open>lltoa\<close> and \<open>itoa\<close>: the number of digits less one.\<close>

function lltoa_length :: "u64 \<Rightarrow> u8 \<Rightarrow> u8" where
  "lltoa_length lenTest len =
    (if 0 < lenTest div 10 then lltoa_length (lenTest div 10) (len + 1) else len)"
  by auto
termination
  by (relation "measure (\<lambda>(v, len). unat v)") (auto simp: word_less_nat_alt unat_div)

function lltoa_digits :: "mem \<Rightarrow> u64 \<Rightarrow> u64 \<Rightarrow> u8 \<Rightarrow> u8 \<Rightarrow> mem" where
  "lltoa_digits m val buffer len index =
    (if 0 < val div 10
     then lltoa_digits (m(buffer + ucast len - ucast index := ucast (val mod 10) + ascii_0))
            (val div 10) buffer len (index + 1)
     else m(buffer + ucast len - ucast index := ucast (val mod 10) + ascii_0))"
  by auto
termination
  by (relation "measure (\<lambda>(m, v, b, l, i). unat v)") (auto simp: word_less_nat_alt unat_div)

declare lltoa_length.simps [simp del] lltoa_digits.simps [simp del]

definition lltoa :: "mem \<Rightarrow> u64 \<Rightarrow> u64 \<Rightarrow> u64 \<Rightarrow> int \<times> mem" where
  "lltoa m val buffer bufsize =
    (let len = lltoa_length val 0
     in if bufsize < ucast len + 1 then (- 1, m)
        else
          (let m = lltoa_digits m val buffer len 0
           in (0, m(buffer + ucast len + 1 := 0))))"

text \<open>
  \<open>itoa\<close> works on a signed 32-bit value; \<open>int32\<close> wraps the negation of the least one.
  Division and remainder truncate towards zero.
\<close>

definition int32 :: "int \<Rightarrow> int" where
  "int32 x = signed_take_bit 31 x"

function itoa_digits :: "mem \<Rightarrow> int \<Rightarrow> u64 \<Rightarrow> u64 \<Rightarrow> u8 \<Rightarrow> u8 \<Rightarrow> mem" where
  "itoa_digits m val buffer negative len index =
    (if 0 < val sdiv 10
     then itoa_digits (m(buffer + (negative + ucast len - ucast index) := of_int (val smod 10) + ascii_0))
            (val sdiv 10) buffer negative len (index + 1)
     else m(buffer + (negative + ucast len - ucast index) := of_int (val smod 10) + ascii_0))"
  by auto
termination
proof (relation "measure (\<lambda>(m, v, b, n, l, i). nat v)", goal_cases)
  case (2 m val buffer negative len index)
  then have "0 < val" by (simp add: signed_divide_int_def zero_less_mult_iff sgn_if split: if_splits)
  then show ?case by (simp add: signed_divide_int_def)
qed simp

declare itoa_digits.simps [simp del]

definition itoa :: "mem \<Rightarrow> int \<Rightarrow> u64 \<Rightarrow> u64 \<Rightarrow> int \<times> mem" where
  "itoa m val buffer bufsize =
    (let negative = of_bool (val < 0);
         m = (if val < 0 then m(buffer := 45) else m);
         val = (if val < 0 then int32 (val * - 1) else val);
         len = lltoa_length (of_int val) 0
     in if bufsize < negative + ucast len + 1 then (- 1, m)
        else
          (let m = itoa_digits m val buffer negative len 0
           in (0, m(buffer + (negative + ucast len + 1) := 0))))"

definition g_hexAlphabet :: "u8 list" where
  "g_hexAlphabet = [48, 49, 50, 51, 52, 53, 54, 55, 56, 57, 97, 98, 99, 100, 101, 102]"

definition htoa_step :: "u64 \<Rightarrow> u64 \<Rightarrow> nat \<Rightarrow> mem \<Rightarrow> mem" where
  "htoa_step val buffer idx m =
    (let currentByte = ucast (drop_bit (8 * idx) val) :: u8;
         m = m(buffer + of_nat (15 - (idx * 2 + 1)) :=
               g_hexAlphabet ! unat (drop_bit 4 (currentByte AND 0xF0)));
         m = m(buffer + of_nat (15 - (idx * 2 + 0)) := g_hexAlphabet ! unat (currentByte AND 0x0F))
     in m)"

definition htoa :: "mem \<Rightarrow> u64 \<Rightarrow> u64 \<Rightarrow> u64 \<Rightarrow> int \<times> mem" where
  "htoa m val buffer bufsize =
    (if bufsize < 17 then (- 1, m)
     else (0, (fold (htoa_step val buffer) [0..<8] m)(buffer + 16 := 0)))"

text \<open>\<open>Inl\<close>: the length was found before the pointer was aligned; \<open>Inr\<close>: the aligned pointer.\<close>

partial_function (option) strlen_align :: "mem \<Rightarrow> u64 \<Rightarrow> u64 \<Rightarrow> (u64 + u64) option" where
  "strlen_align m str s =
    (if s mod 8 \<noteq> 0
     then (if m s = 0 then Some (Inl (s - str)) else strlen_align m str (s + 1))
     else Some (Inr s))"

definition has_zero_byte :: "u64 \<Rightarrow> bool" where
  "has_zero_byte v \<longleftrightarrow> (v - 0x0101010101010101) AND NOT v AND 0x8080808080808080 \<noteq> 0"

definition scan8 :: "mem \<Rightarrow> u64 \<Rightarrow> nat option" where
  "scan8 m p = find (\<lambda>i. m (p + of_nat i) = 0) [0..<8]"

partial_function (option) strlen_words :: "mem \<Rightarrow> u64 \<Rightarrow> u64 \<Rightarrow> u64 option" where
  "strlen_words m str w =
    (if has_zero_byte (load64 m w)
     then (case scan8 m w of
             Some i \<Rightarrow> Some ((w - str) + of_nat i)
           | None \<Rightarrow> strlen_words m str (w + 8))
     else strlen_words m str (w + 8))"

definition strlen :: "mem \<Rightarrow> u64 \<Rightarrow> u64 option" where
  "strlen m str = do {
     r \<leftarrow> strlen_align m str str;
     (case r of Inl n \<Rightarrow> Some n | Inr w \<Rightarrow> strlen_words m str w)
   }"

section \<open>The length of a C string\<close>

definition cstr_at :: "mem \<Rightarrow> u64 \<Rightarrow> nat \<Rightarrow> bool" where
  "cstr_at m s n \<longleftrightarrow> m (s + of_nat n) = 0 \<and> (\<forall>i < n. m (s + of_nat i) \<noteq> 0)"

lemma cstr_at_drop: "cstr_at m s n \<Longrightarrow> k \<le> n \<Longrightarrow> cstr_at m (s + of_nat k) (n - k)"
  unfolding cstr_at_def
proof (intro conjI allI impI, goal_cases)
  case 1
  then show ?case by (simp add: add.assoc)
next
  case (2 i)
  then show ?case using conjunct2 [OF 2(1)] by (simp add: add.assoc flip: of_nat_add)
qed

lemma strlen_align_result:
  assumes "cstr_at m s n"
  shows "strlen_align m str s = Some (Inl (s + of_nat n - str)) \<or>
    (\<exists>k \<le> n. strlen_align m str s = Some (Inr (s + of_nat k)))"
  using assms
proof (induction n arbitrary: s)
  case 0
  then show ?case by (cases "s mod 8 = 0") (auto simp: strlen_align.simps [of m str s] cstr_at_def)
next
  case (Suc n)
  have z: "m s \<noteq> 0" using Suc.prems by (auto simp: cstr_at_def dest: spec [of _ 0])
  show ?case
  proof (cases "s mod 8 = 0")
    case True
    then show ?thesis by (auto simp: strlen_align.simps [of m str s] intro: exI [of _ 0])
  next
    case False
    with z have "strlen_align m str s = strlen_align m str (s + 1)"
      by (simp add: strlen_align.simps [of m str s])
    moreover have "cstr_at m (s + 1) n" using cstr_at_drop [OF Suc.prems, of 1] by simp
    moreover have "s + 1 + of_nat k = s + of_nat (Suc k)" for k by simp
    ultimately show ?thesis
      using Suc.IH [of "s + 1"] by (metis Suc_le_mono)
  qed
qed

text \<open>
  The zero-byte test. If byte \<open>n\<close> is the lowest zero byte of \<open>v\<close>, the subtraction borrows from
  it first, so bit 7 of that byte is set in the difference and clear in \<open>v\<close>.
\<close>

primrec ones :: "nat \<Rightarrow> nat" where
  "ones 0 = 0"
| "ones (Suc n) = ones n + 256 ^ n"

lemma ones_numeral [simp]: "ones (numeral k) = ones (pred_numeral k) + 256 ^ pred_numeral k"
  by (simp add: numeral_eq_Suc)

lemma mod_256_Suc: "x mod 256 ^ Suc n = x mod 256 ^ n + 256 ^ n * (x div 256 ^ n mod 256)" for x :: nat
  using mod_mult2_eq [of x "256 ^ n" 256] by (simp add: mult.commute)

lemma ones_le:
  assumes "\<forall>i < n. x div 256 ^ i mod 256 \<noteq> (0 :: nat)"
  shows "ones n \<le> x mod 256 ^ n"
  using assms
proof (induction n)
  case (Suc n)
  then have "256 ^ n * 1 \<le> 256 ^ n * (x div 256 ^ n mod 256)"
    by (intro mult_le_mono2) (simp add: Suc_le_eq)
  moreover have "ones n \<le> x mod 256 ^ n" using Suc by simp
  ultimately show ?case unfolding mod_256_Suc ones.simps by linarith
qed simp

lemma bit_high:
  fixes y :: nat
  assumes "2 ^ k \<le> y mod 2 ^ Suc k"
  shows "bit y k"
proof -
  define r where "r = y mod 2 ^ Suc k"
  have "r < 2 ^ Suc k" unfolding r_def by (rule mod_less_divisor) simp
  with assms have "r div 2 ^ k = 1" unfolding r_def [symmetric]
    by (intro div_nat_eqI) simp_all
  then have "y mod 2 ^ Suc k div 2 ^ k = 1" by (simp only: r_def)
  moreover have "y mod 2 ^ Suc k div 2 ^ k = y div 2 ^ k mod 2"
    using mod_mult2_eq [of y "2 ^ k" 2] by (simp add: mult.commute)
  ultimately show ?thesis by (simp add: bit_iff_odd odd_iff_mod_2_eq_one)
qed

lemma borrow_bit:
  fixes x c :: nat
  assumes n: "n < 8" and low: "\<forall>i < n. x div 256 ^ i mod 256 \<noteq> 0" and z: "x div 256 ^ n mod 256 = 0"
    and x: "x < 2 ^ 64"
  shows "bit ((x + (2 ^ 64 - 0x0101010101010101)) mod 2 ^ 64) (8 * n + 7)"
proof (rule bit_high)
  let ?N = "256 ^ Suc n :: nat"
  have a: "x mod ?N = x mod 256 ^ n" using z unfolding mod_256_Suc by simp
  have lo: "ones n \<le> x mod 256 ^ n" by (rule ones_le [OF low])
  have hi: "x mod 256 ^ n < 256 ^ n" by simp
  have "(2 ^ 64 :: nat) = 2 ^ (8 * Suc n) * 2 ^ (64 - 8 * Suc n)"
    using n by (simp flip: power_add)
  then have dvd: "?N dvd (2 ^ 64 :: nat)" by (simp only: power_mult) simp
  have c: "(2 ^ 64 - 0x0101010101010101 :: nat) mod ?N = ?N - ones (Suc n)"
  proof -
    have "n \<in> {0, 1, 2, 3, 4, 5, 6, 7}" using n by auto
    then show ?thesis by (elim insertE) simp_all
  qed
  have o: "ones (Suc n) = ones n + 256 ^ n" "ones n < 256 ^ n"
  proof -
    have "n \<in> {0, 1, 2, 3, 4, 5, 6, 7}" using n by auto
    then show "ones n < 256 ^ n" by (elim insertE) simp_all
  qed simp
  have "(x + (2 ^ 64 - 0x0101010101010101)) mod 2 ^ 64 mod ?N = (x mod ?N + (?N - ones (Suc n))) mod ?N"
    unfolding c [symmetric] mod_add_eq by (rule mod_mod_cancel [OF dvd])
  also have "\<dots> = (x mod 256 ^ n - ones n) + (?N - 256 ^ n)"
  proof -
    define b where "b = x mod 256 ^ n"
    have "b < 256 ^ n" "ones n \<le> b" "x mod ?N = b"
      using a lo hi by (simp_all only: b_def)
    then show ?thesis
      using o unfolding b_def [symmetric] by (subst mod_less) simp_all
  qed
  finally have "(x + (2 ^ 64 - 0x0101010101010101)) mod 2 ^ 64 mod ?N = (x mod 256 ^ n - ones n) + 255 * 256 ^ n"
    by simp
  moreover have "?N = 2 ^ Suc (8 * n + 7)" "(2 :: nat) ^ (8 * n + 7) = 128 * 256 ^ n"
    by (simp_all add: power_add power_mult)
  ultimately show "2 ^ (8 * n + 7) \<le> (x + (2 ^ 64 - 0x0101010101010101)) mod 2 ^ 64 mod 2 ^ Suc (8 * n + 7)"
    by (simp only:)
qed

lemma load64_byte:
  assumes "i < 8"
  shows "unat (load64 m w) div 256 ^ i mod 256 = unat (m (w + of_nat i))"
proof -
  have "m (w + of_nat i) = ucast (drop_bit (8 * i) (load64 m w))"
    by (rule bit_word_eqI) (use assms in \<open>auto simp: mem_simps bit_simps\<close>)
  moreover have "(256 :: nat) ^ i = 2 ^ (8 * i)" by (simp add: power_mult)
  ultimately show ?thesis
    by (simp add: unsigned_ucast_eq unsigned_drop_bit_eq take_bit_eq_mod)
      (simp add: drop_bit_eq_div mod_less [OF unat_lt64])
qed

lemma has_zero_byte_first:
  assumes n: "n < 8" and "cstr_at m w n"
  shows "has_zero_byte (load64 m w)"
proof -
  let ?v = "load64 m w"
  have "unat ?v div 256 ^ n mod 256 = 0" and "\<forall>i < n. unat ?v div 256 ^ i mod 256 \<noteq> 0"
    using assms load64_byte [of _ m w] by (auto simp: cstr_at_def unat_eq_0)
  then have "bit ((unat ?v + (2 ^ 64 - 0x0101010101010101)) mod 2 ^ 64) (8 * n + 7)"
    using borrow_bit [OF n] unat_lt64 [of ?v] by simp
  moreover have "unat (?v - 0x0101010101010101) = (unat ?v + (2 ^ 64 - 0x0101010101010101)) mod 2 ^ 64"
  proof -
    have "?v - 0x0101010101010101 = ?v + 0xFEFEFEFEFEFEFEFF" by simp
    then show ?thesis by (simp only: unat_word_ariths) simp
  qed
  ultimately have "bit (?v - 0x0101010101010101) (8 * n + 7)"
    by (metis bit_unsigned_iff)
  moreover have "\<not> bit ?v (8 * n + 7)"
    using assms by (simp add: mem_simps cstr_at_def)
  moreover have "bit (0x8080808080808080 :: u64) (8 * n + 7)"
  proof -
    have "n \<in> {0, 1, 2, 3, 4, 5, 6, 7}" using n by auto
    then show ?thesis by (elim insertE) simp_all
  qed
  moreover have "8 * n + 7 < 64" using n by simp
  ultimately have "bit ((?v - 0x0101010101010101) AND NOT ?v AND 0x8080808080808080) (8 * n + 7)"
    by (simp only: bit_and_iff bit_not_iff possible_bit_word) simp
  then show ?thesis
    unfolding has_zero_byte_def by (metis bit_0_eq bot_apply bot_bool_def)
qed

lemma scan8_first:
  assumes "cstr_at m w n"
  shows "scan8 m w = (if n < 8 then Some n else None)"
proof (cases "n < 8")
  case True
  with assms have "find (\<lambda>i. m (w + of_nat i) = 0) [0..<8] = Some n"
    unfolding find_Some_iff cstr_at_def by (intro exI [of _ n]) auto
  with True show ?thesis by (simp add: scan8_def)
next
  case False
  with assms show ?thesis by (auto simp: scan8_def find_None_iff cstr_at_def)
qed

lemma strlen_words_result:
  assumes "cstr_at m w n"
  shows "strlen_words m str w = Some (w + of_nat n - str)"
  using assms
proof (induction n arbitrary: w rule: less_induct)
  case (less n)
  show ?case
  proof (cases "n < 8")
    case True
    with less.prems show ?thesis
      using has_zero_byte_first [OF True] scan8_first [OF less.prems]
      by (simp add: strlen_words.simps [of m str w])
  next
    case False
    then have "strlen_words m str w = strlen_words m str (w + 8)"
      using scan8_first [OF less.prems] by (simp add: strlen_words.simps [of m str w])
    also have "\<dots> = Some (w + 8 + of_nat (n - 8) - str)"
      using less.IH [of "n - 8" "w + 8"] cstr_at_drop [OF less.prems, of 8] False by simp
    also have "w + 8 + of_nat (n - 8) = w + of_nat n"
      using False by (simp add: of_nat_diff not_less)
    finally show ?thesis .
  qed
qed

lemma strlen_cstr:
  assumes "cstr_at m s n"
  shows "strlen m s = Some (of_nat n)"
  using strlen_align_result [OF assms, of s]
proof
  assume "\<exists>k \<le> n. strlen_align m s s = Some (Inr (s + of_nat k))"
  then obtain k where k: "k \<le> n" "strlen_align m s s = Some (Inr (s + of_nat k))" by blast
  then have "strlen_words m s (s + of_nat k) = Some (of_nat n)"
    using strlen_words_result [OF cstr_at_drop [OF assms k(1)], of s] by (simp add: of_nat_diff)
  with k(2) show ?thesis by (simp add: strlen_def)
qed (simp add: strlen_def)

section \<open>Decimal conversion\<close>

fun dec :: "nat \<Rightarrow> nat list" where
  "dec n = (if n < 10 then [n] else dec (n div 10) @ [n mod 10])"

declare dec.simps [simp del]

text \<open>The value a digit list denotes.\<close>

definition dec_value :: "nat list \<Rightarrow> nat" where
  "dec_value ds = foldl (\<lambda>a d. 10 * a + d) 0 ds"

lemma dec_value_dec: "dec_value (dec n) = n"
proof (induction n rule: dec.induct)
  case (1 n)
  then show ?case by (cases "n < 10") (simp_all add: dec.simps [of n] dec_value_def)
qed

lemma dec_digit: "d \<in> set (dec n) \<Longrightarrow> d < 10"
proof (induction n rule: dec.induct)
  case (1 n)
  then show ?case by (auto simp: dec.simps [of n] split: if_splits)
qed

lemma dec_length_pos: "0 < length (dec n)"
  by (simp add: dec.simps [of n])

lemma dec_length_le: "n < 10 ^ Suc k \<Longrightarrow> length (dec n) \<le> Suc k"
proof (induction k arbitrary: n)
  case 0
  then show ?case by (simp add: dec.simps [of n])
next
  case (Suc k)
  then show ?case by (simp add: dec.simps [of n] less_mult_imp_div_less)
qed

lemma dec_length_20: "length (dec (unat (x :: u64))) \<le> 20"
  using dec_length_le [of "unat x" 19] unat_lt64 [of x] by simp

text \<open>\<open>write_list a xs m\<close>: the bytes \<open>xs\<close> stand at \<open>a\<close>, the rest is as in \<open>m\<close>.\<close>

definition write_list :: "u64 \<Rightarrow> u8 list \<Rightarrow> mem \<Rightarrow> mem" where
  "write_list a xs m = (\<lambda>x. if unat (x - a) < length xs then xs ! unat (x - a) else m x)"

lemma write_list_snoc:
  assumes "length xs < 2 ^ 64"
  shows "(write_list a xs m)(a + of_nat (length xs) := y) = write_list a (xs @ [y]) m"
proof
  fix x
  show "((write_list a xs m)(a + of_nat (length xs) := y)) x = write_list a (xs @ [y]) m x"
  proof (cases "x = a + of_nat (length xs)")
    case True
    then have "unat (x - a) = length xs" using assms by (simp add: unat_of_nat_less)
    with True show ?thesis by (simp add: write_list_def)
  next
    case False
    then have "unat (x - a) \<noteq> length xs"
      by (metis add_diff_cancel_left' diff_add_cancel u64_of_nat_unat add.commute)
    with False show ?thesis by (auto simp: write_list_def nth_append less_Suc_eq)
  qed
qed

lemma write_list_before:
  assumes "length xs < 2 ^ 64"
  shows "write_list a xs (m(a + of_nat (length xs) := y)) = write_list a (xs @ [y]) m"
  unfolding write_list_snoc [OF assms, symmetric]
proof
  fix x
  show "write_list a xs (m(a + of_nat (length xs) := y)) x = ((write_list a xs m)(a + of_nat (length xs) := y)) x"
    using assms by (auto simp: write_list_def unat_of_nat_less)
qed

definition dec_ascii :: "nat \<Rightarrow> u8 list" where
  "dec_ascii n = map (\<lambda>d. of_nat d + ascii_0) (dec n)"

lemma unat_div10: "unat (x div 10 :: u64) = unat x div 10" "unat (x mod 10 :: u64) = unat x mod 10"
  by (simp_all add: unat_div unat_mod)

lemma gt_div10: "0 < x div 10 \<longleftrightarrow> \<not> unat (x :: u64) < 10"
  by (simp add: word_less_nat_alt unat_div10 div_greater_zero_iff not_less)

lemma lltoa_length_dec: "lltoa_length v l = l + of_nat (length (dec (unat v)) - 1)"
proof (induction v l rule: lltoa_length.induct)
  case (1 v l)
  show ?case
  proof (cases "unat v < 10")
    case True
    then show ?thesis by (simp add: lltoa_length.simps [of v] gt_div10 dec.simps [of "unat v"])
  next
    case False
    obtain k where k: "length (dec (unat v div 10)) = Suc k"
      using dec_length_pos [of "unat v div 10"] by (cases "length (dec (unat v div 10))") auto
    show ?thesis
      using 1 False k by (simp add: lltoa_length.simps [of v] gt_div10 dec.simps [of "unat v"] unat_div10)
  qed
qed

lemma lltoa_digits_dec:
  assumes "unat len - unat index = length (dec (unat v)) - 1" and "index \<le> len"
  shows "lltoa_digits m v buf len index = write_list buf (dec_ascii (unat v)) m"
  using assms
proof (induction m v buf len index rule: lltoa_digits.induct)
  case (1 m v buf len index)
  let ?d = "dec (unat v)"
  have pos: "buf + ucast len - ucast index = buf + of_nat (length ?d - 1)"
  proof -
    have "(ucast len :: u64) = of_nat (unat len)" "(ucast index :: u64) = of_nat (unat index)"
      by (simp_all add: unsigned_ucast_eq word_unat_eq_iff)
    then have "ucast len - ucast index = (of_nat (unat len - unat index) :: u64)"
      using 1(3) by (simp only: of_nat_diff word_le_nat_alt)
    then show ?thesis
      unfolding 1(2) by (simp add: diff_add_eq [symmetric] add_diff_eq [symmetric])
  qed
  have dig: "ucast (v mod 10) = (of_nat (unat v mod 10) :: u8)"
    by (metis of_nat_unat unat_div10(2))
  show ?case
  proof (cases "unat v < 10")
    case True
    then show ?thesis
      unfolding lltoa_digits.simps [of m v] pos dig
      using write_list_snoc [of "[]" buf m]
      by (simp add: gt_div10 dec_ascii_def dec.simps [of "unat v"] write_list_def fun_eq_iff)
  next
    case False
    let ?e = "dec (unat v div 10)"
    have d: "?d = ?e @ [unat v mod 10]" using False by (simp add: dec.simps [of "unat v"])
    have "index \<noteq> len" using 1(2) d dec_length_pos [of "unat v div 10"] by auto
    then have lt: "index < len" using 1(3) by simp
    have c: "0 < v div 10" using False by (simp only: gt_div10) simp
    have "unat len - unat (index + 1) = length (dec (unat (v div 10))) - 1" "index + 1 \<le> len"
      using 1(2) d lt unat_inc [OF lt] by (simp_all add: unat_div10 word_less_nat_alt word_le_nat_alt)
    note IH = 1(1) [OF c this]
    have "length ?d - 1 = length ?e" using d by simp
    then have "lltoa_digits m v buf len index = write_list buf (dec_ascii (unat v div 10))
        (m(buf + of_nat (length ?e) := of_nat (unat v mod 10) + ascii_0))"
      using IH c unfolding lltoa_digits.simps [of m v] pos dig unat_div10 by (simp add: fun_upd_def)
    also have "\<dots> = write_list buf (dec_ascii (unat v)) m"
      using write_list_before [of "dec_ascii (unat v div 10)" buf m] dec_length_20 [of "v div 10"] d
      by (simp add: dec_ascii_def unat_div10)
    finally show ?thesis .
  qed
qed

text \<open>On a non-negative value the signed loop is the unsigned one, shifted by the sign.\<close>

lemma itoa_digits_lltoa:
  assumes "0 \<le> v" "v < 2 ^ 31"
  shows "itoa_digits m v buf neg len index = lltoa_digits m (of_int v) (buf + neg) len index"
  using assms
proof (induction m v buf neg len index rule: itoa_digits.induct)
  case (1 m v buf neg len index)
  have q: "v sdiv 10 = v div 10" "v smod 10 = v mod 10"
    using 1(2) by (auto simp: signed_divide_int_def signed_modulo_int_def sgn_if)
  have u: "uint (of_int x :: u64) = x" if "0 \<le> x" "x < 2 ^ 31" for x
    using that by (simp add: unsigned_of_int take_bit_int_eq_self)
  have b: "0 \<le> v div 10" "v div 10 < 2 ^ 31" "0 \<le> v mod 10" "v mod 10 < 2 ^ 31"
    using 1(2,3) by auto
  have w: "(of_int v :: u64) div 10 = of_int (v div 10)" "(of_int v :: u64) mod 10 = of_int (v mod 10)"
    using u [OF 1(2,3)] u [OF b(1,2)] u [OF b(3,4)] by (simp_all add: word_uint_eq_iff uint_div uint_mod)
  have c: "0 < (of_int v :: u64) div 10 \<longleftrightarrow> 0 < v div 10"
    unfolding w using u [OF b(1,2)] by (simp add: word_less_def)
  have d: "ucast (of_int (v mod 10) :: u64) = (of_int (v mod 10) :: u8)"
    by (metis u [OF b(3,4)] of_int_uint)
  have p: "buf + neg + ucast len - ucast index = buf + (neg + ucast len - ucast index)"
    by (simp add: algebra_simps)
  show ?case
  proof (cases "0 < v div 10")
    case True
    then show ?thesis
      using 1(1) b(1,2) c [unfolded w]
      unfolding itoa_digits.simps [of m v] lltoa_digits.simps [of m "of_int v"] q w d p
      by (simp add: fun_upd_def)
  next
    case False
    then show ?thesis
      unfolding itoa_digits.simps [of m v] lltoa_digits.simps [of m "of_int v"] q c p
      by (simp add: w d)
  qed
qed

lemma lltoa_dec:
  "lltoa m val buf bufsize =
    (if unat bufsize < length (dec (unat val)) then (- 1, m)
     else (0, write_list buf (dec_ascii (unat val) @ [0]) m))"
proof -
  let ?n = "length (dec (unat val)) - 1"
  have n: "length (dec (unat val)) = Suc ?n" "?n < 20"
    using dec_length_pos [of "unat val"] dec_length_20 [of val] by auto
  have l: "lltoa_length val 0 = of_nat ?n" "unat (of_nat ?n :: u8) = ?n"
    using n(2) lltoa_length_dec [of val 0] by (simp_all add: unat_of_nat_less)
  have uc: "(ucast (of_nat ?n :: u8) :: u64) = of_nat ?n"
    using l(2) by (metis of_nat_unat)
  have lt: "bufsize < of_nat ?n + 1 \<longleftrightarrow> unat bufsize < length (dec (unat val))"
  proof -
    have "unat (of_nat (Suc ?n) :: u64) = Suc ?n" using n by (intro unat64_of_nat) simp
    then show ?thesis using n(1) by (simp add: word_less_nat_alt add.commute)
  qed
  have "lltoa_digits m val buf (of_nat ?n) 0 = write_list buf (dec_ascii (unat val)) m"
    using l(2) by (intro lltoa_digits_dec) simp_all
  moreover have "(write_list buf (dec_ascii (unat val)) m)(buf + of_nat ?n + 1 := 0) =
      write_list buf (dec_ascii (unat val) @ [0]) m"
    using write_list_snoc [of "dec_ascii (unat val)" buf m 0] n
    by (simp add: dec_ascii_def add.assoc add.commute [of 1])
  ultimately show ?thesis
    unfolding lltoa_def Let_def l(1) uc lt by simp
qed

section \<open>Properties\<close>

text \<open>
  \<open>strlen\<close> is correct. If the first zero byte at or after \<open>s\<close> is at offset \<open>n\<close>, the call returns
  \<open>n\<close>, whatever the alignment of \<open>s\<close>: the byte-wise prefix, the zero-byte test on eight bytes and
  the scan of the matching word together compute the reference.
\<close>

theorem strlen_correct:
  assumes "m (s + of_nat n) = 0" and "\<forall>i < n. m (s + of_nat i) \<noteq> 0"
  shows "strlen m s = Some (of_nat n)"
  using assms by (intro strlen_cstr) (simp add: cstr_at_def)

theorem strlen_correct_witness:
  "strlen ((\<lambda>_. 1)(0x1013 := 0)) 0x1003 = Some 16"
proof -
  have "\<forall>i < 16. 0x1003 + of_nat i \<noteq> (0x1013 :: u64)"
  proof (intro allI impI notI)
    fix i :: nat
    assume i: "i < 16" and "0x1003 + of_nat i = (0x1013 :: u64)"
    then have "of_nat i = (0x1013 :: u64) - 0x1003" by (metis add_diff_cancel_left')
    then have "unat (of_nat i :: u64) = 16" by simp
    with i show False by (simp add: unat_of_nat_less)
  qed
  then show ?thesis
    using strlen_correct [of "(\<lambda>_. 1)(0x1013 := 0)" "0x1003" 16] by simp
qed

text \<open>
  C26: \<open>lltoa\<close> writes the decimal digits of the value, most significant first, followed by the
  terminator, and refuses when the buffer is smaller than the number of digits. The digits
  read back as the value. The bytes written are one more than the number of digits: with a
  buffer of exactly that size the call succeeds and the terminator lies behind the buffer.
\<close>

theorem lltoa_correct:
  "lltoa m val buf bufsize =
    (if unat bufsize < length (dec (unat val)) then (- 1, m)
     else (0, write_list buf (dec_ascii (unat val) @ [0]) m)) \<and>
   dec_value (dec (unat val)) = unat val \<and> list_all (\<lambda>d. d < 10) (dec (unat val)) \<and>
   snd (lltoa m val buf (of_nat (length (dec (unat val))))) (buf + of_nat (length (dec (unat val)))) = 0"
proof -
  have n: "length (dec (unat val)) < 2 ^ 64" using dec_length_20 [of val] by simp
  then have u: "unat (of_nat (length (dec (unat val))) :: u64) = length (dec (unat val))"
    by (intro unat64_of_nat) simp
  have "snd (lltoa m val buf (of_nat (length (dec (unat val))))) (buf + of_nat (length (dec (unat val)))) = 0"
    unfolding lltoa_dec u using u by (simp add: write_list_def dec_ascii_def nth_append)
  then show ?thesis
    using lltoa_dec dec_value_dec dec_digit by (simp add: list_all_iff)
qed

end
