(* ===== verification/KString.thy ===== *)
theory KString
  imports KConv HeapBlocks
begin

text \<open>
  \<open>kstl::string\<close> of \<^verbatim>\<open>kernel/src/core/kstring.h\<close> and \<^verbatim>\<open>kstring.cpp\<close>. A string object is 48 bytes
  of memory: the 16-byte small-string buffer, then \<open>m_data\<close>, \<open>m_size\<close> and \<open>m_capacity\<close>, then the
  flag \<open>m_isUsingSSOBuffer\<close>. An operation takes the address of its object and the heap, whose
  \<open>ram\<close> holds the objects, the C strings passed in, and the blocks of \<open>kmalloc\<close>. Fields that a
  constructor does not set keep what the memory held, as in the source. \<open>None\<close>: the call does
  not return (an unterminated C string, a held heap lock, an endless comparison).
\<close>

section \<open>The object\<close>

definition SSO_SIZE :: u64 where
  "SSO_SIZE = 15"

definition s_data :: "mem \<Rightarrow> u64 \<Rightarrow> u64" where "s_data m this = load64 m (this + 16)"
definition s_size :: "mem \<Rightarrow> u64 \<Rightarrow> u64" where "s_size m this = load64 m (this + 24)"
definition s_capacity :: "mem \<Rightarrow> u64 \<Rightarrow> u64" where "s_capacity m this = load64 m (this + 32)"
definition s_isSSO :: "mem \<Rightarrow> u64 \<Rightarrow> bool" where "s_isSSO m this \<longleftrightarrow> m (this + 40) \<noteq> 0"

definition set_s_data :: "u64 \<Rightarrow> u64 \<Rightarrow> mem \<Rightarrow> mem" where "set_s_data v this m = store64 v (this + 16) m"
definition set_s_size :: "u64 \<Rightarrow> u64 \<Rightarrow> mem \<Rightarrow> mem" where "set_s_size v this m = store64 v (this + 24) m"
definition set_s_capacity :: "u64 \<Rightarrow> u64 \<Rightarrow> mem \<Rightarrow> mem" where
  "set_s_capacity v this m = store64 v (this + 32) m"
definition set_s_isSSO :: "bool \<Rightarrow> u64 \<Rightarrow> mem \<Rightarrow> mem" where
  "set_s_isSSO b this m = m(this + 40 := of_bool b)"

abbreviation upd_ram :: "(mem \<Rightarrow> mem) \<Rightarrow> kheap \<Rightarrow> kheap" where
  "upd_ram f h \<equiv> h\<lparr>ram := f (ram h)\<rparr>"

text \<open>The default member initialiser of the buffer, which runs in every constructor.\<close>

definition init_sso :: "u64 \<Rightarrow> mem \<Rightarrow> mem" where
  "init_sso this m = setn m this 0 16"

text \<open>\<^verbatim>\<open>for (i = 0; i <= len; ++i) dst[i] = src[i]\<close>.\<close>

partial_function (option) copy_upto :: "u64 \<Rightarrow> u64 \<Rightarrow> u64 \<Rightarrow> u64 \<Rightarrow> mem \<Rightarrow> mem option" where
  "copy_upto dst src i len m =
    (if i \<le> len then copy_upto dst src (i + 1) len (m(dst + i := m (src + i))) else Some m)"

section \<open>Construction and destruction\<close>

definition string_new :: "u64 \<Rightarrow> kheap \<Rightarrow> kheap" where
  "string_new this h =
    upd_ram (\<lambda>m. (set_s_isSSO True this (init_sso this m))(this := 0)) h"

definition string_delete :: "u64 \<Rightarrow> kheap \<Rightarrow> kheap option" where
  "string_delete this h =
    (if \<not> s_isSSO (ram h) this then kfree h (s_data (ram h) this) else Some h)"

definition string_of_cstr :: "u64 \<Rightarrow> u64 \<Rightarrow> kheap \<Rightarrow> kheap option" where
  "string_of_cstr this str h = do {
     let h = upd_ram (init_sso this) h;
     len \<leftarrow> strlen (ram h) str;
     if len < SSO_SIZE
     then Some (upd_ram (\<lambda>m. set_s_isSSO True this (memcpy m this str (len + 1))) h)
     else do {
       (p, h) \<leftarrow> kmalloc h (len + 1);
       let h = upd_ram (set_s_data p this) h;
       let h = upd_ram (\<lambda>m. memcpy m (s_data m this) str (len + 1)) h;
       Some (upd_ram (\<lambda>m. set_s_isSSO False this (set_s_capacity (len + 1) this (set_s_size len this m))) h)
     }
   }"

definition string_length :: "mem \<Rightarrow> u64 \<Rightarrow> u64 option" where
  "string_length m this = (if s_isSSO m this then strlen m this else Some (s_size m this))"

text \<open>The copying half shared by the copy constructor and the assignment operator.\<close>

definition string_copy_from :: "u64 \<Rightarrow> u64 \<Rightarrow> u64 \<Rightarrow> kheap \<Rightarrow> kheap option" where
  "string_copy_from this other len h =
    (if len < SSO_SIZE
     then do {
       m \<leftarrow> copy_upto this other 0 len (ram h);
       Some (h\<lparr>ram := set_s_isSSO True this m\<rparr>)
     }
     else do {
       (p, h) \<leftarrow> kmalloc h (len + 1);
       let h = upd_ram (set_s_data p this) h;
       m \<leftarrow> copy_upto (s_data (ram h) this) (s_data (ram h) other) 0 len (ram h);
       Some (h\<lparr>ram := set_s_isSSO False this (set_s_capacity (len + 1) this (set_s_size len this m))\<rparr>)
     })"

definition string_copy :: "u64 \<Rightarrow> u64 \<Rightarrow> kheap \<Rightarrow> kheap option" where
  "string_copy this other h = do {
     let h = upd_ram (init_sso this) h;
     len \<leftarrow> string_length (ram h) other;
     string_copy_from this other len h
   }"

definition string_move :: "u64 \<Rightarrow> u64 \<Rightarrow> kheap \<Rightarrow> kheap option" where
  "string_move this other h = do {
     let h = upd_ram (init_sso this) h;
     m \<leftarrow> (if s_isSSO (ram h) other
           then do {
             m \<leftarrow> copy_upto this other 0 SSO_SIZE (ram h);
             Some (set_s_isSSO True this m)
           }
           else do {
             let m = set_s_data (s_data (ram h) other) this (ram h);
             let m = set_s_size (s_size m other) this m;
             let m = set_s_capacity (s_capacity m other) this m;
             let m = set_s_isSSO False this m;
             Some (set_s_capacity 0 other (set_s_size 0 other (set_s_data 0 other m)))
           });
     Some (h\<lparr>ram := set_s_isSSO True other (m(other := 0))\<rparr>)
   }"

definition string_assign :: "u64 \<Rightarrow> u64 \<Rightarrow> kheap \<Rightarrow> kheap option" where
  "string_assign this other h =
    (if this = other then Some h
     else do {
       let len = s_size (ram h) other;
       h \<leftarrow> (if \<not> s_isSSO (ram h) this then kfree h (s_data (ram h) this) else Some h);
       string_copy_from this other len h
     })"

section \<open>Access\<close>

definition string_c_str :: "mem \<Rightarrow> u64 \<Rightarrow> u64" where
  "string_c_str m this = (if s_isSSO m this then this else s_data m this)"

definition string_at :: "mem \<Rightarrow> u64 \<Rightarrow> u64 \<Rightarrow> u8" where
  "string_at m this index = (if s_isSSO m this then m (this + index) else m (s_data m this + index))"

definition string_capacity :: "mem \<Rightarrow> u64 \<Rightarrow> u64" where
  "string_capacity m this = (if s_isSSO m this then SSO_SIZE else s_capacity m this)"

definition string_isempty :: "mem \<Rightarrow> u64 \<Rightarrow> bool" where
  "string_isempty m this \<longleftrightarrow> 0 < s_size m this"

text \<open>The comparison of two buffers that stops at the terminator.\<close>

function sso_equal :: "mem \<Rightarrow> u64 \<Rightarrow> u64 \<Rightarrow> u64 \<Rightarrow> bool" where
  "sso_equal m a b i =
    (if i \<le> SSO_SIZE
     then (if m (a + i) \<noteq> m (b + i) then False
           else if m (a + i) = 0 then True
           else sso_equal m a b (i + 1))
     else True)"
  by auto
termination
proof (relation "measure (\<lambda>(m, a, b, i). 16 - unat i)", goal_cases)
  case (2 m a b i)
  then have "i < 16" by (simp add: SSO_SIZE_def word_le_nat_alt word_less_nat_alt)
  then show ?case using unat_inc_less [of i 16] by simp
qed simp

function data_equal :: "mem \<Rightarrow> u64 \<Rightarrow> u64 \<Rightarrow> u64 \<Rightarrow> u64 \<Rightarrow> bool" where
  "data_equal m a b i n =
    (if i < n then (if m (a + i) \<noteq> m (b + i) then False else data_equal m a b (i + 1) n) else True)"
  by auto
termination
  by (relation "measure (\<lambda>(m, a, b, i, n). unat n - unat i)") (auto simp: unat_inc_less)

declare sso_equal.simps [simp del] data_equal.simps [simp del]

definition string_equal :: "mem \<Rightarrow> u64 \<Rightarrow> u64 \<Rightarrow> bool" where
  "string_equal m this other =
    (if s_isSSO m this \<noteq> s_isSSO m other then False
     else if s_isSSO m this then sso_equal m this other 0
     else if s_size m this \<noteq> s_size m other then False
     else data_equal m (s_data m this) (s_data m other) 0 (s_size m this))"

definition string_noteq :: "mem \<Rightarrow> u64 \<Rightarrow> u64 \<Rightarrow> bool" where
  "string_noteq m this other = (\<not> string_equal m this other)"

section \<open>Modification\<close>

definition string_append :: "u64 \<Rightarrow> u64 \<Rightarrow> kheap \<Rightarrow> kheap option" where
  "string_append this str h = do {
     len \<leftarrow> strlen (ram h) str;
     currentLength \<leftarrow> string_length (ram h) this;
     let newLength = currentLength + len;
     if newLength < SSO_SIZE
     then Some (upd_ram (\<lambda>m. memcpy m (this + currentLength) str (len + 1)) h)
     else if \<not> s_isSSO (ram h) this \<and> newLength < s_capacity (ram h) this
     then Some (upd_ram (\<lambda>m. memcpy m (s_data m this + currentLength) str (len + 1)) h)
     else do {
       let newCapacity = newLength + 1;
       (newData, h) \<leftarrow> kmalloc h newCapacity;
       let h = upd_ram (\<lambda>m. memcpy m newData (string_c_str m this) currentLength) h;
       let h = upd_ram (\<lambda>m. memcpy m (newData + currentLength) str (len + 1)) h;
       h \<leftarrow> (if \<not> s_isSSO (ram h) this then kfree h (s_data (ram h) this) else Some h);
       Some (upd_ram (\<lambda>m. set_s_isSSO False this (set_s_capacity newCapacity this
              (set_s_size newLength this (set_s_data newData this m)))) h)
     }
   }"

text \<open>\<open>tmp\<close> is the address of the two-byte local array.\<close>

definition string_append_char :: "u64 \<Rightarrow> u8 \<Rightarrow> u64 \<Rightarrow> kheap \<Rightarrow> kheap option" where
  "string_append_char this chr tmp h = string_append this tmp (upd_ram (\<lambda>m. m(tmp := chr, tmp + 1 := 0)) h)"

definition string_reserve :: "u64 \<Rightarrow> u64 \<Rightarrow> kheap \<Rightarrow> kheap option" where
  "string_reserve this newCapacity h =
    (if newCapacity \<le> string_capacity (ram h) this then Some h
     else do {
       h \<leftarrow> (if s_isSSO (ram h) this
             then do {
               (newData, h) \<leftarrow> kmalloc h newCapacity;
               n \<leftarrow> strlen (ram h) this;
               Some (upd_ram (\<lambda>m. set_s_data newData this (memcpy m newData this (n + 1))) h)
             }
             else do {
               (p, h) \<leftarrow> krealloc h (s_data (ram h) this) newCapacity;
               Some (upd_ram (set_s_data p this) h)
             });
       Some (upd_ram (\<lambda>m. set_s_isSSO False this (set_s_capacity newCapacity this m)) h)
     })"

definition string_resize :: "u64 \<Rightarrow> u64 \<Rightarrow> kheap \<Rightarrow> kheap option" where
  "string_resize this newSize h = do {
     n \<leftarrow> string_length (ram h) this;
     if newSize < n
     then (if s_isSSO (ram h) this
           then Some (upd_ram (\<lambda>m. m(this + newSize := 0)) h)
           else Some (upd_ram (\<lambda>m. set_s_size newSize this (m(s_data m this + newSize := 0))) h))
     else if n < newSize
     then do {
       h \<leftarrow> string_reserve this newSize h;
       if s_isSSO (ram h) this
       then do {
         n \<leftarrow> string_length (ram h) this;
         Some (upd_ram (\<lambda>m. memset m (this + n) 0 (newSize - n)) h)
       }
       else Some (upd_ram (\<lambda>m. set_s_size newSize this
              (memset m (s_data m this + s_size m this) 0 (newSize - s_size m this))) h)
     }
     else Some h
   }"

definition string_clear :: "u64 \<Rightarrow> kheap \<Rightarrow> kheap option" where
  "string_clear this h = do {
     h \<leftarrow> (if \<not> s_isSSO (ram h) this \<and> s_capacity (ram h) this \<noteq> 0
           then kfree h (s_data (ram h) this) else Some h);
     Some (upd_ram (\<lambda>m. set_s_isSSO True this (m(this := 0))) h)
   }"

section \<open>Searching\<close>

function find_char :: "mem \<Rightarrow> u64 \<Rightarrow> u8 \<Rightarrow> u64 \<Rightarrow> u64 \<Rightarrow> u64" where
  "find_char m str c i n =
    (if i < n then (if m (str + i) = c then i else find_char m str c (i + 1) n) else npos)"
  by auto
termination
  by (relation "measure (\<lambda>(m, s, c, i, n). unat n - unat i)") (auto simp: unat_inc_less)

declare find_char.simps [simp del]

definition string_find_char :: "u64 \<Rightarrow> u8 \<Rightarrow> mem \<Rightarrow> u64 option" where
  "string_find_char this c m = do {
     n \<leftarrow> string_length m this;
     Some (find_char m (string_c_str m this) c 0 n)
   }"

text \<open>The inner loop: how many bytes match.\<close>

function match_len :: "mem \<Rightarrow> u64 \<Rightarrow> u64 \<Rightarrow> u64 \<Rightarrow> u64 \<Rightarrow> u64" where
  "match_len m a b j len =
    (if j < len then (if m (a + j) \<noteq> m (b + j) then j else match_len m a b (j + 1) len) else j)"
  by auto
termination
  by (relation "measure (\<lambda>(m, a, b, j, n). unat n - unat j)") (auto simp: unat_inc_less)

declare match_len.simps [simp del]

text \<open>The bound \<^verbatim>\<open>thisLen - len\<close> wraps when the pattern is longer than the string.\<close>

partial_function (option) find_sub :: "mem \<Rightarrow> u64 \<Rightarrow> u64 \<Rightarrow> u64 \<Rightarrow> u64 \<Rightarrow> u64 \<Rightarrow> u64 option" where
  "find_sub m current str i thisLen len =
    (if i \<le> thisLen - len
     then (if match_len m (current + i) str 0 len = len then Some i
           else find_sub m current str (i + 1) thisLen len)
     else Some npos)"

definition string_find :: "u64 \<Rightarrow> u64 \<Rightarrow> mem \<Rightarrow> u64 option" where
  "string_find this str m = do {
     len \<leftarrow> strlen m str;
     if len = 0 then Some 0
     else do {
       thisLen \<leftarrow> string_length m this;
       find_sub m (string_c_str m this) str 0 thisLen len
     }
   }"

definition string_find_string :: "u64 \<Rightarrow> u64 \<Rightarrow> mem \<Rightarrow> u64 option" where
  "string_find_string this other m = string_find this (string_c_str m other) m"

text \<open>\<open>ret\<close> is the address of the returned object.\<close>

definition string_substring :: "u64 \<Rightarrow> u64 \<Rightarrow> u64 \<Rightarrow> u64 \<Rightarrow> kheap \<Rightarrow> kheap option" where
  "string_substring this start len ret h = do {
     strLength \<leftarrow> string_length (ram h) this;
     if strLength \<le> start then Some (string_new ret h)
     else do {
       let len = (if len = npos \<or> strLength < start + len then strLength - start else len);
       (buffer, h) \<leftarrow> kmalloc h (len + 1);
       let h = upd_ram (\<lambda>m. memcpy m buffer (string_c_str m this + start) len) h;
       let h = upd_ram (\<lambda>m. m(buffer + len := 0)) h;
       h \<leftarrow> string_of_cstr ret buffer h;
       kfree h buffer
     }
   }"

section \<open>Fields of the object\<close>

named_theorems str_simps

lemmas s_defs = s_data_def s_size_def s_capacity_def s_isSSO_def set_s_data_def set_s_size_def
  set_s_capacity_def set_s_isSSO_def

lemma s_get_set [str_simps]:
  "s_data (set_s_data v a m) a = v" "s_size (set_s_size v a m) a = v"
  "s_capacity (set_s_capacity v a m) a = v" "s_isSSO (set_s_isSSO b a m) a = b"
  by (simp_all add: s_defs load64_store64_same)

lemma s_get_other [str_simps]:
  "s_data (set_s_size v a m) a = s_data m a" "s_data (set_s_capacity v a m) a = s_data m a"
  "s_data (set_s_isSSO b a m) a = s_data m a"
  "s_size (set_s_capacity v a m) a = s_size m a" "s_size (set_s_isSSO b a m) a = s_size m a"
  "s_capacity (set_s_isSSO b a m) a = s_capacity m a"
  by (simp_all add: s_defs load64_store64_other load64_fun_upd_other)

lemma s_set_outside:
  "outside a 48 m (set_s_data v a m)" "outside a 48 m (set_s_size v a m)"
  "outside a 48 m (set_s_capacity v a m)" "outside a 48 m (set_s_isSSO b a m)"
  "outside a 48 m (init_sso a m)"
  using store64_outside [of 16 48 a m v] store64_outside [of 24 48 a m v] store64_outside [of 32 48 a m v]
  by (auto simp: s_defs outside_def init_sso_def setn_def)

lemma outside_at: "outside a n m m' \<Longrightarrow> n \<le> unat (x - a) \<Longrightarrow> m' x = m x"
  by (simp add: outside_def)

lemma heap_wf_outside:
  assumes "heap_wf h bs" and "\<And>x. in_heap h x \<Longrightarrow> m' x = ram h x"
  shows "heap_wf (h\<lparr>ram := m'\<rparr>) bs"
proof -
  have t: "unat (m_heapSize h) = total bs" and b: "total bs \<le> 2 ^ 64" "\<forall>b \<in> set bs. 32 \<le> fst b"
    using assms(1) unat64_of_nat [of "total bs"] by (auto simp: heap_wf_def blocks_ok_def)
  have "agree (m_firstSegment h) (total bs) (ram h) m'"
    using assms(2) t by (simp add: agree_def in_heap_def)
  from hdrs_cong [OF this b] assms(1) show ?thesis
    by (simp add: heap_wf_def)
qed

text \<open>A destination that none of the source bytes meets can be copied to.\<close>

lemma memcpy_to:
  assumes "\<And>i. i < unat n \<Longrightarrow> src + of_nat i \<noteq> dst"
  shows "memcpy m dst src n = copyn m dst src (unat n)"
proof (rule memcpy_copies)
  have "unat n \<le> unat (dst - src)"
  proof (rule ccontr)
    assume "\<not> unat n \<le> unat (dst - src)"
    then show False using assms [of "unat (dst - src)"] by simp
  qed
  then show "fwd_safe dst src (unat n)" by (simp add: fwd_safe_def)
qed

lemma copyn_at: "i < n \<Longrightarrow> n \<le> 2 ^ 64 \<Longrightarrow> copyn m d s n (d + of_nat i) = m (s + of_nat i)"
  by (simp add: copyn_def unat_of_nat_less)

section \<open>Construction from a C string\<close>

text \<open>
  The caller's obligation: a C string of length \<open>n\<close> at \<open>str\<close>, apart from the object at \<open>this\<close>, and
  both outside the heap.
\<close>

definition str_args :: "kheap \<Rightarrow> u64 \<Rightarrow> u64 \<Rightarrow> nat \<Rightarrow> bool" where
  "str_args h this str n \<longleftrightarrow> cstr_at (ram h) str n \<and> n < 2 ^ 62 \<and>
    (\<forall>i \<le> n. 48 \<le> unat (str + of_nat i - this) \<and> \<not> in_heap h (str + of_nat i)) \<and>
    (\<forall>x. unat (x - this) < 48 \<longrightarrow> \<not> in_heap h x)"

lemma str_args_outside:
  assumes "str_args h this str n" and "outside this 48 (ram h) m'"
  shows "\<And>i. i \<le> n \<Longrightarrow> m' (str + of_nat i) = ram h (str + of_nat i)" and "cstr_at m' str n"
proof -
  show eq: "m' (str + of_nat i) = ram h (str + of_nat i)" if "i \<le> n" for i
    using assms that by (simp add: str_args_def outside_def)
  then show "cstr_at m' str n"
    using assms(1) by (simp add: str_args_def cstr_at_def)
qed

lemma str_args_len:
  assumes "str_args h this str n"
  shows "unat (of_nat n :: u64) = n" "unat (of_nat n + 1 :: u64) = n + 1"
    "of_nat n < SSO_SIZE \<longleftrightarrow> n < 15" "i \<le> n \<Longrightarrow> str + of_nat i \<noteq> this"
proof -
  have n: "n < 2 ^ 62" using assms by (simp add: str_args_def)
  show u: "unat (of_nat n :: u64) = n" by (rule unat64_of_nat) (use n in simp)
  have "unat (of_nat (n + 1) :: u64) = n + 1" by (rule unat64_of_nat) (use n in simp)
  then show "unat (of_nat n + 1 :: u64) = n + 1" by (simp add: add.commute)
  show "of_nat n < SSO_SIZE \<longleftrightarrow> n < 15" using u by (simp add: word_less_nat_alt SSO_SIZE_def)
  show "str + of_nat i \<noteq> this" if "i \<le> n"
    using assms that by (auto simp: str_args_def)
qed

lemma string_of_cstr_small:
  assumes a: "str_args h this str n" and n: "n < 15"
  shows "\<exists>h'. string_of_cstr this str h = Some h' \<and> string_length (ram h') this = Some (of_nat n) \<and>
    (\<forall>i \<le> n. ram h' (string_c_str (ram h') this + of_nat i) = ram h (str + of_nat i))"
proof -
  note l = str_args_len [OF a] and o = str_args_outside [OF a s_set_outside(5)]
  let ?m1 = "init_sso this (ram h)"
  have cp: "memcpy ?m1 this str (of_nat n + 1) = copyn ?m1 this str (n + 1)"
    using memcpy_to [of "of_nat n + 1" str this ?m1] l by simp
  let ?m = "set_s_isSSO True this (copyn ?m1 this str (n + 1))"
  have eq: "?m (this + of_nat i) = ram h (str + of_nat i)" if "i \<le> n" for i
  proof -
    have "of_nat i \<noteq> (40 :: u64)"
      using that n unat_of_nat_less [of i, where 'a = 64] by (auto simp: word_unat_eq_iff)
    then show ?thesis
      using that n o(1) copyn_at [of i "n + 1" ?m1 this str] by (simp add: set_s_isSSO_def)
  qed
  have "cstr_at ?m this n"
    using a eq by (simp add: str_args_def cstr_at_def)
  then have "string_length ?m this = Some (of_nat n)"
    by (simp add: string_length_def str_simps strlen_cstr)
  moreover have "string_of_cstr this str h = Some (h\<lparr>ram := ?m\<rparr>)"
    using strlen_cstr [OF o(2)] l n cp by (simp add: string_of_cstr_def Let_def)
  ultimately show ?thesis
    using eq by (simp add: string_c_str_def str_simps)
qed

lemma string_of_cstr_large:
  assumes a: "str_args h this str n" and n: "15 \<le> n" and wf: "heap_wf h bs"
    and k: "kmalloc (upd_ram (init_sso this) h) (of_nat n + 1) = Some (p, h2)" "p \<noteq> 0"
  shows "\<exists>h'. string_of_cstr this str h = Some h' \<and> string_length (ram h') this = Some (of_nat n) \<and>
    (\<forall>i \<le> n. ram h' (string_c_str (ram h') this + of_nat i) = ram h (str + of_nat i))"
proof -
  note l = str_args_len [OF a]
  let ?h1 = "upd_ram (init_sso this) h"
  have nh: "\<not> in_heap h x" if "unat (x - this) < 48" for x
    using a that by (simp add: str_args_def)
  have far: "48 \<le> unat (x - this)" if "in_heap h x" for x
    using nh [of x] that by linarith
  have "heap_wf ?h1 bs"
    using wf far outside_at [OF s_set_outside(5) [of this "ram h"]] by (intro heap_wf_outside) auto
  note al = kmalloc_in_heap [OF this _ k]
  have n1: "unat (of_nat n + 1 :: u64) < 2 ^ 63" using a l(2) by (simp add: str_args_def)
  have ih: "in_heap ?h1 = in_heap h" by (simp add: in_heap_def fun_eq_iff)
  have out: "ram h2 x = init_sso this (ram h) x" if "\<not> in_heap h x" for x
    using al(1) [OF n1] that unfolding ih by simp
  have p: "in_heap h (p + of_nat i)" if "i \<le> n" for i
    using al(2) [OF n1] that l(2) unfolding ih by simp
  have strh: "\<not> in_heap h (str + of_nat i)" "48 \<le> unat (str + of_nat i - this)" if "i \<le> n" for i
    using a that by (auto simp: str_args_def)
  let ?m3 = "set_s_data p this (ram h2)"
  have cp: "memcpy ?m3 p str (of_nat n + 1) = copyn ?m3 p str (n + 1)"
  proof -
    have "str + of_nat i \<noteq> p" if "i < n + 1" for i
      using p [of 0] strh(1) [of i] that by auto
    then show ?thesis using memcpy_to [of "of_nat n + 1" str p ?m3] l(2) by simp
  qed
  let ?m4 = "copyn ?m3 p str (n + 1)"
  let ?m = "set_s_isSSO False this (set_s_capacity (of_nat n + 1) this (set_s_size (of_nat n) this ?m4))"
  have "outside this 48 ?m4 ?m"
    by (rule outside_trans [OF outside_trans [OF s_set_outside(2,3)] s_set_outside(4)])
  note om = outside_at [OF this]
  have eq: "?m (p + of_nat i) = ram h (str + of_nat i)" if "i \<le> n" for i
  proof -
    have "?m (p + of_nat i) = ?m4 (p + of_nat i)" using om far p [OF that] by simp
    also have "\<dots> = ?m3 (str + of_nat i)"
      using that a by (intro copyn_at) (simp_all add: str_args_def)
    also have "\<dots> = ram h2 (str + of_nat i)"
      using outside_at [OF s_set_outside(1)] strh(2) [OF that] by simp
    also have "\<dots> = ram h (str + of_nat i)"
      using out [OF strh(1) [OF that]] outside_at [OF s_set_outside(5)] strh(2) [OF that] by simp
    finally show ?thesis .
  qed
  have d4: "s_data ?m4 this = p"
  proof -
    have "?m4 (this + 16 + of_nat i) = ?m3 (this + 16 + of_nat i)" if "i < 8" for i
    proof -
      have "unat (of_nat (16 + i) :: u64) = 16 + i" by (rule unat64_of_nat) (use that in simp)
      then have "\<not> in_heap h (this + 16 + of_nat i)" using that by (intro nh) (simp add: add.assoc)
      moreover have "p + of_nat (unat (this + 16 + of_nat i - p)) = this + 16 + of_nat i" by simp
      ultimately have "\<not> unat (this + 16 + of_nat i - p) < n + 1"
        using p [of "unat (this + 16 + of_nat i - p)"] by (intro notI) (simp add: add.assoc)
      then show ?thesis by (rule copyn_out)
    qed
    then have "load64 ?m4 (this + 16) = load64 ?m3 (this + 16)" by (intro load64_cong) simp
    then show ?thesis by (simp add: s_data_def set_s_data_def load64_store64_same)
  qed
  have "string_of_cstr this str h = Some (h2\<lparr>ram := ?m\<rparr>)"
    using strlen_cstr [OF str_args_outside(2) [OF a s_set_outside(5)]] l(3) n k cp
    by (simp add: string_of_cstr_def Let_def str_simps)
  then show ?thesis
    using eq d4 by (simp add: string_length_def string_c_str_def str_simps)
qed

section \<open>Properties\<close>

text \<open>
  C27: constructing a string from a C string keeps its length and its bytes, terminator included:
  \<open>length()\<close> returns the length and \<open>c_str()\<close> points to a copy, in the object itself below 15 bytes and
  in a heap block otherwise. The last hypothesis says that the heap has a block for it.
\<close>

theorem string_of_cstr_correct:
  assumes "str_args h this str n" and "heap_wf h bs"
    and "15 \<le> n \<longrightarrow> (\<exists>p h2. kmalloc (upd_ram (init_sso this) h) (of_nat n + 1) = Some (p, h2) \<and> p \<noteq> 0)"
  shows "\<exists>h'. string_of_cstr this str h = Some h' \<and> string_length (ram h') this = Some (of_nat n) \<and>
    (\<forall>i \<le> n. ram h' (string_c_str (ram h') this + of_nat i) = ram h (str + of_nat i))"
proof (cases "n < 15")
  case True
  then show ?thesis by (rule string_of_cstr_small [OF assms(1)])
next
  case False
  then obtain p h2 where "kmalloc (upd_ram (init_sso this) h) (of_nat n + 1) = Some (p, h2)" "p \<noteq> 0"
    using assms(3) by auto
  with False show ?thesis by (intro string_of_cstr_large [OF assms(1) _ assms(2)]) auto
qed

text \<open>A heap with the string of sixteen A's at \<open>0x1000\<close>.\<close>

definition heapA :: kheap where
  "heapA = heap1\<lparr>ram := (\<lambda>x. if unat (x - 0x1000) < 16 then 65 else if x = 0x1010 then 0 else ram heap1 x)\<rparr>"

lemma unat_below:
  assumes "i < d" "d \<le> 2 ^ 63"
  shows "unat (a + of_nat i - (a + of_nat d) :: u64) = 2 ^ 64 + i - d"
proof -
  have "unat (of_nat i :: u64) = i" by (rule unat64_of_nat) (use assms in simp)
  then show ?thesis using assms unat_diff_offset [of d "a + of_nat i" a] by simp
qed

lemma heapA_args: "str_args heapA 0x2000 0x1000 16"
  unfolding str_args_def
proof (intro conjI allI impI)
  show "cstr_at (ram heapA) 0x1000 16"
    by (simp add: cstr_at_def heapA_def unat_of_nat_less)
  fix i :: nat assume i: "i \<le> 16"
  show "48 \<le> unat ((0x1000 :: u64) + of_nat i - 0x2000)"
    using unat_below [of i "0x1000" "0x1000"] i by simp
  show "\<not> in_heap heapA (0x1000 + of_nat i)"
    using unat_below [of i "0x1ff000" "0x1000"] i
    by (simp add: in_heap_def heapA_def heap1_base) (simp add: heap1_def heap_init_def Let_def)
next
  fix x :: u64 assume x: "unat (x - 0x2000) < 48"
  have "unat (0x2000 + of_nat (unat (x - 0x2000)) - (0x2000 + of_nat 0x1fe000) :: u64) =
      2 ^ 64 + unat (x - 0x2000) - 0x1fe000"
    using x by (intro unat_below) simp_all
  then show "\<not> in_heap heapA x"
    by (simp add: in_heap_def heapA_def heap1_base) (simp add: heap1_def heap_init_def Let_def)
qed simp

lemma heap1_size: "m_heapSize heap1 = 0x1000"
  by (simp add: heap1_def heap_init_def Let_def)

lemma heapA_wf: "heap_wf heapA [(0x1000, True)]"
proof -
  have wf: "heap_wf heap1 [(0x1000, True)]"
    using heap1_dll by (simp add: heap_dll_def)
  have "(if unat (x - 0x1000) < 16 then 65 else if x = 0x1010 then 0 else ram heap1 x) = ram heap1 x"
    if x: "in_heap heap1 x" for x
  proof -
    have ih: "in_heap heapA = in_heap heap1" by (simp add: in_heap_def heapA_def fun_eq_iff)
    have ne: "x \<noteq> 0x1000 + of_nat i" if "i \<le> 16" for i
      using heapA_args x that unfolding str_args_def ih by blast
    have "\<not> unat (x - 0x1000) < 16"
      using ne [of "unat (x - 0x1000)"] by auto
    then show ?thesis using ne [of 16] by simp
  qed
  then show ?thesis
    unfolding heapA_def by (rule heap_wf_outside [OF wf])
qed

theorem string_of_cstr_correct_witness:
  "\<exists>h'. string_of_cstr 0x2000 0x1000 heapA = Some h' \<and> string_length (ram h') 0x2000 = Some 16 \<and>
    ram h' (string_c_str (ram h') 0x2000) = 65"
proof -
  let ?h1 = "upd_ram (init_sso 0x2000) heapA"
  have wf1: "heap_wf ?h1 [(0x1000, True)]"
  proof (rule heap_wf_outside [OF heapA_wf])
    fix x assume "in_heap heapA x"
    then have "48 \<le> unat (x - 0x2000)" using heapA_args by (auto simp: str_args_def not_less)
    then show "init_sso 0x2000 (ram heapA) x = ram heapA x"
      using outside_at [OF s_set_outside(5)] by simp
  qed
  have "spec_allocate 17 [(0x1000, True)] = Some (32, [(49, False), (4047, True)])"
    by (simp add: spec_allocate_def)
  from heap_allocate_Some [OF wf1 _ this] obtain h2 where h2:
    "heap_allocate ?h1 (of_nat 17) = Some (m_firstSegment ?h1 + of_nat 32, h2)"
    by auto
  have "kmalloc ?h1 (of_nat 16 + 1) = Some (0x200020, h2)"
    using h2 by (simp add: kmalloc_def heapA_def heap1_base)
  then have k: "15 \<le> (16 :: nat) \<longrightarrow> (\<exists>p h2. kmalloc ?h1 (of_nat 16 + 1) = Some (p, h2) \<and> p \<noteq> 0)"
    by auto
  obtain h' where h': "string_of_cstr 0x2000 0x1000 heapA = Some h'"
    "string_length (ram h') 0x2000 = Some (of_nat 16)"
    "\<forall>i \<le> 16. ram h' (string_c_str (ram h') 0x2000 + of_nat i) = ram heapA (0x1000 + of_nat i)"
    using string_of_cstr_correct [OF heapA_args heapA_wf k] by blast
  from h'(3) [rule_format, of 0] have "ram h' (string_c_str (ram h') 0x2000) = 65"
    by (simp add: heapA_def)
  with h' show ?thesis by simp
qed

text \<open>
  \<open>append\<close> into spare heap capacity copies the bytes behind the string but does not update
  \<open>m_size\<close>: \<open>length()\<close> still returns the old length, and the next \<open>append\<close> overwrites what this one
  wrote.
\<close>

theorem string_append_stale_size:
  assumes "cstr_at (ram h) str n" and "n < 2 ^ 62"
    and "\<not> s_isSSO (ram h) this"
    and "15 \<le> unat (s_size (ram h) this)"
    and "unat (s_size (ram h) this) + n < unat (s_capacity (ram h) this)"
    and "\<forall>x. unat (x - this) < 48 \<longrightarrow> n + 1 \<le> unat (x - (s_data (ram h) this + s_size (ram h) this))"
    and "n + 1 \<le> unat (s_data (ram h) this + s_size (ram h) this - str)"
  shows "\<exists>h'. string_append this str h = Some h' \<and>
    (\<forall>i \<le> n. ram h' (s_data (ram h) this + s_size (ram h) this + of_nat i) = ram h (str + of_nat i)) \<and>
    string_length (ram h') this = string_length (ram h) this"
proof -
  let ?m = "ram h" and ?d = "s_data (ram h) this + s_size (ram h) this"
  have u: "unat (of_nat n :: u64) = n" by (rule unat64_of_nat) (use assms(2) in simp)
  have u1: "unat (of_nat n + 1 :: u64) = n + 1"
    using unat64_of_nat [of "n + 1"] assms(2) by (simp add: add.commute)
  have s: "unat (s_size ?m this + of_nat n) = unat (s_size ?m this) + n"
    using assms(5) unat_lt64 [of "s_capacity ?m this"] by (subst unat_add_no_wrap) (simp_all add: u)
  have c: "\<not> s_size ?m this + of_nat n < SSO_SIZE" "s_size ?m this + of_nat n < s_capacity ?m this"
    using assms(4,5) s by (simp_all add: word_less_nat_alt SSO_SIZE_def)
  have cp: "memcpy ?m ?d str (of_nat n + 1) = copyn ?m ?d str (n + 1)"
    using memcpy_copies [of ?d str "of_nat n + 1" ?m] assms(7) u1 by (simp add: fwd_safe_def)
  let ?m' = "copyn ?m ?d str (n + 1)"
  have app: "string_append this str h = Some (h\<lparr>ram := ?m'\<rparr>)"
    using strlen_cstr [OF assms(1)] assms(3) c cp by (simp add: string_append_def string_length_def Let_def)
  have same: "?m' (this + of_nat i) = ?m (this + of_nat i)" if "i < 48" for i
    using assms(6) that by (intro copyn_out) (simp add: unat_of_nat_less not_less)
  have "load64 ?m' (this + of_nat 24) = load64 ?m (this + of_nat 24)"
  proof (rule load64_cong)
    fix i :: nat assume "i < 8"
    then show "?m' (this + of_nat 24 + of_nat i) = ?m (this + of_nat 24 + of_nat i)"
      using same [of "24 + i"] by (simp add: add.assoc)
  qed
  moreover have "?m' (this + 40) = ?m (this + 40)" using same [of 40] by simp
  ultimately have "string_length ?m' this = string_length ?m this"
    using assms(3) by (simp add: string_length_def s_isSSO_def s_size_def)
  moreover have "?m' (?d + of_nat i) = ?m (str + of_nat i)" if "i \<le> n" for i
    using that assms(2) by (intro copyn_at) simp_all
  ultimately show ?thesis using app by simp
qed

text \<open>
  An object at \<open>0x2000\<close> whose block at \<open>0x3000\<close> holds 20 of 64 bytes, and sixteen A's to append.
\<close>

definition heapB :: kheap where
  "heapB = upd_ram (\<lambda>m. set_s_isSSO False 0x2000 (set_s_capacity 64 0x2000 (set_s_size 20 0x2000
     (set_s_data 0x3000 0x2000 m)))) heapA"

theorem string_append_stale_size_witness:
  "\<exists>h'. string_append 0x2000 0x1000 heapB = Some h' \<and> ram h' 0x3014 = 65 \<and>
    string_length (ram h') 0x2000 = Some 20"
proof -
  have o: "outside 0x2000 48 (ram heapA) (ram heapB)"
    unfolding heapB_def
    using outside_trans [OF outside_trans [OF outside_trans [OF s_set_outside(1,2)] s_set_outside(3)] s_set_outside(4)]
    by simp
  note str = str_args_outside [OF heapA_args o]
  have f: "\<not> s_isSSO (ram heapB) 0x2000" "s_size (ram heapB) 0x2000 = 20" "s_capacity (ram heapB) 0x2000 = 64"
    "s_data (ram heapB) 0x2000 = 0x3000"
    by (simp_all add: heapB_def str_simps)
  have far: "17 \<le> unat (x - 0x3014)" if "unat (x - 0x2000) < 48" for x :: u64
    using unat_below [of "unat (x - 0x2000)" "0x1014" "0x2000"] that by simp
  have "\<exists>h'. string_append 0x2000 0x1000 heapB = Some h' \<and>
    (\<forall>i \<le> 16. ram h' (s_data (ram heapB) 0x2000 + s_size (ram heapB) 0x2000 + of_nat i) =
      ram heapB (0x1000 + of_nat i)) \<and>
    string_length (ram h') 0x2000 = string_length (ram heapB) 0x2000"
    by (rule string_append_stale_size) (use str(2) f far in simp_all)
  then obtain h' where h': "string_append 0x2000 0x1000 heapB = Some h'"
    "\<forall>i \<le> 16. ram h' (0x3014 + of_nat i) = ram heapB (0x1000 + of_nat i)"
    "string_length (ram h') 0x2000 = string_length (ram heapB) 0x2000"
    unfolding f by auto
  have "ram h' 0x3014 = 65"
    using h'(2) [rule_format, of 0] str(1) [of 0] by (simp add: heapA_def)
  with h'(1,3) f show ?thesis by (simp add: string_length_def)
qed

end
