(* ===== verification/Process.thy ===== *)
theory Process
  imports PageFrame
begin

text \<open>
  Process control blocks, per-cpu data and the context switch of
  \<^verbatim>\<open>kernel/src/process/process.cpp\<close> and \<^verbatim>\<open>arch/x86/per_cpu_data.h\<close>, and the system call
  handler with the elevation protocol of \<^verbatim>\<open>syscall/syscalls.cpp\<close> and \<^verbatim>\<open>kelevate\<close>.

  A task is the address of its control block; \<open>pcbs\<close> is the store of control blocks. \<open>per_cpu\<close>
  is the per-cpu array; \<open>this_cpu\<close> is the executing cpu, with its page-table register, its two
  \<^verbatim>\<open>gs\<close> bases and its interrupt flag. Console
  output is the list of format strings handed to \<open>kprint\<close>, last first.
\<close>

section \<open>Register contexts\<close>

record CpuContext =
  c_rax :: u64
  c_rbx :: u64
  c_rcx :: u64
  c_rdx :: u64
  c_rsi :: u64
  c_rdi :: u64
  c_rbp :: u64
  c_r8 :: u64
  c_r9 :: u64
  c_r10 :: u64
  c_r11 :: u64
  c_r12 :: u64
  c_r13 :: u64
  c_r14 :: u64
  c_r15 :: u64
  c_rip :: u64
  c_rsp :: u64
  c_rflags :: u64
  c_cs :: u64
  c_ds :: u64
  c_es :: u64
  c_fs :: u64
  c_gs :: u64
  c_ss :: u64

record InterruptFrame =
  h_rip :: u64
  h_cs :: u64
  h_rflags :: u64
  h_rsp :: u64
  h_ss :: u64

record PtRegs =
  f_gs :: u64
  f_fs :: u64
  f_es :: u64
  f_ds :: u64
  f_r15 :: u64
  f_r14 :: u64
  f_r13 :: u64
  f_r12 :: u64
  f_r11 :: u64
  f_r10 :: u64
  f_r9 :: u64
  f_r8 :: u64
  f_rdi :: u64
  f_rsi :: u64
  f_rbp :: u64
  f_rbx :: u64
  f_rdx :: u64
  f_rcx :: u64
  f_rax :: u64
  f_intno :: u64
  f_error :: u64
  hwframe :: InterruptFrame

definition saveCpuContext :: "PtRegs \<Rightarrow> CpuContext \<Rightarrow> CpuContext" where
  "saveCpuContext frame context = context
    \<lparr>c_rax := f_rax frame, c_rbx := f_rbx frame, c_rcx := f_rcx frame,
     c_rdx := f_rdx frame, c_rsi := f_rsi frame, c_rdi := f_rdi frame,
     c_rbp := f_rbp frame, c_r8 := f_r8 frame, c_r9 := f_r9 frame,
     c_r10 := f_r10 frame, c_r11 := f_r11 frame, c_r12 := f_r12 frame,
     c_r13 := f_r13 frame, c_r14 := f_r14 frame, c_r15 := f_r15 frame,
     c_rip := h_rip (hwframe frame), c_rsp := h_rsp (hwframe frame), c_rflags := h_rflags (hwframe frame),
     c_cs := h_cs (hwframe frame), c_ss := h_ss (hwframe frame), c_ds := f_ds frame,
     c_es := f_es frame, c_fs := f_fs frame, c_gs := f_gs frame\<rparr>"

definition restoreCpuContext :: "CpuContext \<Rightarrow> PtRegs \<Rightarrow> PtRegs" where
  "restoreCpuContext context frame = frame
    \<lparr>f_rax := c_rax context, f_rbx := c_rbx context, f_rcx := c_rcx context,
     f_rdx := c_rdx context, f_rsi := c_rsi context, f_rdi := c_rdi context,
     f_rbp := c_rbp context, f_r8 := c_r8 context, f_r9 := c_r9 context,
     f_r10 := c_r10 context, f_r11 := c_r11 context, f_r12 := c_r12 context,
     f_r13 := c_r13 context, f_r14 := c_r14 context, f_r15 := c_r15 context,
     hwframe := (hwframe frame)\<lparr>h_rip := c_rip context, h_rsp := c_rsp context, h_rflags := c_rflags context, h_cs := c_cs context, h_ss := c_ss context\<rparr>, f_ds := c_ds context, f_es := c_es context,
     f_fs := c_fs context, f_gs := c_gs context\<rparr>"

section \<open>Control blocks and per-cpu data\<close>

datatype ProcessState = INVALID | NEW | READY | RUNNING | WAITING | TERMINATED

record PCB =
  cpu_context :: CpuContext
  state :: ProcessState
  pid :: u64
  priority :: u64
  cr3 :: u64
  kernelStack :: u64
  usergs :: u64
  elevated :: u8
  cpu :: u8

record CpuData =
  currentTask :: u64
  defaultKernelStack :: u64
  currentKernelStack :: u64
  currentUserStack :: u64

record kernel =
  pcbs :: "u64 \<Rightarrow> PCB"
  per_cpu :: "int \<Rightarrow> CpuData"
  this_cpu :: int
  cr3_reg :: u64
  gs_base :: u64
  kernel_gs_base :: u64
  interrupts_on :: bool
  console :: "string list"

definition MAX_CPUS :: int where
  "MAX_CPUS = 64"

definition BSP_CPU_ID :: int where
  "BSP_CPU_ID = 0"

definition upd_pcb :: "u64 \<Rightarrow> (PCB \<Rightarrow> PCB) \<Rightarrow> 'a kernel_scheme \<Rightarrow> 'a kernel_scheme" where
  "upd_pcb t f k = k\<lparr>pcbs := (pcbs k)(t := f (pcbs k t))\<rparr>"

definition upd_cpu :: "int \<Rightarrow> (CpuData \<Rightarrow> CpuData) \<Rightarrow> 'a kernel_scheme \<Rightarrow> 'a kernel_scheme" where
  "upd_cpu c f k = k\<lparr>per_cpu := (per_cpu k)(c := f (per_cpu k c))\<rparr>"

text \<open>\<open>current\<close>: the word at offset 0 of the executing cpu's data.\<close>

definition current :: "'a kernel_scheme \<Rightarrow> u64" where
  "current k = currentTask (per_cpu k (this_cpu k))"

text \<open>A zeroed control block.\<close>

definition zero_context :: CpuContext where
  "zero_context = \<lparr>c_rax = 0, c_rbx = 0, c_rcx = 0, c_rdx = 0, c_rsi = 0, c_rdi = 0, c_rbp = 0,
     c_r8 = 0, c_r9 = 0, c_r10 = 0, c_r11 = 0, c_r12 = 0, c_r13 = 0, c_r14 = 0, c_r15 = 0,
     c_rip = 0, c_rsp = 0, c_rflags = 0, c_cs = 0, c_ds = 0, c_es = 0, c_fs = 0, c_gs = 0, c_ss = 0\<rparr>"

definition zero_pcb :: PCB where
  "zero_pcb = \<lparr>cpu_context = zero_context, state = INVALID, pid = 0, priority = 0, cr3 = 0,
     kernelStack = 0, usergs = 0, elevated = 0, cpu = 0\<rparr>"

definition switchContextInIrq ::
  "int \<Rightarrow> int \<Rightarrow> u64 \<Rightarrow> u64 \<Rightarrow> PtRegs \<Rightarrow> 'a kernel_scheme \<Rightarrow> PtRegs \<times> 'a kernel_scheme" where
  "switchContextInIrq oldCpu newCpu from to frame k =
    (let k = upd_pcb from (\<lambda>p. p\<lparr>cpu_context := saveCpuContext frame (cpu_context p)\<rparr>) k;
         k = upd_pcb from (\<lambda>p. p\<lparr>cr3 := cr3_reg k\<rparr>) k;
         k = upd_pcb from (\<lambda>p. p\<lparr>kernelStack := currentKernelStack (per_cpu k oldCpu)\<rparr>) k;
         k = upd_cpu newCpu (\<lambda>d. d\<lparr>currentKernelStack := kernelStack (pcbs k to)\<rparr>) k;
         frame = restoreCpuContext (cpu_context (pcbs k to)) frame;
         k = k\<lparr>cr3_reg := cr3 (pcbs k to)\<rparr>;
         k = upd_cpu newCpu (\<lambda>d. d\<lparr>currentTask := to\<rparr>) k
     in (frame, k))"

text \<open>Ends in an \<^verbatim>\<open>iretq\<close> to the registers it returns.\<close>

definition exitAndSwitchCurrentContext ::
  "int \<Rightarrow> u64 \<Rightarrow> PtRegs \<Rightarrow> 'a kernel_scheme \<Rightarrow> PtRegs \<times> 'a kernel_scheme" where
  "exitAndSwitchCurrentContext c newCtx regs k =
    (let k = upd_cpu c (\<lambda>d. d\<lparr>currentKernelStack := kernelStack (pcbs k newCtx)\<rparr>) k;
         regs = restoreCpuContext (cpu_context (pcbs k newCtx)) regs;
         k = k\<lparr>cr3_reg := cr3 (pcbs k newCtx)\<rparr>;
         k = upd_cpu c (\<lambda>d. d\<lparr>currentTask := newCtx\<rparr>) k
     in (regs, k))"

section \<open>System calls and elevation\<close>

definition ENOSYS :: u64 where "ENOSYS = 1"
definition SYSCALL_SYS_WRITE :: u64 where "SYSCALL_SYS_WRITE = 0"
definition SYSCALL_SYS_READ :: u64 where "SYSCALL_SYS_READ = 1"
definition SYSCALL_SYS_ELEVATE :: u64 where "SYSCALL_SYS_ELEVATE = 91"
definition SYSCALL_SYS_LOWER :: u64 where "SYSCALL_SYS_LOWER = 92"

definition say :: "string \<Rightarrow> 'a kernel_scheme \<Rightarrow> 'a kernel_scheme" where
  "say s k = k\<lparr>console := s # console k\<rparr>"

definition check_elevate_status :: "'a kernel_scheme \<Rightarrow> u64" where
  "check_elevate_status k = ucast (elevated (pcbs k (current k)))"

text \<open>\<open>text\<close> reads the C string the write call is given.\<close>

definition syscall_handler ::
  "(u64 \<Rightarrow> string) \<Rightarrow> u64 \<Rightarrow> u64 \<Rightarrow> u64 \<Rightarrow> 'a kernel_scheme \<Rightarrow> u64 \<times> 'a kernel_scheme" where
  "syscall_handler text syscallnum arg1 arg2 k =
    (if syscallnum = SYSCALL_SYS_WRITE then (0, say (text arg2) k)
     else if syscallnum = SYSCALL_SYS_READ then (0, k)
     else if syscallnum = SYSCALL_SYS_ELEVATE then
       (if arg1 = 1 then (check_elevate_status k, k)
        else if elevated (pcbs k (current k)) \<noteq> 0 then (0, say ''[*] Already elevated'' k)
        else (0, upd_pcb (current k) (\<lambda>p. p\<lparr>elevated := 1\<rparr>) k))
     else if syscallnum = SYSCALL_SYS_LOWER then
       (if elevated (pcbs k (current k)) = 0 then (0, say ''[*] Already lowered'' k)
        else (0, upd_pcb (current k) (\<lambda>p. p\<lparr>elevated := 0\<rparr>) k))
     else (- ENOSYS, say ''Unknown syscall number'' k))"

text \<open>\<^verbatim>\<open>swapgs\<close>, \<^verbatim>\<open>rdgsbase\<close>, \<^verbatim>\<open>swapgs\<close> reads the kernel's base.\<close>

definition set_elevated_usergs :: "'a kernel_scheme \<Rightarrow> 'a kernel_scheme" where
  "set_elevated_usergs k =
    (let k = upd_pcb (current k) (\<lambda>p. p\<lparr>usergs := gs_base k\<rparr>) k
     in k\<lparr>gs_base := kernel_gs_base k\<rparr>)"

definition restore_lowered_usergs :: "'a kernel_scheme \<Rightarrow> 'a kernel_scheme" where
  "restore_lowered_usergs k = k\<lparr>gs_base := usergs (pcbs k (current k))\<rparr>"

definition kelevate :: "'a kernel_scheme \<Rightarrow> 'a kernel_scheme" where
  "kelevate k = set_elevated_usergs (snd (syscall_handler (\<lambda>_. []) SYSCALL_SYS_ELEVATE 0 0 k))"

definition klower :: "'a kernel_scheme \<Rightarrow> 'a kernel_scheme" where
  "klower k = snd (syscall_handler (\<lambda>_. []) SYSCALL_SYS_LOWER 0 0 (restore_lowered_usergs k))"

definition kcheck_elevated :: "'a kernel_scheme \<Rightarrow> bool" where
  "kcheck_elevated k \<longleftrightarrow> fst (syscall_handler (\<lambda>_. []) SYSCALL_SYS_ELEVATE 1 0 k) \<noteq> 0"

text \<open>The macro \<open>RUN_ELEVATED\<close> around a body.\<close>

definition RUN_ELEVATED :: "('a kernel_scheme \<Rightarrow> 'a kernel_scheme) \<Rightarrow> 'a kernel_scheme \<Rightarrow> 'a kernel_scheme" where
  "RUN_ELEVATED code k =
    (let initiallyElevated = kcheck_elevated k;
         k = (if \<not> initiallyElevated then kelevate k else k);
         k = code k
     in if \<not> initiallyElevated then klower k else k)"

definition getCurrentCpuId :: "'a kernel_scheme \<Rightarrow> u8" where
  "getCurrentCpuId k = cpu (pcbs k (current k))"

section \<open>Elevation is balanced\<close>

lemma upd_pcb_fields [simp]:
  "per_cpu (upd_pcb t f k) = per_cpu k" "this_cpu (upd_pcb t f k) = this_cpu k"
  "current (upd_pcb t f k) = current k" "pcbs (upd_pcb t f k) = (pcbs k)(t := f (pcbs k t))"
  "gs_base (upd_pcb t f k) = gs_base k" "kernel_gs_base (upd_pcb t f k) = kernel_gs_base k"
  "kernel.more (upd_pcb t f k) = kernel.more k" "cr3_reg (upd_pcb t f k) = cr3_reg k"
  by (simp_all add: upd_pcb_def current_def)

lemmas syscall_numbers = SYSCALL_SYS_WRITE_def SYSCALL_SYS_READ_def SYSCALL_SYS_ELEVATE_def
  SYSCALL_SYS_LOWER_def ENOSYS_def

lemma kcheck_elevated_iff: "kcheck_elevated k \<longleftrightarrow> elevated (pcbs k (current k)) \<noteq> 0"
proof -
  have "unat (elevated (pcbs k (current k))) < 2 ^ 8" using unsigned_less by (rule order_less_le_trans) simp
  then have "take_bit 64 (unat (elevated (pcbs k (current k)))) = unat (elevated (pcbs k (current k)))"
    by (intro take_bit_nat_eq_self) simp
  then show ?thesis
    by (simp add: kcheck_elevated_def syscall_handler_def syscall_numbers check_elevate_status_def
        unsigned_ucast_eq word_unat_eq_iff)
qed

lemma kelevate_lowered:
  assumes "elevated (pcbs k (current k)) = 0"
  shows "current (kelevate k) = current k" "gs_base (kelevate k) = kernel_gs_base k"
    "pcbs (kelevate k) = (pcbs k)(current k := (pcbs k (current k))\<lparr>elevated := 1, usergs := gs_base k\<rparr>)"
  using assms
  by (simp_all add: kelevate_def set_elevated_usergs_def syscall_handler_def syscall_numbers current_def Let_def
      fun_eq_iff)


definition kernel1 :: kernel where
  "kernel1 = \<lparr>pcbs = (\<lambda>t. zero_pcb\<lparr>pid := t\<rparr>),
     per_cpu = (\<lambda>_. \<lparr>currentTask = 1, defaultKernelStack = 0, currentKernelStack = 0, currentUserStack = 0\<rparr>),
     this_cpu = 0, cr3_reg = 0, gs_base = 0x7000, kernel_gs_base = 0x9000, interrupts_on = True, console = []\<rparr>"


end
