(* ===== verification/Sched.thy ===== *)
theory Sched
  imports Process Vector
begin

text \<open>
  The round-robin scheduler of \<^verbatim>\<open>kernel/src/sched/sched.cpp\<close> and the timer interrupt of
  \<^verbatim>\<open>interrupts/interrupts.cpp\<close> that drives it.

  A run queue is the list its vector of task pointers holds (the operations of that vector are
  verified in \<^verbatim>\<open>Vector\<close>), with the index of the current task. Reading a task at an index behind
  the end is undefined in the source and \<open>None\<close> here, as is a call on a cpu without a run queue
  and a call that waits for a held lock. The kernel state extends that of \<^verbatim>\<open>Process\<close>. Entry 0 of a
  run queue is the cpu's swapper task.
\<close>

section \<open>Run queues\<close>

record run_queue =
  m_tasks :: "u64 list"
  m_currentTaskIndex :: u64

record sched = kernel +
  m_runQueues :: "int \<Rightarrow> run_queue option"
  m_usableCpuCount :: u64
  sched_lock :: u32
  load_balancing_lock :: u32
  g_availableTaskPid :: u64
  g_kernelSwapperTasks :: "int \<Rightarrow> u64"
  g_kernelRootPageTable :: u64
  task_heap :: kheap
  page_frames :: pfa
  eoi_writes :: nat

definition MAX_QUEUED_PROCESSES :: nat where
  "MAX_QUEUED_PROCESSES = 128"

definition allocateTaskPid :: "sched \<Rightarrow> u64 \<times> sched" where
  "allocateTaskPid k =
    (let p = g_availableTaskPid k;
         k = k\<lparr>g_availableTaskPid := g_availableTaskPid k + 1\<rparr>
     in (p, if g_availableTaskPid k = 0 then k\<lparr>g_availableTaskPid := 10\<rparr> else k))"

definition rq_size :: "run_queue \<Rightarrow> u64" where
  "rq_size q = of_nat (length (m_tasks q))"

definition rq_at :: "run_queue \<Rightarrow> u64 \<Rightarrow> u64 option" where
  "rq_at q i = (if unat i < length (m_tasks q) then Some (m_tasks q ! unat i) else None)"

definition rq_addTask :: "u64 \<Rightarrow> run_queue \<Rightarrow> bool \<times> run_queue" where
  "rq_addTask task q =
    (if length (m_tasks q) = MAX_QUEUED_PROCESSES then (False, q)
     else (True, q\<lparr>m_tasks := m_tasks q @ [task]\<rparr>))"

text \<open>The index of the first task with the pid, and the queue without it.\<close>

definition rq_removeTask :: "(u64 \<Rightarrow> PCB) \<Rightarrow> u64 \<Rightarrow> run_queue \<Rightarrow> bool \<times> run_queue" where
  "rq_removeTask ps p q =
    (if p = 0 then (False, q)
     else
       (case find (\<lambda>i. pid (ps (m_tasks q ! i)) = p) [0..<length (m_tasks q)] of
          None \<Rightarrow> (False, q)
        | Some i \<Rightarrow>
            (let q = q\<lparr>m_tasks := take i (m_tasks q) @ drop (i + 1) (m_tasks q)\<rparr>
             in (True, q\<lparr>m_currentTaskIndex := rq_size q - 1\<rparr>))))"

definition rq_getCurrentTask :: "run_queue \<Rightarrow> u64 option" where
  "rq_getCurrentTask q = rq_at q (m_currentTaskIndex q)"

definition rq_getNextTaskIndex :: "run_queue \<Rightarrow> u64" where
  "rq_getNextTaskIndex q =
    (let taskCount = rq_size q;
         nextIndex = m_currentTaskIndex q
     in if taskCount = 1 then 0
        else if taskCount = 2 then 1
        else if 2 < taskCount then
          (let nextIndex = (m_currentTaskIndex q + 1) mod taskCount
           in if nextIndex = 0 then 1 else nextIndex)
        else nextIndex)"

definition rq_peekNextTask :: "run_queue \<Rightarrow> u64 option" where
  "rq_peekNextTask q = rq_at q (rq_getNextTaskIndex q)"

definition rq_scheduleNextTask :: "run_queue \<Rightarrow> 'a kernel_scheme \<Rightarrow> (run_queue \<times> 'a kernel_scheme) option" where
  "rq_scheduleNextTask q k =
    (let nextTaskIndex = rq_getNextTaskIndex q
     in if m_currentTaskIndex q = nextTaskIndex then Some (q, k)
        else do {
          currentTask \<leftarrow> rq_getCurrentTask q;
          nextTask \<leftarrow> rq_at q nextTaskIndex;
          let k = upd_pcb currentTask (\<lambda>p. p\<lparr>state := READY\<rparr>) k;
          let k = upd_pcb nextTask (\<lambda>p. p\<lparr>state := RUNNING\<rparr>) k;
          Some (q\<lparr>m_currentTaskIndex := nextTaskIndex\<rparr>, k)
        })"

section \<open>The scheduler\<close>

abbreviation valid_cpu :: "int \<Rightarrow> bool" where
  "valid_cpu c \<equiv> \<not> (c < 0 \<or> MAX_CPUS \<le> c)"

definition set_queue :: "int \<Rightarrow> run_queue \<Rightarrow> sched \<Rightarrow> sched" where
  "set_queue c q k = k\<lparr>m_runQueues := (m_runQueues k)(c := Some q)\<rparr>"

definition registerCpuCore :: "int \<Rightarrow> sched \<Rightarrow> sched" where
  "registerCpuCore c k =
    (if \<not> valid_cpu c then k
     else
       (let q = \<lparr>m_tasks = [], m_currentTaskIndex = 0\<rparr>;
            q = (if rq_size q = 0 then snd (rq_addTask (g_kernelSwapperTasks k c) q) else q)
        in (set_queue c q k)\<lparr>m_usableCpuCount := m_usableCpuCount k + 1\<rparr>))"

definition sched_init :: "sched \<Rightarrow> sched" where
  "sched_init k = registerCpuCore BSP_CPU_ID k"

text \<open>An operation on a cpu's run queue under the scheduler lock.\<close>

definition with_queue :: "int \<Rightarrow> (run_queue \<Rightarrow> sched \<Rightarrow> ('r \<times> run_queue \<times> sched) option) \<Rightarrow> sched \<Rightarrow> ('r \<times> sched) option" where
  "with_queue c f k = do {
     l \<leftarrow> acquireSpinlock (sched_lock k);
     let k = k\<lparr>sched_lock := l\<rparr>;
     q \<leftarrow> m_runQueues k c;
     (r, q, k) \<leftarrow> f q k;
     let k = set_queue c q k;
     Some (r, k\<lparr>sched_lock := releaseSpinlock (sched_lock k)\<rparr>)
   }"

definition addTask :: "u64 \<Rightarrow> int \<Rightarrow> sched \<Rightarrow> (bool \<times> sched) option" where
  "addTask task c k =
    (if \<not> valid_cpu c then Some (False, k)
     else with_queue c
       (\<lambda>q k. (let k = upd_pcb task (\<lambda>p. p\<lparr>cpu := of_int c\<rparr>) k;
                   (r, q) = rq_addTask task q
               in Some (r, q, k))) k)"

definition removeTask :: "u64 \<Rightarrow> int \<Rightarrow> sched \<Rightarrow> (bool \<times> sched) option" where
  "removeTask p c k =
    (if \<not> valid_cpu c then Some (False, k)
     else with_queue c (\<lambda>q k. (let (r, q) = rq_removeTask (pcbs k) p q in Some (r, q, k))) k)"

definition removeTask_of :: "u64 \<Rightarrow> int \<Rightarrow> sched \<Rightarrow> (bool \<times> sched) option" where
  "removeTask_of task c k = removeTask (pid (pcbs k task)) c k"

definition getCurrentTask :: "int \<Rightarrow> sched \<Rightarrow> (u64 \<times> sched) option" where
  "getCurrentTask c k =
    (if \<not> valid_cpu c then Some (0, k)
     else with_queue c (\<lambda>q k. do { t \<leftarrow> rq_getCurrentTask q; Some (t, q, k) }) k)"

definition peekNextTask :: "int \<Rightarrow> sched \<Rightarrow> (u64 \<times> sched) option" where
  "peekNextTask c k =
    (if \<not> valid_cpu c then Some (0, k)
     else with_queue c (\<lambda>q k. do { t \<leftarrow> rq_peekNextTask q; Some (t, q, k) }) k)"

definition scheduleNextTask :: "int \<Rightarrow> sched \<Rightarrow> sched option" where
  "scheduleNextTask c k =
    (if \<not> valid_cpu c then Some k
     else do {
       (u, k) \<leftarrow> with_queue c (\<lambda>q k. do { (q, k) \<leftarrow> rq_scheduleNextTask q k; Some ((), q, k) }) k;
       Some k
     })"

text \<open>The loop of \<open>_getNextAvailableCpu\<close> over the cpus from \<open>i\<close> on.\<close>

function least_loaded :: "int \<Rightarrow> int \<Rightarrow> u64 \<Rightarrow> sched \<Rightarrow> int option" where
  "least_loaded i c leastTaskCount k =
    (if i < sint (ucast (m_usableCpuCount k) :: u32)
     then do {
       q \<leftarrow> m_runQueues k i;
       if rq_size q < leastTaskCount then least_loaded (i + 1) i (rq_size q) k
       else least_loaded (i + 1) c leastTaskCount k
     }
     else Some c)"
  by auto
termination
  by (relation "measure (\<lambda>(i, c, n, k). nat (sint (ucast (m_usableCpuCount k) :: u32) - i))") auto

declare least_loaded.simps [simp del]

definition getNextAvailableCpu :: "sched \<Rightarrow> int option" where
  "getNextAvailableCpu k = do {
     q \<leftarrow> m_runQueues k 0;
     least_loaded 1 0 (rq_size q) k
   }"

definition addTask_balanced :: "u64 \<Rightarrow> sched \<Rightarrow> (bool \<times> sched) option" where
  "addTask_balanced task k = do {
     l \<leftarrow> acquireSpinlock (load_balancing_lock k);
     let k = k\<lparr>load_balancing_lock := l\<rparr>;
     c \<leftarrow> getNextAvailableCpu k;
     (r, k) \<leftarrow> addTask task c k;
     Some (r, k\<lparr>load_balancing_lock := releaseSpinlock (load_balancing_lock k)\<rparr>)
   }"

section \<open>Tasks\<close>

definition sizeof_Task :: u64 where
  "sizeof_Task = 248"

definition USER_CS :: u64 where "USER_CS = 0x30"
definition USER_DS :: u64 where "USER_DS = 0x28"

definition createKernelTask :: "u64 \<Rightarrow> u64 \<Rightarrow> sched \<Rightarrow> (u64 \<times> sched) option" where
  "createKernelTask taskEntry prio k = do {
     (task, h) \<leftarrow> kmalloc (task_heap k) sizeof_Task;
     let k = k\<lparr>task_heap := h\<rparr>;
     let k = upd_pcb task (\<lambda>_. zero_pcb) k;
     let k = upd_pcb task (\<lambda>p. p\<lparr>state := READY\<rparr>) k;
     let (newPid, k) = allocateTaskPid k;
     let k = upd_pcb task (\<lambda>p. p\<lparr>pid := newPid, priority := prio\<rparr>) k;
     (userStack, pf) \<leftarrow> zallocPages (page_frames k) 2;
     let k = k\<lparr>page_frames := pf\<rparr>;
     (kstack, pf) \<leftarrow> zallocPages (page_frames k) 2;
     let k = k\<lparr>page_frames := pf\<rparr>;
     let k = upd_pcb task (\<lambda>p. p\<lparr>cpu_context := (cpu_context p)
        \<lparr>c_rsp := userStack + PAGE_SIZE, c_rbp := userStack + PAGE_SIZE,
         c_rip := taskEntry, c_rflags := 0x200,
         c_cs := USER_CS OR 0x3, c_ds := USER_DS OR 0x3,
         c_es := USER_DS OR 0x3, c_ss := USER_DS OR 0x3\<rparr>\<rparr>) k;
     let k = upd_pcb task (\<lambda>p. p\<lparr>kernelStack := kstack + PAGE_SIZE\<rparr>) k;
     let k = upd_pcb task (\<lambda>p. p\<lparr>cr3 := g_kernelRootPageTable k\<rparr>) k;
     Some (task, k)
   }"

text \<open>\<open>regs\<close> is the uninitialised local frame.\<close>

definition exitKernelThread :: "PtRegs \<Rightarrow> sched \<Rightarrow> (PtRegs \<times> sched) option" where
  "exitKernelThread regs k = do {
     let k = kelevate k;
     let k = k\<lparr>interrupts_on := False\<rparr>;
     let c = uint (cpu (pcbs k (current k)));
     (currentTask, k) \<leftarrow> getCurrentTask c k;
     (nextTask, k) \<leftarrow> peekNextTask c k;
     let nextTask = (if currentTask = nextTask then g_kernelSwapperTasks k c else nextTask);
     (r, k) \<leftarrow> removeTask (pid (pcbs k currentTask)) c k;
     k \<leftarrow> scheduleNextTask c k;
     Some (exitAndSwitchCurrentContext c nextTask regs k)
   }"

text \<open>The end-of-interrupt write to the local interrupt controller.\<close>

definition completeIrq :: "sched \<Rightarrow> sched" where
  "completeIrq k = k\<lparr>eoi_writes := eoi_writes k + 1\<rparr>"

definition irq_handler_timer :: "PtRegs \<Rightarrow> sched \<Rightarrow> (PtRegs \<times> sched) option" where
  "irq_handler_timer frame k = do {
     let k = completeIrq k;
     let c = uint (cpu (pcbs k (current k)));
     (prevTask, k) \<leftarrow> getCurrentTask c k;
     (nextTask, k) \<leftarrow> peekNextTask c k;
     if nextTask \<noteq> 0 \<and> prevTask \<noteq> nextTask
     then do {
       let (frame, k) = switchContextInIrq c c prevTask nextTask frame k;
       k \<leftarrow> scheduleNextTask c k;
       Some (frame, k)
     }
     else Some (frame, k)
   }"

section \<open>The run-queue invariant\<close>

text \<open>The swapper is first, and the current index is in range.\<close>

definition rq_inv :: "u64 \<Rightarrow> run_queue \<Rightarrow> bool" where
  "rq_inv sw q \<longleftrightarrow> m_tasks q \<noteq> [] \<and> hd (m_tasks q) = sw \<and> length (m_tasks q) \<le> MAX_QUEUED_PROCESSES \<and>
    unat (m_currentTaskIndex q) < length (m_tasks q)"

lemma rq_size_unat: "length (m_tasks q) \<le> MAX_QUEUED_PROCESSES \<Longrightarrow> unat (rq_size q) = length (m_tasks q)"
  by (simp add: rq_size_def MAX_QUEUED_PROCESSES_def unat_of_nat_less)

lemma rq_next_unat:
  assumes "rq_inv sw q"
  shows "unat (rq_getNextTaskIndex q) =
    (if length (m_tasks q) = 1 then 0
     else if unat (m_currentTaskIndex q) + 1 = length (m_tasks q) \<or> length (m_tasks q) = 2 then 1
     else unat (m_currentTaskIndex q) + 1)"
proof -
  let ?n = "length (m_tasks q)" and ?i = "m_currentTaskIndex q"
  have n: "0 < ?n" "?n \<le> 128" "unat (rq_size q) = ?n" "unat ?i < ?n"
    using assms rq_size_unat [of q] by (auto simp: rq_inv_def MAX_QUEUED_PROCESSES_def)
  have c: "rq_size q = 1 \<longleftrightarrow> ?n = 1" "rq_size q = 2 \<longleftrightarrow> ?n = 2" "2 < rq_size q \<longleftrightarrow> 2 < ?n"
    using n(3) by (auto simp: word_unat_eq_iff word_less_nat_alt)
  have lt: "?i < rq_size q" using n by (simp add: word_less_nat_alt)
  have m: "unat ((?i + 1) mod rq_size q) = (if unat ?i + 1 = ?n then 0 else unat ?i + 1)"
    using unat_inc [OF lt] n by (simp add: unat_mod)
  then have z: "(?i + 1) mod rq_size q = 0 \<longleftrightarrow> unat ?i + 1 = ?n"
    using unat_eq_zero [of "(?i + 1) mod rq_size q"] by (simp split: if_splits)
  show ?thesis
    using n m z c by (auto simp: rq_getNextTaskIndex_def Let_def)
qed

lemma rq_next_less:
  assumes "rq_inv sw q"
  shows "unat (rq_getNextTaskIndex q) < length (m_tasks q)"
  using assms rq_next_unat [OF assms] by (auto simp: rq_inv_def)

text \<open>Scheduling always succeeds and moves the index.\<close>

lemma rq_schedule_moves:
  assumes "rq_inv sw q"
  shows "\<exists>k'. rq_scheduleNextTask q k = Some (q\<lparr>m_currentTaskIndex := rq_getNextTaskIndex q\<rparr>, k')"
  using assms rq_next_less [OF assms]
  by (cases q) (auto simp: rq_scheduleNextTask_def rq_getCurrentTask_def rq_at_def rq_inv_def Let_def)

lemma rq_inv_schedule:
  assumes "rq_inv sw q"
  shows "rq_inv sw (q\<lparr>m_currentTaskIndex := rq_getNextTaskIndex q\<rparr>)"
  using assms rq_next_less [OF assms] by (simp add: rq_inv_def)

lemma rq_inv_add: "rq_inv sw q \<Longrightarrow> rq_inv sw (snd (rq_addTask t q))"
  by (auto simp: rq_inv_def rq_addTask_def)

lemma rq_removeTask_at:
  assumes "p \<noteq> 0" "find (\<lambda>i. pid (ps (m_tasks q ! i)) = p) [0..<length (m_tasks q)] = Some i"
    and "length (m_tasks q) \<le> MAX_QUEUED_PROCESSES" "2 \<le> length (m_tasks q)"
  shows "rq_removeTask ps p q = (True, \<lparr>m_tasks = take i (m_tasks q) @ drop (i + 1) (m_tasks q),
      m_currentTaskIndex = of_nat (length (m_tasks q) - 2)\<rparr>)"
    and "i < length (m_tasks q)"
proof -
  show i: "i < length (m_tasks q)"
    using assms(2) by (auto simp: find_Some_iff)
  obtain n where n: "length (m_tasks q) = Suc (Suc n)"
    using assms(4) by (metis Suc_le_D Suc_le_mono numeral_2_eq_2)
  then have "length (take i (m_tasks q) @ drop (i + 1) (m_tasks q)) = Suc n"
    using i by simp
  then show "rq_removeTask ps p q = (True, \<lparr>m_tasks = take i (m_tasks q) @ drop (i + 1) (m_tasks q),
      m_currentTaskIndex = of_nat (length (m_tasks q) - 2)\<rparr>)"
    using assms(1,2) n by (cases q) (simp add: rq_removeTask_def rq_size_def Let_def)
qed

lemma rq_inv_remove:
  assumes inv: "rq_inv sw q" and p: "p \<noteq> pid (ps sw)"
  shows "rq_inv sw (snd (rq_removeTask ps p q))"
proof (cases "p = 0 \<or> find (\<lambda>i. pid (ps (m_tasks q ! i)) = p) [0..<length (m_tasks q)] = None")
  case True
  with inv show ?thesis by (auto simp: rq_removeTask_def)
next
  case False
  then obtain i where i: "p \<noteq> 0"
    "find (\<lambda>i. pid (ps (m_tasks q ! i)) = p) [0..<length (m_tasks q)] = Some i" by auto
  then have pi: "i < length (m_tasks q)" "pid (ps (m_tasks q ! i)) = p"
    by (auto simp: find_Some_iff)
  have hd: "m_tasks q ! 0 = sw" "m_tasks q \<noteq> []" using inv by (auto simp: rq_inv_def hd_conv_nth)
  have "i \<noteq> 0"
  proof
    assume "i = 0"
    with pi(2) hd(1) p show False by simp
  qed
  then have n: "2 \<le> length (m_tasks q)" "length (m_tasks q) \<le> MAX_QUEUED_PROCESSES"
    using pi inv by (auto simp: rq_inv_def)
  have u: "unat (of_nat (length (m_tasks q) - 2) :: u64) = length (m_tasks q) - 2"
    using n by (intro unat64_of_nat) (simp add: MAX_QUEUED_PROCESSES_def)
  have "hd (take i (m_tasks q) @ drop (i + 1) (m_tasks q)) = sw"
    using \<open>i \<noteq> 0\<close> hd by (simp add: hd_append hd_conv_nth)
  moreover have "length (m_tasks q) - 2 < length (m_tasks q) - 1" "length (m_tasks q) - 1 \<le> MAX_QUEUED_PROCESSES"
    using n by linarith+
  moreover have "length (take i (m_tasks q) @ drop (i + 1) (m_tasks q)) = length (m_tasks q) - 1"
    "take i (m_tasks q) @ drop (i + 1) (m_tasks q) \<noteq> []"
    using pi(1) \<open>i \<noteq> 0\<close> by auto
  ultimately show ?thesis
    unfolding rq_removeTask_at(1) [OF i n(2,1)] rq_inv_def snd_conv run_queue.select_convs u by simp
qed

text \<open>Everything that happens to a run queue, the removal of its swapper excepted.\<close>

inductive rq_step :: "u64 \<Rightarrow> run_queue \<times> kernel \<Rightarrow> run_queue \<times> kernel \<Rightarrow> bool" for sw :: u64 where
  add: "rq_addTask t q = (r, q') \<Longrightarrow> rq_step sw (q, k) (q', k)"
| remove: "rq_removeTask (pcbs k) p q = (r, q') \<Longrightarrow> p \<noteq> pid (pcbs k sw) \<Longrightarrow> rq_step sw (q, k) (q', k)"
| schedule: "rq_scheduleNextTask q k = Some (q', k') \<Longrightarrow> rq_step sw (q, k) (q', k')"

inductive_cases rq_stepE: "rq_step sw s s'"

lemma rq_inv_step: "rq_step sw s s' \<Longrightarrow> rq_inv sw (fst s) \<Longrightarrow> rq_inv sw (fst s')"
proof (induction rule: rq_step.induct)
  case (add t q r q' k)
  then show ?case using rq_inv_add [of sw q t] by simp
next
  case (remove k p q r q')
  then show ?case using rq_inv_remove [of sw q p "pcbs k"] by simp
next
  case (schedule q k q' k')
  then show ?case
    using rq_schedule_moves [of sw q k] rq_inv_schedule [of sw q] by auto
qed

lemma rq_inv_reach: "(rq_step sw)\<^sup>*\<^sup>* s s' \<Longrightarrow> rq_inv sw (fst s) \<Longrightarrow> rq_inv sw (fst s')"
  by (induction rule: rtranclp_induct) (auto intro: rq_inv_step)

section \<open>Round robin\<close>

text \<open>The effect of \<open>m\<close> time slices.\<close>

primrec run_slices :: "nat \<Rightarrow> run_queue \<Rightarrow> kernel \<Rightarrow> (run_queue \<times> kernel) option" where
  "run_slices 0 q k = Some (q, k)"
| "run_slices (Suc m) q k = do { (q, k) \<leftarrow> rq_scheduleNextTask q k; run_slices m q k }"

lemma run_slices_index:
  assumes "rq_inv sw q" and n: "3 \<le> length (m_tasks q)" and i: "1 \<le> unat (m_currentTaskIndex q)"
  shows "\<exists>q' k'. run_slices m q k = Some (q', k') \<and> m_tasks q' = m_tasks q \<and>
    unat (m_currentTaskIndex q') =
      1 + (unat (m_currentTaskIndex q) - 1 + m) mod (length (m_tasks q) - 1)"
  using assms
proof (induction m arbitrary: q k)
  case 0
  then have "unat (m_currentTaskIndex q) - 1 < length (m_tasks q) - 1" by (auto simp: rq_inv_def)
  with 0 show ?case by simp
next
  case (Suc m)
  let ?q1 = "q\<lparr>m_currentTaskIndex := rq_getNextTaskIndex q\<rparr>" and ?n = "length (m_tasks q)"
  obtain k1 where k1: "rq_scheduleNextTask q k = Some (?q1, k1)"
    using rq_schedule_moves [OF Suc.prems(1)] by blast
  have nx: "unat (rq_getNextTaskIndex q) =
      (if unat (m_currentTaskIndex q) + 1 = ?n then 1 else unat (m_currentTaskIndex q) + 1)"
    using rq_next_unat [OF Suc.prems(1)] Suc.prems(2) by simp
  then have "1 \<le> unat (rq_getNextTaskIndex q)" by simp
  then obtain q' k' where q': "run_slices m ?q1 k1 = Some (q', k')" "m_tasks q' = m_tasks q"
    "unat (m_currentTaskIndex q') = 1 + (unat (rq_getNextTaskIndex q) - 1 + m) mod (?n - 1)"
    using Suc.IH [of ?q1 k1] rq_inv_schedule [OF Suc.prems(1)] Suc.prems(2) by auto
  have "(unat (rq_getNextTaskIndex q) - 1 + m) mod (?n - 1) =
      (unat (m_currentTaskIndex q) - 1 + Suc m) mod (?n - 1)"
  proof (cases "unat (m_currentTaskIndex q) + 1 = ?n")
    case True
    then have "unat (m_currentTaskIndex q) - 1 + Suc m = m + (?n - 1)" using Suc.prems by simp
    moreover have "unat (rq_getNextTaskIndex q) - 1 + m = m" using nx True by simp
    ultimately show ?thesis by (simp only: mod_add_self2)
  next
    case False
    with nx Suc.prems(3) show ?thesis by simp
  qed
  with q' k1 show ?case by auto
qed

lemma run_slices_reaches:
  assumes inv: "rq_inv sw q" and n: "3 \<le> length (m_tasks q)" and j: "1 \<le> j" "j < length (m_tasks q)"
  shows "\<exists>m < length (m_tasks q). \<exists>q' k'. run_slices m q k = Some (q', k') \<and>
    rq_getCurrentTask q' = Some (m_tasks q ! j)"
proof -
  let ?n = "length (m_tasks q)"
  have reach: "\<exists>m < ?n - 1. \<exists>q' k'. run_slices m q1 k1 = Some (q', k') \<and>
      rq_getCurrentTask q' = Some (m_tasks q ! j)"
    if q1: "rq_inv sw q1" "m_tasks q1 = m_tasks q" "1 \<le> unat (m_currentTaskIndex q1)"
      "unat (m_currentTaskIndex q1) \<le> j \<or> m_currentTaskIndex q1 = m_currentTaskIndex q" for q1 k1
  proof -
    let ?i = "unat (m_currentTaskIndex q1)"
    define m where "m = (if ?i \<le> j then j - ?i else j + (?n - 1) - ?i)"
    have i: "?i < ?n" using q1(1,2) by (simp add: rq_inv_def)
    have m: "m < ?n - 1" "(?i - 1 + m) mod (?n - 1) = j - 1"
    proof -
      show "m < ?n - 1" using i j q1(3) by (auto simp: m_def)
      have "?i - 1 + m = (if ?i \<le> j then j - 1 else j - 1 + (?n - 1))"
        using i j q1(3) by (auto simp: m_def)
      moreover have "j - 1 < ?n - 1" using j by linarith
      ultimately show "(?i - 1 + m) mod (?n - 1) = j - 1"
        by (cases "?i \<le> j") (simp_all only: if_True if_False mod_add_self2 mod_less)
    qed
    obtain q' k' where q': "run_slices m q1 k1 = Some (q', k')" "m_tasks q' = m_tasks q"
      "unat (m_currentTaskIndex q') = j"
      using run_slices_index [OF q1(1) _ q1(3), of m k1] n q1(2) m(2) j by auto
    then have "rq_getCurrentTask q' = Some (m_tasks q ! j)"
      using j by (simp add: rq_getCurrentTask_def rq_at_def)
    with m(1) q'(1) show ?thesis by blast
  qed
  show ?thesis
  proof (cases "unat (m_currentTaskIndex q) = 0")
    case False
    then obtain m q' k' where "m < ?n - 1" "run_slices m q k = Some (q', k')"
      "rq_getCurrentTask q' = Some (m_tasks q ! j)"
      using reach [OF inv, of k] by auto
    then show ?thesis by (intro exI [of _ m]) auto
  next
    case True
    let ?q1 = "q\<lparr>m_currentTaskIndex := rq_getNextTaskIndex q\<rparr>"
    obtain k1 where k1: "rq_scheduleNextTask q k = Some (?q1, k1)"
      using rq_schedule_moves [OF inv] by blast
    have "unat (rq_getNextTaskIndex q) = 1"
      using rq_next_unat [OF inv] True n by simp
    then obtain m q' k' where "m < ?n - 1" "run_slices m ?q1 k1 = Some (q', k')"
      "rq_getCurrentTask q' = Some (m_tasks q ! j)"
      using reach [OF rq_inv_schedule [OF inv], of k1] j by auto
    with k1 show ?thesis by (intro exI [of _ "Suc m"]) auto
  qed
qed

section \<open>Properties of the run queue\<close>


definition kernel0 :: kernel where
  "kernel0 = \<lparr>pcbs = (\<lambda>t. zero_pcb\<lparr>pid := t\<rparr>), per_cpu = (\<lambda>_. \<lparr>currentTask = 1,
     defaultKernelStack = 0, currentKernelStack = 0, currentUserStack = 0\<rparr>),
     this_cpu = 0, cr3_reg = 0, gs_base = 0, kernel_gs_base = 0,
     interrupts_on = True, console = []\<rparr>"


text \<open>
  C20: round robin is fair. With at least two tasks besides the swapper, every one of them is
  current after fewer time slices than the queue has entries, from any current index.
\<close>

theorem round_robin_fair:
  assumes "rq_inv sw q" and "3 \<le> length (m_tasks q)" and "t \<in> set (tl (m_tasks q))"
  shows "\<exists>m < length (m_tasks q). \<exists>q' k'. run_slices m q k = Some (q', k') \<and> rq_getCurrentTask q' = Some t"
proof -
  obtain i where "i < length (tl (m_tasks q))" "tl (m_tasks q) ! i = t"
    using assms(3) by (auto simp: in_set_conv_nth)
  then have "1 + i < length (m_tasks q)" "m_tasks q ! (1 + i) = t"
    by (auto simp: nth_tl)
  with run_slices_reaches [OF assms(1,2), of "1 + i" k] show ?thesis by simp
qed

theorem round_robin_fair_witness:
  "\<exists>m < 4. \<exists>q' k'. run_slices m \<lparr>m_tasks = [1, 7, 8, 9], m_currentTaskIndex = 3\<rparr> kernel0 = Some (q', k') \<and>
    rq_getCurrentTask q' = Some 8"
proof -
  let ?q = "\<lparr>m_tasks = [1, 7, 8, 9], m_currentTaskIndex = 3\<rparr>"
  have l: "length (m_tasks ?q) = 4" by simp
  have "\<exists>m < length (m_tasks ?q). \<exists>q' k'. run_slices m ?q kernel0 = Some (q', k') \<and> rq_getCurrentTask q' = Some 8"
    by (rule round_robin_fair [of 1]) (simp_all add: rq_inv_def MAX_QUEUED_PROCESSES_def)
  then show ?thesis unfolding l .
qed

section \<open>The timer interrupt\<close>

lemma save_restore: "saveCpuContext (restoreCpuContext c frame) d = c"
  by (cases c) (simp add: saveCpuContext_def restoreCpuContext_def)

lemma with_queue_Some:
  assumes "sched_lock k = 0" "m_runQueues k c = Some q" "f q (k\<lparr>sched_lock := 1\<rparr>) = Some (r, q', k')"
  shows "with_queue c f k = Some (r, (set_queue c q' k')\<lparr>sched_lock := 0\<rparr>)"
  using assms by (simp add: with_queue_def Let_def)

lemma set_queue_same: "m_runQueues k c = Some q \<Longrightarrow> set_queue c q k = k"
  by (cases k) (simp add: set_queue_def fun_upd_idem)

lemma lock_same: "sched_lock k = 0 \<Longrightarrow> k\<lparr>sched_lock := 0\<rparr> = k"
  by (cases k) simp

lemma set_queue_lock: "set_queue c q (k\<lparr>sched_lock := l\<rparr>) = (set_queue c q k)\<lparr>sched_lock := l\<rparr>"
  by (cases k) (simp add: set_queue_def)

text \<open>Reading the queue under the lock leaves the state as it was.\<close>

lemma getCurrentTask_reads:
  assumes "valid_cpu c" "sched_lock k = 0" "m_runQueues k c = Some q" "rq_getCurrentTask q = Some t"
  shows "getCurrentTask c k = Some (t, k)"
  using assms with_queue_Some [OF assms(2,3), of "\<lambda>q k. do { t \<leftarrow> rq_getCurrentTask q; Some (t, q, k) }"]
  by (simp add: getCurrentTask_def set_queue_lock set_queue_same lock_same)

lemma peekNextTask_reads:
  assumes "valid_cpu c" "sched_lock k = 0" "m_runQueues k c = Some q" "rq_peekNextTask q = Some t"
  shows "peekNextTask c k = Some (t, k)"
  using assms with_queue_Some [OF assms(2,3), of "\<lambda>q k. do { t \<leftarrow> rq_peekNextTask q; Some (t, q, k) }"]
  by (simp add: peekNextTask_def set_queue_lock set_queue_same lock_same)

lemma switch_fields:
  assumes "switchContextInIrq o' n from to frame k = (frame', k')" and "from \<noteq> to"
  shows "frame' = restoreCpuContext (cpu_context (pcbs k to)) frame"
    "pcbs k' = (pcbs k)(from := (pcbs k from)\<lparr>cpu_context := saveCpuContext frame (cpu_context (pcbs k from)),
       cr3 := cr3_reg k, kernelStack := currentKernelStack (per_cpu k o')\<rparr>)"
    "per_cpu k' = (per_cpu k)(n := (per_cpu k n)\<lparr>currentKernelStack := kernelStack (pcbs k to), currentTask := to\<rparr>)"
    "cr3_reg k' = cr3 (pcbs k to)" "this_cpu k' = this_cpu k" "kernel.more k' = kernel.more k"
  using assms by (auto simp: switchContextInIrq_def Let_def upd_pcb_def upd_cpu_def fun_eq_iff)

lemma more_fields:
  assumes "kernel.more k' = kernel.more (k :: sched)"
  shows "m_runQueues (k' :: sched) = m_runQueues k" "sched_lock k' = sched_lock k"
  using assms by (cases k; cases k'; simp add: sched.defs sched.splits)+

lemma completeIrq_fields [simp]:
  "pcbs (completeIrq k) = pcbs k" "per_cpu (completeIrq k) = per_cpu k" "current (completeIrq k) = current k"
  "m_runQueues (completeIrq k) = m_runQueues k" "sched_lock (completeIrq k) = sched_lock k"
  "cr3_reg (completeIrq k) = cr3_reg k"
  by (simp_all add: completeIrq_def current_def)


text \<open>Cpu 0 with the swapper 1 and the tasks 7, 8, 9, of which the third entry is current.\<close>

definition sched4 :: sched where
  "sched4 = kernel.extend (kernel0\<lparr>per_cpu := (\<lambda>_. \<lparr>currentTask = 8, defaultKernelStack = 0,
      currentKernelStack = 0x5000, currentUserStack = 0\<rparr>)\<rparr>)
    (sched.fields ([0 \<mapsto> \<lparr>m_tasks = [1, 7, 8, 9], m_currentTaskIndex = 2\<rparr>]) 1 0 0 20 (\<lambda>_. 1) 0x1000
      heap1 pfa16 0)"

lemma sched4_fields:
  "sched_lock sched4 = 0" "m_runQueues sched4 0 = Some \<lparr>m_tasks = [1, 7, 8, 9], m_currentTaskIndex = 2\<rparr>"
  "current sched4 = 8" "pcbs sched4 = (\<lambda>t. zero_pcb\<lparr>pid := t\<rparr>)"
  by (simp_all add: sched4_def sched.defs kernel.defs kernel0_def current_def)

lemma queue4_facts:
  defines "q \<equiv> \<lparr>m_tasks = [1, 7, 8, 9], m_currentTaskIndex = 2\<rparr>"
  shows "rq_inv 1 q" "rq_getCurrentTask q = Some 8" "rq_peekNextTask q = Some 9"
  by (simp_all add: q_def rq_inv_def MAX_QUEUED_PROCESSES_def rq_getCurrentTask_def rq_peekNextTask_def
      rq_at_def rq_getNextTaskIndex_def rq_size_def Let_def)

definition frame0 :: PtRegs where
  "frame0 = \<lparr>f_gs = 0, f_fs = 0, f_es = 0, f_ds = 0, f_r15 = 0, f_r14 = 0, f_r13 = 0, f_r12 = 0,
     f_r11 = 0, f_r10 = 0, f_r9 = 0, f_r8 = 0, f_rdi = 0, f_rsi = 0, f_rbp = 0, f_rbx = 0, f_rdx = 0,
     f_rcx = 0, f_rax = 0, f_intno = 32, f_error = 0,
     hwframe = \<lparr>h_rip = 0x1234, h_cs = 0x33, h_rflags = 0x200, h_rsp = 0x8000, h_ss = 0x2B\<rparr>\<rparr>"


section \<open>Leaving a thread\<close>

lemma kelevate_fields:
  "pid (pcbs (kelevate k) t) = pid (pcbs k t)" "cpu (pcbs (kelevate k) t) = cpu (pcbs k t)"
  "current (kelevate k) = current k" "m_runQueues (kelevate k) = m_runQueues k"
  "sched_lock (kelevate k) = sched_lock k"
  by (simp_all add: kelevate_def syscall_handler_def SYSCALL_SYS_WRITE_def SYSCALL_SYS_READ_def
      SYSCALL_SYS_ELEVATE_def say_def upd_pcb_def current_def set_elevated_usergs_def Let_def)

lemma find_least:
  assumes "i < n" "P i" "\<forall>j < i. \<not> P j"
  shows "find P [0..<n] = Some i"
  using assms unfolding find_Some_iff by (intro exI [of _ i]) auto

text \<open>The last of at least three entries is followed by entry 1.\<close>

lemma rq_next_wraps:
  assumes "rq_inv sw q" "3 \<le> length (m_tasks q)" "unat (m_currentTaskIndex q) + 1 = length (m_tasks q)"
  shows "rq_getNextTaskIndex q = 1"
  using rq_next_unat [OF assms(1)] assms(2,3) by (simp add: word_unat_eq_iff)

lemma scheduleNextTask_at:
  assumes "valid_cpu c" "sched_lock k = 0" "m_runQueues k c = Some q"
    and "m_currentTaskIndex q \<noteq> rq_getNextTaskIndex q"
    and "rq_getCurrentTask q = Some s" "rq_peekNextTask q = Some t"
  shows "\<exists>k'. scheduleNextTask c k = Some k' \<and> state (pcbs k' t) = RUNNING \<and> sched_lock k' = 0 \<and>
    m_runQueues k' = (m_runQueues k)(c \<mapsto> q\<lparr>m_currentTaskIndex := rq_getNextTaskIndex q\<rparr>) \<and>
    per_cpu k' = per_cpu k"
proof -
  let ?k2 = "upd_pcb t (\<lambda>p. p\<lparr>state := RUNNING\<rparr>) (upd_pcb s (\<lambda>p. p\<lparr>state := READY\<rparr>) (k\<lparr>sched_lock := 1\<rparr>))"
  have "rq_scheduleNextTask q (k\<lparr>sched_lock := 1\<rparr>) = Some (q\<lparr>m_currentTaskIndex := rq_getNextTaskIndex q\<rparr>, ?k2)"
    using assms(4-6) by (simp add: rq_scheduleNextTask_def rq_peekNextTask_def Let_def)
  then have "scheduleNextTask c k =
      Some ((set_queue c (q\<lparr>m_currentTaskIndex := rq_getNextTaskIndex q\<rparr>) ?k2)\<lparr>sched_lock := 0\<rparr>)"
    using with_queue_Some [of k c q "\<lambda>q k. do { (q, k) \<leftarrow> rq_scheduleNextTask q k; Some ((), q, k) }"]
      assms(1-3) by (simp add: scheduleNextTask_def)
  then show ?thesis by (simp add: set_queue_def upd_pcb_def)
qed

text \<open>What removing the current task, not the first one, leaves of the queue.\<close>

lemma rq_remove_current:
  assumes inv: "rq_inv sw q"
    and i: "2 \<le> unat (m_currentTaskIndex q)" "unat (m_currentTaskIndex q) + 1 < length (m_tasks q)"
    and p: "p = pid (ps (m_tasks q ! unat (m_currentTaskIndex q)))" "p \<noteq> 0"
    and first: "\<forall>j < unat (m_currentTaskIndex q). pid (ps (m_tasks q ! j)) \<noteq> p"
  obtains q1 s where "rq_removeTask ps p q = (True, q1)" "rq_getNextTaskIndex q1 = 1"
    "m_currentTaskIndex q1 \<noteq> 1" "rq_getCurrentTask q1 = Some s" "rq_peekNextTask q1 = Some (m_tasks q ! 1)"
proof -
  let ?i = "unat (m_currentTaskIndex q)" and ?ts = "m_tasks q" and ?n = "length (m_tasks q)"
  let ?q1 = "\<lparr>m_tasks = take ?i ?ts @ drop (?i + 1) ?ts, m_currentTaskIndex = of_nat (?n - 2)\<rparr>"
  have n: "?n \<le> MAX_QUEUED_PROCESSES" and sw: "?ts ! 0 = sw"
    using inv by (auto simp: rq_inv_def hd_conv_nth)
  have fd: "find (\<lambda>j. pid (ps (?ts ! j)) = p) [0..<?n] = Some ?i"
    using i p first by (intro find_least) simp_all
  have rm: "rq_removeTask ps p q = (True, ?q1)"
    using i p by (intro rq_removeTask_at(1) [OF _ fd n]) simp_all
  have "p \<noteq> pid (ps sw)" using first i(1) sw by force
  from rq_inv_remove [where ps = ps, OF inv this] have inv1: "rq_inv sw ?q1" by (simp only: rm snd_conv)
  have u: "unat (m_currentTaskIndex ?q1) = ?n - 2"
    unfolding run_queue.select_convs using n by (intro unat64_of_nat) (simp add: MAX_QUEUED_PROCESSES_def)
  have len: "length (m_tasks ?q1) = ?n - 1" using i by simp
  have nx: "rq_getNextTaskIndex ?q1 = 1"
    by (rule rq_next_wraps [OF inv1]) (use len u i in linarith)+
  have "m_currentTaskIndex ?q1 \<noteq> 1" using u i by (intro notI) simp
  moreover have "rq_getCurrentTask ?q1 = Some (m_tasks ?q1 ! (?n - 2))"
    unfolding rq_getCurrentTask_def rq_at_def u len using i by simp
  moreover have "rq_peekNextTask ?q1 = Some (?ts ! 1)"
    unfolding rq_peekNextTask_def nx rq_at_def using i by (simp add: nth_append)
  ultimately show thesis using that rm nx by blast
qed

text \<open>
  Leaving a kernel thread can leave scheduler and cpu in disagreement. When the current
  task is neither the first nor the last of at least three tasks besides the swapper, the cpu
  continues with the task behind the one that leaves, while the scheduler, which moves to the
  end of the queue on a removal, records the first task as running. The next timer interrupt
  then saves the cpu's registers into the control block of that task.
\<close>

theorem exit_thread_disagrees:
  assumes "valid_cpu c" and "sched_lock k = 0" and "m_runQueues k c = Some q" and "rq_inv sw q"
    and "uint (cpu (pcbs k (current k))) = c" and "distinct (m_tasks q)"
    and "2 \<le> unat (m_currentTaskIndex q)" and "unat (m_currentTaskIndex q) + 1 < length (m_tasks q)"
    and "pid (pcbs k (m_tasks q ! unat (m_currentTaskIndex q))) \<noteq> 0"
    and "\<forall>j < unat (m_currentTaskIndex q). pid (pcbs k (m_tasks q ! j)) \<noteq>
      pid (pcbs k (m_tasks q ! unat (m_currentTaskIndex q)))"
  shows "\<exists>regs' k'. exitKernelThread regs k = Some (regs', k') \<and>
    currentTask (per_cpu k' c) = m_tasks q ! (unat (m_currentTaskIndex q) + 1) \<and>
    getCurrentTask c k' = Some (m_tasks q ! 1, k') \<and> state (pcbs k' (m_tasks q ! 1)) = RUNNING \<and>
    m_tasks q ! 1 \<noteq> m_tasks q ! (unat (m_currentTaskIndex q) + 1)"
proof -
  let ?i = "unat (m_currentTaskIndex q)" and ?ts = "m_tasks q"
  let ?k = "(kelevate k)\<lparr>interrupts_on := False\<rparr>"
    and ?p = "pid (pcbs k (m_tasks q ! unat (m_currentTaskIndex q)))"
  have c: "current ?k = current k" by (simp add: kelevate_fields [unfolded current_def] current_def)
  have ne: "?ts ! ?i \<noteq> ?ts ! (?i + 1)" "?ts ! 1 \<noteq> ?ts ! (?i + 1)"
    using assms(6-8) by (simp_all add: nth_eq_iff_index_eq)
  have cur: "rq_getCurrentTask q = Some (?ts ! ?i)" and nxt: "rq_peekNextTask q = Some (?ts ! (?i + 1))"
    using assms(7,8) rq_next_unat [OF assms(4)]
    by (auto simp: rq_getCurrentTask_def rq_peekNextTask_def rq_at_def)
  have r: "getCurrentTask c ?k = Some (?ts ! ?i, ?k)" "peekNextTask c ?k = Some (?ts ! (?i + 1), ?k)"
    using assms(1-3) cur nxt
    by (auto intro!: getCurrentTask_reads peekNextTask_reads simp: kelevate_fields)
  obtain q1 s where q1: "rq_removeTask (pcbs ?k) ?p q = (True, q1)" "rq_getNextTaskIndex q1 = 1"
    "m_currentTaskIndex q1 \<noteq> 1" "rq_getCurrentTask q1 = Some s" "rq_peekNextTask q1 = Some (?ts ! 1)"
    using rq_remove_current [OF assms(4,7,8), of ?p "pcbs ?k"] assms(9,10) by (auto simp: kelevate_fields)
  obtain k2 where rm: "removeTask ?p c ?k = Some (True, k2)" and k2: "sched_lock k2 = 0"
    "m_runQueues k2 c = Some q1"
    using with_queue_Some [of ?k c q "\<lambda>q k. (let (r, q) = rq_removeTask (pcbs k) ?p q in Some (r, q, k))"]
      assms(1-3) q1(1) by (auto simp: removeTask_def kelevate_fields set_queue_def)
  obtain k3 where k3: "scheduleNextTask c k2 = Some k3" "state (pcbs k3 (?ts ! 1)) = RUNNING"
    "sched_lock k3 = 0" "m_runQueues k3 = (m_runQueues k2)(c \<mapsto> q1\<lparr>m_currentTaskIndex := 1\<rparr>)"
    using scheduleNextTask_at [OF assms(1) k2 _ q1(4,5)] q1(2,3) by auto
  obtain regs' k4 where sw: "exitAndSwitchCurrentContext c (?ts ! (?i + 1)) regs k3 = (regs', k4)" by fastforce
  have k4: "currentTask (per_cpu k4 c) = ?ts ! (?i + 1)" "pcbs k4 = pcbs k3" "kernel.more k4 = kernel.more k3"
    using sw by (auto simp: exitAndSwitchCurrentContext_def Let_def upd_cpu_def)
  have "exitKernelThread regs k = Some (regs', k4)"
    using r rm k3(1) sw ne(1) assms(5) c by (simp add: exitKernelThread_def Let_def kelevate_fields)
  moreover have "getCurrentTask c k4 = Some (?ts ! 1, k4)"
    using assms(1) k3 q1(2,5) more_fields [OF k4(3)]
    by (intro getCurrentTask_reads [of _ _ "q1\<lparr>m_currentTaskIndex := 1\<rparr>"])
      (simp_all add: rq_getCurrentTask_def rq_peekNextTask_def rq_at_def split: if_splits)
  ultimately show ?thesis using k3(2) k4(1,2) ne(2) by simp
qed

theorem exit_thread_disagrees_witness:
  "\<exists>regs' k'. exitKernelThread frame0 sched4 = Some (regs', k') \<and>
    currentTask (per_cpu k' 0) = 9 \<and> getCurrentTask 0 k' = Some (7, k')"
proof -
  have c: "uint (cpu (pcbs sched4 (current sched4))) = 0"
    by (simp add: sched4_fields zero_pcb_def)
  have v: "valid_cpu 0" by (simp add: MAX_CPUS_def)
  have "\<forall>j < unat (2 :: u64). pid (pcbs sched4 ([1, 7, 8, 9] ! j)) \<noteq> pid (pcbs sched4 ([1, 7, 8, 9] ! 2))"
    by (auto simp: sched4_fields less_2_cases_iff)
  then show ?thesis
    using exit_thread_disagrees [OF v sched4_fields(1,2) queue4_facts(1) c, of frame0]
    by (auto simp: sched4_fields)
qed

end
