(* ===== verification/BitStruct.thy ===== *)
theory BitStruct
  imports Prelude
begin

text \<open>
  Packed C structures. A \<open>layout\<close> lists the fields of a structure in declaration order with their
  widths in bits, as the hardware structures of the drivers are declared; the structure itself is
  one word (\<open>32 word\<close> for a register, \<open>128 word\<close> for a transfer request block, \<open>256 word\<close> for a
  context), and a pointer cast between two structures of one size is the identity on that word.
  \<open>fget\<close> and \<open>fset\<close> read and assign a field; \<open>ld\<close> and \<open>st\<close> read and write a structure in memory.

  The locale \<open>bit_struct\<close> is what the drivers rely on: the names are distinct and the widths add
  up to the size of the structure. From this follow the laws of assignment and that the fields
  determine the word.
\<close>

section \<open>Layouts\<close>

type_synonym layout = "(string \<times> nat) list"

abbreviation layout_bits :: "layout \<Rightarrow> nat" where
  "layout_bits L \<equiv> sum_list (map snd L)"

fun fld_lo :: "layout \<Rightarrow> string \<Rightarrow> nat" where
  "fld_lo [] f = 0"
| "fld_lo ((g, w) # L) f = (if f = g then 0 else w + fld_lo L f)"

fun fld_wd :: "layout \<Rightarrow> string \<Rightarrow> nat" where
  "fld_wd [] f = 0"
| "fld_wd ((g, w) # L) f = (if f = g then w else fld_wd L f)"

definition fget :: "layout \<Rightarrow> string \<Rightarrow> 'a::len word \<Rightarrow> 'a word" where
  "fget L f x = bf_get (fld_lo L f) (fld_wd L f) x"

definition fset :: "layout \<Rightarrow> string \<Rightarrow> 'a::len word \<Rightarrow> 'a word \<Rightarrow> 'a word" where
  "fset L f v x = bf_set (fld_lo L f) (fld_wd L f) v x"

text \<open>The byte offset of a member, for structures whose members are whole bytes.\<close>

definition offsetof :: "layout \<Rightarrow> string \<Rightarrow> u64" where
  "offsetof L f = of_nat (fld_lo L f div 8)"

text \<open>A structure of \<open>LENGTH('a) div 8\<close> bytes in memory.\<close>

definition ld :: "mem \<Rightarrow> u64 \<Rightarrow> 'a::len word" where
  "ld m a = load_bytes (LENGTH('a) div 8) m a"

definition st :: "'a::len word \<Rightarrow> u64 \<Rightarrow> mem \<Rightarrow> mem" where
  "st v a m = store_bytes (LENGTH('a) div 8) v a m"

section \<open>Structures in memory\<close>

lemma ld_st_same:
  fixes v :: "'a::len word"
  assumes "8 dvd LENGTH('a)" "LENGTH('a) \<le> 2 ^ 64"
  shows "ld (st v a m) a = v"
  using assms by (auto simp: ld_def st_def intro!: load_store_bytes)

lemma st_apply:
  fixes v :: "'a::len word"
  assumes "LENGTH('a) \<le> 2 ^ 64"
  shows "st v a m x =
    (if unat (x - a) < LENGTH('a) div 8 then ucast (drop_bit (8 * unat (x - a)) v) else m x)"
  unfolding st_def by (rule store_bytes_apply) (use assms in simp)

lemma ld_cong:
  assumes "\<And>i. i < LENGTH('a) div 8 \<Longrightarrow> m (a + of_nat i) = m' (a + of_nat i)"
  shows "(ld m a :: 'a::len word) = ld m' a"
  unfolding ld_def by (rule load_bytes_cong) (rule assms)

section \<open>Field positions\<close>

lemma fld_lo_bound: "f \<in> fst ` set L \<Longrightarrow> fld_lo L f + fld_wd L f \<le> layout_bits L"
  by (induction L f rule: fld_lo.induct) auto

lemma fld_apart:
  assumes "f \<in> fst ` set L" "g \<in> fst ` set L" "f \<noteq> g"
  shows "fld_lo L f + fld_wd L f \<le> fld_lo L g \<or> fld_lo L g + fld_wd L g \<le> fld_lo L f"
  using assms by (induction L f rule: fld_lo.induct) auto

lemma fld_covers:
  assumes "distinct (map fst L)" "k < layout_bits L"
  shows "\<exists>f \<in> fst ` set L. fld_lo L f \<le> k \<and> k < fld_lo L f + fld_wd L f"
  using assms
proof (induction L arbitrary: k)
  case Nil
  then show ?case by simp
next
  case (Cons e L)
  obtain g w where e: "e = (g, w)" by fastforce
  show ?case
  proof (cases "k < w")
    case True
    then show ?thesis by (simp add: e)
  next
    case False
    then have "k - w < layout_bits L" using Cons.prems e by simp
    then obtain f where f: "f \<in> fst ` set L" "fld_lo L f \<le> k - w" "k - w < fld_lo L f + fld_wd L f"
      using Cons.IH [of "k - w"] Cons.prems by (metis distinct.simps(2) list.simps(9))
    moreover have "f \<noteq> g" using f(1) Cons.prems e by auto
    ultimately show ?thesis
      using False by (intro bexI [of _ f]) (auto simp: e)
  qed
qed

locale bit_struct =
  fixes L :: layout and n :: nat
  assumes names: "distinct (map fst L)"
    and bits: "layout_bits L = n"
begin

lemma fget_fset_same:
  fixes x :: "'a::len word"
  assumes "n \<le> LENGTH('a)" "f \<in> fst ` set L"
  shows "fget L f (fset L f v x) = take_bit (fld_wd L f) v"
  using fld_lo_bound [OF assms(2)] bits assms(1)
  by (simp add: fget_def fset_def bf_get_set_same)

lemma fget_fset_other:
  assumes "f \<in> fst ` set L" "g \<in> fst ` set L" "f \<noteq> g"
  shows "fget L f (fset L g v x) = fget L f x"
  using fld_apart [OF assms] by (simp add: fget_def fset_def bf_get_set_other)

lemma struct_eqI:
  fixes x y :: "'a::len word"
  assumes n: "n = LENGTH('a)" and eq: "\<And>f. f \<in> fst ` set L \<Longrightarrow> fget L f x = fget L f y"
  shows "x = y"
proof (rule bit_word_eqI)
  fix k
  assume "k < LENGTH('a)"
  then obtain f where f: "f \<in> fst ` set L" "fld_lo L f \<le> k" "k < fld_lo L f + fld_wd L f"
    using fld_covers [OF names, of k] bits n by auto
  have "bit (fget L f x) (k - fld_lo L f) = bit (fget L f y) (k - fld_lo L f)"
    by (simp add: eq [OF f(1)])
  moreover have "k - fld_lo L f < fld_wd L f" using f by linarith
  ultimately show "bit x k = bit y k"
    using f by (simp add: fget_def bf_simps)
qed

end

text \<open>The fields of every structure of a list of declarations with their sizes.\<close>

definition layouts_ok :: "(layout \<times> nat) list \<Rightarrow> bool" where
  "layouts_ok Ls \<longleftrightarrow> list_all (\<lambda>(L, n). distinct (map fst L) \<and> layout_bits L = n) Ls"

lemma layouts_ok_struct: "layouts_ok Ls \<Longrightarrow> (L, n) \<in> set Ls \<Longrightarrow> bit_struct L n"
  by (unfold_locales) (auto simp: layouts_ok_def list_all_iff)

end
