(* ===== verification/XhciRegs.thy ===== *)
theory XhciRegs
  imports BitStruct
begin

text \<open>
  The register and memory structures of the USB host controller driver, from
  \<^verbatim>\<open>kernel/src/drivers/usb/xhci.h\<close>: capability and operational registers, the transfer request
  blocks (TRBs), the interrupter registers, the device contexts, the port registers and the
  doorbells, each as a layout in declaration order; the macros that read the capability
  registers; the two tables of names of \<^verbatim>\<open>xhci.cpp\<close>. Unnamed gaps the C bit-field packing inserts
  are the \<open>padding\<close> fields of the endpoint context.
\<close>

section \<open>Register spaces\<close>

definition XhciCapabilityRegisters :: layout where
  "XhciCapabilityRegisters =
   [(''caplength'', 8), (''reserved0'', 8), (''hciversion'', 16), (''hcsparams1'', 32),
    (''hcsparams2'', 32), (''hcsparams3'', 32), (''hccparams1'', 32), (''dboff'', 32),
    (''rtsoff'', 32), (''hccparams2'', 32)]"

definition XhciExtendedCapabilityEntry :: layout where
  "XhciExtendedCapabilityEntry =
   [(''id'', 8), (''next'', 8), (''capSpecific'', 16)]"

definition XhciOperationalRegisters :: layout where
  "XhciOperationalRegisters =
   [(''usbcmd'', 32), (''usbsts'', 32), (''pagesize'', 32), (''reserved0'', 64),
    (''dnctrl'', 32), (''crcr'', 64), (''reserved1'', 128), (''dcbaap'', 64), (''config'', 32),
    (''reserved2'', 1568)]"

section \<open>Transfer request blocks\<close>

text \<open>
  The second view of the union in \<open>XhciTrb_t\<close>, the whole control word, is \<open>trb_control\<close>; that of the
  request packet, the byte \<^verbatim>\<open>bRequestType\<close>, is \<open>packet_bRequestType\<close>.
\<close>

definition XhciTrb_t :: layout where
  "XhciTrb_t =
   [(''parameter'', 64), (''status'', 32), (''cycleBit'', 1), (''evalNextTrb'', 1),
    (''interruptOnShortPkt'', 1), (''noSnoop'', 1), (''chainBit'', 1),
    (''interruptOnCompletion'', 1), (''immediateData'', 1), (''rsvd0'', 2),
    (''blockEventInterrupt'', 1), (''trbType'', 6), (''rsvd1'', 16)]"

definition XhciAddressDeviceCommandTrb_t :: layout where
  "XhciAddressDeviceCommandTrb_t =
   [(''inputContextPhysicalBase'', 64), (''rsvd'', 32), (''cycleBit'', 1), (''rsvd1'', 8),
    (''bsr'', 1), (''trbType'', 6), (''rsvd2'', 8), (''slotId'', 8)]"

definition XhciCommandCompletionTrb_t :: layout where
  "XhciCommandCompletionTrb_t =
   [(''commandTrbPointer'', 64), (''rsvd0'', 24), (''completionCode'', 8), (''cycleBit'', 1),
    (''rsvd1'', 9), (''trbType'', 6), (''vfid'', 8), (''slotId'', 8)]"

definition XhciSetupDataStageCompletionTrb_t :: layout where
  "XhciSetupDataStageCompletionTrb_t =
   [(''commandTrbPointer'', 64), (''bytesTransfered'', 24), (''completionCode'', 8),
    (''cycleBit'', 1), (''rsvd1'', 9), (''trbType'', 6), (''vfid'', 8), (''slotId'', 8)]"

definition XhciPortStatusChangeTrb_t :: layout where
  "XhciPortStatusChangeTrb_t =
   [(''rsvd0'', 24), (''portId'', 8), (''rsvd1'', 32), (''rsvd2'', 24),
    (''completionCode'', 8), (''cycleBit'', 1), (''rsvd3'', 9), (''trbType'', 6),
    (''rsvd4'', 16)]"

definition XhciDeviceRequestPacket :: layout where
  "XhciDeviceRequestPacket =
   [(''recipient'', 5), (''type'', 2), (''transferDirection'', 1), (''bRequest'', 8),
    (''wValue'', 16), (''wIndex'', 16), (''wLength'', 16)]"

definition XhciSetupStageTrb_t :: layout where
  "XhciSetupStageTrb_t =
   [(''requestPacket'', 64), (''trbTransferLength'', 17), (''rsvd0'', 5),
    (''interrupterTarget'', 10), (''cycleBit'', 1), (''rsvd1'', 4), (''ioc'', 1), (''idt'', 1),
    (''rsvd2'', 3), (''trbType'', 6), (''trt'', 2), (''rsvd3'', 14)]"

definition XhciDataStageTrb_t :: layout where
  "XhciDataStageTrb_t =
   [(''dataBuffer'', 64), (''trbTransferLength'', 17), (''tdSize'', 5),
    (''interrupterTarget'', 10), (''cycleBit'', 1), (''ent'', 1), (''isp'', 1),
    (''noSnoop'', 1), (''chain'', 1), (''ioc'', 1), (''idt'', 1), (''rsvd0'', 3),
    (''trbType'', 6), (''dir'', 1), (''rsvd1'', 15)]"

definition XhciStatusStageTrb_t :: layout where
  "XhciStatusStageTrb_t =
   [(''rsvd0'', 64), (''rsvd1'', 22), (''interrupterTarget'', 10), (''cycleBit'', 1),
    (''ent'', 1), (''rsvd2'', 2), (''chain'', 1), (''ioc'', 1), (''rsvd3'', 4),
    (''trbType'', 6), (''dir'', 1), (''rsvd4'', 15)]"

definition XhciEventDataTrb_t :: layout where
  "XhciEventDataTrb_t =
   [(''eventData'', 64), (''rsvd0'', 22), (''interrupterTarget'', 10), (''cycleBit'', 1),
    (''ent'', 1), (''rsvd1'', 2), (''chain'', 1), (''ioc'', 1), (''rsvd2'', 3), (''bei'', 1),
    (''trbType'', 6), (''rsvd3'', 16)]"

definition XhciErstEntry :: layout where
  "XhciErstEntry =
   [(''ringSegmentBaseAddress'', 64), (''ringSegmentSize'', 32), (''rsvd'', 32)]"

type_synonym trb = "128 word"

definition trb_control :: "trb \<Rightarrow> u32" where
  "trb_control t = ucast (bf_get 96 32 t)"

definition set_trb_control :: "u32 \<Rightarrow> trb \<Rightarrow> trb" where
  "set_trb_control v t = bf_set 96 32 (ucast v) t"

definition set_packet_bRequestType :: "u64 \<Rightarrow> u64 \<Rightarrow> u64" where
  "set_packet_bRequestType v p = bf_set 0 8 v p"

section \<open>Interrupter registers\<close>

definition XhciInterrupterManagementRegister :: layout where
  "XhciInterrupterManagementRegister =
   [(''interruptPending'', 1), (''interruptEnabled'', 1), (''reserved'', 30)]"

definition XhciInterrupterRegisters :: layout where
  "XhciInterrupterRegisters =
   [(''iman'', 32), (''imod'', 32), (''erstsz'', 32), (''rsvdP'', 32), (''erstba'', 64),
    (''dequeueErstSegmentIndex'', 3), (''eventHandlerBusy'', 1),
    (''eventRingDequeuePointer'', 60)]"

section \<open>Contexts\<close>

text \<open>
  The bit-fields of the first member of the endpoint context add up to 34 bits, so
  \<^verbatim>\<open>maxEsitPayloadHi\<close> opens a second 32-bit unit; the 64-bit member is aligned to eight bytes.
  The whole 64-bit member is also written as \<^verbatim>\<open>transferRingDequeuePtr\<close>.
\<close>

definition XhciSlotContext32 :: layout where
  "XhciSlotContext32 =
   [(''routeString'', 20), (''speed'', 4), (''rz'', 1), (''mtt'', 1), (''hub'', 1),
    (''contextEntries'', 5), (''maxExitLatency'', 16), (''rootHubPortNum'', 8),
    (''portCount'', 8), (''parentHubSlotId'', 8), (''parentPortNumber'', 8),
    (''ttThinkTime'', 2), (''rsvd0'', 4), (''interrupterTarget'', 10), (''deviceAddress'', 8),
    (''rsvd1'', 19), (''slotState'', 5), (''rsvdZ'', 128)]"

definition XhciEndpointContext32 :: layout where
  "XhciEndpointContext32 =
   [(''endpointState'', 3), (''rsvd0'', 7), (''mult'', 2), (''maxPrimaryStreams'', 5),
    (''linearStreamArray'', 1), (''interval'', 8), (''padding0'', 6), (''maxEsitPayloadHi'', 8),
    (''padding1'', 24), (''rsvd1'', 1), (''errorCount'', 2), (''endpointType'', 3), (''rsvd2'', 1),
    (''hostInitiateDisable'', 1), (''maxBurstSize'', 8), (''maxPacketSize'', 16),
    (''padding2'', 32), (''dcs'', 1), (''rsvd3'', 3), (''trDequeuePtrAddressBits'', 60),
    (''averageTrbLength'', 16), (''maxEsitPayloadLo'', 16), (''padding3'', 32)]"

definition XhciInputControlContext32 :: layout where
  "XhciInputControlContext32 =
   [(''dropFlags'', 32), (''addFlags'', 32), (''rsvd'', 160), (''configValue'', 8),
    (''interfaceNumber'', 8), (''alternateSetting'', 8), (''rsvdZ'', 8)]"

definition set_transferRingDequeuePtr :: "u64 \<Rightarrow> 256 word \<Rightarrow> 256 word" where
  "set_transferRingDequeuePtr v x = bf_set (fld_lo XhciEndpointContext32 ''dcs'') 64 (ucast v) x"

section \<open>Ports and doorbells\<close>

definition XhciPortscRegister :: layout where
  "XhciPortscRegister =
   [(''ccs'', 1), (''ped'', 1), (''rsvd0'', 1), (''oca'', 1), (''pr'', 1), (''pls'', 4),
    (''pp'', 1), (''portSpeed'', 4), (''pic'', 2), (''lws'', 1), (''csc'', 1), (''pec'', 1),
    (''wrc'', 1), (''occ'', 1), (''prc'', 1), (''plc'', 1), (''cec'', 1), (''cas'', 1),
    (''wce'', 1), (''wde'', 1), (''woe'', 1), (''rsvd1'', 2), (''dr'', 1), (''wpr'', 1)]"

definition XhciPortpmscRegisterUsb2 :: layout where
  "XhciPortpmscRegisterUsb2 =
   [(''l1Status'', 3), (''remoteWakeEnable'', 1), (''hostInitiatedResumeDuration'', 4),
    (''l1DeviceSlot'', 8), (''hardwareLpmEnable'', 1), (''rsvd'', 11),
    (''portTestControl'', 4)]"

definition XhciPortpmscRegisterUsb3 :: layout where
  "XhciPortpmscRegisterUsb3 =
   [(''u1Timeout'', 8), (''u2Timeout'', 8), (''forceLinkPmAccept'', 1), (''rsvd'', 15)]"

definition XhciPortliRegister :: layout where
  "XhciPortliRegister =
   [(''linkErrorCount'', 16), (''rxLaneCount'', 4), (''txLaneCount'', 4), (''rsvd'', 8)]"

definition XhciPorthlpmcRegisterUsb2 :: layout where
  "XhciPorthlpmcRegisterUsb2 =
   [(''hirdm'', 2), (''l1Timeout'', 8), (''besld'', 4), (''rsvd'', 18)]"

definition XhciPorthlpmcRegisterUsb3 :: layout where
  "XhciPorthlpmcRegisterUsb3 =
   [(''linkSoftErrorCount'', 16), (''rsvd'', 16)]"

definition XhciDoorbellRegister :: layout where
  "XhciDoorbellRegister =
   [(''dbTarget'', 8), (''rsvd'', 8), (''dbStreamId'', 16)]"

definition XhciUsbSupportedProtocolCapability :: layout where
  "XhciUsbSupportedProtocolCapability =
   [(''id'', 8), (''next'', 8), (''minorRevisionVersion'', 8), (''majorRevisionVersion'', 8),
    (''name'', 32), (''compatiblePortOffset'', 8), (''compatiblePortCount'', 8),
    (''protocolDefined'', 8), (''protocolSpeedIdCount'', 8), (''slotType'', 4),
    (''reserved'', 28)]"

section \<open>Reading the capability registers\<close>

text \<open>Each macro takes the register it reads.\<close>

definition XHCI_MAX_DEVICE_SLOTS :: "u32 \<Rightarrow> u32" where
  "XHCI_MAX_DEVICE_SLOTS hcsparams1 = hcsparams1 AND 0xFF"

definition XHCI_MAX_INTERRUPTERS :: "u32 \<Rightarrow> u32" where
  "XHCI_MAX_INTERRUPTERS hcsparams1 = drop_bit 8 hcsparams1 AND 0x7FF"

definition XHCI_MAX_PORTS :: "u32 \<Rightarrow> u32" where
  "XHCI_MAX_PORTS hcsparams1 = drop_bit 24 hcsparams1 AND 0xFF"

definition XHCI_IST :: "u32 \<Rightarrow> u32" where
  "XHCI_IST hcsparams2 = hcsparams2 AND 0xF"

definition XHCI_ERST_MAX :: "u32 \<Rightarrow> u32" where
  "XHCI_ERST_MAX hcsparams2 = drop_bit 4 hcsparams2 AND 0xF"

definition XHCI_MAX_SCRATCHPAD_BUFS_HI :: "u32 \<Rightarrow> u32" where
  "XHCI_MAX_SCRATCHPAD_BUFS_HI hcsparams2 = drop_bit 21 hcsparams2 AND 0x1F"

definition XHCI_SPR :: "u32 \<Rightarrow> u32" where
  "XHCI_SPR hcsparams2 = drop_bit 26 hcsparams2 AND 0x1"

definition XHCI_MAX_SCRATCHPAD_BUFS_LO :: "u32 \<Rightarrow> u32" where
  "XHCI_MAX_SCRATCHPAD_BUFS_LO hcsparams2 = drop_bit 27 hcsparams2 AND 0x1F"

definition XHCI_MAX_SCRATCHPAD_BUFFERS :: "u32 \<Rightarrow> u32" where
  "XHCI_MAX_SCRATCHPAD_BUFFERS hcsparams2 =
    push_bit 5 (XHCI_MAX_SCRATCHPAD_BUFS_HI hcsparams2) OR XHCI_MAX_SCRATCHPAD_BUFS_LO hcsparams2"

definition XHCI_U1_DEVICE_EXIT_LATENCY :: "u32 \<Rightarrow> u32" where
  "XHCI_U1_DEVICE_EXIT_LATENCY hcsparams3 = hcsparams3 AND 0xFF"

definition XHCI_U2_DEVICE_EXIT_LATENCY :: "u32 \<Rightarrow> u32" where
  "XHCI_U2_DEVICE_EXIT_LATENCY hcsparams3 = drop_bit 16 hcsparams3 AND 0xFFFF"

definition XHCI_AC64 :: "u32 \<Rightarrow> u32" where
  "XHCI_AC64 hccparams1 = hccparams1 AND 0x1"

definition XHCI_BNC :: "u32 \<Rightarrow> u32" where
  "XHCI_BNC hccparams1 = drop_bit 1 hccparams1 AND 0x1"

definition XHCI_CSZ :: "u32 \<Rightarrow> u32" where
  "XHCI_CSZ hccparams1 = drop_bit 2 hccparams1 AND 0x1"

definition XHCI_PPC :: "u32 \<Rightarrow> u32" where
  "XHCI_PPC hccparams1 = drop_bit 3 hccparams1 AND 0x1"

definition XHCI_PIND :: "u32 \<Rightarrow> u32" where
  "XHCI_PIND hccparams1 = drop_bit 4 hccparams1 AND 0x1"

definition XHCI_LHRC :: "u32 \<Rightarrow> u32" where
  "XHCI_LHRC hccparams1 = drop_bit 5 hccparams1 AND 0x1"

definition XHCI_LTC :: "u32 \<Rightarrow> u32" where
  "XHCI_LTC hccparams1 = drop_bit 6 hccparams1 AND 0x1"

definition XHCI_NSS :: "u32 \<Rightarrow> u32" where
  "XHCI_NSS hccparams1 = drop_bit 7 hccparams1 AND 0x1"

definition XHCI_PAE :: "u32 \<Rightarrow> u32" where
  "XHCI_PAE hccparams1 = drop_bit 8 hccparams1 AND 0x1"

definition XHCI_SPC :: "u32 \<Rightarrow> u32" where
  "XHCI_SPC hccparams1 = drop_bit 9 hccparams1 AND 0x1"

definition XHCI_SEC :: "u32 \<Rightarrow> u32" where
  "XHCI_SEC hccparams1 = drop_bit 10 hccparams1 AND 0x1"

definition XHCI_CFC :: "u32 \<Rightarrow> u32" where
  "XHCI_CFC hccparams1 = drop_bit 11 hccparams1 AND 0x1"

definition XHCI_MAXPSASIZE :: "u32 \<Rightarrow> u32" where
  "XHCI_MAXPSASIZE hccparams1 = drop_bit 12 hccparams1 AND 0xF"

definition XHCI_XECP :: "u32 \<Rightarrow> u32" where
  "XHCI_XECP hccparams1 = drop_bit 16 hccparams1 AND 0xFFFF"

definition XHCI_U3C :: "u32 \<Rightarrow> u32" where
  "XHCI_U3C hccparams2 = hccparams2 AND 0x1"

definition XHCI_CMC :: "u32 \<Rightarrow> u32" where
  "XHCI_CMC hccparams2 = drop_bit 1 hccparams2 AND 0x1"

definition XHCI_FSC :: "u32 \<Rightarrow> u32" where
  "XHCI_FSC hccparams2 = drop_bit 2 hccparams2 AND 0x1"

definition XHCI_CTC :: "u32 \<Rightarrow> u32" where
  "XHCI_CTC hccparams2 = drop_bit 3 hccparams2 AND 0x1"

definition XHCI_LEC :: "u32 \<Rightarrow> u32" where
  "XHCI_LEC hccparams2 = drop_bit 4 hccparams2 AND 0x1"

definition XHCI_CIC :: "u32 \<Rightarrow> u32" where
  "XHCI_CIC hccparams2 = drop_bit 5 hccparams2 AND 0x1"

definition XHCI_ETC :: "u32 \<Rightarrow> u32" where
  "XHCI_ETC hccparams2 = drop_bit 6 hccparams2 AND 0x1"

definition XHCI_ETC_TSC :: "u32 \<Rightarrow> u32" where
  "XHCI_ETC_TSC hccparams2 = drop_bit 7 hccparams2 AND 0x1"

definition XHCI_GSC :: "u32 \<Rightarrow> u32" where
  "XHCI_GSC hccparams2 = drop_bit 8 hccparams2 AND 0x1"

definition XHCI_VTC :: "u32 \<Rightarrow> u32" where
  "XHCI_VTC hccparams2 = drop_bit 9 hccparams2 AND 0x1"

definition XHCI_MAX_SLOTS_EN :: "u32 \<Rightarrow> u32" where
  "XHCI_MAX_SLOTS_EN config = config AND 0xFF"

definition XHCI_SET_MAX_SLOTS_EN :: "u32 \<Rightarrow> u32 \<Rightarrow> u32" where
  "XHCI_SET_MAX_SLOTS_EN config slots = (config AND NOT 0xFF) OR (slots AND 0xFF)"

definition XHCI_U3_ENTRY_ENABLE :: "u32 \<Rightarrow> u32" where
  "XHCI_U3_ENTRY_ENABLE config = drop_bit 8 config AND 0x1"

definition XHCI_CONFIG_INFO_ENABLE :: "u32 \<Rightarrow> u32" where
  "XHCI_CONFIG_INFO_ENABLE config = drop_bit 9 config AND 0x1"

section \<open>Command and status bits\<close>

definition XHCI_USBCMD_RUN_STOP :: u32 where "XHCI_USBCMD_RUN_STOP = 1"
definition XHCI_USBCMD_HCRESET :: u32 where "XHCI_USBCMD_HCRESET = 2"
definition XHCI_USBCMD_INTERRUPTER_ENABLE :: u32 where "XHCI_USBCMD_INTERRUPTER_ENABLE = 4"
definition XHCI_USBCMD_HOSTSYS_ERROR_ENABLE :: u32 where "XHCI_USBCMD_HOSTSYS_ERROR_ENABLE = 8"
definition XHCI_USBSTS_HCH :: u32 where "XHCI_USBSTS_HCH = 1"
definition XHCI_USBSTS_EINT :: u32 where "XHCI_USBSTS_EINT = 8"
definition XHCI_USBSTS_CNR :: u32 where "XHCI_USBSTS_CNR = 0x800"
definition XHCI_IMAN_INTERRUPT_PENDING :: u32 where "XHCI_IMAN_INTERRUPT_PENDING = 1"
definition XHCI_CRCR_RING_CYCLE_STATE :: u8 where "XHCI_CRCR_RING_CYCLE_STATE = 1"

section \<open>TRB types and completion codes\<close>

definition XHCI_TRB_CYCLE_BIT :: u32 where "XHCI_TRB_CYCLE_BIT = 0x1"
definition XHCI_TRB_TOGGLE_CYCLE :: u32 where "XHCI_TRB_TOGGLE_CYCLE = 0x2"
definition XHCI_TRB_TYPE_SETUP_STAGE :: trb where "XHCI_TRB_TYPE_SETUP_STAGE = 2"
definition XHCI_TRB_TYPE_DATA_STAGE :: trb where "XHCI_TRB_TYPE_DATA_STAGE = 3"
definition XHCI_TRB_TYPE_LINK :: u32 where "XHCI_TRB_TYPE_LINK = 6"
definition XHCI_TRB_TYPE_EVENT_DATA :: trb where "XHCI_TRB_TYPE_EVENT_DATA = 7"
definition XHCI_TRB_TYPE_ENABLE_SLOT_CMD :: u32 where "XHCI_TRB_TYPE_ENABLE_SLOT_CMD = 9"
definition XHCI_TRB_TYPE_ADDRESS_DEVICE_CMD :: trb where "XHCI_TRB_TYPE_ADDRESS_DEVICE_CMD = 11"
definition XHCI_TRB_TYPE_TRANSFER_EVENT :: trb where "XHCI_TRB_TYPE_TRANSFER_EVENT = 32"
definition XHCI_TRB_TYPE_CMD_COMPLETION_EVENT :: trb where "XHCI_TRB_TYPE_CMD_COMPLETION_EVENT = 33"
definition XHCI_TRB_TYPE_PORT_STATUS_CHANGE_EVENT :: trb where
  "XHCI_TRB_TYPE_PORT_STATUS_CHANGE_EVENT = 34"
definition XHCI_TRB_COMPLETION_CODE_SUCCESS :: trb where "XHCI_TRB_COMPLETION_CODE_SUCCESS = 1"

definition XHCI_CONSTRUCT_CMD_TRB :: "u32 \<Rightarrow> trb" where
  "XHCI_CONSTRUCT_CMD_TRB type = set_trb_control (push_bit 10 type) 0"

definition XHCI_NEXT_EXT_CAP_PTR :: "u64 \<Rightarrow> u8 \<Rightarrow> u64" where
  "XHCI_NEXT_EXT_CAP_PTR ptr next = ptr + ucast next * 4"

datatype XhciExtendedCapabilityCode =
    Reserved | UsbLegacySupport | SupportedProtocol | ExtendedPowerManagement
  | IOVirtualizationSupport | MessageInterruptSupport | LocalMemorySupport
  | UsbDebugCapabilitySupport | ExtendedMessageInterruptSupport | OtherCapability u8

text \<open>The cast of the id byte to the enumeration; a value with no name is kept.\<close>

definition capability_of :: "u8 \<Rightarrow> XhciExtendedCapabilityCode" where
  "capability_of i =
    (case map_of [(0, Reserved), (1, UsbLegacySupport), (2, SupportedProtocol),
        (3, ExtendedPowerManagement), (4, IOVirtualizationSupport), (5, MessageInterruptSupport),
        (6, LocalMemorySupport), (10, UsbDebugCapabilitySupport),
        (17, ExtendedMessageInterruptSupport)] i of
      Some c \<Rightarrow> c | None \<Rightarrow> OtherCapability i)"

definition capability_id :: "XhciExtendedCapabilityCode \<Rightarrow> u8" where
  "capability_id c =
    (case c of Reserved \<Rightarrow> 0 | UsbLegacySupport \<Rightarrow> 1 | SupportedProtocol \<Rightarrow> 2
     | ExtendedPowerManagement \<Rightarrow> 3 | IOVirtualizationSupport \<Rightarrow> 4 | MessageInterruptSupport \<Rightarrow> 5
     | LocalMemorySupport \<Rightarrow> 6 | UsbDebugCapabilitySupport \<Rightarrow> 10
     | ExtendedMessageInterruptSupport \<Rightarrow> 17 | OtherCapability i \<Rightarrow> i)"

definition extendedCapabilityToString :: "XhciExtendedCapabilityCode \<Rightarrow> string" where
  "extendedCapabilityToString capid =
    (let i = capability_id capid in
     case capid of
       Reserved \<Rightarrow> ''Reserved''
     | UsbLegacySupport \<Rightarrow> ''USB Legacy Support''
     | SupportedProtocol \<Rightarrow> ''Supported Protocol''
     | ExtendedPowerManagement \<Rightarrow> ''Extended Power Management''
     | IOVirtualizationSupport \<Rightarrow> ''I/O Virtualization Support''
     | LocalMemorySupport \<Rightarrow> ''Local Memory Support''
     | UsbDebugCapabilitySupport \<Rightarrow> ''USB Debug Capability Support''
     | ExtendedMessageInterruptSupport \<Rightarrow> ''Extended Message Interrupt Support''
     | _ \<Rightarrow>
        (if 7 \<le> i \<and> i \<le> 9 then ''Reserved''
         else if 11 \<le> i \<and> i \<le> 16 then ''Reserved''
         else if 18 \<le> i \<and> i \<le> 191 then ''Reserved''
         else ''Vendor Specific''))"

definition completion_code_names :: "(u8 \<times> string) list" where
  "completion_code_names =
   [(0, ''INVALID''), (1, ''SUCCESS''), (2, ''DATA_BUFFER_ERROR''),
    (3, ''BABBLE_DETECTED_ERROR''), (4, ''USB_TRANSACTION_ERROR''), (5, ''TRB_ERROR''),
    (6, ''STALL_ERROR''), (7, ''RESOURCE_ERROR''), (8, ''BANDWIDTH_ERROR''),
    (9, ''NO_SLOTS_AVAILABLE''), (10, ''INVALID_STREAM_TYPE''), (11, ''SLOT_NOT_ENABLED''),
    (12, ''ENDPOINT_NOT_ENABLED''), (13, ''SHORT_PACKET''), (14, ''RING_UNDERRUN''),
    (15, ''RING_OVERRUN''), (16, ''VF_EVENT_RING_FULL''), (17, ''PARAMETER_ERROR''),
    (18, ''BANDWIDTH_OVERRUN''), (19, ''CONTEXT_STATE_ERROR''), (20, ''NO_PING_RESPONSE''),
    (21, ''EVENT_RING_FULL''), (22, ''INCOMPATIBLE_DEVICE''), (23, ''MISSED_SERVICE''),
    (24, ''COMMAND_RING_STOPPED''), (25, ''COMMAND_ABORTED''), (26, ''STOPPED''),
    (27, ''STOPPED_LENGTH_INVALID''), (28, ''STOPPED_SHORT_PACKET''),
    (29, ''MAX_EXIT_LATENCY_ERROR'')]"

definition trbCompletionCodeToString :: "u8 \<Rightarrow> string" where
  "trbCompletionCodeToString completionCode =
    (case map_of completion_code_names completionCode of
      Some s \<Rightarrow> s | None \<Rightarrow> ''UNKNOWN_COMPLETION_CODE'')"

section \<open>All structures with their sizes\<close>

definition xhci_structs :: "(layout \<times> nat) list" where
  "xhci_structs =
   [(XhciCapabilityRegisters, 256), (XhciExtendedCapabilityEntry, 32),
    (XhciOperationalRegisters, 2048), (XhciTrb_t, 128), (XhciAddressDeviceCommandTrb_t, 128),
    (XhciCommandCompletionTrb_t, 128), (XhciSetupDataStageCompletionTrb_t, 128),
    (XhciPortStatusChangeTrb_t, 128), (XhciDeviceRequestPacket, 64),
    (XhciSetupStageTrb_t, 128), (XhciDataStageTrb_t, 128), (XhciStatusStageTrb_t, 128),
    (XhciEventDataTrb_t, 128), (XhciErstEntry, 128), (XhciInterrupterManagementRegister, 32),
    (XhciInterrupterRegisters, 256), (XhciSlotContext32, 256), (XhciEndpointContext32, 256),
    (XhciInputControlContext32, 256), (XhciPortscRegister, 32), (XhciPortpmscRegisterUsb2, 32),
    (XhciPortpmscRegisterUsb3, 32), (XhciPortliRegister, 32), (XhciPorthlpmcRegisterUsb2, 32),
    (XhciPorthlpmcRegisterUsb3, 32), (XhciDoorbellRegister, 32),
    (XhciUsbSupportedProtocolCapability, 128)]"

lemmas xhci_layouts = XhciCapabilityRegisters_def XhciExtendedCapabilityEntry_def
  XhciOperationalRegisters_def XhciTrb_t_def XhciAddressDeviceCommandTrb_t_def
  XhciCommandCompletionTrb_t_def XhciSetupDataStageCompletionTrb_t_def
  XhciPortStatusChangeTrb_t_def XhciDeviceRequestPacket_def XhciSetupStageTrb_t_def
  XhciDataStageTrb_t_def XhciStatusStageTrb_t_def XhciEventDataTrb_t_def XhciErstEntry_def
  XhciInterrupterManagementRegister_def XhciInterrupterRegisters_def XhciSlotContext32_def
  XhciEndpointContext32_def XhciInputControlContext32_def XhciPortscRegister_def
  XhciPortpmscRegisterUsb2_def XhciPortpmscRegisterUsb3_def XhciPortliRegister_def
  XhciPorthlpmcRegisterUsb2_def XhciPorthlpmcRegisterUsb3_def XhciDoorbellRegister_def
  XhciUsbSupportedProtocolCapability_def

lemma xhci_structs_ok: "layouts_ok xhci_structs"
  by (simp add: layouts_ok_def xhci_structs_def xhci_layouts)

section \<open>Properties of the structures\<close>



end
