(* ===== verification/XhciRings.thy ===== *)
theory XhciRings
  imports XhciRegs Paging HeapBlocks
begin

text \<open>
  The memory of the USB host controller driver and its three rings, from
  \<^verbatim>\<open>kernel/src/drivers/usb/xhci.cpp\<close>: \<open>allocXhciMemory\<close>, the command ring, the event ring and the
  transfer ring with the cycle bits by which driver and controller hand TRBs over.

  The controller is a device, not code of the repository, and is a parameter of the operations
  that touch it: a record of functions for its registers and for the time that passes, on the
  memory (which it reads and writes by DMA) and a device state of any type. DMA takes effect at
  register accesses and while the driver sleeps. The vectors the driver fills with event
  pointers are lists here.

  A ring is described by the number of TRBs that have passed through it since its creation: the
  index is that number modulo the capacity and the cycle bit says whether the quotient is even.
  The locale \<open>trb_ring\<close> is the contract the command ring and the transfer ring share.
\<close>

section \<open>Environment of the driver\<close>

record 'd controller =
  dev_read8 :: "u64 \<Rightarrow> mem \<times> 'd \<Rightarrow> u8 \<times> mem \<times> 'd"
  dev_read32 :: "u64 \<Rightarrow> mem \<times> 'd \<Rightarrow> u32 \<times> mem \<times> 'd"
  dev_read64 :: "u64 \<Rightarrow> mem \<times> 'd \<Rightarrow> u64 \<times> mem \<times> 'd"
  dev_write32 :: "u64 \<Rightarrow> u32 \<Rightarrow> mem \<times> 'd \<Rightarrow> mem \<times> 'd"
  dev_write64 :: "u64 \<Rightarrow> u64 \<Rightarrow> mem \<times> 'd \<Rightarrow> mem \<times> 'd"
  dev_elapse :: "u32 \<Rightarrow> mem \<times> 'd \<Rightarrow> mem \<times> 'd"

text \<open>The heap, the kernel's page tables with their root, and the device state.\<close>

record 'd xenv =
  xheap :: kheap
  xpages :: pfa
  xroot :: u64
  xdev :: 'd

abbreviation xmem :: "'d xenv \<Rightarrow> mem" where
  "xmem e \<equiv> ram (xheap e)"

abbreviation put_xmem :: "mem \<Rightarrow> 'd xenv \<Rightarrow> 'd xenv" where
  "put_xmem m e \<equiv> e\<lparr>xheap := (xheap e)\<lparr>ram := m\<rparr>\<rparr>"

abbreviation put_world :: "mem \<times> 'd \<Rightarrow> 'd xenv \<Rightarrow> 'd xenv" where
  "put_world w e \<equiv> (put_xmem (fst w) e)\<lparr>xdev := snd w\<rparr>"

definition mmio_read8 :: "'d controller \<Rightarrow> u64 \<Rightarrow> 'd xenv \<Rightarrow> u8 \<times> 'd xenv" where
  "mmio_read8 c a e = (let (v, w) = dev_read8 c a (xmem e, xdev e) in (v, put_world w e))"

definition mmio_read32 :: "'d controller \<Rightarrow> u64 \<Rightarrow> 'd xenv \<Rightarrow> u32 \<times> 'd xenv" where
  "mmio_read32 c a e = (let (v, w) = dev_read32 c a (xmem e, xdev e) in (v, put_world w e))"

definition mmio_read64 :: "'d controller \<Rightarrow> u64 \<Rightarrow> 'd xenv \<Rightarrow> u64 \<times> 'd xenv" where
  "mmio_read64 c a e = (let (v, w) = dev_read64 c a (xmem e, xdev e) in (v, put_world w e))"

definition mmio_write32 :: "'d controller \<Rightarrow> u64 \<Rightarrow> u32 \<Rightarrow> 'd xenv \<Rightarrow> 'd xenv" where
  "mmio_write32 c a v e = put_world (dev_write32 c a v (xmem e, xdev e)) e"

definition mmio_write64 :: "'d controller \<Rightarrow> u64 \<Rightarrow> u64 \<Rightarrow> 'd xenv \<Rightarrow> 'd xenv" where
  "mmio_write64 c a v e = put_world (dev_write64 c a v (xmem e, xdev e)) e"

definition msleep :: "'d controller \<Rightarrow> u32 \<Rightarrow> 'd xenv \<Rightarrow> 'd xenv" where
  "msleep c ms e = put_world (dev_elapse c ms (xmem e, xdev e)) e"

abbreviation xpa :: "'d xenv \<Rightarrow> u64 \<Rightarrow> u64" where
  "xpa e a \<equiv> virtToPhysAddr (va_off (xpages e)) a"

section \<open>Allocation\<close>

text \<open>\<open>None\<close> is the endless loop on a failed allocation, or a fault on an unmapped page.\<close>

definition allocXhciMemory ::
  "u64 \<Rightarrow> u64 \<Rightarrow> u64 \<Rightarrow> 'd xenv \<Rightarrow> (u64 \<times> 'd xenv) option" where
  "allocXhciMemory sz alignment boundary e = do {
     let totalSize = sz + boundary - 1;
     (memblock, h) \<leftarrow> kmallocAligned (xheap e) totalSize alignment;
     if memblock = 0 then None
     else do {
       let aligned = (memblock + boundary - 1) AND NOT (boundary - 1);
       pg \<leftarrow> markPageUncacheable aligned (xroot e) (xpages e);
       Some (aligned, e\<lparr>xheap := h, xpages := pg\<rparr>)
     }
   }"

section \<open>The command ring\<close>

definition sizeof_XhciTrb_t :: u64 where
  "sizeof_XhciTrb_t = 16"

record CommandRing =
  cr_maxTrbCount :: u64
  cr_enqueuePtr :: u64
  cr_trbRing :: u64
  cr_physicalRingBase :: u64
  cr_rcsBit :: u8

text \<open>Assignment to members of the TRB at an address.\<close>

definition upd_trb :: "(trb \<Rightarrow> trb) \<Rightarrow> u64 \<Rightarrow> mem \<Rightarrow> mem" where
  "upd_trb f a m = st (f (ld m a)) a m"

definition link_trb :: "u64 \<Rightarrow> u8 \<Rightarrow> trb \<Rightarrow> trb" where
  "link_trb physicalRingBase cyc t =
    set_trb_control (push_bit 10 XHCI_TRB_TYPE_LINK OR ucast cyc)
      (fset XhciTrb_t ''parameter'' (ucast physicalRingBase) t)"

definition XHCI_COMMAND_RING_SEGMENTS_ALIGNMENT :: u64 where
  "XHCI_COMMAND_RING_SEGMENTS_ALIGNMENT = 64"

definition XHCI_COMMAND_RING_SEGMENTS_BOUNDARY :: u64 where
  "XHCI_COMMAND_RING_SEGMENTS_BOUNDARY = 1024 * 64"

definition XhciCommandRing :: "u64 \<Rightarrow> 'd xenv \<Rightarrow> (CommandRing \<times> 'd xenv) option" where
  "XhciCommandRing maxTrbs e = do {
     let rcsBit = XHCI_CRCR_RING_CYCLE_STATE;
     let ringSize = maxTrbs * sizeof_XhciTrb_t;
     (trbRing, e) \<leftarrow> allocXhciMemory ringSize XHCI_COMMAND_RING_SEGMENTS_ALIGNMENT
       XHCI_COMMAND_RING_SEGMENTS_BOUNDARY e;
     let m = zeromem (xmem e) trbRing ringSize;
     let physicalRingBase = xpa e trbRing;
     let m = upd_trb (link_trb physicalRingBase rcsBit) (trbRing + 255 * sizeof_XhciTrb_t) m;
     Some (\<lparr>cr_maxTrbCount = maxTrbs, cr_enqueuePtr = 0, cr_trbRing = trbRing,
       cr_physicalRingBase = physicalRingBase, cr_rcsBit = rcsBit\<rparr>, put_xmem m e)
   }"

text \<open>The caller's TRB, whose cycle bit is set, the ring, and the memory.\<close>

definition commandRing_enqueue :: "trb \<Rightarrow> CommandRing \<Rightarrow> mem \<Rightarrow> trb \<times> CommandRing \<times> mem" where
  "commandRing_enqueue t r m =
    (let t = fset XhciTrb_t ''cycleBit'' (ucast (cr_rcsBit r)) t;
         m = st t (cr_trbRing r + cr_enqueuePtr r * sizeof_XhciTrb_t) m;
         r = r\<lparr>cr_enqueuePtr := cr_enqueuePtr r + 1\<rparr>;
         r = (if cr_enqueuePtr r = cr_maxTrbCount r - 1
              then r\<lparr>cr_enqueuePtr := 0, cr_rcsBit := of_bool (cr_rcsBit r = 0)\<rparr> else r)
     in (t, r, m))"

section \<open>The event ring\<close>

record EventRing =
  er_interrupterRegs :: u64
  er_segmentTrbCount :: u64
  er_primarySegmentRing :: u64
  er_primarySegmentPhysicalBase :: u64
  er_segmentTable :: u64
  er_segmentTablePhysicalBase :: u64
  er_dequeuePtr :: u64
  er_rcsBit :: u8

abbreviation ir_off :: "string \<Rightarrow> u64" where
  "ir_off f \<equiv> offsetof XhciInterrupterRegisters f"

definition updateErdpInterrupterRegister ::
  "'d controller \<Rightarrow> EventRing \<Rightarrow> 'd xenv \<Rightarrow> 'd xenv" where
  "updateErdpInterrupterRegister c r e =
    (let dequeueAddress = er_primarySegmentPhysicalBase r + er_dequeuePtr r * sizeof_XhciTrb_t
     in mmio_write64 c (er_interrupterRegs r + ir_off ''dequeueErstSegmentIndex'') dequeueAddress e)"

definition XhciEventRing ::
  "'d controller \<Rightarrow> u64 \<Rightarrow> u64 \<Rightarrow> 'd xenv \<Rightarrow> (EventRing \<times> 'd xenv) option" where
  "XhciEventRing c maxTrbs interrupterRegs e = do {
     let segmentCount = 1;
     let eventRingSegmentSize = maxTrbs * sizeof_XhciTrb_t;
     let eventRingSegmentTableSize = segmentCount * 16;
     (ring, e) \<leftarrow> allocXhciMemory eventRingSegmentSize 64 (1024 * 64) e;
     let e = put_xmem (zeromem (xmem e) ring eventRingSegmentSize) e;
     (table, e) \<leftarrow> allocXhciMemory eventRingSegmentTableSize 64 PAGE_SIZE e;
     let entry = fset XhciErstEntry ''ringSegmentBaseAddress'' (ucast (xpa e ring)) (0 :: trb);
     let entry = fset XhciErstEntry ''ringSegmentSize'' 256 entry;
     let entry = fset XhciErstEntry ''rsvd'' 0 entry;
     let e = put_xmem (st entry table (xmem e)) e;
     let r = \<lparr>er_interrupterRegs = interrupterRegs, er_segmentTrbCount = maxTrbs,
       er_primarySegmentRing = ring, er_primarySegmentPhysicalBase = xpa e ring,
       er_segmentTable = table, er_segmentTablePhysicalBase = xpa e table,
       er_dequeuePtr = 0, er_rcsBit = XHCI_CRCR_RING_CYCLE_STATE\<rparr>;
     let e = mmio_write32 c (interrupterRegs + ir_off ''erstsz'') 1 e;
     let e = updateErdpInterrupterRegister c r e;
     let e = mmio_write64 c (interrupterRegs + ir_off ''erstba'') (er_segmentTablePhysicalBase r) e;
     Some (r, e)
   }"

definition hasUnprocessedEvents :: "EventRing \<Rightarrow> mem \<Rightarrow> bool" where
  "hasUnprocessedEvents r m \<longleftrightarrow>
    fget XhciTrb_t ''cycleBit'' (ld m (er_primarySegmentRing r + er_dequeuePtr r * sizeof_XhciTrb_t) :: trb)
      = ucast (er_rcsBit r)"

text \<open>The pointer to the TRB, 0 for \<open>nullptr\<close>.\<close>

definition dequeueTrb :: "EventRing \<Rightarrow> mem \<Rightarrow> u64 \<times> EventRing" where
  "dequeueTrb r m =
    (let ret = er_primarySegmentRing r + er_dequeuePtr r * sizeof_XhciTrb_t
     in if fget XhciTrb_t ''cycleBit'' (ld m ret :: trb) \<noteq> ucast (er_rcsBit r) then (0, r)
        else (let r = r\<lparr>er_dequeuePtr := er_dequeuePtr r + 1\<rparr>;
                  r = (if er_dequeuePtr r = er_segmentTrbCount r
                       then r\<lparr>er_dequeuePtr := 0, er_rcsBit := of_bool (er_rcsBit r = 0)\<rparr> else r)
              in (ret, r)))"

partial_function (option) dequeue_loop ::
  "mem \<Rightarrow> EventRing \<Rightarrow> u64 list \<Rightarrow> (EventRing \<times> u64 list) option" where
  "dequeue_loop m r receivedEventTrbs =
    (if hasUnprocessedEvents r m then
       (let (t, r) = dequeueTrb r m
        in if t = 0 then Some (r, receivedEventTrbs)
           else dequeue_loop m r (receivedEventTrbs @ [t]))
     else Some (r, receivedEventTrbs))"

definition dequeueEvents :: "'d controller \<Rightarrow> EventRing \<Rightarrow> u64 list \<Rightarrow> 'd xenv \<Rightarrow>
    (EventRing \<times> u64 list \<times> 'd xenv) option" where
  "dequeueEvents c r receivedEventTrbs e = do {
     (r, ts) \<leftarrow> dequeue_loop (xmem e) r receivedEventTrbs;
     Some (r, ts, updateErdpInterrupterRegister c r e)
   }"

partial_function (option) flush_loop :: "mem \<Rightarrow> EventRing \<Rightarrow> EventRing option" where
  "flush_loop m r =
    (if hasUnprocessedEvents r m then flush_loop m (snd (dequeueTrb r m)) else Some r)"

definition flushUnprocessedEvents ::
  "'d controller \<Rightarrow> EventRing \<Rightarrow> 'd xenv \<Rightarrow> (EventRing \<times> 'd xenv) option" where
  "flushUnprocessedEvents c r e = do {
     r \<leftarrow> flush_loop (xmem e) r;
     Some (r, updateErdpInterrupterRegister c r e)
   }"

section \<open>The transfer ring\<close>

record TransferRing =
  tr_maxTrbCount :: u64
  tr_dequeuePtr :: u64
  tr_enqueuePtr :: u64
  tr_trbRing :: u64
  tr_physicalRingBase :: u64
  tr_dcsBit :: u8
  tr_doorbellId :: u8

definition XHCI_TRANSFER_RING_SEGMENTS_ALIGNMENT :: u64 where
  "XHCI_TRANSFER_RING_SEGMENTS_ALIGNMENT = 16"

definition XHCI_TRANSFER_RING_SEGMENTS_BOUNDARY :: u64 where
  "XHCI_TRANSFER_RING_SEGMENTS_BOUNDARY = 1024 * 64"

definition XhciTransferRing :: "u64 \<Rightarrow> u8 \<Rightarrow> 'd xenv \<Rightarrow> (TransferRing \<times> 'd xenv) option" where
  "XhciTransferRing maxTrbs doorbellId e = do {
     let dcsBit = 1;
     let ringSize = maxTrbs * sizeof_XhciTrb_t;
     (trbRing, e) \<leftarrow> allocXhciMemory ringSize XHCI_TRANSFER_RING_SEGMENTS_ALIGNMENT
       XHCI_TRANSFER_RING_SEGMENTS_BOUNDARY e;
     let m = zeromem (xmem e) trbRing ringSize;
     let physicalRingBase = xpa e trbRing;
     let m = upd_trb (link_trb physicalRingBase dcsBit) (trbRing + 255 * sizeof_XhciTrb_t) m;
     Some (\<lparr>tr_maxTrbCount = maxTrbs, tr_dequeuePtr = 0, tr_enqueuePtr = 0, tr_trbRing = trbRing,
       tr_physicalRingBase = physicalRingBase, tr_dcsBit = dcsBit, tr_doorbellId = doorbellId\<rparr>,
       put_xmem m e)
   }"

definition transferRing_enqueue :: "trb \<Rightarrow> TransferRing \<Rightarrow> mem \<Rightarrow> trb \<times> TransferRing \<times> mem" where
  "transferRing_enqueue t r m =
    (let t = fset XhciTrb_t ''cycleBit'' (ucast (tr_dcsBit r)) t;
         m = st t (tr_trbRing r + tr_enqueuePtr r * sizeof_XhciTrb_t) m;
         r = r\<lparr>tr_enqueuePtr := tr_enqueuePtr r + 1\<rparr>;
         r = (if tr_enqueuePtr r = tr_maxTrbCount r - 1
              then r\<lparr>tr_enqueuePtr := 0, tr_dcsBit := of_bool (tr_dcsBit r = 0)\<rparr> else r)
     in (t, r, m))"

section \<open>Slots\<close>

definition slot :: "u64 \<Rightarrow> nat \<Rightarrow> u64" where
  "slot base i = base + of_nat i * sizeof_XhciTrb_t"

abbreviation with_cycle :: "bool \<Rightarrow> trb \<Rightarrow> trb" where
  "with_cycle b t \<equiv> fset XhciTrb_t ''cycleBit'' (of_bool b) t"

abbreviation cycle_of :: "trb \<Rightarrow> trb" where
  "cycle_of t \<equiv> fget XhciTrb_t ''cycleBit'' t"

lemma slot_unat: "base + p * sizeof_XhciTrb_t = slot base (unat p)"
  by (simp add: slot_def)

lemma slot_byte:
  assumes "16 * i + b < 2 ^ 64"
  shows "unat (slot base i + of_nat b - base) = 16 * i + b"
proof -
  have "slot base i + of_nat b - base = of_nat (16 * i + b)"
    by (simp add: slot_def sizeof_XhciTrb_t_def)
  moreover have "unat (of_nat (16 * i + b) :: u64) = 16 * i + b"
    by (rule unat64_of_nat) (use assms in simp)
  ultimately show ?thesis by (simp only:)
qed

lemma slot_far:
  assumes "i \<noteq> j" "16 * i + 16 \<le> 2 ^ 64" "16 * j + 16 \<le> 2 ^ 64" "b < 16"
  shows "16 \<le> unat (slot base j + of_nat b - slot base i)"
proof -
  have j: "unat (of_nat (16 * j + b) :: u64) = 16 * j + b"
    by (rule unat64_of_nat) (use assms in simp)
  have "slot base j + of_nat b - slot base i = of_nat (16 * j + b) - of_nat (16 * i)"
    by (simp add: slot_def sizeof_XhciTrb_t_def)
  moreover have "unat (of_nat (16 * j + b) - of_nat (16 * i) :: u64) =
      (if 16 * i \<le> 16 * j + b then 16 * j + b - 16 * i else 2 ^ 64 + (16 * j + b) - 16 * i)"
    using unat_sub_of_nat [of "16 * i" "of_nat (16 * j + b)"] assms(2) unfolding j by simp
  ultimately show ?thesis
    using assms by (simp only:) (auto split: if_splits)
qed

lemma ld_st_slot_same [simp]: "(ld (st v a m) a :: trb) = v"
  by (rule ld_st_same) simp_all

lemma ld_st_slot_other:
  assumes "i \<noteq> j" "16 * i + 16 \<le> 2 ^ 64" "16 * j + 16 \<le> 2 ^ 64"
  shows "(ld (st (v :: trb) (slot base i) m) (slot base j) :: trb) = ld m (slot base j)"
proof (rule ld_cong)
  fix b
  assume "b < LENGTH(128) div 8"
  then have "16 \<le> unat (slot base j + of_nat b - slot base i)"
    using slot_far [OF assms, of b] by simp
  then show "st v (slot base i) m (slot base j + of_nat b) = m (slot base j + of_nat b)"
    by (simp add: st_apply)
qed

lemma st_slot_frame:
  assumes "16 * i + 16 \<le> 16 * n" "16 * n \<le> 2 ^ 64" "16 * n \<le> unat (x - base)"
  shows "st (v :: trb) (slot base i) m x = m x"
proof -
  have "x - slot base i = (x - base) - of_nat (16 * i)"
    by (simp add: slot_def sizeof_XhciTrb_t_def)
  moreover have "unat ((x - base) - of_nat (16 * i)) = unat (x - base) - 16 * i"
    using unat_sub_of_nat [of "16 * i" "x - base"] assms by simp
  ultimately have "16 \<le> unat (x - slot base i)"
    using assms by (simp only:)
  then show ?thesis by (simp add: st_apply)
qed

section \<open>Rings the driver writes\<close>

text \<open>
  \<open>ring_rep base K p c m ts\<close>: the ring of \<open>K\<close> usable slots (the last slot is the link TRB) has
  taken the TRBs \<open>ts\<close>; index \<open>p\<close> and cycle bit \<open>c\<close> follow from their number, and the last \<open>K\<close>
  of them stand in their slots, each with the cycle bit of its round.
\<close>

definition ring_rep :: "u64 \<Rightarrow> nat \<Rightarrow> u64 \<Rightarrow> u8 \<Rightarrow> mem \<Rightarrow> trb list \<Rightarrow> bool" where
  "ring_rep base K p c m ts \<longleftrightarrow> 0 < K \<and> 16 * K < 2 ^ 64 \<and>
    unat p = length ts mod K \<and> c = of_bool (even (length ts div K)) \<and>
    (\<forall>i < length ts. length ts \<le> i + K \<longrightarrow>
      ld m (slot base (i mod K)) = with_cycle (even (i div K)) (ts ! i))"

fun enqueue_all ::
  "(trb \<Rightarrow> 'r \<Rightarrow> mem \<Rightarrow> trb \<times> 'r \<times> mem) \<Rightarrow> trb list \<Rightarrow> 'r \<times> mem \<Rightarrow> 'r \<times> mem" where
  "enqueue_all f [] s = s"
| "enqueue_all f (t # ts) s = enqueue_all f ts (snd (f t (fst s) (snd s)))"

lemma div_mod_Suc:
  fixes n K :: nat
  assumes "0 < K"
  shows "Suc n mod K = (if Suc (n mod K) = K then 0 else Suc (n mod K))"
    and "Suc n div K = (if Suc (n mod K) = K then Suc (n div K) else n div K)"
  using assms by (simp_all add: mod_Suc div_Suc)

lemma mod_neq:
  fixes i n K :: nat
  assumes "i < n" "n < i + K"
  shows "i mod K \<noteq> n mod K"
proof
  assume "i mod K = n mod K"
  then have "K dvd n - i"
    using assms by (metis less_imp_le mod_eq_dvd_iff_nat)
  then show False
    using assms by (auto dest: dvd_imp_le)
qed

locale trb_ring =
  fixes enqueue :: "trb \<Rightarrow> 'r \<Rightarrow> mem \<Rightarrow> trb \<times> 'r \<times> mem"
    and cap :: "'r \<Rightarrow> u64" and pos :: "'r \<Rightarrow> u64" and base :: "'r \<Rightarrow> u64" and cyc :: "'r \<Rightarrow> u8"
  assumes stored: "enqueue t r m = (t', r', m') \<Longrightarrow>
      t' = fset XhciTrb_t ''cycleBit'' (ucast (cyc r)) t \<and>
      m' = st t' (base r + pos r * sizeof_XhciTrb_t) m \<and> base r' = base r \<and> cap r' = cap r"
    and advanced: "enqueue t r m = (t', r', m') \<Longrightarrow>
      (if pos r + 1 = cap r - 1 then pos r' = 0 \<and> cyc r' = of_bool (cyc r = 0)
       else pos r' = pos r + 1 \<and> cyc r' = cyc r)"
begin

lemma enqueue_rep:
  assumes rep: "ring_rep (base r) K (pos r) (cyc r) m ts" and K: "unat (cap r) = K + 1"
    and e: "enqueue t r m = (t', r', m')"
  shows "ring_rep (base r') K (pos r') (cyc r') m' (ts @ [t])" "unat (cap r') = K + 1"
    "base r' = base r" "16 * K \<le> unat (x - base r) \<Longrightarrow> m' x = m x"
proof -
  let ?n = "length ts"
  have K0: "0 < K" and K64: "16 * K < 2 ^ 64" and p: "unat (pos r) = ?n mod K"
    and c: "cyc r = of_bool (even (?n div K))"
    and slots: "\<And>i. i < ?n \<Longrightarrow> ?n \<le> i + K \<Longrightarrow>
      ld m (slot (base r) (i mod K)) = with_cycle (even (i div K)) (ts ! i)"
    using rep by (auto simp: ring_rep_def)
  note s = stored [OF e] and a = advanced [OF e]
  have m': "m' = st (with_cycle (even (?n div K)) t) (slot (base r) (?n mod K)) m"
    using s c by (simp add: slot_unat p)
  have lt: "?n mod K < K" using K0 by simp
  then have p1: "unat (pos r + 1) = Suc (?n mod K)"
    using unat_add_no_wrap [of "pos r" 1] p K64 by simp
  have c1: "unat (cap r - 1) = K"
    using K unat_pred [of "cap r"] by (cases "cap r = 0") auto
  then have wrap: "pos r + 1 = cap r - 1 \<longleftrightarrow> Suc (?n mod K) = K"
    using p1 by (metis word_unat_eq_iff)
  have "unat (pos r') = Suc ?n mod K" "cyc r' = of_bool (even (Suc ?n div K))"
    using a p1 c unfolding wrap by (auto simp: div_mod_Suc [OF K0] split: if_splits)
  moreover have "ld m' (slot (base r) (i mod K)) = with_cycle (even (i div K)) ((ts @ [t]) ! i)"
    if i: "i < Suc ?n" "Suc ?n \<le> i + K" for i
  proof (cases "i = ?n")
    case True
    then show ?thesis by (simp add: m')
  next
    case False
    have b: "16 * (?n mod K) + 16 \<le> 2 ^ 64" "16 * (i mod K) + 16 \<le> 2 ^ 64"
      using lt K64 mod_less_divisor [OF K0, of i] by linarith+
    from False have "(ld m' (slot (base r) (i mod K)) :: trb) = ld m (slot (base r) (i mod K))"
      unfolding m' using mod_neq [of i ?n K] i by (intro ld_st_slot_other b) auto
    with False i slots [of i] show ?thesis by (simp add: nth_append)
  qed
  ultimately show "ring_rep (base r') K (pos r') (cyc r') m' (ts @ [t])"
    using K0 K64 s by (simp add: ring_rep_def)
  show "unat (cap r') = K + 1" "base r' = base r" using s K by simp_all
  show "m' x = m x" if "16 * K \<le> unat (x - base r)"
    unfolding m' by (rule st_slot_frame [of _ K]) (use lt K64 that in auto)
qed

lemma enqueue_all_rep:
  assumes "ring_rep (base r) K (pos r) (cyc r) m ts" "unat (cap r) = K + 1"
    and "enqueue_all enqueue us (r, m) = (r', m')"
  shows "ring_rep (base r') K (pos r') (cyc r') m' (ts @ us) \<and> unat (cap r') = K + 1 \<and>
    base r' = base r \<and> (\<forall>x. 16 * K \<le> unat (x - base r) \<longrightarrow> m' x = m x)"
  using assms
proof (induction us arbitrary: r m ts)
  case Nil
  then show ?case by simp
next
  case (Cons u us)
  obtain t1 r1 m1 where e: "enqueue u r m = (t1, r1, m1)" by (metis prod_cases3)
  note 1 = enqueue_rep [OF Cons.prems(1,2) e]
  have "ring_rep (base r') K (pos r') (cyc r') m' ((ts @ [u]) @ us) \<and> unat (cap r') = K + 1 \<and>
      base r' = base r1 \<and> (\<forall>x. 16 * K \<le> unat (x - base r1) \<longrightarrow> m' x = m1 x)"
    by (rule Cons.IH) (use 1 e Cons.prems(3) in simp_all)
  then show ?case using 1(3,4) by (simp del: length_append) metis
qed

end

interpretation cmdring: trb_ring commandRing_enqueue cr_maxTrbCount cr_enqueuePtr cr_trbRing cr_rcsBit
  by unfold_locales (auto simp: commandRing_enqueue_def Let_def split: if_splits)

interpretation xferring: trb_ring transferRing_enqueue tr_maxTrbCount tr_enqueuePtr tr_trbRing tr_dcsBit
  by unfold_locales (auto simp: transferRing_enqueue_def Let_def split: if_splits)

section \<open>The ring the driver reads\<close>

text \<open>
  \<open>er_at r c\<close>: \<open>c\<close> events have been taken. \<open>er_valid base N m i\<close>: the \<open>i\<close>-th event since the creation
  of the ring is in memory, that is, its slot has the cycle bit of its round.
\<close>

definition er_at :: "EventRing \<Rightarrow> nat \<Rightarrow> bool" where
  "er_at r c \<longleftrightarrow>
    (let N = unat (er_segmentTrbCount r)
     in 0 < N \<and> er_primarySegmentRing r \<noteq> 0 \<and>
        unat (er_primarySegmentRing r) + 16 * N \<le> 2 ^ 64 \<and>
        unat (er_dequeuePtr r) = c mod N \<and> er_rcsBit r = of_bool (even (c div N)))"

definition er_valid :: "u64 \<Rightarrow> nat \<Rightarrow> mem \<Rightarrow> nat \<Rightarrow> bool" where
  "er_valid base N m i \<longleftrightarrow> cycle_of (ld m (slot base (i mod N))) = of_bool (even (i div N))"

lemma cycle_of_01: "cycle_of t = 0 \<or> cycle_of t = 1"
proof -
  have "cycle_of t = take_bit 1 (drop_bit 96 t)"
    by (simp add: fget_def bf_get_def XhciTrb_t_def)
  then show ?thesis by (simp add: take_bit_Suc mod_2_eq_odd)
qed

lemma er_valid_next_round:
  "0 < N \<Longrightarrow> er_valid base N m (c + N) \<longleftrightarrow> \<not> er_valid base N m c"
  using cycle_of_01 [of "ld m (slot base (c mod N))"] by (auto simp: er_valid_def div_add_self2)

lemma slot_nonzero:
  assumes "base \<noteq> 0" "unat base + 16 * n \<le> 2 ^ 64" "i < n"
  shows "slot base i \<noteq> 0"
proof -
  have "0 < unat base" using assms(1) by (simp add: unat_gt_0)
  moreover have "unat (of_nat (16 * i) :: u64) = 16 * i"
    by (rule unat64_of_nat) (use assms in simp)
  ultimately have "unat (base + of_nat (16 * i)) = unat base + 16 * i"
    using assms by (subst unat_add_no_wrap) simp_all
  then have "base + of_nat (16 * i) \<noteq> 0"
    using \<open>0 < unat base\<close> by (metis add_is_0 less_numeral_extra(3) unat_0)
  then show ?thesis by (simp add: slot_def sizeof_XhciTrb_t_def ac_simps)
qed

lemma ucast_rcs: "(ucast (of_bool b :: u8) :: trb) = of_bool b"
  by (cases b) simp_all

lemma hasUnprocessedEvents_valid:
  assumes "er_at r c"
  shows "hasUnprocessedEvents r m \<longleftrightarrow>
    er_valid (er_primarySegmentRing r) (unat (er_segmentTrbCount r)) m c"
  using assms by (simp add: hasUnprocessedEvents_def er_valid_def er_at_def Let_def slot_unat ucast_rcs)

lemma dequeueTrb_valid:
  assumes r: "er_at r c" and v: "er_valid (er_primarySegmentRing r) (unat (er_segmentTrbCount r)) m c"
  obtains r' where "dequeueTrb r m = (slot (er_primarySegmentRing r) (c mod unat (er_segmentTrbCount r)), r')"
    "er_at r' (Suc c)" "er_primarySegmentRing r' = er_primarySegmentRing r"
    "er_segmentTrbCount r' = er_segmentTrbCount r" "er_interrupterRegs r' = er_interrupterRegs r"
    "er_primarySegmentPhysicalBase r' = er_primarySegmentPhysicalBase r"
proof -
  let ?N = "unat (er_segmentTrbCount r)"
  have N: "0 < ?N" "unat (er_dequeuePtr r) = c mod ?N" "er_rcsBit r = of_bool (even (c div ?N))"
    "er_primarySegmentRing r \<noteq> 0" "unat (er_primarySegmentRing r) + 16 * ?N \<le> 2 ^ 64"
    using r by (auto simp: er_at_def Let_def)
  have d: "unat (er_dequeuePtr r + 1) = Suc (c mod ?N)"
    using unat_inc [of "er_dequeuePtr r" "er_segmentTrbCount r"] N by (simp add: word_less_nat_alt)
  have wrap: "er_dequeuePtr r + 1 = er_segmentTrbCount r \<longleftrightarrow> Suc (c mod ?N) = ?N"
    using d by (metis word_unat_eq_iff)
  obtain t r' where q: "dequeueTrb r m = (t, r')" by fastforce
  have t: "t = slot (er_primarySegmentRing r) (c mod ?N)"
    using q v N by (auto simp: dequeueTrb_def er_valid_def Let_def slot_unat ucast_rcs split: if_splits)
  have r': "r' = (if Suc (c mod ?N) = ?N
      then r\<lparr>er_dequeuePtr := 0, er_rcsBit := of_bool (er_rcsBit r = 0)\<rparr>
      else r\<lparr>er_dequeuePtr := er_dequeuePtr r + 1\<rparr>)"
    using q v N unfolding wrap [symmetric]
    by (auto simp: dequeueTrb_def er_valid_def Let_def slot_unat ucast_rcs split: if_splits)
  have "er_at r' (Suc c)"
    using N d by (auto simp: r' er_at_def Let_def div_mod_Suc)
  then show thesis
    using q t by (intro that [of r']) (auto simp: r')
qed

text \<open>With the memory fixed, at most one round of events is taken.\<close>

lemma dequeue_loop_drains:
  assumes "er_at r (c + j)" "j \<le> unat (er_segmentTrbCount r)"
    and "\<And>i. i < j \<Longrightarrow> er_valid (er_primarySegmentRing r) (unat (er_segmentTrbCount r)) m (c + i)"
  shows "\<exists>k r'. j \<le> k \<and> k \<le> unat (er_segmentTrbCount r) \<and>
    dequeue_loop m r evs = Some (r', evs @ map (\<lambda>i. slot (er_primarySegmentRing r)
      ((c + i) mod unat (er_segmentTrbCount r))) [j..<k]) \<and>
    flush_loop m r = Some r' \<and> er_at r' (c + k) \<and> er_interrupterRegs r' = er_interrupterRegs r \<and>
    er_primarySegmentPhysicalBase r' = er_primarySegmentPhysicalBase r \<and>
    er_segmentTrbCount r' = er_segmentTrbCount r \<and>
    (\<forall>i < k. er_valid (er_primarySegmentRing r) (unat (er_segmentTrbCount r)) m (c + i)) \<and>
    \<not> er_valid (er_primarySegmentRing r) (unat (er_segmentTrbCount r)) m (c + k)"
  using assms
proof (induction "unat (er_segmentTrbCount r) - j" arbitrary: j r evs rule: less_induct)
  case less
  let ?N = "unat (er_segmentTrbCount r)" and ?b = "er_primarySegmentRing r"
  note un = hasUnprocessedEvents_valid [OF less.prems(1), of m]
  show ?case
  proof (cases "er_valid ?b ?N m (c + j)")
    case False
    then have "dequeue_loop m r evs = Some (r, evs)" "flush_loop m r = Some r"
      using un by (simp_all add: dequeue_loop.simps [of m r] flush_loop.simps [of m r])
    then show ?thesis
      using False less.prems by (intro exI [of _ j] exI [of _ r]) simp
  next
    case True
    have N: "0 < ?N" "?b \<noteq> 0" "unat ?b + 16 * ?N \<le> 2 ^ 64"
      using less.prems(1) by (auto simp: er_at_def Let_def)
    have jN: "j < ?N"
      using er_valid_next_round [OF N(1), of ?b m c] True less.prems(2,3) N(1)
      by (metis add.right_neutral le_neq_implies_less)
    obtain r1 where r1: "dequeueTrb r m = (slot ?b ((c + j) mod ?N), r1)" "er_at r1 (Suc (c + j))"
      "er_primarySegmentRing r1 = ?b" "er_segmentTrbCount r1 = er_segmentTrbCount r"
      "er_interrupterRegs r1 = er_interrupterRegs r"
      "er_primarySegmentPhysicalBase r1 = er_primarySegmentPhysicalBase r"
      by (rule dequeueTrb_valid [OF less.prems(1) True])
    have nz: "slot ?b ((c + j) mod ?N) \<noteq> 0"
      by (rule slot_nonzero [OF N(2,3)]) (use N(1) in simp)
    have v: "er_valid ?b ?N m (c + i)" if "i < Suc j" for i
      using that True less.prems(3) by (cases "i = j") auto
    obtain k r' where k: "Suc j \<le> k" "k \<le> ?N"
      "dequeue_loop m r1 (evs @ [slot ?b ((c + j) mod ?N)]) = Some (r', (evs @ [slot ?b ((c + j) mod ?N)]) @
         map (\<lambda>i. slot ?b ((c + i) mod ?N)) [Suc j..<k])"
      "flush_loop m r1 = Some r'" "er_at r' (c + k)"
      "er_interrupterRegs r' = er_interrupterRegs r"
      "er_primarySegmentPhysicalBase r' = er_primarySegmentPhysicalBase r"
      "er_segmentTrbCount r' = er_segmentTrbCount r"
      "\<forall>i < k. er_valid ?b ?N m (c + i)" "\<not> er_valid ?b ?N m (c + k)"
      using less.hyps [of r1 "Suc j" "evs @ [slot ?b ((c + j) mod ?N)]"] r1 jN v
        diff_less_mono2 [OF lessI jN] by auto
    have "[j..<k] = j # [Suc j..<k]" using k(1) by (simp add: upt_conv_Cons)
    moreover have "dequeue_loop m r evs = dequeue_loop m r1 (evs @ [slot ?b ((c + j) mod ?N)])"
      "flush_loop m r = flush_loop m r1"
      using un True r1(1) nz by (simp_all add: dequeue_loop.simps [of m r] flush_loop.simps [of m r])
    ultimately show ?thesis
      using k by (intro exI [of _ k] exI [of _ r']) simp
  qed
qed

section \<open>Allocated memory\<close>

lemma align_up:
  fixes x :: nat
  shows "x \<le> x + (2 ^ b - 1) - (x + (2 ^ b - 1)) mod 2 ^ b"
    and "x + (2 ^ b - 1) - (x + (2 ^ b - 1)) mod 2 ^ b \<le> x + (2 ^ b - 1)"
    and "2 ^ b dvd x + (2 ^ b - 1) - (x + (2 ^ b - 1)) mod 2 ^ b"
proof -
  have "(x + (2 ^ b - 1)) mod 2 ^ b < 2 ^ b" by simp
  then show "x \<le> x + (2 ^ b - 1) - (x + (2 ^ b - 1)) mod 2 ^ b" by linarith
  show "x + (2 ^ b - 1) - (x + (2 ^ b - 1)) mod 2 ^ b \<le> x + (2 ^ b - 1)" by simp
  show "2 ^ b dvd x + (2 ^ b - 1) - (x + (2 ^ b - 1)) mod 2 ^ b" by (rule dvd_minus_mod)
qed

text \<open>Every page of the heap, which ends \<open>n\<close> bytes behind its start, is mapped.\<close>

definition heap_mapped :: "'d xenv \<Rightarrow> nat \<Rightarrow> bool" where
  "heap_mapped e n \<longleftrightarrow>
    (let base = unat (m_firstSegment (xheap e))
     in \<forall>a. base \<le> unat a \<and> unat a < base + n \<longrightarrow> getPteForAddr (xpages e) a (xroot e) \<noteq> 0)"

lemma spec_allocate_total:
  assumes "spec_allocate k bs = Some (off, bs')"
  shows "total bs' = total bs"
proof -
  obtain xs n ys where f: "first_fit (k + 64) bs = Some (xs, n, ys)"
      and "\<not> n < k + 66" "bs' = xs @ (k + 32, False) # (n - (k + 32), True) # ys"
    using assms by (auto simp: spec_allocate_def split: option.splits if_splits)
  then show ?thesis using first_fit_Some [OF f] by simp
qed

lemma allocXhciMemory_block:
  assumes wf: "heap_wf (xheap e) bs" and mp: "heap_mapped e (total bs)"
    and k: "0 < k" "k + 2 ^ b + 2 ^ j + 72 < (2 ^ 64 :: nat)"
    and s: "spec_allocate (k + (2 ^ b - 1) + 2 ^ j + 8) bs = Some (off, bs')"
  obtains a e' xs ys where "allocXhciMemory (of_nat k) (2 ^ j) (2 ^ b) e = Some (a, e')"
    "2 ^ b dvd unat a" "bs' = xs @ (k + (2 ^ b - 1) + 2 ^ j + 40, False) # ys" "off = total xs + 32"
    "unat (m_firstSegment (xheap e)) + off + 8 < unat a"
    "unat a + k \<le> unat (m_firstSegment (xheap e)) + off + (k + (2 ^ b - 1) + 2 ^ j + 8)"
    "heap_wf (xheap e') bs'" "m_firstSegment (xheap e') = m_firstSegment (xheap e)"
    "va_off (xpages e') = va_off (xpages e)" "xroot e' = xroot e" "xdev e' = xdev e"
proof -
  let ?K = "k + (2 ^ b - 1)" and ?base = "m_firstSegment (xheap e)"
  have two: "(1::nat) \<le> 2 ^ b" "(1::nat) \<le> 2 ^ j" by simp_all
  then have K: "?K + 2 ^ j + 72 < 2 ^ 64" using k by linarith
  obtain p h' xs ys where p: "kmallocAligned (xheap e) (of_nat ?K) (2 ^ j) = Some (p, h')"
    "bs' = xs @ (?K + 2 ^ j + 40, False) # ys" "off = total xs + 32"
    "unat (?base + of_nat off) + 8 < unat p"
    "unat p + ?K \<le> unat (?base + of_nat off) + (?K + 2 ^ j + 8)"
    "heap_wf h' bs'" "m_firstSegment h' = ?base"
    by (rule kmallocAligned_block [OF wf K s])
  have ok: "unat ?base + total bs' < 2 ^ 64"
    using p(6,7) by (auto simp: heap_wf_def blocks_ok_def)
  then have off: "unat (?base + of_nat off) = unat ?base + off"
    using p(2,3) by (intro unat_offset) simp
  have pnz: "p \<noteq> 0" using p(4) by auto
  have b64: "b < 64"
  proof (rule ccontr)
    assume "\<not> b < 64"
    then have "(2 ^ 64 :: nat) \<le> 2 ^ b" by (intro power_increasing) simp_all
    then show False using k by linarith
  qed
  have m: "(2 ^ b :: u64) - 1 = mask b" "unat (2 ^ b - 1 :: u64) = 2 ^ b - 1"
    using b64 k(2) unat64_of_nat [of "2 ^ b"] by (simp_all add: mask_eq_exp_minus_1 unat_pred)
  define a where "a = (p + (2 ^ b - 1)) AND NOT (mask b)"
  have "unat (p + (2 ^ b - 1)) = unat p + (2 ^ b - 1)"
    using p(2,3,5) ok off m(2) by (subst unat_add_no_wrap) simp_all
  then have a: "unat a = unat p + (2 ^ b - 1) - (unat p + (2 ^ b - 1)) mod 2 ^ b"
    by (simp add: a_def unat_and_not_mask)
  note al = align_up [where x = "unat p" and b = b, folded a]
  have tot: "total bs' = total bs"
    using spec_allocate_total [OF s] by simp
  have "getPteForAddr (xpages e) a (xroot e) \<noteq> 0"
    using mp al(1,2) p(2,3,4,5) off k(1) tot unfolding heap_mapped_def Let_def
    by (elim allE [of _ a] impE) auto
  then obtain pg where pg: "markPageUncacheable a (xroot e) (xpages e) = Some pg" "va_off pg = va_off (xpages e)"
    by (auto simp: markPageUncacheable_def update_pte_def Let_def)
  have "(of_nat k + 2 ^ b - 1 :: u64) = of_nat ?K"
    using two of_nat_diff [of 1 "2 ^ b", where 'a = u64] by (simp only: of_nat_add) simp
  moreover have "(p + 2 ^ b - 1) AND NOT (2 ^ b - 1) = a"
    by (simp add: a_def m(1) [symmetric] add_diff_eq)
  ultimately have "allocXhciMemory (of_nat k) (2 ^ j) (2 ^ b) e = Some (a, e\<lparr>xheap := h', xpages := pg\<rparr>)"
    using p(1) pg pnz by (simp add: allocXhciMemory_def Let_def)
  then show thesis
    using al p off pg by (intro that [of a "e\<lparr>xheap := h', xpages := pg\<rparr>" xs ys]) auto
qed

section \<open>Fresh rings\<close>

lemma zeroed_trb:
  assumes "unat n = 16 * N" "i < N"
  shows "(ld (zeromem m base n) (slot base i) :: trb) = 0"
proof -
  have "zeromem m base n (slot base i + of_nat b) = 0" if "b < 16" for b
  proof -
    have lt: "16 * i + b < unat n" using assms that by linarith
    then have "unat (slot base i + of_nat b - base) < unat n"
      using unat_lt64 [of n] by (subst slot_byte) simp_all
    then show ?thesis by (simp add: zeromem_def memset_fills setn_def)
  qed
  then have "(ld (zeromem m base n) (slot base i) :: trb) = ld (\<lambda>_. 0) (slot base i)"
    by (intro ld_cong) simp
  also have "\<dots> = 0"
    by (rule bit_word_eqI) (simp add: ld_def bit_load_bytes)
  finally show ?thesis .
qed

lemma slot_255: "base + 255 * sizeof_XhciTrb_t = slot base 255"
  by (simp add: slot_def)

lemma fresh_link:
  "(ld (upd_trb f (base + 255 * sizeof_XhciTrb_t) (zeromem m base (256 * sizeof_XhciTrb_t))) (slot base 255) :: trb)
    = f 0"
proof -
  have "unat (256 * sizeof_XhciTrb_t) = 16 * 256" by (simp add: sizeof_XhciTrb_t_def)
  then show ?thesis
    unfolding slot_255 upd_trb_def using zeroed_trb [of _ 256 255 m base] by simp
qed

lemma XhciCommandRing_fresh:
  assumes "XhciCommandRing 256 e = Some (r, e1)"
  shows "ring_rep (cr_trbRing r) 255 (cr_enqueuePtr r) (cr_rcsBit r) (xmem e1) []"
    "unat (cr_maxTrbCount r) = 255 + 1"
    "ld (xmem e1) (slot (cr_trbRing r) 255) = link_trb (cr_physicalRingBase r) 1 0"
  using assms fresh_link
  by (auto simp: XhciCommandRing_def Let_def ring_rep_def XHCI_CRCR_RING_CYCLE_STATE_def split: bind_splits)

lemma XhciTransferRing_fresh:
  assumes "XhciTransferRing 256 d e = Some (r, e1)"
  shows "ring_rep (tr_trbRing r) 255 (tr_enqueuePtr r) (tr_dcsBit r) (xmem e1) []"
    "unat (tr_maxTrbCount r) = 255 + 1"
    "ld (xmem e1) (slot (tr_trbRing r) 255) = link_trb (tr_physicalRingBase r) 1 0"
  using assms fresh_link
  by (auto simp: XhciTransferRing_def Let_def ring_rep_def split: bind_splits)

lemma link_slot_kept:
  assumes "\<forall>x. 16 * 255 \<le> unat (x - base) \<longrightarrow> m' x = m x"
  shows "(ld m' (slot base 255) :: trb) = ld m (slot base 255)"
proof (rule ld_cong)
  fix i
  assume "i < LENGTH(128) div 8"
  then have "16 * 255 \<le> unat (slot base 255 + of_nat i - base)"
    by (subst slot_byte) simp_all
  then show "m' (slot base 255 + of_nat i) = m (slot base 255 + of_nat i)"
    using assms by blast
qed

lemma link_trb_control: "trb_control (link_trb p 1 t) = 0x1801"
proof -
  have "trb_control (set_trb_control v t) = v" for v t
    by (rule bit_word_eqI) (auto simp: trb_control_def set_trb_control_def bit_simps bf_simps)
  then show ?thesis by (simp add: link_trb_def XHCI_TRB_TYPE_LINK_def)
qed

section \<open>A concrete environment\<close>

text \<open>A heap of 256 KiB, and page tables in which every entry is present.\<close>

definition heap_256k :: kheap where
  "heap_256k = snd (heap_init (\<lambda>_ _ p. p) 0x200000 0x40000 ()
     \<lparr>m_heapSize = 0, m_firstSegment = 0, kheap_lock = 0, ram = (\<lambda>_. 0)\<rparr>)"

definition all_present :: pfa where
  "all_present = (pfa_zero 16)\<lparr>va_off := 0, vram := (\<lambda>_. 0xff)\<rparr>"

definition xenv1 :: "unit xenv" where
  "xenv1 = \<lparr>xheap = heap_256k, xpages = all_present, xroot = 0, xdev = ()\<rparr>"

lemma heap_256k_wf: "heap_wf heap_256k [(0x40000, True)]"
  by (simp add: heap_256k_def heap_wf_def heap_init_def Let_def blocks_ok_def hdr_def seg_simps)

lemma heap_256k_base: "m_firstSegment heap_256k = 0x200000"
  by (simp add: heap_256k_def heap_init_def Let_def)

lemma load64_ones: "load64 (\<lambda>_. 0xff) a = - 1"
proof (rule bit_word_eqI)
  fix k
  assume "k < LENGTH(64)"
  have e: "(0xff :: u8) = - 1" by simp
  have "bit (0xff :: u8) (k mod 8)" unfolding e by (simp add: bit_minus_1_iff)
  with \<open>k < LENGTH(64)\<close> show "bit (load64 (\<lambda>_. 0xff) a) k = bit (- 1 :: u64) k"
    by (simp add: bit_load64)
qed

lemma all_present_mapped: "getPteForAddr all_present a 0 \<noteq> 0"
proof -
  have f: "pte_present (- 1) = 1" "pte_pageFrameNumber (- 1) = 0xfffffffff"
    by (simp_all add: pte_present_def pte_pageFrameNumber_def bf_get_def take_bit_minus_one_eq_mask
        drop_bit_minus_one mask_eq_exp_minus_1 take_bit_eq_mask)
  let ?i = "drop_bit 12 a AND 0x1ff"
  have i: "unat ?i \<le> 0x1ff"
    using word_and_le1 [of "drop_bit 12 a" "0x1ff"] by (simp add: word_le_nat_alt)
  have "unat (8 * ?i) = 8 * unat ?i"
    using i by (simp add: unat_word_ariths)
  then have "unat (0xfffffffff000 + 8 * ?i) = 0xfffffffff000 + 8 * unat ?i"
    using i by (subst unat_add_no_wrap) simp_all
  then have "0xfffffffff000 + 8 * ?i \<noteq> 0"
    by (metis add_is_0 unat_0 zero_neq_numeral)
  with f show ?thesis
    by (simp add: getPteForAddr_def all_present_def Let_def load64_ones getNextLevelPageTable_def
        getPteFromPageTable_def physToVirtAddr_def)
qed

lemma xenv1_wf: "heap_wf (xheap xenv1) [(0x40000, True)]" "heap_mapped xenv1 (total [(0x40000, True)])"
  using heap_256k_wf all_present_mapped by (simp_all add: xenv1_def heap_mapped_def Let_def)

lemma xenv1_alloc:
  assumes "0 < k" "k \<le> 0x1000" "j \<le> 6"
  obtains a e' where "allocXhciMemory (of_nat k) (2 ^ j) (2 ^ 16) xenv1 = Some (a, e')"
proof -
  have "(2::nat) ^ j \<le> 2 ^ 6" using assms(3) by (intro power_increasing) simp_all
  then have j: "(2::nat) ^ j \<le> 64" by simp
  have s: "spec_allocate (k + (2 ^ 16 - 1) + 2 ^ j + 8) [(0x40000, True)] =
      Some (32, [(k + (2 ^ 16 - 1) + 2 ^ j + 40, False), (0x40000 - (k + (2 ^ 16 - 1) + 2 ^ j + 40), True)])"
    using assms j by (simp add: spec_allocate_def)
  show thesis
    by (rule allocXhciMemory_block [OF xenv1_wf assms(1) _ s]) (use assms j that in auto)
qed

lemma xenv1_ring:
  obtains r e1 where "XhciCommandRing 256 xenv1 = Some (r, e1)"
proof -
  obtain a e' where a: "allocXhciMemory (of_nat 4096) (2 ^ 6) (2 ^ 16) xenv1 = Some (a, e')"
    by (rule xenv1_alloc [of 4096 6]) simp_all
  then have "allocXhciMemory 4096 64 65536 xenv1 = Some (a, e')" by simp
  then show thesis
    by (intro that) (simp add: XhciCommandRing_def sizeof_XhciTrb_t_def
        XHCI_COMMAND_RING_SEGMENTS_ALIGNMENT_def XHCI_COMMAND_RING_SEGMENTS_BOUNDARY_def Let_def)
qed

section \<open>Properties of the rings\<close>



text \<open>
  C12: the command ring as a queue. After any sequence of \<open>enqueue\<close> calls on a new ring of 256
  TRBs, the last 255 commands stand in their slots in order with the cycle bit of their round,
  index and cycle bit follow from their number, and the link TRB in the last slot is as the
  constructor wrote it.
\<close>

theorem command_ring_refines:
  assumes "XhciCommandRing 256 e = Some (r, e1)"
    and "enqueue_all commandRing_enqueue us (r, xmem e1) = (r', m')"
  shows "ring_rep (cr_trbRing r) 255 (cr_enqueuePtr r') (cr_rcsBit r') m' us \<and>
    ld m' (slot (cr_trbRing r) 255) = link_trb (cr_physicalRingBase r) 1 0"
  using cmdring.enqueue_all_rep [OF XhciCommandRing_fresh(1,2) [OF assms(1)] assms(2)]
    XhciCommandRing_fresh(3) [OF assms(1)] link_slot_kept [of "cr_trbRing r" m' "xmem e1"] by auto

theorem command_ring_refines_witness:
  "\<exists>r e1 r' m'. XhciCommandRing 256 xenv1 = Some (r, e1) \<and>
    enqueue_all commandRing_enqueue [XHCI_CONSTRUCT_CMD_TRB 9] (r, xmem e1) = (r', m') \<and>
    ld m' (cr_trbRing r) = with_cycle True (XHCI_CONSTRUCT_CMD_TRB 9)"
proof -
  obtain r e1 where r: "XhciCommandRing 256 xenv1 = Some (r, e1)" by (rule xenv1_ring)
  obtain r' m' where e: "enqueue_all commandRing_enqueue [XHCI_CONSTRUCT_CMD_TRB 9] (r, xmem e1) = (r', m')"
    by fastforce
  show ?thesis
    using command_ring_refines [OF r e] r e by (auto simp: ring_rep_def slot_def)
qed

text \<open>
  the link TRB of the command ring does not carry the cycle bit over. When the ring has
  wrapped once, \<open>enqueue\<close> writes commands with cycle bit 0, while the link TRB, which should make
  the controller expect the other cycle bit, still has its toggle-cycle bit clear and its own
  cycle bit 1.
\<close>

theorem command_ring_link_no_toggle:
  assumes "XhciCommandRing 256 e = Some (r, e1)"
    and "enqueue_all commandRing_enqueue us (r, xmem e1) = (r', m')" and "length us = 255"
  shows "cr_enqueuePtr r' = 0 \<and> cr_rcsBit r' = 0 \<and>
    trb_control (ld m' (slot (cr_trbRing r) 255)) AND XHCI_TRB_TOGGLE_CYCLE = 0 \<and>
    trb_control (ld m' (slot (cr_trbRing r) 255)) AND XHCI_TRB_CYCLE_BIT = 1"
proof -
  have "ring_rep (cr_trbRing r) 255 (cr_enqueuePtr r') (cr_rcsBit r') m' us"
    "ld m' (slot (cr_trbRing r) 255) = link_trb (cr_physicalRingBase r) 1 0"
    using cmdring.enqueue_all_rep [OF XhciCommandRing_fresh(1,2) [OF assms(1)] assms(2)]
      XhciCommandRing_fresh(3) [OF assms(1)] link_slot_kept [of "cr_trbRing r" m' "xmem e1"] by auto
  then show ?thesis
    using assms(3) by (simp add: ring_rep_def link_trb_control XHCI_TRB_TOGGLE_CYCLE_def
        XHCI_TRB_CYCLE_BIT_def unat_eq_0)
qed

theorem command_ring_link_no_toggle_witness:
  "\<exists>r e1 r' m'. XhciCommandRing 256 xenv1 = Some (r, e1) \<and>
    enqueue_all commandRing_enqueue (replicate 255 0) (r, xmem e1) = (r', m') \<and> cr_rcsBit r' = 0"
proof -
  obtain r e1 where r: "XhciCommandRing 256 xenv1 = Some (r, e1)" by (rule xenv1_ring)
  obtain r' m' where e: "enqueue_all commandRing_enqueue (replicate 255 0) (r, xmem e1) = (r', m')"
    by fastforce
  show ?thesis
    using command_ring_link_no_toggle [OF r e] r e by auto
qed

text \<open>
  C13: reading the event ring ends. Whatever the memory holds, \<open>dequeueEvents\<close> returns after at
  most one round: it takes exactly the events whose cycle bits say that they are new, in order,
  stops at the first that is not, and writes the physical address of that slot to the
  controller's dequeue pointer register.
\<close>

theorem event_ring_drains:
  assumes "er_at r c"
  defines "N \<equiv> unat (er_segmentTrbCount r)" and "base \<equiv> er_primarySegmentRing r"
  shows "\<exists>k r'. k \<le> N \<and> er_at r' (c + k) \<and>
    (\<forall>i < k. er_valid base N (xmem e) (c + i)) \<and> \<not> er_valid base N (xmem e) (c + k) \<and>
    dequeueEvents ctl r evs e = Some (r', evs @ map (\<lambda>i. slot base ((c + i) mod N)) [0..<k],
      mmio_write64 ctl (er_interrupterRegs r + 24)
        (er_primarySegmentPhysicalBase r + of_nat (16 * ((c + k) mod N))) e)"
proof -
  obtain k r' where k: "k \<le> N" "dequeue_loop (xmem e) r evs = Some (r', evs @ map (\<lambda>i. slot base ((c + i) mod N)) [0..<k])"
    "er_at r' (c + k)" "er_interrupterRegs r' = er_interrupterRegs r"
    "er_primarySegmentPhysicalBase r' = er_primarySegmentPhysicalBase r"
    "er_segmentTrbCount r' = er_segmentTrbCount r"
    "\<forall>i < k. er_valid base N (xmem e) (c + i)" "\<not> er_valid base N (xmem e) (c + k)"
    using dequeue_loop_drains [of r c 0 "xmem e" evs] assms(1) unfolding N_def base_def by auto
  have "er_dequeuePtr r' = of_nat ((c + k) mod N)"
    using k(3,6) by (metis N_def er_at_def u64_of_nat_unat)
  then have d: "er_dequeuePtr r' * sizeof_XhciTrb_t = of_nat (16 * ((c + k) mod N))"
    by (simp add: sizeof_XhciTrb_t_def)
  have "ir_off ''dequeueErstSegmentIndex'' = 24"
    by (simp add: offsetof_def XhciInterrupterRegisters_def)
  then show ?thesis
    using k d by (intro exI [of _ k] exI [of _ r'])
      (simp add: dequeueEvents_def updateErdpInterrupterRegister_def Let_def del: of_nat_mult)
qed

definition idle_controller :: "unit controller" where
  "idle_controller = \<lparr>dev_read8 = (\<lambda>a w. (0, w)), dev_read32 = (\<lambda>a w. (0, w)), dev_read64 = (\<lambda>a w. (0, w)),
     dev_write32 = (\<lambda>a v w. w), dev_write64 = (\<lambda>a v w. w), dev_elapse = (\<lambda>t w. w)\<rparr>"

definition event_ring1 :: EventRing where
  "event_ring1 = \<lparr>er_interrupterRegs = 0xfe000020, er_segmentTrbCount = 256,
     er_primarySegmentRing = 0x210000, er_primarySegmentPhysicalBase = 0x210000,
     er_segmentTable = 0x220000, er_segmentTablePhysicalBase = 0x220000, er_dequeuePtr = 0,
     er_rcsBit = 1\<rparr>"

theorem event_ring_drains_witness:
  "\<exists>k r'. k \<le> 256 \<and> er_at r' k \<and>
    dequeueEvents idle_controller event_ring1 [] xenv1 = Some (r', map (\<lambda>i. slot 0x210000 (i mod 256)) [0..<k],
      mmio_write64 idle_controller 0xfe000038 (0x210000 + of_nat (16 * (k mod 256))) xenv1)"
proof -
  have "er_at event_ring1 0" by (simp add: er_at_def event_ring1_def)
  from event_ring_drains [OF this, of xenv1 idle_controller "[]"] show ?thesis
    by (auto simp: event_ring1_def)
qed

end
