(* ===== verification/Xhci.thy ===== *)
theory Xhci
  imports XhciRings
begin

text \<open>
  The operations of the USB host controller driver, \<^verbatim>\<open>XhciDriver\<close> in
  \<^verbatim>\<open>kernel/src/drivers/usb/xhci.cpp\<close>: parsing the capabilities, setting up and resetting the
  controller and its ports, commands, device slots, control transfers, port status events and
  the event loop. Every access to a register of the controller, in the order of the code, is a
  call of the controller parameter; messages to the console are left out. \<open>None\<close> is a fault (a null
  object, an unmapped page), a failed allocation or a wait that never ends.
\<close>

section \<open>The driver object\<close>

record XhciDriver =
  m_xhcBase :: u64
  m_capRegs :: u64
  m_opRegs :: u64
  m_capabilityRegsLength :: u8
  m_maxDeviceSlots :: u8
  m_maxInterrupters :: u8
  m_maxPorts :: u8
  m_isochronousSchedulingThreshold :: u8
  m_erstMax :: u8
  m_maxScratchpadBuffers :: u8
  m_64bitAddressingCapability :: bool
  m_bandwidthNegotiationCapability :: bool
  m_64ByteContextSize :: bool
  m_portPowerControl :: bool
  m_portIndicators :: bool
  m_lightResetCapability :: bool
  m_extendedCapabilitiesOffset :: u32
  m_extendedCapabilities :: "(u64 \<times> u32) list"
  m_hcPageSize :: u64
  m_usb3Ports :: "u8 list"
  m_dcbaa :: u64
  m_runtimeBase :: u64
  m_runtimeMaxInterrupters :: u8
  m_commandRing :: "CommandRing option"
  m_eventRing :: "EventRing option"
  m_doorbellRegisters :: u64

abbreviation cap_off :: "string \<Rightarrow> u64" where
  "cap_off f \<equiv> offsetof XhciCapabilityRegisters f"

abbreviation op_off :: "string \<Rightarrow> u64" where
  "op_off f \<equiv> offsetof XhciOperationalRegisters f"

text \<open>A macro applied to a capability register reads the register.\<close>

definition read_cap :: "'d controller \<Rightarrow> XhciDriver \<Rightarrow> string \<Rightarrow> 'd xenv \<Rightarrow> u32 \<times> 'd xenv" where
  "read_cap c d f e = mmio_read32 c (m_capRegs d + cap_off f) e"

section \<open>Register managers\<close>

definition getInterrupterRegisters :: "XhciDriver \<Rightarrow> u8 \<Rightarrow> u64" where
  "getInterrupterRegisters d interrupter =
    (if m_runtimeMaxInterrupters d < interrupter then 0
     else m_runtimeBase d + 32 + ucast interrupter * 32)"

definition ringDoorbell :: "'d controller \<Rightarrow> XhciDriver \<Rightarrow> u8 \<Rightarrow> u8 \<Rightarrow> 'd xenv \<Rightarrow> 'd xenv" where
  "ringDoorbell c d doorbell target e =
    mmio_write32 c (m_doorbellRegisters d + ucast doorbell * 4) (ucast target) e"

definition ringCommandDoorbell :: "'d controller \<Rightarrow> XhciDriver \<Rightarrow> 'd xenv \<Rightarrow> 'd xenv" where
  "ringCommandDoorbell c d e = ringDoorbell c d 0 0 e"

definition ringControlEndpointDoorbell ::
  "'d controller \<Rightarrow> XhciDriver \<Rightarrow> u8 \<Rightarrow> 'd xenv \<Rightarrow> 'd xenv" where
  "ringControlEndpointDoorbell c d doorbell e = ringDoorbell c d doorbell 1 e"

text \<open>The port registers, by the base address of the port's register set.\<close>

definition getPortRegisterSet :: "XhciDriver \<Rightarrow> u8 \<Rightarrow> u64" where
  "getPortRegisterSet d portNum = m_opRegs d + (0x400 + 0x10 * ucast portNum)"

definition readPortscReg :: "'d controller \<Rightarrow> u64 \<Rightarrow> 'd xenv \<Rightarrow> u32 \<times> 'd xenv" where
  "readPortscReg c base e = mmio_read32 c (base + 0x00) e"

definition writePortscReg :: "'d controller \<Rightarrow> u64 \<Rightarrow> u32 \<Rightarrow> 'd xenv \<Rightarrow> 'd xenv" where
  "writePortscReg c base reg e = mmio_write32 c (base + 0x00) reg e"

definition readPortpmscRegUsb2 :: "'d controller \<Rightarrow> u64 \<Rightarrow> 'd xenv \<Rightarrow> u32 \<times> 'd xenv" where
  "readPortpmscRegUsb2 c base e = mmio_read32 c (base + 0x04) e"

definition writePortpmscRegUsb2 :: "'d controller \<Rightarrow> u64 \<Rightarrow> u32 \<Rightarrow> 'd xenv \<Rightarrow> 'd xenv" where
  "writePortpmscRegUsb2 c base reg e = mmio_write32 c (base + 0x04) reg e"

definition readPortpmscRegUsb3 :: "'d controller \<Rightarrow> u64 \<Rightarrow> 'd xenv \<Rightarrow> u32 \<times> 'd xenv" where
  "readPortpmscRegUsb3 c base e = mmio_read32 c (base + 0x04) e"

definition writePortpmscRegUsb3 :: "'d controller \<Rightarrow> u64 \<Rightarrow> u32 \<Rightarrow> 'd xenv \<Rightarrow> 'd xenv" where
  "writePortpmscRegUsb3 c base reg e = mmio_write32 c (base + 0x04) reg e"

definition readPortliReg :: "'d controller \<Rightarrow> u64 \<Rightarrow> 'd xenv \<Rightarrow> u32 \<times> 'd xenv" where
  "readPortliReg c base e = mmio_read32 c (base + 0x08) e"

definition writePortliReg :: "'d controller \<Rightarrow> u64 \<Rightarrow> u32 \<Rightarrow> 'd xenv \<Rightarrow> 'd xenv" where
  "writePortliReg c base reg e = mmio_write32 c (base + 0x08) reg e"

definition readPorthlpmcRegUsb2 :: "'d controller \<Rightarrow> u64 \<Rightarrow> 'd xenv \<Rightarrow> u32 \<times> 'd xenv" where
  "readPorthlpmcRegUsb2 c base e = mmio_read32 c (base + 0x0C) e"

definition writePorthlpmcRegUsb2 :: "'d controller \<Rightarrow> u64 \<Rightarrow> u32 \<Rightarrow> 'd xenv \<Rightarrow> 'd xenv" where
  "writePorthlpmcRegUsb2 c base reg e = mmio_write32 c (base + 0x0C) reg e"

definition readPorthlpmcRegUsb3 :: "'d controller \<Rightarrow> u64 \<Rightarrow> 'd xenv \<Rightarrow> u32 \<times> 'd xenv" where
  "readPorthlpmcRegUsb3 c base e = mmio_read32 c (base + 0x0C) e"

definition writePorthlpmcRegUsb3 :: "'d controller \<Rightarrow> u64 \<Rightarrow> u32 \<Rightarrow> 'd xenv \<Rightarrow> 'd xenv" where
  "writePorthlpmcRegUsb3 c base reg e = mmio_write32 c (base + 0x0C) reg e"

section \<open>Capabilities\<close>

definition parseCapabilityRegisters ::
  "'d controller \<Rightarrow> XhciDriver \<Rightarrow> 'd xenv \<Rightarrow> XhciDriver \<times> 'd xenv" where
  "parseCapabilityRegisters c d e =
    (let d = d\<lparr>m_capRegs := m_xhcBase d\<rparr>;
         (caplength, e) = mmio_read8 c (m_capRegs d + cap_off ''caplength'') e;
         d = d\<lparr>m_capabilityRegsLength := caplength\<rparr>;
         (r, e) = read_cap c d ''hcsparams1'' e;
         d = d\<lparr>m_maxDeviceSlots := ucast (XHCI_MAX_DEVICE_SLOTS r)\<rparr>;
         (r, e) = read_cap c d ''hcsparams1'' e;
         d = d\<lparr>m_maxInterrupters := ucast (XHCI_MAX_INTERRUPTERS r)\<rparr>;
         (r, e) = read_cap c d ''hcsparams1'' e;
         d = d\<lparr>m_maxPorts := ucast (XHCI_MAX_PORTS r)\<rparr>;
         (r, e) = read_cap c d ''hcsparams2'' e;
         d = d\<lparr>m_isochronousSchedulingThreshold := ucast (XHCI_IST r)\<rparr>;
         (r, e) = read_cap c d ''hcsparams2'' e;
         d = d\<lparr>m_erstMax := ucast (XHCI_ERST_MAX r)\<rparr>;
         (hi, e) = read_cap c d ''hcsparams2'' e;
         (lo, e) = read_cap c d ''hcsparams2'' e;
         d = d\<lparr>m_maxScratchpadBuffers :=
           ucast (push_bit 5 (XHCI_MAX_SCRATCHPAD_BUFS_HI hi) OR XHCI_MAX_SCRATCHPAD_BUFS_LO lo)\<rparr>;
         (r, e) = read_cap c d ''hccparams1'' e;
         d = d\<lparr>m_64bitAddressingCapability := XHCI_AC64 r \<noteq> 0\<rparr>;
         (r, e) = read_cap c d ''hccparams1'' e;
         d = d\<lparr>m_bandwidthNegotiationCapability := XHCI_BNC r \<noteq> 0\<rparr>;
         (r, e) = read_cap c d ''hccparams1'' e;
         d = d\<lparr>m_64ByteContextSize := XHCI_CSZ r \<noteq> 0\<rparr>;
         (r, e) = read_cap c d ''hccparams1'' e;
         d = d\<lparr>m_portPowerControl := XHCI_PPC r \<noteq> 0\<rparr>;
         (r, e) = read_cap c d ''hccparams1'' e;
         d = d\<lparr>m_portIndicators := XHCI_PIND r \<noteq> 0\<rparr>;
         (r, e) = read_cap c d ''hccparams1'' e;
         d = d\<lparr>m_lightResetCapability := XHCI_LHRC r \<noteq> 0\<rparr>;
         (r, e) = read_cap c d ''hccparams1'' e;
         d = d\<lparr>m_extendedCapabilitiesOffset := XHCI_XECP r * 4\<rparr>;
         d = d\<lparr>m_opRegs := m_xhcBase d + ucast (m_capabilityRegsLength d)\<rparr>;
         (r, e) = read_cap c d ''dboff'' e;
         d = d\<lparr>m_doorbellRegisters := m_xhcBase d + ucast r\<rparr>;
         (r, e) = read_cap c d ''rtsoff'' e;
         d = d\<lparr>m_runtimeBase := m_xhcBase d + ucast r, m_runtimeMaxInterrupters := m_maxInterrupters d\<rparr>
     in (d, e))"

text \<open>The list of capabilities from a pointer on: each with its address and its first word.\<close>

partial_function (option) XhciExtendedCapability ::
  "'d controller \<Rightarrow> u64 \<Rightarrow> 'd xenv \<Rightarrow> ((u64 \<times> u32) list \<times> 'd xenv) option" where
  "XhciExtendedCapability c capPtr e =
    (let (entry, e) = mmio_read32 c capPtr e;
         nxt = fget XhciExtendedCapabilityEntry ''next'' entry
     in if nxt \<noteq> 0 then
          do { (xs, e) \<leftarrow> XhciExtendedCapability c (XHCI_NEXT_EXT_CAP_PTR capPtr (ucast nxt)) e;
               Some ((capPtr, entry) # xs, e) }
        else Some ([(capPtr, entry)], e))"

text \<open>\<^verbatim>\<open>for (uint8_t port = firstPort; port <= lastPort; port++)\<close>\<close>

partial_function (option) push_ports :: "u8 \<Rightarrow> u8 \<Rightarrow> u8 list \<Rightarrow> u8 list option" where
  "push_ports port lastPort ports =
    (if port \<le> lastPort then push_ports (port + 1) lastPort (ports @ [port]) else Some ports)"

definition protocol_ports :: "128 word \<Rightarrow> u8 list \<Rightarrow> u8 list option" where
  "protocol_ports cap ports =
    (let firstPort = ucast (fget XhciUsbSupportedProtocolCapability ''compatiblePortOffset'' cap) - 1;
         lastPort = firstPort + ucast (fget XhciUsbSupportedProtocolCapability ''compatiblePortCount'' cap) - 1
     in if fget XhciUsbSupportedProtocolCapability ''majorRevisionVersion'' cap = 3
        then push_ports firstPort lastPort ports else Some ports)"

definition XhciUsbSupportedProtocolCapability_at ::
  "'d controller \<Rightarrow> u64 \<Rightarrow> 'd xenv \<Rightarrow> 128 word \<times> 'd xenv" where
  "XhciUsbSupportedProtocolCapability_at c cap e =
    (let (dword0, e) = mmio_read32 c cap e;
         (dword1, e) = mmio_read32 c (cap + 4) e;
         (dword2, e) = mmio_read32 c (cap + 8) e;
         (dword3, e) = mmio_read32 c (cap + 12) e
     in (bf_set 0 32 (ucast dword0) (bf_set 32 32 (ucast dword1)
          (bf_set 64 32 (ucast dword2) (bf_set 96 32 (ucast dword3) 0))), e))"

fun scan_capabilities ::
  "'d controller \<Rightarrow> (u64 \<times> u32) list \<Rightarrow> u8 list \<Rightarrow> 'd xenv \<Rightarrow> (u8 list \<times> 'd xenv) option" where
  "scan_capabilities c [] ports e = Some (ports, e)"
| "scan_capabilities c ((base, entry) # nodes) ports e =
    (if capability_of (ucast (fget XhciExtendedCapabilityEntry ''id'' entry)) = SupportedProtocol then
       (let (cap, e) = XhciUsbSupportedProtocolCapability_at c base e
        in do { ports \<leftarrow> protocol_ports cap ports; scan_capabilities c nodes ports e })
     else scan_capabilities c nodes ports e)"

definition parseExtendedCapabilityRegisters ::
  "'d controller \<Rightarrow> XhciDriver \<Rightarrow> 'd xenv \<Rightarrow> (XhciDriver \<times> 'd xenv) option" where
  "parseExtendedCapabilityRegisters c d e = do {
     let headCapPtr = m_xhcBase d + ucast (m_extendedCapabilitiesOffset d);
     (nodes, e) \<leftarrow> XhciExtendedCapability c headCapPtr e;
     (ports, e) \<leftarrow> scan_capabilities c nodes (m_usb3Ports d) e;
     Some (d\<lparr>m_extendedCapabilities := nodes, m_usb3Ports := ports\<rparr>, e)
   }"

fun isUSB3Port_in :: "u8 list \<Rightarrow> u8 \<Rightarrow> bool" where
  "isUSB3Port_in [] portNum = False"
| "isUSB3Port_in (p # ps) portNum = (if p = portNum then True else isUSB3Port_in ps portNum)"

definition isUSB3Port :: "XhciDriver \<Rightarrow> u8 \<Rightarrow> bool" where
  "isUSB3Port d portNum = isUSB3Port_in (m_usb3Ports d) portNum"

section \<open>Setting the controller up\<close>

definition XHCI_DEVICE_CONTEXT_ALIGNMENT :: u64 where "XHCI_DEVICE_CONTEXT_ALIGNMENT = 64"
definition XHCI_DEVICE_CONTEXT_BOUNDARY :: u64 where "XHCI_DEVICE_CONTEXT_BOUNDARY = PAGE_SIZE"
definition XHCI_SCRATCHPAD_BUFFERS_ALIGNMENT :: u64 where "XHCI_SCRATCHPAD_BUFFERS_ALIGNMENT = PAGE_SIZE"
definition XHCI_SCRATCHPAD_BUFFERS_BOUNDARY :: u64 where "XHCI_SCRATCHPAD_BUFFERS_BOUNDARY = PAGE_SIZE"

text \<open>One round of the loop over the scratchpad buffers.\<close>

definition add_scratchpad :: "u64 \<Rightarrow> u8 \<Rightarrow> 'd xenv \<Rightarrow> 'd xenv option" where
  "add_scratchpad scratchpadArray i e = do {
     (scratchpad, e) \<leftarrow> allocXhciMemory PAGE_SIZE XHCI_SCRATCHPAD_BUFFERS_ALIGNMENT
       XHCI_SCRATCHPAD_BUFFERS_BOUNDARY e;
     Some (put_xmem (store64 (xpa e scratchpad) (scratchpadArray + ucast i * 8) (xmem e)) e)
   }"

definition setupDcbaa :: "'d controller \<Rightarrow> XhciDriver \<Rightarrow> 'd xenv \<Rightarrow> (XhciDriver \<times> 'd xenv) option" where
  "setupDcbaa c d e = do {
     let contextEntrySize = (if m_64ByteContextSize d then 64 else 32);
     let dcbaaSize = contextEntrySize * (ucast (m_maxDeviceSlots d) + 1);
     (dcbaa, e) \<leftarrow> allocXhciMemory dcbaaSize XHCI_DEVICE_CONTEXT_ALIGNMENT XHCI_DEVICE_CONTEXT_BOUNDARY e;
     let d = d\<lparr>m_dcbaa := dcbaa\<rparr>;
     let e = put_xmem (zeromem (xmem e) dcbaa dcbaaSize) e;
     e \<leftarrow> (if 0 < m_maxScratchpadBuffers d then do {
         (scratchpadArray, e) \<leftarrow> allocXhciMemory (ucast (m_maxScratchpadBuffers d) * 8) 64 PAGE_SIZE e;
         e \<leftarrow> for_up (add_scratchpad scratchpadArray) 0 (m_maxScratchpadBuffers d) e;
         Some (put_xmem (store64 (xpa e scratchpadArray) dcbaa (xmem e)) e)
       } else Some e);
     let e = mmio_write64 c (m_opRegs d + op_off ''dcbaap'') (xpa e dcbaa) e;
     Some (d, e)
   }"

definition configureOperationalRegisters ::
  "'d controller \<Rightarrow> XhciDriver \<Rightarrow> 'd xenv \<Rightarrow> (XhciDriver \<times> 'd xenv) option" where
  "configureOperationalRegisters c d e = do {
     let (pagesize, e) = mmio_read32 c (m_opRegs d + op_off ''pagesize'') e;
     let d = d\<lparr>m_hcPageSize := push_bit 12 (ucast (pagesize AND 0xffff))\<rparr>;
     let e = mmio_write32 c (m_opRegs d + op_off ''dnctrl'') 0xffff e;
     let e = mmio_write32 c (m_opRegs d + op_off ''config'') (ucast (m_maxDeviceSlots d)) e;
     (d, e) \<leftarrow> setupDcbaa c d e;
     (ring, e) \<leftarrow> XhciCommandRing 256 e;
     let d = d\<lparr>m_commandRing := Some ring\<rparr>;
     let e = mmio_write64 c (m_opRegs d + op_off ''crcr'')
       (cr_physicalRingBase ring OR ucast (cr_rcsBit ring)) e;
     Some (d, e)
   }"

text \<open>Both writes are read-modify-write cycles; a null register pointer is a fault.\<close>

definition markXhciInterruptCompleted ::
  "'d controller \<Rightarrow> XhciDriver \<Rightarrow> u8 \<Rightarrow> 'd xenv \<Rightarrow> 'd xenv option" where
  "markXhciInterruptCompleted c d interrupter e =
    (let interrupterRegs = getInterrupterRegisters d interrupter
     in if interrupterRegs = 0 then None
        else
          (let (iman, e) = mmio_read32 c (interrupterRegs + ir_off ''iman'') e;
               e = mmio_write32 c (interrupterRegs + ir_off ''iman'')
                 (iman OR NOT XHCI_IMAN_INTERRUPT_PENDING) e;
               (usbsts, e) = mmio_read32 c (m_opRegs d + op_off ''usbsts'') e;
               e = mmio_write32 c (m_opRegs d + op_off ''usbsts'') (usbsts OR NOT XHCI_USBSTS_EINT) e
           in Some e))"

definition configureRuntimeRegisters ::
  "'d controller \<Rightarrow> XhciDriver \<Rightarrow> 'd xenv \<Rightarrow> (XhciDriver \<times> 'd xenv) option" where
  "configureRuntimeRegisters c d e =
    (let interrupterRegs = getInterrupterRegisters d 0
     in if interrupterRegs = 0 then Some (d, e)
        else do {
          (ring, e) \<leftarrow> XhciEventRing c 256 interrupterRegs e;
          let d = d\<lparr>m_eventRing := Some ring\<rparr>;
          e \<leftarrow> markXhciInterruptCompleted c d 0 e;
          Some (d, e)
        })"

text \<open>\<open>lin\<close> is the linear mapping under which the page tables are accessed.\<close>

definition mapDeviceMmio ::
  "(u64 \<Rightarrow> u64) \<Rightarrow> XhciDriver \<Rightarrow> u64 \<Rightarrow> 'd xenv \<Rightarrow> (XhciDriver \<times> 'd xenv) option" where
  "mapDeviceMmio lin d pciBarAddress e = do {
     pg \<leftarrow> for_up (\<lambda>i pg.
       (let offset = i * PAGE_SIZE; mmioPage = pciBarAddress + offset
        in mapPage lin mmioPage mmioPage (ucast KERNEL_PAGE) PAGE_ATTRIB_CACHE_DISABLED (xroot e) pg))
       0 (0x20000 div PAGE_SIZE) (xpages e);
     Some (d\<lparr>m_xhcBase := pciBarAddress\<rparr>, e\<lparr>xpages := pg\<rparr>)
   }"

section \<open>Reset and start\<close>

text \<open>
  \<^verbatim>\<open>while (busy) { if (--timeout == 0) return false; msleep(1); }\<close>: the result is false when the
  time is up. A timeout of 0 would wrap around.
\<close>

function poll_until :: "('e \<Rightarrow> bool \<times> 'e) \<Rightarrow> ('e \<Rightarrow> 'e) \<Rightarrow> u32 \<Rightarrow> 'e \<Rightarrow> bool \<times> 'e" where
  "poll_until busy pause timeout e =
    (let (b, e) = busy e
     in if \<not> b then (True, e)
        else if timeout - 1 = 0 then (False, e)
        else poll_until busy pause (timeout - 1) (pause e))"
  by auto
termination
proof (relation "measure (\<lambda>(busy, pause, timeout, e). if timeout = 0 then 2 ^ 32 else unat timeout)",
    goal_cases)
  case (2 busy pause timeout e)
  then show ?case
    using unsigned_less [of "timeout - 1 :: u32"] by (auto simp: unat_pred unat_gt_0)
qed simp

declare poll_until.simps [simp del]

definition op_read :: "'d controller \<Rightarrow> XhciDriver \<Rightarrow> string \<Rightarrow> 'd xenv \<Rightarrow> u32 \<times> 'd xenv" where
  "op_read c d f e = mmio_read32 c (m_opRegs d + op_off f) e"

definition op_read64 :: "'d controller \<Rightarrow> XhciDriver \<Rightarrow> string \<Rightarrow> 'd xenv \<Rightarrow> u64 \<times> 'd xenv" where
  "op_read64 c d f e = mmio_read64 c (m_opRegs d + op_off f) e"

definition op_write :: "'d controller \<Rightarrow> XhciDriver \<Rightarrow> string \<Rightarrow> u32 \<Rightarrow> 'd xenv \<Rightarrow> 'd xenv" where
  "op_write c d f v e = mmio_write32 c (m_opRegs d + op_off f) v e"

definition not_halted :: "'d controller \<Rightarrow> XhciDriver \<Rightarrow> 'd xenv \<Rightarrow> bool \<times> 'd xenv" where
  "not_halted c d e = (let (s, e) = op_read c d ''usbsts'' e in (s AND XHCI_USBSTS_HCH = 0, e))"

definition resetting :: "'d controller \<Rightarrow> XhciDriver \<Rightarrow> 'd xenv \<Rightarrow> bool \<times> 'd xenv" where
  "resetting c d e =
    (let (v, e) = op_read c d ''usbcmd'' e
     in if v AND XHCI_USBCMD_HCRESET \<noteq> 0 then (True, e)
        else (let (s, e) = op_read c d ''usbsts'' e in (s AND XHCI_USBSTS_CNR \<noteq> 0, e)))"

definition resetHostController :: "'d controller \<Rightarrow> XhciDriver \<Rightarrow> 'd xenv \<Rightarrow> bool \<times> 'd xenv" where
  "resetHostController c d e =
    (let (usbcmd, e) = op_read c d ''usbcmd'' e;
         usbcmd = usbcmd AND NOT XHCI_USBCMD_RUN_STOP;
         e = op_write c d ''usbcmd'' usbcmd e;
         (halted, e) = poll_until (not_halted c d) (msleep c 1) 20 e
     in if \<not> halted then (False, e)
        else
          (let (usbcmd, e) = op_read c d ''usbcmd'' e;
               usbcmd = usbcmd OR XHCI_USBCMD_HCRESET;
               e = op_write c d ''usbcmd'' usbcmd e;
               (done, e) = poll_until (resetting c d) (msleep c 1) 100 e
           in if \<not> done then (False, e)
              else
                (let e = msleep c 50 e;
                     (v, e) = op_read c d ''usbcmd'' e in if v \<noteq> 0 then (False, e) else
                 let (v, e) = op_read c d ''dnctrl'' e in if v \<noteq> 0 then (False, e) else
                 let (v, e) = op_read64 c d ''crcr'' e in if v \<noteq> 0 then (False, e) else
                 let (v, e) = op_read64 c d ''dcbaap'' e in if v \<noteq> 0 then (False, e) else
                 let (v, e) = op_read c d ''config'' e in if v \<noteq> 0 then (False, e) else (True, e))))"

partial_function (option) wait_running :: "'d controller \<Rightarrow> XhciDriver \<Rightarrow> 'd xenv \<Rightarrow> 'd xenv option" where
  "wait_running c d e =
    (let (s, e) = op_read c d ''usbsts'' e
     in if s AND XHCI_USBSTS_HCH \<noteq> 0 then wait_running c d (msleep c 16 e) else Some e)"

definition startHostController :: "'d controller \<Rightarrow> XhciDriver \<Rightarrow> 'd xenv \<Rightarrow> 'd xenv option" where
  "startHostController c d e =
    (let (usbcmd, e) = op_read c d ''usbcmd'' e;
         usbcmd = usbcmd OR XHCI_USBCMD_RUN_STOP;
         usbcmd = usbcmd OR XHCI_USBCMD_INTERRUPTER_ENABLE;
         usbcmd = usbcmd OR XHCI_USBCMD_HOSTSYS_ERROR_ENABLE;
         e = op_write c d ''usbcmd'' usbcmd e
     in wait_running c d e)"

section \<open>Ports\<close>

abbreviation psc :: "string \<Rightarrow> u32 \<Rightarrow> u32" where
  "psc f v \<equiv> fget XhciPortscRegister f v"

abbreviation set_psc :: "string \<Rightarrow> u32 \<Rightarrow> u32 \<Rightarrow> u32" where
  "set_psc f x v \<equiv> fset XhciPortscRegister f x v"

text \<open>The remaining time and the last value read.\<close>

fun wait_port_reset :: "'d controller \<Rightarrow> u64 \<Rightarrow> bool \<Rightarrow> nat \<Rightarrow> 'd xenv \<Rightarrow> nat \<times> 'd xenv" where
  "wait_port_reset c regset isUsb3Port 0 e = (0, e)"
| "wait_port_reset c regset isUsb3Port (Suc t) e =
    (let (portsc, e) = readPortscReg c regset e
     in if isUsb3Port \<and> psc ''wrc'' portsc \<noteq> 0 then (Suc t, e)
        else if \<not> isUsb3Port \<and> psc ''prc'' portsc \<noteq> 0 then (Suc t, e)
        else wait_port_reset c regset isUsb3Port t (msleep c 1 e))"

text \<open>The first part of \<open>resetPort\<close>: powering the port up. \<open>None\<close> when it stays off.\<close>

definition power_port :: "'d controller \<Rightarrow> u64 \<Rightarrow> u32 \<Rightarrow> 'd xenv \<Rightarrow> u32 option \<times> 'd xenv" where
  "power_port c regset portsc e =
    (if psc ''pp'' portsc = 0 then
       (let portsc = set_psc ''pp'' 1 portsc;
            e = writePortscReg c regset portsc e;
            e = msleep c 20 e;
            (portsc, e) = readPortscReg c regset e
        in if psc ''pp'' portsc = 0 then (None, e) else (Some portsc, e))
     else (Some portsc, e))"

definition resetPort :: "'d controller \<Rightarrow> XhciDriver \<Rightarrow> u8 \<Rightarrow> 'd xenv \<Rightarrow> bool \<times> 'd xenv" where
  "resetPort c d portNum e =
    (let regset = getPortRegisterSet d portNum;
         (portsc, e) = readPortscReg c regset e;
         isUsb3Port = isUSB3Port d portNum;
         (powered, e) = power_port c regset portsc e
     in case powered of None \<Rightarrow> (False, e)
      | Some portsc \<Rightarrow>
         (let portsc = set_psc ''csc'' 1 portsc;
              e = writePortscReg c regset portsc e;
              portsc = (if isUsb3Port then set_psc ''wpr'' 1 portsc else set_psc ''pr'' 1 portsc);
              portsc = set_psc ''ped'' 0 portsc;
              e = writePortscReg c regset portsc e;
              (timeout, e) = wait_port_reset c regset isUsb3Port 500 e
          in if 0 < timeout then
               (let e = msleep c 3 e;
                    (portsc, e) = readPortscReg c regset e
                in if psc ''ped'' portsc \<noteq> 0 then
                     (let portsc = set_psc ''csc'' 1 portsc
                      in (True, writePortscReg c regset portsc e))
                   else (False, e))
             else (False, e)))"

section \<open>Commands\<close>

text \<open>The first event of the given type among those received, 0 if there is none.\<close>

fun find_event :: "trb \<Rightarrow> mem \<Rightarrow> u64 list \<Rightarrow> u64" where
  "find_event ty m [] = 0"
| "find_event ty m (p # ps) =
    (if fget XhciTrb_t ''trbType'' (ld m p :: trb) = ty then p else find_event ty m ps)"

text \<open>Reading the event ring after a command, when there is something to read.\<close>

definition poll_events ::
  "'d controller \<Rightarrow> XhciDriver \<Rightarrow> 'd xenv \<Rightarrow> (u64 list \<times> XhciDriver \<times> 'd xenv) option" where
  "poll_events c d e = do {
     ring \<leftarrow> m_eventRing d;
     if hasUnprocessedEvents ring (xmem e) then do {
       (ring, events, e) \<leftarrow> dequeueEvents c ring [] e;
       let d = d\<lparr>m_eventRing := Some ring\<rparr>;
       e \<leftarrow> markXhciInterruptCompleted c d 0 e;
       Some (events, d, e)
     } else Some ([], d, e)
   }"

definition sendXhciCommand :: "'d controller \<Rightarrow> trb \<Rightarrow> XhciDriver \<Rightarrow> 'd xenv \<Rightarrow>
    (u64 \<times> XhciDriver \<times> 'd xenv) option" where
  "sendXhciCommand c t d e = do {
     ring \<leftarrow> m_commandRing d;
     let (t, ring, m) = commandRing_enqueue t ring (xmem e);
     let d = d\<lparr>m_commandRing := Some ring\<rparr>;
     let e = put_xmem m e;
     let e = ringCommandDoorbell c d e;
     let e = msleep c 40 e;
     (events, d, e) \<leftarrow> poll_events c d e;
     let completionTrb = find_event XHCI_TRB_TYPE_CMD_COMPLETION_EVENT (xmem e) events;
     Some (if completionTrb = 0 then 0
           else if fget XhciCommandCompletionTrb_t ''completionCode'' (ld (xmem e) completionTrb :: trb)
             \<noteq> XHCI_TRB_COMPLETION_CODE_SUCCESS then 0
           else completionTrb, d, e)
   }"

definition requestDeviceSlot :: "'d controller \<Rightarrow> XhciDriver \<Rightarrow> 'd xenv \<Rightarrow>
    (u8 \<times> XhciDriver \<times> 'd xenv) option" where
  "requestDeviceSlot c d e = do {
     let enableSlotTrb = XHCI_CONSTRUCT_CMD_TRB XHCI_TRB_TYPE_ENABLE_SLOT_CMD;
     (completionTrb, d, e) \<leftarrow> sendXhciCommand c enableSlotTrb d e;
     Some (if completionTrb = 0 then 0
           else ucast (fget XhciCommandCompletionTrb_t ''slotId'' (ld (xmem e) completionTrb :: trb)), d, e)
   }"

definition createDeviceContext :: "XhciDriver \<Rightarrow> u8 \<Rightarrow> 'd xenv \<Rightarrow> 'd xenv option" where
  "createDeviceContext d slotId e = do {
     let deviceContextSize = (if m_64ByteContextSize d then 2048 else 1024);
     (ctx, e) \<leftarrow> allocXhciMemory deviceContextSize XHCI_DEVICE_CONTEXT_ALIGNMENT
       XHCI_DEVICE_CONTEXT_BOUNDARY e;
     if ctx = 0 then Some e
     else do {
       let m = zeromem (xmem e) ctx 8;
       Some (put_xmem (store64 (xpa e ctx) (m_dcbaa d + ucast slotId * 8) m) e)
     }
   }"

section \<open>Addressing a device\<close>

definition initialMaxPacketSize :: "u8 \<Rightarrow> u16" where
  "initialMaxPacketSize portSpeed =
    (if portSpeed = 2 then 8 else if portSpeed = 1 \<or> portSpeed = 3 then 64 else 512)"

text \<open>Assignment to members of a 32-byte context.\<close>

definition upd_ctx :: "(256 word \<Rightarrow> 256 word) \<Rightarrow> u64 \<Rightarrow> mem \<Rightarrow> mem" where
  "upd_ctx f a m = st (f (ld m a)) a m"

definition slot_context :: "u8 \<Rightarrow> u8 \<Rightarrow> 256 word \<Rightarrow> 256 word" where
  "slot_context portSpeed port x =
    (let x = fset XhciSlotContext32 ''contextEntries'' 1 x;
         x = fset XhciSlotContext32 ''speed'' (ucast portSpeed) x;
         x = fset XhciSlotContext32 ''rootHubPortNum'' (ucast port) x;
         x = fset XhciSlotContext32 ''routeString'' 0 x
     in fset XhciSlotContext32 ''interrupterTarget'' 0 x)"

definition endpoint_context :: "u16 \<Rightarrow> u64 \<Rightarrow> 256 word \<Rightarrow> 256 word" where
  "endpoint_context maxPacketSize ringBase x =
    (let x = fset XhciEndpointContext32 ''endpointState'' 0 x;
         x = fset XhciEndpointContext32 ''endpointType'' 4 x;
         x = fset XhciEndpointContext32 ''interval'' 0 x;
         x = fset XhciEndpointContext32 ''errorCount'' 3 x;
         x = fset XhciEndpointContext32 ''maxPacketSize'' (ucast maxPacketSize) x;
         x = set_transferRingDequeuePtr ringBase x;
         x = fset XhciEndpointContext32 ''dcs'' 1 x;
         x = fset XhciEndpointContext32 ''maxEsitPayloadLo'' 0 x;
         x = fset XhciEndpointContext32 ''maxEsitPayloadHi'' 0 x
     in fset XhciEndpointContext32 ''averageTrbLength'' 8 x)"

text \<open>
  The two branches of the source differ in the distance of the contexts: 64 or 32 bytes.
\<close>

definition configure_input_context ::
  "bool \<Rightarrow> u64 \<Rightarrow> u8 \<Rightarrow> u8 \<Rightarrow> u64 \<Rightarrow> mem \<Rightarrow> mem" where
  "configure_input_context ctx64 base portSpeed port ringBase m =
    (let n = (if ctx64 then 64 else 32);
         m = upd_ctx (fset XhciInputControlContext32 ''addFlags'' 3) base m;
         m = upd_ctx (slot_context portSpeed port) (base + n) m
     in upd_ctx (endpoint_context (initialMaxPacketSize portSpeed) ringBase) (base + n + n) m)"

definition address_device_trb :: "u64 \<Rightarrow> u8 \<Rightarrow> trb" where
  "address_device_trb inputContextPhysicalBase slotId =
    (let t = fset XhciAddressDeviceCommandTrb_t ''trbType'' XHCI_TRB_TYPE_ADDRESS_DEVICE_CMD 0;
         t = fset XhciAddressDeviceCommandTrb_t ''inputContextPhysicalBase'' (ucast inputContextPhysicalBase) t;
         t = fset XhciAddressDeviceCommandTrb_t ''bsr'' 1 t
     in fset XhciAddressDeviceCommandTrb_t ''slotId'' (ucast slotId) t)"

definition get_descriptor_packet :: u64 where
  "get_descriptor_packet =
    (let p = set_packet_bRequestType 0x80 0;
         p = fset XhciDeviceRequestPacket ''bRequest'' 6 p;
         p = fset XhciDeviceRequestPacket ''wValue'' 0x0100 p;
         p = fset XhciDeviceRequestPacket ''wIndex'' 0 p
     in fset XhciDeviceRequestPacket ''wLength'' 8 p)"

definition setup_stage_trb :: trb where
  "setup_stage_trb =
    (let t = fset XhciSetupStageTrb_t ''trbType'' XHCI_TRB_TYPE_SETUP_STAGE 0;
         t = fset XhciSetupStageTrb_t ''requestPacket'' (ucast get_descriptor_packet) t;
         t = fset XhciSetupStageTrb_t ''trbTransferLength'' 8 t;
         t = fset XhciSetupStageTrb_t ''interrupterTarget'' 0 t;
         t = fset XhciSetupStageTrb_t ''trt'' 3 t;
         t = fset XhciSetupStageTrb_t ''idt'' 1 t
     in fset XhciSetupStageTrb_t ''ioc'' 0 t)"

definition data_stage_trb :: "u64 \<Rightarrow> trb" where
  "data_stage_trb descriptorBuffer =
    (let t = fset XhciDataStageTrb_t ''trbType'' XHCI_TRB_TYPE_DATA_STAGE 0;
         t = fset XhciDataStageTrb_t ''trbTransferLength'' 8 t;
         t = fset XhciDataStageTrb_t ''tdSize'' 0 t;
         t = fset XhciDataStageTrb_t ''interrupterTarget'' 0 t;
         t = fset XhciDataStageTrb_t ''ent'' 1 t;
         t = fset XhciDataStageTrb_t ''chain'' 1 t;
         t = fset XhciDataStageTrb_t ''dir'' 1 t
     in fset XhciDataStageTrb_t ''dataBuffer'' (ucast descriptorBuffer) t)"

definition event_data_trb :: "u64 \<Rightarrow> trb" where
  "event_data_trb transferStatusBuffer =
    (let t = fset XhciEventDataTrb_t ''trbType'' XHCI_TRB_TYPE_EVENT_DATA 0;
         t = fset XhciEventDataTrb_t ''interrupterTarget'' 0 t;
         t = fset XhciEventDataTrb_t ''chain'' 0 t;
         t = fset XhciEventDataTrb_t ''ioc'' 1 t
     in fset XhciEventDataTrb_t ''eventData'' (ucast transferStatusBuffer) t)"

definition XHCI_INPUT_CONTROL_CONTEXT_ALIGNMENT :: u64 where "XHCI_INPUT_CONTROL_CONTEXT_ALIGNMENT = 64"
definition XHCI_INPUT_CONTROL_CONTEXT_BOUNDARY :: u64 where
  "XHCI_INPUT_CONTROL_CONTEXT_BOUNDARY = PAGE_SIZE"

text \<open>
  The second half of \<^verbatim>\<open>_setDeviceAddress\<close>: the control transfer that asks for the first eight bytes
  of the device descriptor. Its result is the pointer to the transfer event, 0 if none came.
\<close>

definition request_descriptor :: "'d controller \<Rightarrow> TransferRing \<Rightarrow> XhciDriver \<Rightarrow> 'd xenv \<Rightarrow>
    (u64 \<times> TransferRing \<times> XhciDriver \<times> 'd xenv) option" where
  "request_descriptor c transferRing d e = do {
     (descriptorBuffer, e) \<leftarrow> allocXhciMemory 64 128 64 e;
     (transferStatusBuffer, e) \<leftarrow> allocXhciMemory 64 16 16 e;
     let (_, transferRing, m) = transferRing_enqueue setup_stage_trb transferRing (xmem e);
     let (_, transferRing, m) = transferRing_enqueue (data_stage_trb (xpa e descriptorBuffer)) transferRing m;
     let (_, transferRing, m) = transferRing_enqueue (event_data_trb (xpa e transferStatusBuffer)) transferRing m;
     let e = put_xmem m e;
     let e = ringDoorbell c d (tr_doorbellId transferRing) 1 e;
     let e = msleep c 100 e;
     let (_, e) = op_read c d ''usbsts'' e;
     (events, d, e) \<leftarrow> poll_events c d e;
     Some (find_event XHCI_TRB_TYPE_TRANSFER_EVENT (xmem e) events, transferRing, d, e)
   }"

definition setDeviceAddress :: "'d controller \<Rightarrow> u8 \<Rightarrow> u8 \<Rightarrow> u8 \<Rightarrow> XhciDriver \<Rightarrow> 'd xenv \<Rightarrow>
    (XhciDriver \<times> 'd xenv) option" where
  "setDeviceAddress c port slotId portSpeed d e = do {
     (transferRing, e) \<leftarrow> XhciTransferRing 256 slotId e;
     let inputContextSize = (if m_64ByteContextSize d then 64 + 2048 else 32 + 1024);
     (inputCtxBuffer, e) \<leftarrow> allocXhciMemory inputContextSize XHCI_INPUT_CONTROL_CONTEXT_ALIGNMENT
       XHCI_INPUT_CONTROL_CONTEXT_BOUNDARY e;
     let m = zeromem (xmem e) inputCtxBuffer inputContextSize;
     let m = configure_input_context (m_64ByteContextSize d) inputCtxBuffer portSpeed port
       (tr_physicalRingBase transferRing) m;
     let e = put_xmem m e;
     (completionTrb, d, e) \<leftarrow> sendXhciCommand c (address_device_trb (xpa e inputCtxBuffer) slotId) d e;
     if completionTrb = 0 then Some (d, e)
     else do {
       (_, _, d, e) \<leftarrow> request_descriptor c transferRing d e;
       Some (d, e)
     }
   }"

section \<open>Port events and the event loop\<close>

definition handleDeviceConnected :: "'d controller \<Rightarrow> u8 \<Rightarrow> XhciDriver \<Rightarrow> 'd xenv \<Rightarrow>
    (XhciDriver \<times> 'd xenv) option" where
  "handleDeviceConnected c port d e = do {
     let (portsc, e) = readPortscReg c (getPortRegisterSet d port) e;
     (deviceSlot, d, e) \<leftarrow> requestDeviceSlot c d e;
     if deviceSlot = 0 then Some (d, e)
     else do {
       e \<leftarrow> createDeviceContext d deviceSlot e;
       let devicePort = port + 1;
       setDeviceAddress c devicePort deviceSlot (ucast (psc ''portSpeed'' portsc)) d e
     }
   }"

text \<open>The six conditional assignments \<^verbatim>\<open>if (portsc.csc) portsc.csc = 1;\<close> and so on.\<close>

definition set_if :: "string \<Rightarrow> u32 \<Rightarrow> u32" where
  "set_if f portsc = (if psc f portsc \<noteq> 0 then set_psc f 1 portsc else portsc)"

definition processEventRingTrb :: "'d controller \<Rightarrow> u64 \<Rightarrow> XhciDriver \<Rightarrow> 'd xenv \<Rightarrow>
    (XhciDriver \<times> 'd xenv) option" where
  "processEventRingTrb c p d e =
    (let t = ld (xmem e) p :: trb
     in if fget XhciTrb_t ''trbType'' t = XHCI_TRB_TYPE_CMD_COMPLETION_EVENT then Some (d, e)
        else if fget XhciTrb_t ''trbType'' t = XHCI_TRB_TYPE_PORT_STATUS_CHANGE_EVENT then do {
          let port = ucast (fget XhciPortStatusChangeTrb_t ''portId'' t) - 1;
          let portRegisterSet = getPortRegisterSet d port;
          let (portsc, e) = readPortscReg c portRegisterSet e;
          (d, e) \<leftarrow> (if psc ''csc'' portsc \<noteq> 0 \<and> psc ''ccs'' portsc \<noteq> 0
            then handleDeviceConnected c port d e else Some (d, e));
          let portsc = set_if ''cec'' (set_if ''prc'' (set_if ''occ'' (set_if ''wrc''
            (set_if ''pec'' (set_if ''csc'' portsc)))));
          Some (d, writePortscReg c portRegisterSet portsc e)
        }
        else Some (d, e))"

fun process_events :: "'d controller \<Rightarrow> u64 list \<Rightarrow> XhciDriver \<Rightarrow> 'd xenv \<Rightarrow>
    (XhciDriver \<times> 'd xenv) option" where
  "process_events c [] d e = Some (d, e)"
| "process_events c (p # ps) d e = do {
     (d, e) \<leftarrow> processEventRingTrb c p d e;
     process_events c ps d e
   }"

text \<open>The loop at the end of \<^verbatim>\<open>init\<close>; between two rounds the controller may act.\<close>

partial_function (option) event_loop :: "'d controller \<Rightarrow> XhciDriver \<Rightarrow> 'd xenv \<Rightarrow> bool option" where
  "event_loop c d e = do {
     (events, d, e) \<leftarrow> poll_events c d e;
     (d, e) \<leftarrow> process_events c events d e;
     event_loop c d (msleep c 0 e)
   }"

definition connect_port :: "'d controller \<Rightarrow> u8 \<Rightarrow> XhciDriver \<times> 'd xenv \<Rightarrow> (XhciDriver \<times> 'd xenv) option" where
  "connect_port c port s =
    (let (d, e) = s;
         (portsc, e) = readPortscReg c (getPortRegisterSet d port) e
     in if psc ''ccs'' portsc \<noteq> 0 then handleDeviceConnected c port d e else Some (d, e))"

definition xhci_init :: "'d controller \<Rightarrow> (u64 \<Rightarrow> u64) \<Rightarrow> u64 \<Rightarrow> XhciDriver \<Rightarrow> 'd xenv \<Rightarrow> bool option" where
  "xhci_init c lin barAddress d e = do {
     (d, e) \<leftarrow> mapDeviceMmio lin d barAddress e;
     let (d, e) = parseCapabilityRegisters c d e;
     (d, e) \<leftarrow> parseExtendedCapabilityRegisters c d e;
     let (reset, e) = resetHostController c d e;
     if \<not> reset then Some False
     else do {
       (d, e) \<leftarrow> configureOperationalRegisters c d e;
       (d, e) \<leftarrow> configureRuntimeRegisters c d e;
       e \<leftarrow> startHostController c d e;
       e \<leftarrow> for_up (\<lambda>i e. Some (snd (resetPort c d i e))) 0 (m_maxPorts d) e;
       ring \<leftarrow> m_eventRing d;
       (ring, e) \<leftarrow> flushUnprocessedEvents c ring e;
       let d = d\<lparr>m_eventRing := Some ring\<rparr>;
       (d, e) \<leftarrow> for_up (connect_port c) 0 (m_maxPorts d) (d, e);
       event_loop c d e
     }
   }"

section \<open>Ports of a protocol\<close>

lemma push_ports_some:
  assumes "lastPort < 255"
  shows "push_ports p lastPort ports = Some (ports @ map of_nat [unat p..<unat lastPort + 1])"
proof (induction "256 - unat p" arbitrary: p ports rule: less_induct)
  case less
  show ?case
  proof (cases "p \<le> lastPort")
    case True
    then have lt: "p < 255" using assms by simp
    then have u: "unat (p + 1) = unat p + 1"
      using unat_inc [of p 255] by simp
    have "256 - unat (p + 1) < 256 - unat p"
      using lt u by (simp add: word_less_nat_alt)
    from less [OF this, of "ports @ [p]"]
    have "push_ports (p + 1) lastPort (ports @ [p]) =
        Some (ports @ p # map of_nat [unat p + 1..<unat lastPort + 1])"
      by (simp add: u)
    moreover have "[unat p..<unat lastPort + 1] = unat p # [unat p + 1..<unat lastPort + 1]"
      using True by (simp add: word_le_nat_alt upt_conv_Cons)
    ultimately show ?thesis using True by (simp add: push_ports.simps [of p])
  next
    case False
    then show ?thesis by (simp add: push_ports.simps [of p] word_le_nat_alt)
  qed
qed

lemma push_ports_none: "push_ports p 255 ports = None"
proof -
  have top: "port \<le> (255 :: u8)" for port
  proof -
    have "unat port < 2 ^ LENGTH(8)" by (rule unsigned_less)
    then show ?thesis by (simp add: word_le_nat_alt)
  qed
  have "push_ports p l ports = Some r \<Longrightarrow> l \<noteq> 255" for p l r ports
    by (erule push_ports.raw_induct [where P = "\<lambda>p l ports r. l \<noteq> 255", rotated])
      (use top in \<open>auto split: if_splits\<close>)
  then show ?thesis by (cases "push_ports p 255 ports") auto
qed

section \<open>Results of a command\<close>

lemma find_event_spec:
  assumes "\<forall>p \<in> set ps. p \<noteq> 0"
  shows "find_event ty m ps = 0 \<longleftrightarrow> (\<forall>p \<in> set ps. fget XhciTrb_t ''trbType'' (ld m p :: trb) \<noteq> ty)"
    and "find_event ty m ps \<noteq> 0 \<Longrightarrow> \<exists>i < length ps. find_event ty m ps = ps ! i \<and>
      fget XhciTrb_t ''trbType'' (ld m (ps ! i) :: trb) = ty \<and>
      (\<forall>j < i. fget XhciTrb_t ''trbType'' (ld m (ps ! j) :: trb) \<noteq> ty)"
proof -
  show "find_event ty m ps = 0 \<longleftrightarrow> (\<forall>p \<in> set ps. fget XhciTrb_t ''trbType'' (ld m p :: trb) \<noteq> ty)"
    using assms by (induction ps) auto
  show "find_event ty m ps \<noteq> 0 \<Longrightarrow> \<exists>i < length ps. find_event ty m ps = ps ! i \<and>
      fget XhciTrb_t ''trbType'' (ld m (ps ! i) :: trb) = ty \<and>
      (\<forall>j < i. fget XhciTrb_t ''trbType'' (ld m (ps ! j) :: trb) \<noteq> ty)"
    using assms
  proof (induction ps)
    case Nil
    then show ?case by simp
  next
    case (Cons p ps)
    show ?case
    proof (cases "fget XhciTrb_t ''trbType'' (ld m p :: trb) = ty")
      case True
      then show ?thesis by (intro exI [of _ 0]) simp
    next
      case False
      with Cons obtain i where "i < length ps" "find_event ty m ps = ps ! i"
        "fget XhciTrb_t ''trbType'' (ld m (ps ! i) :: trb) = ty"
        "\<forall>j < i. fget XhciTrb_t ''trbType'' (ld m (ps ! j) :: trb) \<noteq> ty"
        by auto
      with False show ?thesis
        by (intro exI [of _ "Suc i"]) (auto simp: less_Suc_eq_0_disj)
    qed
  qed
qed

lemma event_loop_never: "event_loop c d e = None"
proof -
  have "event_loop c d e = Some r \<Longrightarrow> False" for r
    by (erule event_loop.raw_induct [where P = "\<lambda>c d e r. False", rotated])
      (auto split: bind_splits prod.splits)
  then show ?thesis by (cases "event_loop c d e") auto
qed

lemma mark_completed_total:
  "getInterrupterRegisters d i \<noteq> 0 \<Longrightarrow> \<exists>e'. markXhciInterruptCompleted c d i e = Some e'"
  by (simp add: markXhciInterruptCompleted_def Let_def split_beta)

lemma poll_events_result:
  assumes "m_eventRing d = Some r" "er_at r n" "getInterrupterRegisters d 0 \<noteq> 0"
  defines "N \<equiv> unat (er_segmentTrbCount r)" and "base \<equiv> er_primarySegmentRing r"
  shows "\<exists>k r' e'. poll_events c d e = Some (map (\<lambda>i. slot base ((n + i) mod N)) [0..<k],
      d\<lparr>m_eventRing := Some r'\<rparr>, e') \<and> er_at r' (n + k) \<and> k \<le> N \<and>
    (\<forall>i < k. er_valid base N (xmem e) (n + i)) \<and> \<not> er_valid base N (xmem e) (n + k)"
proof (cases "hasUnprocessedEvents r (xmem e)")
  case False
  then have "\<not> er_valid base N (xmem e) n"
    using hasUnprocessedEvents_valid [OF assms(2)] by (simp add: N_def base_def)
  moreover have "d\<lparr>m_eventRing := Some r\<rparr> = d" using assms(1) by simp
  ultimately show ?thesis
    using False assms(1,2) by (intro exI [of _ 0] exI [of _ r]) (simp add: poll_events_def)
next
  case True
  obtain k r' where k: "k \<le> N"
    "dequeue_loop (xmem e) r [] = Some (r', map (\<lambda>i. slot base ((n + i) mod N)) [0..<k])"
    "er_at r' (n + k)" "\<forall>i < k. er_valid base N (xmem e) (n + i)" "\<not> er_valid base N (xmem e) (n + k)"
    using dequeue_loop_drains [of r n 0 "xmem e" "[]"] assms(2) unfolding N_def base_def by auto
  have "getInterrupterRegisters (d\<lparr>m_eventRing := Some r'\<rparr>) 0 \<noteq> 0"
    using assms(3) by (simp add: getInterrupterRegisters_def)
  then obtain e' where "markXhciInterruptCompleted c (d\<lparr>m_eventRing := Some r'\<rparr>) 0
      (updateErdpInterrupterRegister c r' e) = Some e'"
    using mark_completed_total by blast
  then show ?thesis
    using True k assms(1) by (intro exI [of _ k] exI [of _ r'] exI [of _ e'])
      (simp add: poll_events_def dequeueEvents_def)
qed

section \<open>Properties of the driver\<close>


text \<open>An environment in which the controller answers a command with a completion event.\<close>

definition completion_event :: trb where
  "completion_event = fset XhciCommandCompletionTrb_t ''completionCode'' 1
    (fset XhciCommandCompletionTrb_t ''trbType'' 33 (fset XhciCommandCompletionTrb_t ''cycleBit'' 1 0))"

definition answering_controller :: "unit controller" where
  "answering_controller = idle_controller\<lparr>dev_elapse := (\<lambda>t (m, d). (st completion_event 0x210000 m, d))\<rparr>"

definition driver1 :: XhciDriver where
  "driver1 = \<lparr>m_xhcBase = 0xfe000000, m_capRegs = 0xfe000000, m_opRegs = 0xfe000040,
     m_capabilityRegsLength = 0x40, m_maxDeviceSlots = 64, m_maxInterrupters = 8, m_maxPorts = 8,
     m_isochronousSchedulingThreshold = 0, m_erstMax = 0, m_maxScratchpadBuffers = 0,
     m_64bitAddressingCapability = True, m_bandwidthNegotiationCapability = False,
     m_64ByteContextSize = False, m_portPowerControl = False, m_portIndicators = False,
     m_lightResetCapability = False, m_extendedCapabilitiesOffset = 0, m_extendedCapabilities = [],
     m_hcPageSize = 0x1000, m_usb3Ports = [], m_dcbaa = 0x230000, m_runtimeBase = 0xfe001000,
     m_runtimeMaxInterrupters = 8,
     m_commandRing = Some \<lparr>cr_maxTrbCount = 256, cr_enqueuePtr = 0, cr_trbRing = 0x220000,
       cr_physicalRingBase = 0x220000, cr_rcsBit = 1\<rparr>,
     m_eventRing = Some event_ring1, m_doorbellRegisters = 0xfe002000\<rparr>"


text \<open>
  C30: the ports of a USB 3 protocol capability. With \<open>off\<close> its port offset (1-based) and \<open>cnt\<close> its
  port count, the loop records the ports \<open>off - 1\<close> to \<open>off + cnt - 2\<close>; it never ends when the last
  port computes to 255, in particular for a capability with offset 1 and no ports.
\<close>

theorem protocol_ports_range:
  assumes "fget XhciUsbSupportedProtocolCapability ''majorRevisionVersion'' cap = 3"
  defines "off \<equiv> unat (fget XhciUsbSupportedProtocolCapability ''compatiblePortOffset'' cap)"
    and "cnt \<equiv> unat (fget XhciUsbSupportedProtocolCapability ''compatiblePortCount'' cap)"
  shows "(0 < off \<and> 0 < cnt \<and> off + cnt < 257 \<longrightarrow>
      protocol_ports cap ports = Some (ports @ map of_nat [off - 1..<off - 1 + cnt])) \<and>
    (off + cnt = 257 \<or> off + cnt = 1 \<longrightarrow> protocol_ports cap ports = None)"
proof -
  let ?o = "ucast (fget XhciUsbSupportedProtocolCapability ''compatiblePortOffset'' cap) :: u8"
    and ?n = "ucast (fget XhciUsbSupportedProtocolCapability ''compatiblePortCount'' cap) :: u8"
  have w: "fld_wd XhciUsbSupportedProtocolCapability ''compatiblePortOffset'' = 8"
    "fld_wd XhciUsbSupportedProtocolCapability ''compatiblePortCount'' = 8"
    by (simp_all add: XhciUsbSupportedProtocolCapability_def)
  have lt: "off < 256" "cnt < 256"
    using bf_get_less [of 8 "fld_lo XhciUsbSupportedProtocolCapability ''compatiblePortOffset''" cap]
      bf_get_less [of 8 "fld_lo XhciUsbSupportedProtocolCapability ''compatiblePortCount''" cap]
    unfolding off_def cnt_def fget_def w by simp_all
  have o: "?o = of_nat off" "?n = of_nat cnt"
    unfolding off_def cnt_def by simp_all
  have run: "protocol_ports cap ports = push_ports (of_nat off - 1) (of_nat off - 1 + of_nat cnt - 1) ports"
    using assms(1) by (simp add: protocol_ports_def Let_def o)
  have "protocol_ports cap ports = Some (ports @ map of_nat [off - 1..<off - 1 + cnt])"
    if "0 < off" "0 < cnt" "off + cnt < 257"
  proof -
    have f: "(of_nat off - 1 :: u8) = of_nat (off - 1)"
      "(of_nat off - 1 + of_nat cnt - 1 :: u8) = of_nat (off + cnt - 2)"
      using that by (simp_all add: of_nat_diff)
    have u: "unat (of_nat (off - 1) :: u8) = off - 1" "unat (of_nat (off + cnt - 2) :: u8) = off + cnt - 2"
      using that lt by (intro unat_of_nat_less, simp)+
    have "(of_nat (off + cnt - 2) :: u8) < 255"
      using u(2) that by (simp add: word_less_nat_alt)
    then show ?thesis
      unfolding run f using push_ports_some [of "of_nat (off + cnt - 2)" "of_nat (off - 1)" ports] that
      by (simp only: u) (simp add: Suc_diff_Suc numeral_2_eq_2)
  qed
  moreover have "protocol_ports cap ports = None" if "off + cnt = 257 \<or> off + cnt = 1"
  proof -
    have one: "(of_nat (off + cnt) :: u8) = 1"
      using that by (elim disjE) (simp_all only:, simp_all)
    have "(of_nat off - 1 + of_nat cnt - 1 :: u8) = of_nat (off + cnt) - 2"
      by simp
    also have "\<dots> = 255" by (simp only: one) simp
    finally show ?thesis unfolding run using push_ports_none by simp
  qed
  ultimately show ?thesis by blast
qed

theorem protocol_ports_range_witness:
  "protocol_ports (push_bit 24 3 OR push_bit 64 3 OR push_bit 72 2) [] = Some [2, 3] \<and>
   protocol_ports (push_bit 24 3 OR push_bit 64 1) [] = None"
proof -
  have d: "fld_lo XhciUsbSupportedProtocolCapability ''majorRevisionVersion'' = 24"
    "fld_wd XhciUsbSupportedProtocolCapability ''majorRevisionVersion'' = 8"
    "fld_lo XhciUsbSupportedProtocolCapability ''compatiblePortOffset'' = 64"
    "fld_wd XhciUsbSupportedProtocolCapability ''compatiblePortOffset'' = 8"
    "fld_lo XhciUsbSupportedProtocolCapability ''compatiblePortCount'' = 72"
    "fld_wd XhciUsbSupportedProtocolCapability ''compatiblePortCount'' = 8"
    by (simp_all add: XhciUsbSupportedProtocolCapability_def)
  show ?thesis
    using protocol_ports_range [of "push_bit 24 3 OR push_bit 64 3 OR push_bit 72 2" "[]"]
      protocol_ports_range [of "push_bit 24 3 OR push_bit 64 1" "[]"]
    by (simp add: fget_def d bf_get_def upt_rec)
qed

text \<open>
  The control endpoint context. Because \<^verbatim>\<open>rsvd0\<close> is declared two bits too wide, the word at byte 4,
  which the structure calls \<^verbatim>\<open>dword1\<close>, stays 0; error count, endpoint type and packet size are
  written to byte 8, the dequeue pointer to byte 16, and the average TRB length to byte 24, inside
  the part (bytes 14h to 1Fh) that the header reserves for the controller.
\<close>

theorem endpoint_context_shifted:
  "bf_get 32 32 (endpoint_context mps ring 0) = 0 \<and>
   bf_get 65 2 (endpoint_context mps ring 0) = 3 \<and> bf_get 67 3 (endpoint_context mps ring 0) = 4 \<and>
   bf_get 80 16 (endpoint_context mps ring 0) = ucast mps \<and>
   bf_get 128 64 (endpoint_context mps ring 0) = ucast (ring OR 1) \<and>
   bf_get 192 16 (endpoint_context mps ring 0) = 8"
proof -
  have p: "fld_lo XhciEndpointContext32 ''endpointState'' = 0" "fld_wd XhciEndpointContext32 ''endpointState'' = 3"
    "fld_lo XhciEndpointContext32 ''endpointType'' = 67" "fld_wd XhciEndpointContext32 ''endpointType'' = 3"
    "fld_lo XhciEndpointContext32 ''interval'' = 18" "fld_wd XhciEndpointContext32 ''interval'' = 8"
    "fld_lo XhciEndpointContext32 ''errorCount'' = 65" "fld_wd XhciEndpointContext32 ''errorCount'' = 2"
    "fld_lo XhciEndpointContext32 ''maxPacketSize'' = 80" "fld_wd XhciEndpointContext32 ''maxPacketSize'' = 16"
    "fld_lo XhciEndpointContext32 ''dcs'' = 128" "fld_wd XhciEndpointContext32 ''dcs'' = 1"
    "fld_lo XhciEndpointContext32 ''maxEsitPayloadLo'' = 208" "fld_wd XhciEndpointContext32 ''maxEsitPayloadLo'' = 16"
    "fld_lo XhciEndpointContext32 ''maxEsitPayloadHi'' = 32" "fld_wd XhciEndpointContext32 ''maxEsitPayloadHi'' = 8"
    "fld_lo XhciEndpointContext32 ''averageTrbLength'' = 192" "fld_wd XhciEndpointContext32 ''averageTrbLength'' = 16"
    by (simp_all add: XhciEndpointContext32_def)
  let ?x = "endpoint_context mps ring 0"
  note def = endpoint_context_def set_transferRingDequeuePtr_def fset_def p Let_def
  have "bf_get 32 32 ?x = 0"
    by (rule bit_word_eqI) (auto simp: def bf_simps)
  moreover have "bf_get 128 64 ?x = ucast (ring OR 1)"
    by (rule bit_word_eqI) (auto simp: def bf_simps bit_simps dest: bit_imp_le_length)
  moreover have "bf_get 80 16 ?x = take_bit 16 (ucast mps)"
    by (simp add: def bf_get_set_same bf_get_set_other)
  moreover have "take_bit 16 (ucast mps :: 256 word) = ucast mps"
    by (rule bit_word_eqI) (auto simp: bit_simps dest: bit_imp_le_length)
  moreover have "bf_get 65 2 ?x = 3" "bf_get 67 3 ?x = 4" "bf_get 192 16 ?x = 8"
    by (simp_all add: def bf_get_set_same bf_get_set_other)
  ultimately show ?thesis by simp
qed

text \<open>
  a port reset that succeeds ends by writing the port status register with its enable bit
  set. That bit is cleared by writing a 1 to it.
\<close>

theorem resetPort_writes_ped:
  assumes "resetPort c d portNum e = (True, e')"
  shows "\<exists>e0 v. e' = writePortscReg c (getPortRegisterSet d portNum) v e0 \<and>
    fget XhciPortscRegister ''ped'' v \<noteq> 0"
proof -
  have keep: "psc ''ped'' (set_psc ''csc'' 1 v) = psc ''ped'' v" for v
    by (simp add: fget_def fset_def XhciPortscRegister_def bf_get_set_other)
  show ?thesis
    using assms keep
    by (auto simp: resetPort_def Let_def split: prod.splits option.splits if_splits) (metis keep)+
qed

text \<open>A controller all of whose port status bits read as 1.\<close>

definition ready_controller :: "unit controller" where
  "ready_controller = idle_controller\<lparr>dev_read32 := (\<lambda>a w. (0xffffffff, w))\<rparr>"

theorem resetPort_writes_ped_witness:
  "\<exists>e' e0 v. resetPort ready_controller driver1 1 xenv1 = (True, e') \<and>
    e' = writePortscReg ready_controller 0xfe000450 v e0 \<and> fget XhciPortscRegister ''ped'' v \<noteq> 0"
proof -
  have one: "psc ''pp'' 0xffffffff = 1" "psc ''prc'' 0xffffffff = 1" "psc ''ped'' 0xffffffff = 1"
    by (simp_all add: fget_def bf_get_def XhciPortscRegister_def)
  have rd: "readPortscReg ready_controller a e = (0xffffffff, e)" for a e
    by (simp add: readPortscReg_def mmio_read32_def ready_controller_def)
  have wait: "wait_port_reset ready_controller a False 500 e = (500, e)" for a e
    using wait_port_reset.simps(2) [of ready_controller a False 499 e] by (simp add: rd one)
  have usb2: "isUSB3Port driver1 1 = False" and regs: "getPortRegisterSet driver1 1 = 0xfe000450"
    by (simp_all add: isUSB3Port_def driver1_def getPortRegisterSet_def)
  obtain e' where e': "resetPort ready_controller driver1 1 xenv1 = (True, e')"
    by (simp add: resetPort_def power_port_def rd one wait usb2 Let_def)
  then show ?thesis
    using resetPort_writes_ped [OF e'] unfolding regs by blast
qed

text \<open>
  \<open>init\<close> reports success to no caller: it returns false when the controller does not reset,
  and otherwise ends in the event loop or a fault.
\<close>

theorem xhci_init_no_success: "xhci_init c lin barAddress d e \<noteq> Some True"
  by (auto simp: xhci_init_def event_loop_never Let_def split: bind_splits prod.splits)

end
