(* ===== verification/BootPaging.thy ===== *)
theory BootPaging
  imports Paging
begin

text \<open>
  The boot loader's page tables, \<^verbatim>\<open>bootloader/paging.c\<close>: \<open>MapPage\<close>, the identity mapping of all memory
  and the mapping of the kernel to the higher half, where the privileged sections are mapped
  for the supervisor only.

  The firmware's page allocator is outside the repository. Its answers to the calls to come are a
  list in the state, with \<open>None\<close> for an error status; what the theorems need of it (pages are
  aligned, below the 48-bit limit and never handed out twice) is the predicate \<open>boot_inv\<close>. While
  the loader runs, memory is identity mapped.

  The boot loader is the second client of the interface \<open>frame_supply\<close>. The tables are abstracted
  to the map \<open>view\<close> from addresses to frame number and user bit; \<open>MapPage\<close> refines the update of
  that map at one page.
\<close>

section \<open>State and page requests\<close>

record boot =
  bram :: mem
  pages_to_come :: "u64 option list"
  GlobalAllocatedMemory :: u64
  GlobalAllocatedPageCount :: u64

abbreviation put_bram :: "mem \<Rightarrow> boot \<Rightarrow> boot" where
  "put_bram m s \<equiv> s\<lparr>bram := m\<rparr>"

definition GetAllocatedMemoryCount :: "boot \<Rightarrow> u64" where
  "GetAllocatedMemoryCount s = GlobalAllocatedMemory s"

definition GetAllocatedPageCount :: "boot \<Rightarrow> u64" where
  "GetAllocatedPageCount s = GlobalAllocatedPageCount s"

definition RequestPage :: "boot \<Rightarrow> u64 \<times> boot" where
  "RequestPage s =
    (case pages_to_come s of
       [] \<Rightarrow> (0, s)
     | None # ps \<Rightarrow> (0, s\<lparr>pages_to_come := ps\<rparr>)
     | Some page # ps \<Rightarrow>
         (page, s\<lparr>pages_to_come := ps, GlobalAllocatedMemory := GlobalAllocatedMemory s + PAGE_SIZE,
            GlobalAllocatedPageCount := GlobalAllocatedPageCount s + 1\<rparr>))"

definition SetMem :: "u64 \<Rightarrow> u64 \<Rightarrow> u8 \<Rightarrow> boot \<Rightarrow> boot" where
  "SetMem a n v s = s\<lparr>bram := setn (bram s) a v (unat n)\<rparr>"

section \<open>Mapping a page\<close>

record PageLevelDictionary =
  PTLevel4 :: u64
  PTLevel3 :: u64
  PTLevel2 :: u64
  PTLevel1 :: u64

definition VirtualAddressToPageLevels :: "u64 \<Rightarrow> PageLevelDictionary" where
  "VirtualAddressToPageLevels addr =
    (let addr = drop_bit 12 addr; l1 = addr AND 0x1ff;
         addr = drop_bit 9 addr; l2 = addr AND 0x1ff;
         addr = drop_bit 9 addr; l3 = addr AND 0x1ff;
         addr = drop_bit 9 addr; l4 = addr AND 0x1ff
     in \<lparr>PTLevel4 = l4, PTLevel3 = l3, PTLevel2 = l2, PTLevel1 = l1\<rparr>)"

text \<open>
  One level of \<open>MapPage\<close>: the table behind the entry at \<open>ep\<close>, requested, cleared and entered when the
  entry is not present.
\<close>

definition NextTable :: "u64 \<Rightarrow> u64 \<Rightarrow> boot \<Rightarrow> u64 \<times> boot" where
  "NextTable privilege ep s =
    (if pte_present (load64 (bram s) ep) = 0 then
       (let (table, s) = RequestPage s;
            s = SetMem table PAGE_SIZE 0 s;
            e = load64 (bram s) ep;
            e = set_pte_present 1 e;
            e = set_pte_readWrite 1 e;
            e = set_pte_userSupervisor privilege e;
            e = set_pte_pageFrameNumber (drop_bit 12 table) e
        in (table, s\<lparr>bram := store64 e ep (bram s)\<rparr>))
     else (push_bit 12 (pte_pageFrameNumber (load64 (bram s) ep)), s))"

definition boot_leaf :: "u64 \<Rightarrow> u8 \<Rightarrow> u64 \<Rightarrow> u64" where
  "boot_leaf paddr leafpriv e =
    (let e = set_pte_present 1 e;
         e = set_pte_readWrite 1 e;
         e = set_pte_userSupervisor (ucast leafpriv) e
     in set_pte_pageFrameNumber (drop_bit 12 paddr) e)"

definition MapPage :: "u64 \<Rightarrow> u64 \<Rightarrow> u8 \<Rightarrow> u64 \<Rightarrow> boot \<Rightarrow> boot" where
  "MapPage vaddr paddr leafpriv PML4 s =
    (let pdict = VirtualAddressToPageLevels vaddr;
         privilege = (if PTLevel4 pdict = 511 then 1 else 0);
         (PDL3, s) = NextTable privilege (PML4 + 8 * PTLevel4 pdict) s;
         (PDL2, s) = NextTable privilege (PDL3 + 8 * PTLevel3 pdict) s;
         (PageTable, s) = NextTable privilege (PDL2 + 8 * PTLevel2 pdict) s;
         ep = PageTable + 8 * PTLevel1 pdict
     in s\<lparr>bram := store64 (boot_leaf paddr leafpriv (load64 (bram s) ep)) ep (bram s)\<rparr>)"

section \<open>The two mappings\<close>

text \<open>\<^verbatim>\<open>for (; i < n; i += PAGE_SIZE)\<close>\<close>

partial_function (option) for_pages :: "(u64 \<Rightarrow> 's \<Rightarrow> 's) \<Rightarrow> u64 \<Rightarrow> u64 \<Rightarrow> 's \<Rightarrow> 's option" where
  "for_pages f i n s = (if i < n then for_pages f (i + PAGE_SIZE) n (f i s) else Some s)"

definition CreateIdentityMappedPageTable :: "u64 \<Rightarrow> u64 \<Rightarrow> u64 \<Rightarrow> boot \<Rightarrow> (u64 \<times> boot) option" where
  "CreateIdentityMappedPageTable TotalSystemMemory GraphicsOutputBufferBase GraphicsOutputBufferSize s =
    (let (PML4, s) = RequestPage s;
         s = SetMem PML4 PAGE_SIZE 0 s
     in do {
       s \<leftarrow> for_pages (\<lambda>i. MapPage i i 0 PML4) 0 TotalSystemMemory s;
       s \<leftarrow> for_pages (\<lambda>i. MapPage i i 0 PML4) GraphicsOutputBufferBase
         (GraphicsOutputBufferBase + GraphicsOutputBufferSize) s;
       Some (PML4, s)
     })"

record ElfSegmentInfo =
  seg_PhysicalBase :: u64
  seg_PhysicalSize :: u64
  seg_VirtualBase :: u64
  seg_VirtualSize :: u64
  seg_Flags :: u32

record ElfSectionInfo =
  sec_VirtualBase :: u64
  sec_VirtualSize :: u64
  sec_Name :: u64
  sec_Flags :: u32
  sec_Privileged :: u8

text \<open>The index of the section, \<open>None\<close> for -1. The list holds the sections from index \<open>i\<close> on.\<close>

fun find_section :: "nat \<Rightarrow> ElfSectionInfo list \<Rightarrow> u64 \<Rightarrow> u64 \<Rightarrow> nat option" where
  "find_section i [] KernelVirtualBase Vaddr = None"
| "find_section i (section # sections) KernelVirtualBase Vaddr =
    (let sectionStart = sec_VirtualBase section;
         sectionEnd = sec_VirtualBase section + sec_VirtualSize section
     in if sectionStart < KernelVirtualBase then find_section (Suc i) sections KernelVirtualBase Vaddr
        else if sectionStart \<le> Vaddr \<and> Vaddr < sectionEnd then Some i
        else find_section (Suc i) sections KernelVirtualBase Vaddr)"

definition FindElfSectionByVaddr :: "ElfSectionInfo list \<Rightarrow> u64 \<Rightarrow> u64 \<Rightarrow> nat option" where
  "FindElfSectionByVaddr KernelElfSections KernelVirtualBase Vaddr =
    find_section 0 KernelElfSections KernelVirtualBase Vaddr"

text \<open>
  The privilege of a page. The source also copies the entry at index -1 when there is no section;
  the copy is not used.
\<close>

definition LeafPrivilegeLevel :: "ElfSectionInfo list \<Rightarrow> u64 \<Rightarrow> u64 \<Rightarrow> u8" where
  "LeafPrivilegeLevel KernelElfSections KernelVirtualBase vaddr =
    (if KernelVirtualBase \<le> vaddr then
       (case FindElfSectionByVaddr KernelElfSections KernelVirtualBase vaddr of
          None \<Rightarrow> 1
        | Some sectionIdx \<Rightarrow> of_bool (sec_Privileged (KernelElfSections ! sectionIdx) = 0))
     else 0)"

partial_function (option) higher_half_loop ::
  "u64 \<Rightarrow> ElfSectionInfo list \<Rightarrow> u64 \<Rightarrow> u64 \<Rightarrow> u64 \<Rightarrow> u64 \<Rightarrow> boot \<Rightarrow> boot option" where
  "higher_half_loop PML4 sections KernelVirtualBase Offset TotalSystemMemory i s =
    (if i < TotalSystemMemory then
       (let paddr = i; vaddr = paddr + Offset;
            privilege = LeafPrivilegeLevel sections KernelVirtualBase vaddr
        in if vaddr = 0 then Some s
           else higher_half_loop PML4 sections KernelVirtualBase Offset TotalSystemMemory (i + PAGE_SIZE)
             (MapPage vaddr paddr privilege PML4 s))
     else Some s)"

text \<open>\<open>None\<close> when there is no first segment to read, or the loop does not end.\<close>

definition CreateHigherHalfMapping ::
  "u64 \<Rightarrow> ElfSegmentInfo list \<Rightarrow> ElfSectionInfo list \<Rightarrow> u64 \<Rightarrow> boot \<Rightarrow> boot option" where
  "CreateHigherHalfMapping PML4 KernelElfSegments KernelElfSections TotalSystemMemory s =
    (case KernelElfSegments of [] \<Rightarrow> None
     | seg # _ \<Rightarrow>
        (let KernelPhysicalBase = seg_PhysicalBase seg;
             KernelVirtualBase = seg_VirtualBase seg;
             Offset = KernelVirtualBase - KernelPhysicalBase
         in higher_half_loop PML4 KernelElfSections KernelVirtualBase Offset TotalSystemMemory 0 s))"

section \<open>The firmware as a supplier of frames\<close>

definition boot_alloc :: "boot \<Rightarrow> (u64 \<times> boot) option" where
  "boot_alloc s = (let (p, s) = RequestPage s in Some (p, SetMem p PAGE_SIZE 0 s))"

text \<open>\<open>P\<close> lists all the pages the firmware gives to the loader, in order.\<close>

definition boot_inv :: "u64 list \<Rightarrow> boot \<Rightarrow> bool" where
  "boot_inv P s \<longleftrightarrow> distinct P \<and> (\<forall>p \<in> set P. frame_ok 0 p) \<and>
    (\<exists>us. pages_to_come s = map Some us \<and> suffix us P)"

definition boot_own :: "u64 list \<Rightarrow> boot \<Rightarrow> u64 set" where
  "boot_own P s = set P - Some -` set (pages_to_come s)"

definition boot_avail :: "boot \<Rightarrow> nat" where
  "boot_avail s = length (pages_to_come s)"

lemma frame_pg:
  assumes "frame_ok 0 p"
  obtains i where "p = pg i" "i < 2 ^ 36"
proof -
  have e: "unat p = 4096 * (unat p div 4096)" and lt: "unat p < 2 ^ 48"
    using assms by (auto simp: frame_ok_def)
  have "p = of_nat (unat p div 4096) * 0x1000"
    using e by (metis mult.commute of_nat_mult of_nat_numeral u64_of_nat_unat)
  then have "p = pg (unat p div 4096)"
    by (simp add: pg_def PAGE_SIZE_def)
  moreover have "unat p div 4096 < 2 ^ 36" using lt by (intro less_mult_imp_div_less) simp
  ultimately show thesis by (rule that)
qed

lemma frames_disjoint:
  assumes "frame_ok 0 p" "frame_ok 0 q" "unat (x - p) < 4096" "unat (x - q) < 4096"
  shows "p = q"
proof -
  obtain i j where "p = pg i" "i < 2 ^ 36" "q = pg j" "j < 2 ^ 36"
    using frame_pg assms(1,2) by metis
  then show ?thesis
    using pages_disjoint [of i j x 0] assms(3,4) by simp
qed

lemma boot_alloc_ok:
  assumes inv: "boot_inv P s" and av: "0 < boot_avail s"
  shows "\<exists>a s'. boot_alloc s = Some (a, s') \<and> boot_inv P s' \<and> a \<notin> boot_own P s \<and>
    boot_own P s' = insert a (boot_own P s) \<and> boot_avail s = Suc (boot_avail s') \<and>
    (\<forall>x. unat (x - a) < 4096 \<longrightarrow> bram s' x = 0) \<and>
    (\<forall>b \<in> boot_own P s. \<forall>x. unat (x - b) < 4096 \<longrightarrow> bram s' x = bram s x)"
proof -
  obtain us where us: "pages_to_come s = map Some us" "suffix us P" "distinct P" "\<forall>p \<in> set P. frame_ok 0 p"
    using inv by (auto simp: boot_inv_def)
  obtain a vs where vs: "us = a # vs" using us(1) av by (cases us) (auto simp: boot_avail_def)
  obtain ws where P: "P = ws @ a # vs" using us(2) vs by (auto simp: suffix_def)
  define s' where "s' = SetMem a PAGE_SIZE 0 (snd (RequestPage s))"
  have r: "boot_alloc s = Some (a, s')"
    by (simp add: boot_alloc_def s'_def RequestPage_def us vs)
  have s': "pages_to_come s' = map Some vs" "bram s' = setn (bram s) a 0 4096"
    by (simp_all add: s'_def RequestPage_def us vs SetMem_def PAGE_SIZE_def)
  have own: "boot_own P s = set ws" "boot_own P s' = insert a (set ws)"
    using us(3) by (auto simp: boot_own_def us s' vs P)
  have "boot_inv P s'"
    using us(3,4) s'(1) by (auto simp: boot_inv_def P suffix_def)
  moreover have "bram s' x = bram s x" if "b \<in> set ws" "unat (x - b) < 4096" for b x
  proof -
    have "b \<noteq> a" using that(1) us(3) P by auto
    then have "\<not> unat (x - a) < 4096"
      using frames_disjoint [of b a x] that us(4) P by auto
    then show ?thesis by (simp add: s' setn_def)
  qed
  ultimately show ?thesis
    using r own us(3) s' vs by (intro exI [of _ a] exI [of _ s'])
      (auto simp: P boot_avail_def us setn_def)
qed

interpretation bsup: frame_supply boot_alloc bram put_bram 0 "boot_inv P" "boot_own P" boot_avail for P
proof unfold_locales
  show "frame_ok 0 a" if "boot_inv P s" "a \<in> boot_own P s" for s a
    using that by (auto simp: boot_inv_def boot_own_def)
qed (use boot_alloc_ok in \<open>auto simp: boot_inv_def boot_own_def boot_avail_def\<close>)

section \<open>What the tables map\<close>

definition page_of :: "u64 \<Rightarrow> u64" where
  "page_of v = take_bit 36 (drop_bit 12 v)"

text \<open>The frame number and the user bit of the entry the processor finds for an address.\<close>

definition view :: "boot \<Rightarrow> u64 \<Rightarrow> u64 \<Rightarrow> (u64 \<times> u64) option" where
  "view s r v = map_option (\<lambda>e. (pte_pageFrameNumber e, pte_userSupervisor e))
    (leaf 0 (entry_at (bram s)) r (vpath v) (vidx 12 v))"

definition boot_tree :: "u64 list \<Rightarrow> u64 \<Rightarrow> boot \<Rightarrow> bool" where
  "boot_tree P r s \<longleftrightarrow> boot_inv P s \<and> tree_wf 0 (entry_at (bram s)) r (boot_own P s)"

lemma vidx_page:
  "vidx 12 v = unat (take_bit 9 (page_of v))" "vidx 21 v = unat (take_bit 9 (drop_bit 9 (page_of v)))"
  "vidx 30 v = unat (take_bit 9 (drop_bit 18 (page_of v)))" "vidx 39 v = unat (drop_bit 27 (page_of v))"
proof -
  have m: "drop_bit k v AND 0x1ff = take_bit 9 (drop_bit k v)" for k
    by (simp add: take_bit_eq_mask mask_eq_exp_minus_1)
  show "vidx 12 v = unat (take_bit 9 (page_of v))" "vidx 21 v = unat (take_bit 9 (drop_bit 9 (page_of v)))"
    "vidx 30 v = unat (take_bit 9 (drop_bit 18 (page_of v)))" "vidx 39 v = unat (drop_bit 27 (page_of v))"
    unfolding vidx_def m
    by (rule arg_cong [where f = unat], rule bit_eqI,
        auto simp: page_of_def bit_take_bit_iff bit_drop_bit_eq add.commute add.left_commute)+
qed

lemma same_page: "vpath v = vpath w \<and> vidx 12 v = vidx 12 w \<longleftrightarrow> page_of v = page_of w"
proof
  assume e: "vpath v = vpath w \<and> vidx 12 v = vidx 12 w"
  have split: "page_of x = push_bit 27 (drop_bit 27 (page_of x)) OR push_bit 18 (take_bit 9 (drop_bit 18 (page_of x)))
      OR push_bit 9 (take_bit 9 (drop_bit 9 (page_of x))) OR take_bit 9 (page_of x)" for x
  proof (rule bit_eqI)
    fix n :: nat
    consider "n < 9" | "9 \<le> n" "n < 18" | "18 \<le> n" "n < 27" | "27 \<le> n" by linarith
    then show "bit (page_of x) n \<longleftrightarrow> bit (push_bit 27 (drop_bit 27 (page_of x)) OR
        push_bit 18 (take_bit 9 (drop_bit 18 (page_of x))) OR push_bit 9 (take_bit 9 (drop_bit 9 (page_of x))) OR
        take_bit 9 (page_of x)) n"
      by cases (auto simp: bit_or_iff bit_push_bit_iff bit_take_bit_iff bit_drop_bit_eq dest: bit_imp_le_length)
  qed
  show "page_of v = page_of w"
    using e by (subst split [of v], subst split [of w]) (simp add: vpath_def vidx_page flip: word_unat_eq_iff)
qed (simp add: vpath_def vidx_page)

lemma NextTable_descend: "descend boot_alloc bram put_bram 0 priv ep s = Some (NextTable priv ep s)"
  by (simp add: descend_def NextTable_def boot_alloc_def table_entry_def child_def Let_def split: prod.split)

lemma MapPage_map_walk:
  "map_walk boot_alloc bram put_bram 0 (if vidx 39 v = 511 then 1 else 0) r (vidx 39 v) (vidx 30 v)
    (vidx 21 v) (vidx 12 v) (boot_leaf pa priv) s = Some (MapPage v pa priv r s)"
proof -
  have "(drop_bit 39 v AND 0x1ff = 511) = (vidx 39 v = 511)"
    by (simp add: vidx_def word_unat_eq_iff)
  then show ?thesis
    by (simp add: map_walk_def NextTable_descend MapPage_def VirtualAddressToPageLevels_def Let_def
        of_nat_vidx drop_bit_drop_bit split: prod.split)
qed

lemma boot_leaf_fields:
  "pte_present (boot_leaf pa priv e) = 1"
  "pte_pageFrameNumber (boot_leaf pa priv e) = page_of pa"
  "pte_userSupervisor (boot_leaf pa priv e) = take_bit 1 (ucast priv)"
proof -
  have "boot_leaf pa priv e = table_entry (ucast priv) pa e" by (simp add: boot_leaf_def table_entry_def Let_def)
  then show "pte_present (boot_leaf pa priv e) = 1" "pte_pageFrameNumber (boot_leaf pa priv e) = page_of pa"
    "pte_userSupervisor (boot_leaf pa priv e) = take_bit 1 (ucast priv)"
    by (simp_all add: pte_table_entry page_of_def)
qed

lemma MapPage_step:
  assumes "boot_tree P r s" "3 \<le> boot_avail s"
  shows "boot_tree P r (MapPage v pa priv r s)"
    "view (MapPage v pa priv r s) r w =
      (if page_of w = page_of v then Some (page_of pa, take_bit 1 (ucast priv)) else view s r w)"
proof -
  have i: "boot_inv P s" "tree_wf 0 (entry_at (bram s)) r (boot_own P s)"
    using assms(1) by (auto simp: boot_tree_def)
  obtain e0 s' where m: "map_walk boot_alloc bram put_bram 0 (if vidx 39 v = 511 then 1 else 0) r (vidx 39 v)
      (vidx 30 v) (vidx 21 v) (vidx 12 v) (boot_leaf pa priv) s = Some s'" "boot_inv P s'"
    "tree_wf 0 (entry_at (bram s')) r (boot_own P s')"
    and l: "\<And>q j. path3 q \<Longrightarrow> length q = 3 \<Longrightarrow> j < 512 \<Longrightarrow> leaf 0 (entry_at (bram s')) r q j =
      (if q = [vidx 39 v, vidx 30 v, vidx 21 v] \<and> j = vidx 12 v
       then if pte_present (boot_leaf pa priv e0) = 0 then None else Some (boot_leaf pa priv e0)
       else leaf 0 (entry_at (bram s)) r q j)"
    by (rule bsup.map_walk_ok [OF i assms(2) vidx_less vidx_less vidx_less vidx_less,
        where priv = "if vidx 39 v = 511 then 1 else 0" and f = "boot_leaf pa priv"]) blast
  have s': "s' = MapPage v pa priv r s" using m(1) MapPage_map_walk by simp
  show "boot_tree P r (MapPage v pa priv r s)" using m s' by (simp add: boot_tree_def)
  show "view (MapPage v pa priv r s) r w =
      (if page_of w = page_of v then Some (page_of pa, take_bit 1 (ucast priv)) else view s r w)"
    using l [OF vpath_path3 vidx_less, of w 12 w] same_page [of w v]
    by (auto simp: view_def s' vpath_def [of v] boot_leaf_fields)
qed

lemma RequestPage_avail:
  "boot_avail (snd (RequestPage s)) \<le> boot_avail s" "boot_avail s \<le> Suc (boot_avail (snd (RequestPage s)))"
  by (auto simp: RequestPage_def boot_avail_def split: list.split option.split)

lemma NextTable_avail:
  "boot_avail (snd (NextTable priv ep s)) \<le> boot_avail s"
  "boot_avail s \<le> Suc (boot_avail (snd (NextTable priv ep s)))"
  using RequestPage_avail [of s]
  by (auto simp: NextTable_def Let_def SetMem_def boot_avail_def split: prod.split)

lemma MapPage_avail:
  "boot_avail (MapPage v pa priv r s) \<le> boot_avail s"
  "boot_avail s \<le> boot_avail (MapPage v pa priv r s) + 3"
proof -
  define k where "k = (if PTLevel4 (VirtualAddressToPageLevels v) = 511 then 1 else 0 :: u64)"
  obtain t3 s1 where 1: "NextTable k (r + 8 * PTLevel4 (VirtualAddressToPageLevels v)) s = (t3, s1)" by fastforce
  obtain t2 s2 where 2: "NextTable k (t3 + 8 * PTLevel3 (VirtualAddressToPageLevels v)) s1 = (t2, s2)" by fastforce
  obtain t1 s3 where 3: "NextTable k (t2 + 8 * PTLevel2 (VirtualAddressToPageLevels v)) s2 = (t1, s3)" by fastforce
  have "boot_avail (MapPage v pa priv r s) = boot_avail s3"
    using 1 2 3 by (simp add: MapPage_def Let_def k_def boot_avail_def)
  then show "boot_avail (MapPage v pa priv r s) \<le> boot_avail s"
    "boot_avail s \<le> boot_avail (MapPage v pa priv r s) + 3"
    using NextTable_avail [where priv = k and ep = "r + 8 * PTLevel4 (VirtualAddressToPageLevels v)" and s = s]
      NextTable_avail [where priv = k and ep = "t3 + 8 * PTLevel3 (VirtualAddressToPageLevels v)" and s = s1]
      NextTable_avail [where priv = k and ep = "t2 + 8 * PTLevel2 (VirtualAddressToPageLevels v)" and s = s2] 1 2 3 by auto
qed

section \<open>The loops over pages\<close>

lemma unat_page_step: "unat i + 4096 < 2 ^ 64 \<Longrightarrow> unat (i + PAGE_SIZE) = unat i + 4096"
  by (simp add: PAGE_SIZE_def unat_word_ariths)

text \<open>The loop visits every address a whole number of pages above the first one.\<close>

lemma for_pages_visits:
  assumes "unat n \<le> 2 ^ 64 - 4096"
  shows "\<exists>ws. (\<forall>s. for_pages f i n s = Some (fold f ws s)) \<and>
    set ws = {i + of_nat (4096 * k) | k. unat i + 4096 * k < unat n} \<and>
    4096 * length ws < unat n - unat i + 4096"
proof (induction "unat n - unat i" arbitrary: i rule: less_induct)
  case less
  show ?case
  proof (cases "i < n")
    case True
    then have lt: "unat i < unat n" by (simp add: word_less_nat_alt)
    then have u: "unat (i + PAGE_SIZE) = unat i + 4096"
      using assms by (intro unat_page_step) simp
    then have "unat n - unat (i + PAGE_SIZE) < unat n - unat i" using lt by simp
    from less [OF this] obtain ws where ws: "\<And>s. for_pages f (i + PAGE_SIZE) n s = Some (fold f ws s)"
      "set ws = {i + PAGE_SIZE + of_nat (4096 * k) | k. unat i + 4096 + 4096 * k < unat n}"
      "4096 * length ws < unat n - (unat i + 4096) + 4096"
      unfolding u by blast
    have "for_pages f i n s = Some (fold f (i # ws) s)" for s
      by (subst for_pages.simps) (simp add: True ws(1))
    moreover have "set (i # ws) = {i + of_nat (4096 * k) | k. unat i + 4096 * k < unat n}"
    proof -
      have "{i + of_nat (4096 * k) | k. unat i + 4096 * k < unat n} =
          (\<lambda>k. i + of_nat (4096 * k)) ` {k. unat i + 4096 * k < unat n}" by auto
      also have "{k. unat i + 4096 * k < unat n} = insert 0 (Suc ` {k. unat i + 4096 + 4096 * k < unat n})"
        using lt by (auto simp: image_iff gr0_conv_Suc intro: ccontr) (metis not0_implies_Suc add.assoc add.commute mult_Suc_right)
      finally show ?thesis
        by (auto simp: ws(2) PAGE_SIZE_def image_iff algebra_simps)
    qed
    moreover have "4096 * length (i # ws) < unat n - unat i + 4096"
      using ws(3) lt by (cases ws) auto
    ultimately show ?thesis by blast
  next
    case False
    then have "\<not> unat i < unat n" by (simp add: word_less_nat_alt)
    then show ?thesis
      using False by (intro exI [of _ "[]"]) (simp add: for_pages.simps)
  qed
qed

definition map_identity :: "u64 \<Rightarrow> u64 list \<Rightarrow> boot \<Rightarrow> boot" where
  "map_identity r = fold (\<lambda>i. MapPage i i 0 r)"

lemma map_identity_avail:
  "boot_avail (map_identity r ws s) \<le> boot_avail s \<and>
   boot_avail s \<le> boot_avail (map_identity r ws s) + 3 * length ws"
proof (induction ws arbitrary: s)
  case (Cons w ws)
  show ?case
    using Cons.IH [of "MapPage w w 0 r s"] MapPage_avail [where v = w and pa = w and priv = 0 and r = r and s = s]
    by (auto simp: map_identity_def)
qed (simp add: map_identity_def)

lemma map_identity_view:
  assumes "boot_tree P r s" "3 \<le> boot_avail (map_identity r ws s)"
  shows "boot_tree P r (map_identity r ws s) \<and>
    (\<forall>v. view (map_identity r ws s) r v =
      (if page_of v \<in> page_of ` set ws then Some (page_of v, 0) else view s r v))"
  using assms
proof (induction ws arbitrary: s)
  case (Cons w ws)
  let ?s = "MapPage w w 0 r s"
  have e: "map_identity r (w # ws) s = map_identity r ws ?s" by (simp add: map_identity_def)
  have "3 \<le> boot_avail ?s" using Cons.prems(2) map_identity_avail [of r ws ?s] by (simp add: e)
  then have "3 \<le> boot_avail s" using MapPage_avail(1) order_trans by blast
  note st = MapPage_step [OF Cons.prems(1) this, where v = w and pa = w and priv = 0]
  show ?case
    using Cons.IH [OF st(1)] Cons.prems(2) st(2) by (auto simp: e)
qed (simp add: map_identity_def)

lemma boot_tree_new:
  assumes "pages_to_come s = map Some (p # P)" "distinct (p # P)" "\<forall>q \<in> set (p # P). frame_ok 0 q"
  shows "fst (RequestPage s) = p"
    "boot_tree (p # P) p (SetMem p PAGE_SIZE 0 (snd (RequestPage s)))"
    "view (SetMem p PAGE_SIZE 0 (snd (RequestPage s))) p v = None"
proof -
  let ?s = "SetMem p PAGE_SIZE 0 (snd (RequestPage s))"
  show p: "fst (RequestPage s) = p" using assms(1) by (simp add: RequestPage_def)
  have "bram ?s x = 0" if "unat (x - p) < 4096" for x
    using that by (simp add: SetMem_def setn_def PAGE_SIZE_def)
  then have z: "entry_at (bram ?s) p i = 0" if "i < 512" for i
    using bsup.entry_at_zero [OF that] by blast
  have w: "tbl_walk 0 (entry_at (bram ?s)) p q = (if q = [] then Some p else None)" if "path3 q" for q
    using that z by (cases q) (auto simp: tbl_step_def path3_def pte_present_def bf_get_def)
  have "boot_inv (p # P) ?s" "p \<in> boot_own (p # P) ?s"
    using assms by (auto simp: boot_inv_def boot_own_def RequestPage_def SetMem_def suffix_def)
  then show "boot_tree (p # P) p ?s"
    using w by (auto simp: boot_tree_def tree_wf_def split: if_splits)
  show "view ?s p v = None"
    using w [OF vpath_path3(1)] by (simp add: view_def leaf_def vpath_def)
qed

lemma page_of_eqI: "unat v div 4096 = unat w div 4096 \<Longrightarrow> page_of v = page_of w"
proof -
  assume "unat v div 4096 = unat w div 4096"
  then have "drop_bit 12 v = drop_bit 12 w"
    by (simp add: word_unat_eq_iff unat_div_distrib drop_bit_eq_div)
  then show ?thesis by (simp add: page_of_def)
qed

lemma page_cover:
  assumes al: "unat i mod 4096 = 0"
  shows "page_of ` {i + of_nat (4096 * k) | k. unat i + 4096 * k < unat n} = page_of ` {w. i \<le> w \<and> w < n}"
proof -
  have u: "unat (i + of_nat (4096 * k)) = unat i + 4096 * k" if "unat i + 4096 * k < unat n" for k
  proof -
    have "unat n < 2 ^ LENGTH(64)" by (rule unsigned_less)
    then have "unat i + 4096 * k < 2 ^ 64" using that by simp
    then show ?thesis by (simp add: unat_word_ariths unat64_of_nat)
  qed
  have "page_of w \<in> page_of ` {i + of_nat (4096 * k) | k. unat i + 4096 * k < unat n}" if "i \<le> w" "w < n" for w
  proof -
    have le: "unat i \<le> unat w" "unat w < unat n"
      using that by (simp_all add: word_le_nat_alt word_less_nat_alt)
    obtain q where q: "unat i = 4096 * q" using al by auto
    define k where "k = (unat w - unat i) div 4096"
    have k: "unat i + 4096 * k \<le> unat w" "(unat i + 4096 * k) div 4096 = unat w div 4096"
      using le q by (auto simp: k_def)
    then have "page_of w = page_of (i + of_nat (4096 * k))"
      using u [of k] le by (intro page_of_eqI) simp
    then show ?thesis using k le by fastforce
  qed
  moreover have "i \<le> i + of_nat (4096 * k) \<and> i + of_nat (4096 * k) < n" if "unat i + 4096 * k < unat n" for k
    using u [OF that] that unfolding word_le_nat_alt word_less_nat_alt by simp
  ultimately show ?thesis by blast
qed

lemma for_pages_identity:
  assumes "unat n \<le> 2 ^ 64 - 4096" "unat i mod 4096 = 0"
  obtains ws where "\<And>s. for_pages (\<lambda>i. MapPage i i 0 r) i n s = Some (map_identity r ws s)"
    "page_of ` set ws = page_of ` {w. i \<le> w \<and> w < n}" "4096 * length ws < unat n - unat i + 4096"
  using for_pages_visits [OF assms(1), of "\<lambda>i. MapPage i i 0 r" i] page_cover [OF assms(2), of n]
  by (auto simp: map_identity_def)

lemma identity_map_avail:
  assumes "unat sz \<le> 2 ^ 64 - 4096" "unat fb mod 4096 = 0" "unat (fb + fbsz) \<le> 2 ^ 64 - 4096"
    "CreateIdentityMappedPageTable sz fb fbsz s = Some (p, s')"
  shows "\<exists>n m. boot_avail s \<le> boot_avail s' + 3 * (n + m) + 1 \<and>
    4096 * n < unat sz + 4096 \<and> 4096 * m < unat (fb + fbsz) - unat fb + 4096"
proof -
  let ?p = "fst (RequestPage s)" and ?s0 = "SetMem (fst (RequestPage s)) PAGE_SIZE 0 (snd (RequestPage s))"
  obtain ws where ws: "\<And>s. for_pages (\<lambda>i. MapPage i i 0 ?p) 0 sz s = Some (map_identity ?p ws s)"
    "4096 * length ws < unat sz + 4096"
    by (rule for_pages_identity [OF assms(1), where i = 0 and r = ?p]) auto
  obtain vs where vs: "\<And>s. for_pages (\<lambda>i. MapPage i i 0 ?p) fb (fb + fbsz) s = Some (map_identity ?p vs s)"
    "4096 * length vs < unat (fb + fbsz) - unat fb + 4096"
    by (rule for_pages_identity [OF assms(3,2), where r = ?p]) blast
  have "s' = map_identity ?p (ws @ vs) ?s0"
    using assms(4) ws(1) vs(1)
    by (auto simp: CreateIdentityMappedPageTable_def Let_def case_prod_unfold map_identity_def)
  then have "boot_avail s \<le> boot_avail s' + 3 * (length ws + length vs) + 1"
    using map_identity_avail [of ?p "ws @ vs" ?s0] RequestPage_avail(2) [of s] by (simp add: boot_avail_def SetMem_def)
  then show ?thesis using ws(2) vs(2) by blast
qed

text \<open>
  C9: \<open>CreateIdentityMappedPageTable\<close>. When the firmware hands out distinct aligned pages, memory
  sizes stay a page below the end of the address space and the frame buffer is page aligned, the call
  returns; and if the firmware did not run out of pages, the tables map exactly the pages of system
  memory and of the frame buffer, each to itself and for the supervisor only.
\<close>

theorem identity_map_exact:
  assumes fw: "pages_to_come s = map Some (p # P)" "distinct (p # P)" "\<forall>q \<in> set (p # P). frame_ok 0 q"
    and szb: "unat sz \<le> 2 ^ 64 - 4096" and fb: "unat fb mod 4096 = 0" "unat (fb + fbsz) \<le> 2 ^ 64 - 4096"
  shows "\<exists>s'. CreateIdentityMappedPageTable sz fb fbsz s = Some (p, s') \<and>
    (3 \<le> boot_avail s' \<longrightarrow> (\<forall>v. view s' p v =
      (if page_of v \<in> page_of ` {w. w < sz \<or> fb \<le> w \<and> w < fb + fbsz} then Some (page_of v, 0) else None)))"
proof -
  note new = boot_tree_new [OF fw]
  let ?s0 = "SetMem p PAGE_SIZE 0 (snd (RequestPage s))"
  obtain ws where ws: "\<And>s. for_pages (\<lambda>i. MapPage i i 0 p) 0 sz s = Some (map_identity p ws s)"
    "page_of ` set ws = page_of ` {w. 0 \<le> w \<and> w < sz}"
    by (rule for_pages_identity [OF szb, where i = 0 and r = p]) simp_all
  obtain vs where vs: "\<And>s. for_pages (\<lambda>i. MapPage i i 0 p) fb (fb + fbsz) s = Some (map_identity p vs s)"
    "page_of ` set vs = page_of ` {w. fb \<le> w \<and> w < fb + fbsz}"
    by (rule for_pages_identity [OF fb(2,1), where r = p]) blast
  let ?s' = "map_identity p (ws @ vs) ?s0"
  have "CreateIdentityMappedPageTable sz fb fbsz s = Some (p, ?s')"
    using new(1) ws(1) vs(1)
    by (simp add: CreateIdentityMappedPageTable_def Let_def case_prod_unfold map_identity_def)
  moreover have "page_of ` set (ws @ vs) = page_of ` {w. w < sz \<or> fb \<le> w \<and> w < fb + fbsz}"
    using ws(2) vs(2) by (simp add: image_Un Collect_disj_eq)
  moreover have "\<forall>v. view ?s' p v = (if page_of v \<in> page_of ` set (ws @ vs) then Some (page_of v, 0) else None)"
    if "3 \<le> boot_avail ?s'"
    using map_identity_view [OF new(2) that] new(3) by simp
  ultimately show ?thesis by auto
qed

text \<open>One page of memory, one page of frame buffer at 0xf000000, and ten pages from the firmware.\<close>

definition boot1 :: boot where
  "boot1 = \<lparr>bram = (\<lambda>_. 0), pages_to_come = map Some [0x1000, 0x2000, 0x3000, 0x4000, 0x5000, 0x6000, 0x7000,
       0x8000, 0x9000, 0xa000], GlobalAllocatedMemory = 0, GlobalAllocatedPageCount = 0\<rparr>"

lemma boot1_firmware:
  "pages_to_come boot1 = map Some (0x1000 # [0x2000, 0x3000, 0x4000, 0x5000, 0x6000, 0x7000, 0x8000, 0x9000, 0xa000])"
  "distinct (0x1000 # [0x2000, 0x3000, 0x4000, 0x5000, 0x6000, 0x7000, 0x8000, 0x9000, 0xa000 :: u64])"
  "\<forall>q \<in> set (0x1000 # [0x2000, 0x3000, 0x4000, 0x5000, 0x6000, 0x7000, 0x8000, 0x9000, 0xa000]). frame_ok 0 q"
  by (simp_all add: boot1_def frame_ok_def)

theorem identity_map_exact_witness:
  "\<exists>s'. CreateIdentityMappedPageTable 0x1000 0xf000000 0x1000 boot1 = Some (0x1000, s') \<and>
    view s' 0x1000 0xf000123 = Some (0xf000, 0)"
proof -
  have b: "unat (0x1000 :: u64) \<le> 2 ^ 64 - 4096" "unat (0xf000000 :: u64) mod 4096 = 0"
    "unat (0xf000000 + 0x1000 :: u64) \<le> 2 ^ 64 - 4096" by simp_all
  obtain s' where s': "CreateIdentityMappedPageTable 0x1000 0xf000000 0x1000 boot1 = Some (0x1000, s')"
    and v: "3 \<le> boot_avail s' \<Longrightarrow> view s' 0x1000 0xf000123 =
      (if page_of 0xf000123 \<in> page_of ` {w. w < 0x1000 \<or> 0xf000000 \<le> w \<and> w < 0xf000000 + 0x1000}
       then Some (page_of 0xf000123, 0) else None)"
    using identity_map_exact [OF boot1_firmware b] by blast
  obtain n m where "boot_avail boot1 \<le> boot_avail s' + 3 * (n + m) + 1" "4096 * n < 8192" "4096 * m < 8192"
    using identity_map_avail [OF b s'] by auto
  then have "3 \<le> boot_avail s'" by (simp add: boot_avail_def boot1_def)
  moreover have "page_of 0xf000123 \<in> page_of ` {w. w < 0x1000 \<or> 0xf000000 \<le> w \<and> w < 0xf000000 + 0x1000}"
    by (rule imageI) simp
  moreover have "page_of 0xf000123 = 0xf000" by (simp add: page_of_def)
  ultimately show ?thesis using s' v by simp
qed

section \<open>The higher half\<close>

definition in_section :: "u64 \<Rightarrow> u64 \<Rightarrow> ElfSectionInfo \<Rightarrow> bool" where
  "in_section base v sec \<longleftrightarrow> base \<le> sec_VirtualBase sec \<and> sec_VirtualBase sec \<le> v \<and>
    v < sec_VirtualBase sec + sec_VirtualSize sec"

lemma find_section_find:
  "find_section i secs base v = Some j \<Longrightarrow> i \<le> j \<and> List.find (in_section base v) secs = Some (secs ! (j - i))"
  "find_section i secs base v = None \<Longrightarrow> List.find (in_section base v) secs = None"
proof (induction secs arbitrary: i)
  case (Cons sec secs)
  {
    case 1
    show ?case
      using 1 Cons.IH(1) [of "Suc i"]
      by (auto simp: in_section_def Let_def not_less Suc_le_eq nth_Cons' split: if_splits)
  next
    case 2
    show ?case
      using 2 Cons.IH(2) [of "Suc i"] by (auto simp: in_section_def Let_def not_less split: if_splits)
  }
qed simp_all

lemma LeafPrivilegeLevel_find:
  "LeafPrivilegeLevel secs base v = (if base \<le> v then
     (case List.find (in_section base v) secs of None \<Rightarrow> 1 | Some sec \<Rightarrow> of_bool (sec_Privileged sec = 0)) else 0)"
  using find_section_find [of 0 secs base v]
  by (auto simp: LeafPrivilegeLevel_def FindElfSectionByVaddr_def split: option.split)

lemma unat_page_of: "unat (page_of v) = unat v div 4096 mod 2 ^ 36"
proof -
  have "unat (page_of v) = take_bit 36 (drop_bit 12 (unat v))"
    by (simp add: page_of_def unsigned_take_bit_eq unsigned_drop_bit_eq take_bit_drop_bit)
  then show ?thesis by (simp add: take_bit_eq_mod drop_bit_eq_div)
qed

lemma page_apart:
  assumes "page_of (pg a + off) = page_of (pg k + off)" "a < 2 ^ 36" "k < 2 ^ 36"
  shows "a = k"
proof -
  have u: "unat (page_of (pg i + off)) = (i + unat off div 4096) mod 2 ^ 36" if "i < 2 ^ 36" for i
  proof -
    have "unat (page_of (pg i + off)) = (i * 4096 + unat off) mod 2 ^ 64 div 4096 mod 2 ^ 36"
      using that by (simp add: unat_page_of unat_word_ariths unat_pg)
    also have "(i * 4096 + unat off) mod 2 ^ 64 div 4096 = (i * 4096 + unat off) div 4096 mod 2 ^ 52"
      using mod_mult2_eq [of "i * 4096 + unat off" 4096 "2 ^ 52"] by simp
    finally show ?thesis by (simp add: mod_mod_cancel)
  qed
  have "(a + unat off div 4096) mod 2 ^ 36 = (k + unat off div 4096) mod 2 ^ 36"
    using assms u by metis
  then obtain q1 q2 where "a + unat off div 4096 + 2 ^ 36 * q1 = k + unat off div 4096 + 2 ^ 36 * q2"
    unfolding nat_mod_eq_iff by blast
  then have "(a + 2 ^ 36 * q1) mod 2 ^ 36 = (k + 2 ^ 36 * q2) mod 2 ^ 36" by simp
  then show ?thesis using assms(2,3) by simp
qed

text \<open>The effect of the loop from page \<open>a\<close> on: what it maps, and that it leaves the rest.\<close>

definition maps_from :: "u64 \<Rightarrow> ElfSectionInfo list \<Rightarrow> u64 \<Rightarrow> u64 \<Rightarrow> u64 \<Rightarrow> nat \<Rightarrow> boot \<Rightarrow> boot \<Rightarrow> bool" where
  "maps_from r secs base off sz a s s' \<longleftrightarrow>
    (\<forall>k. a \<le> k \<and> 4096 * k < unat sz \<and> (\<forall>j. a \<le> j \<and> j \<le> k \<longrightarrow> pg j + off \<noteq> 0) \<longrightarrow>
      view s' r (pg k + off) = Some (of_nat k, take_bit 1 (ucast (LeafPrivilegeLevel secs base (pg k + off))))) \<and>
    (\<forall>v. (\<forall>k. a \<le> k \<and> 4096 * k < unat sz \<longrightarrow> page_of v \<noteq> page_of (pg k + off)) \<longrightarrow> view s' r v = view s r v)"

lemma maps_from_step:
  assumes "maps_from r secs base off sz (Suc a) s1 s'" "unat sz \<le> 2 ^ 48" "4096 * a < unat sz"
    and s1: "\<And>v. view s1 r v = (if page_of v = page_of (pg a + off)
      then Some (page_of (pg a), take_bit 1 (ucast (LeafPrivilegeLevel secs base (pg a + off)))) else view s r v)"
  shows "maps_from r secs base off sz a s s'"
proof -
  have ap: "page_of (pg a + off) \<noteq> page_of (pg k + off)" if "a < k" "4096 * k < unat sz" for k
    using page_apart [of a off k] that assms(2,3) by auto
  have pa: "page_of (pg a) = of_nat a"
  proof -
    have "unat (page_of (pg a)) = a"
      using assms(2,3) by (simp add: unat_page_of unat_pg)
    then show ?thesis by (metis u64_of_nat_unat)
  qed
  have "view s' r (pg k + off) = Some (of_nat k, take_bit 1 (ucast (LeafPrivilegeLevel secs base (pg k + off))))"
    if "a \<le> k" "4096 * k < unat sz" "\<forall>j. a \<le> j \<and> j \<le> k \<longrightarrow> pg j + off \<noteq> 0" for k
  proof (cases "k = a")
    case True
    have "view s' r (pg a + off) = view s1 r (pg a + off)"
      using assms(1) ap by (auto simp: maps_from_def Suc_le_eq)
    then show ?thesis using True s1 pa by simp
  next
    case False
    then show ?thesis using assms(1) that by (auto simp: maps_from_def Suc_le_eq)
  qed
  moreover have "view s' r v = view s r v"
    if "\<forall>k. a \<le> k \<and> 4096 * k < unat sz \<longrightarrow> page_of v \<noteq> page_of (pg k + off)" for v
    using that assms(1,3) s1 [of v] by (auto simp: maps_from_def Suc_le_eq)
  ultimately show ?thesis by (auto simp: maps_from_def)
qed

lemma higher_half_run:
  assumes sz: "unat sz \<le> 2 ^ 48" and "a \<le> 2 ^ 36"
  shows "\<exists>s'. higher_half_loop r secs base off sz (pg a) s = Some s' \<and> boot_avail s' \<le> boot_avail s \<and>
    boot_avail s \<le> boot_avail s' + 3 * (Suc (unat sz div 4096) - a) \<and>
    (boot_tree P r s \<and> 3 \<le> boot_avail s' \<longrightarrow> maps_from r secs base off sz a s s')"
  using assms(2)
proof (induction "2 ^ 36 - a" arbitrary: a s rule: less_induct)
  case less
  have u: "unat (pg a) = 4096 * a" using less.prems by (simp add: unat_pg)
  have lt: "pg a < sz \<longleftrightarrow> 4096 * a < unat sz" by (simp add: word_less_nat_alt u)
  show ?case
  proof (cases "pg a < sz \<and> pg a + off \<noteq> 0")
    case False
    then have "higher_half_loop r secs base off sz (pg a) s = Some s"
      by (subst higher_half_loop.simps) (auto simp: Let_def)
    moreover have "maps_from r secs base off sz a s s"
      using False lt by (fastforce simp: maps_from_def)
    ultimately show ?thesis by simp
  next
    case True
    let ?s1 = "MapPage (pg a + off) (pg a) (LeafPrivilegeLevel secs base (pg a + off)) r s"
    have le: "a < 2 ^ 36" using True lt sz by auto
    obtain s' where s': "higher_half_loop r secs base off sz (pg (Suc a)) ?s1 = Some s'" "boot_avail s' \<le> boot_avail ?s1"
      "boot_avail ?s1 \<le> boot_avail s' + 3 * (Suc (unat sz div 4096) - Suc a)"
      "boot_tree P r ?s1 \<and> 3 \<le> boot_avail s' \<longrightarrow> maps_from r secs base off sz (Suc a) ?s1 s'"
      using less.hyps [OF diff_less_mono2 [OF lessI le] Suc_leI [OF le], of ?s1] by blast
    have "higher_half_loop r secs base off sz (pg a) s = Some s'"
      using True s'(1) by (subst higher_half_loop.simps) (simp add: Let_def pg_Suc)
    moreover have "boot_avail s' \<le> boot_avail s" "boot_avail s \<le> boot_avail s' + 3 * (Suc (unat sz div 4096) - a)"
      using s'(2,3) MapPage_avail [where v = "pg a + off" and pa = "pg a" and r = r and s = s
          and priv = "LeafPrivilegeLevel secs base (pg a + off)"] True lt by auto
    moreover have "maps_from r secs base off sz a s s'" if "boot_tree P r s" "3 \<le> boot_avail s'"
      using s'(4) MapPage_step [OF that(1), where v = "pg a + off" and pa = "pg a"
          and priv = "LeafPrivilegeLevel secs base (pg a + off)"] that(2) calculation(2) True lt sz
      by (intro maps_from_step [where s = s and ?s1.0 = ?s1]) auto
    ultimately show ?thesis by blast
  qed
qed



end
