(* ===== verification/BootElf.thy ===== *)
theory BootElf
  imports BootPaging KConv
begin

text \<open>
  The boot loader's services and the ELF loader: \<^verbatim>\<open>bootloader/file_loader.c\<close>, \<^verbatim>\<open>elf_loader.c\<close>,
  \<^verbatim>\<open>memory_map.c\<close>, \<^verbatim>\<open>font_loader.c\<close>, \<^verbatim>\<open>gop_setup.c\<close> and the entry point in \<^verbatim>\<open>bootloader.c\<close>.

  The firmware and the headers it comes with are not part of the repository. They are the record
  \<open>uefi\<close>: one function per boot service or protocol member that the loader calls, on a state of
  the loader's memory and the firmware's own state, and one per structure of \<^verbatim>\<open>efi.h\<close> and \<^verbatim>\<open>elf.h\<close> that
  the loader reads from memory. A status is a 64-bit word with the error flag in the top bit.
  A configuration table is the pair of whether its identifier is that of ACPI 2.0 and its address.
  Local structures whose address is passed to the firmware stand at an address given by the record.
\<close>

section \<open>The firmware\<close>

type_synonym EFI_STATUS = u64

definition EFI_ERROR :: "EFI_STATUS \<Rightarrow> bool" where
  "EFI_ERROR s \<longleftrightarrow> sint s < 0"

definition EFIERR :: "u64 \<Rightarrow> EFI_STATUS" where
  "EFIERR a = 0x8000000000000000 OR a"

abbreviation EFI_SUCCESS :: EFI_STATUS where "EFI_SUCCESS \<equiv> 0"
abbreviation EFI_LOAD_ERROR :: EFI_STATUS where "EFI_LOAD_ERROR \<equiv> EFIERR 1"
abbreviation EFI_UNSUPPORTED :: EFI_STATUS where "EFI_UNSUPPORTED \<equiv> EFIERR 3"
abbreviation EFI_BUFFER_TOO_SMALL :: EFI_STATUS where "EFI_BUFFER_TOO_SMALL \<equiv> EFIERR 5"
abbreviation EFI_OUT_OF_RESOURCES :: EFI_STATUS where "EFI_OUT_OF_RESOURCES \<equiv> EFIERR 9"

record Elf64_Ehdr =
  e_ident :: "nat \<Rightarrow> u8"
  e_type :: u16
  e_machine :: u16
  e_entry :: u64
  e_phoff :: u64
  e_shoff :: u64
  e_phentsize :: u16
  e_phnum :: u16
  e_shnum :: u16
  e_shstrndx :: u16

record Elf64_Phdr =
  p_type :: u32
  p_offset :: u64
  p_vaddr :: u64
  p_filesz :: u64
  p_memsz :: u64

record Elf64_Shdr =
  sh_name :: u32
  sh_flags :: u64
  sh_addr :: u64
  sh_offset :: u64
  sh_size :: u64

record GopMode =
  FrameBufferBase :: u64
  FrameBufferSize :: u64
  HorizontalResolution :: u32
  VerticalResolution :: u32
  PixelsPerScanLine :: u32

type_synonym 'f fw = "boot \<times> 'f"

record 'f uefi =
  bs_AllocatePages :: "u64 \<Rightarrow> 'f fw \<Rightarrow> (EFI_STATUS \<times> u64) \<times> 'f fw"
  bs_AllocatePool :: "u64 \<Rightarrow> 'f fw \<Rightarrow> (EFI_STATUS \<times> u64) \<times> 'f fw"
  lib_AllocatePool :: "u64 \<Rightarrow> 'f fw \<Rightarrow> u64 \<times> 'f fw"
  lib_AllocateZeroPool :: "u64 \<Rightarrow> 'f fw \<Rightarrow> u64 \<times> 'f fw"
  lib_FreePool :: "u64 \<Rightarrow> 'f fw \<Rightarrow> 'f fw"
  LocateHandleBuffer :: "'f fw \<Rightarrow> (EFI_STATUS \<times> u64) \<times> 'f fw"
  HandleProtocol :: "u64 \<Rightarrow> 'f fw \<Rightarrow> (EFI_STATUS \<times> u64) \<times> 'f fw"
  OpenVolume :: "u64 \<Rightarrow> 'f fw \<Rightarrow> (EFI_STATUS \<times> u64) \<times> 'f fw"
  file_Open :: "u64 \<Rightarrow> string \<Rightarrow> 'f fw \<Rightarrow> (EFI_STATUS \<times> u64) \<times> 'f fw"
  file_Read :: "u64 \<Rightarrow> u64 \<Rightarrow> u64 \<Rightarrow> 'f fw \<Rightarrow> (EFI_STATUS \<times> u64) \<times> 'f fw"
  file_SetPosition :: "u64 \<Rightarrow> u64 \<Rightarrow> 'f fw \<Rightarrow> EFI_STATUS \<times> 'f fw"
  file_Close :: "u64 \<Rightarrow> 'f fw \<Rightarrow> 'f fw"
  LocateGop :: "'f fw \<Rightarrow> (EFI_STATUS \<times> u64) \<times> 'f fw"
  GetMemoryMap :: "u64 \<Rightarrow> u64 \<Rightarrow> 'f fw \<Rightarrow> (EFI_STATUS \<times> u64 \<times> u64 \<times> u64) \<times> 'f fw"
  Ehdr_at :: "mem \<Rightarrow> u64 \<Rightarrow> Elf64_Ehdr"
  Phdr_at :: "mem \<Rightarrow> u64 \<Rightarrow> Elf64_Phdr"
  Shdr_at :: "mem \<Rightarrow> u64 \<Rightarrow> Elf64_Shdr"
  sizeof_Ehdr :: u64
  sizeof_Phdr :: u64
  sizeof_Shdr :: u64
  desc_NumberOfPages :: "mem \<Rightarrow> u64 \<Rightarrow> u64"
  local_ElfHeader :: u64
  gop_mode :: "mem \<Rightarrow> u64 \<Rightarrow> GopMode"
  config_tables :: "mem \<Rightarrow> (bool \<times> u64) list"
  ExitBootServices :: "u64 \<Rightarrow> 'f fw \<Rightarrow> EFI_STATUS \<times> 'f fw"
  addr_KernelElfSegments :: u64

abbreviation fmem :: "'f fw \<Rightarrow> mem" where
  "fmem w \<equiv> bram (fst w)"

section \<open>Files\<close>

text \<open>The first handle of the buffer is read from memory; 0 stands for a pointer not assigned.\<close>

definition OpenRootDirectory :: "'f uefi \<Rightarrow> 'f fw \<Rightarrow> (EFI_STATUS \<times> u64) \<times> 'f fw" where
  "OpenRootDirectory U w =
    (let ((Status, Handles), w) = LocateHandleBuffer U w
     in if EFI_ERROR Status then ((Status, 0), w)
        else (let ((Status, FileSystem), w) = HandleProtocol U (load64 (fmem w) Handles) w
              in if EFI_ERROR Status then ((Status, 0), w)
                 else (let ((Status, RootDir), w) = OpenVolume U FileSystem w
                       in if EFI_ERROR Status then ((Status, RootDir), w) else ((EFI_SUCCESS, RootDir), w))))"

definition OpenFile :: "'f uefi \<Rightarrow> u64 \<Rightarrow> string \<Rightarrow> 'f fw \<Rightarrow> (EFI_STATUS \<times> u64) \<times> 'f fw" where
  "OpenFile U RootDir FileName w =
    (let ((Status, File), w) = file_Open U RootDir FileName w
     in if EFI_ERROR Status then ((Status, File), w) else ((EFI_SUCCESS, File), w))"

section \<open>ELF headers\<close>

definition ValidateElfHeader :: "Elf64_Ehdr \<Rightarrow> EFI_STATUS" where
  "ValidateElfHeader h =
    (if e_ident h 0 \<noteq> 0x7f \<or> e_ident h 1 \<noteq> 0x45 \<or> e_ident h 2 \<noteq> 0x4c \<or> e_ident h 3 \<noteq> 0x46
     then EFI_UNSUPPORTED
     else if e_ident h 4 \<noteq> 2 \<or> e_machine h \<noteq> 62 then EFI_UNSUPPORTED
     else if e_type h \<noteq> 2 then EFI_UNSUPPORTED
     else EFI_SUCCESS)"

definition ReadElfHeader :: "'f uefi \<Rightarrow> u64 \<Rightarrow> u64 \<Rightarrow> 'f fw \<Rightarrow> EFI_STATUS \<times> 'f fw" where
  "ReadElfHeader U File ElfHeader w =
    (let ((Status, HeaderSize), w) = file_Read U File (sizeof_Ehdr U) ElfHeader w
     in if EFI_ERROR Status then (Status, w)
        else if HeaderSize \<noteq> sizeof_Ehdr U then (EFI_LOAD_ERROR, w)
        else (let Status = ValidateElfHeader (Ehdr_at U (fmem w) ElfHeader)
              in if EFI_ERROR Status then (Status, w) else (EFI_SUCCESS, w)))"

text \<open>The product of two 16-bit fields is computed as \<^verbatim>\<open>int\<close> and converted to 64 bits.\<close>

definition phdrs_size :: "Elf64_Ehdr \<Rightarrow> u64" where
  "phdrs_size h = scast (ucast (e_phentsize h) * ucast (e_phnum h) :: u32)"

definition ReadProgramHeaders :: "'f uefi \<Rightarrow> u64 \<Rightarrow> u64 \<Rightarrow> 'f fw \<Rightarrow> (EFI_STATUS \<times> u64) \<times> 'f fw" where
  "ReadProgramHeaders U File ElfHeader w =
    (let (Status, w) = file_SetPosition U File (e_phoff (Ehdr_at U (fmem w) ElfHeader)) w
     in if EFI_ERROR Status then ((Status, 0), w)
        else (let (ProgramHeaders, w) = lib_AllocatePool U (phdrs_size (Ehdr_at U (fmem w) ElfHeader)) w
              in if ProgramHeaders = 0 then ((EFI_OUT_OF_RESOURCES, ProgramHeaders), w)
                 else (let ((Status, Size), w) =
                             file_Read U File (phdrs_size (Ehdr_at U (fmem w) ElfHeader)) ProgramHeaders w
                       in if EFI_ERROR Status \<or> Size \<noteq> phdrs_size (Ehdr_at U (fmem w) ElfHeader)
                          then ((if Status = EFI_SUCCESS then EFI_LOAD_ERROR else Status, ProgramHeaders),
                                lib_FreePool U ProgramHeaders w)
                          else ((EFI_SUCCESS, ProgramHeaders), w))))"

section \<open>Sections\<close>

text \<open>\<open>strncmp\<close> on two byte sequences read by index.\<close>

fun strncmp_from :: "(nat \<Rightarrow> u8) \<Rightarrow> (nat \<Rightarrow> u8) \<Rightarrow> nat \<Rightarrow> nat \<Rightarrow> int" where
  "strncmp_from s1 s2 i 0 = 0"
| "strncmp_from s1 s2 i (Suc n) =
    (if s1 i \<noteq> s2 i then uint (s1 i) - uint (s2 i)
     else if s1 i = 0 then 0
     else strncmp_from s1 s2 (Suc i) n)"

definition strncmp :: "(nat \<Rightarrow> u8) \<Rightarrow> (nat \<Rightarrow> u8) \<Rightarrow> nat \<Rightarrow> int" where
  "strncmp s1 s2 n = strncmp_from s1 s2 0 n"

definition at :: "mem \<Rightarrow> u64 \<Rightarrow> nat \<Rightarrow> u8" where
  "at m a i = m (a + of_nat i)"

definition literal :: "string \<Rightarrow> nat \<Rightarrow> u8" where
  "literal l i = (if i < length l then of_char (l ! i) else 0)"

definition section_privileged :: "mem \<Rightarrow> u64 \<Rightarrow> bool" where
  "section_privileged m sectionName \<longleftrightarrow>
    strncmp (at m sectionName) (literal ''.ktext'') 6 = 0 \<or>
    strncmp (at m sectionName) (literal ''.kdata'') 6 = 0 \<or>
    strncmp (at m sectionName) (literal ''.krodata'') 8 = 0"

definition section_info :: "'f uefi \<Rightarrow> mem \<Rightarrow> u64 \<Rightarrow> u64 \<Rightarrow> nat \<Rightarrow> ElfSectionInfo" where
  "section_info U m sectionHeaders stringTable i =
    (let shdr = Shdr_at U m (sectionHeaders + of_nat i * sizeof_Shdr U);
         sectionName = stringTable + ucast (sh_name shdr)
     in \<lparr>sec_VirtualBase = sh_addr shdr, sec_VirtualSize = sh_size shdr, sec_Name = sectionName,
         sec_Flags = ucast (sh_flags shdr), sec_Privileged = of_bool (section_privileged m sectionName)\<rparr>)"

text \<open>The list of sections is the part of the array the call fills in; its length is \<open>*SectionCount\<close>.\<close>

definition LoadElfSections ::
  "'f uefi \<Rightarrow> u64 \<Rightarrow> u64 \<Rightarrow> ElfSectionInfo list \<Rightarrow> 'f fw \<Rightarrow> (EFI_STATUS \<times> ElfSectionInfo list) \<times> 'f fw" where
  "LoadElfSections U File elfHeader SectionInfoList w =
    (let h = Ehdr_at U (fmem w) elfHeader;
         offset = e_shoff h; numSections = e_shnum h; stringTableIndex = e_shstrndx h;
         ((Status, sectionHeaders), w) = bs_AllocatePool U (ucast numSections * sizeof_Shdr U) w
     in if EFI_ERROR Status then ((Status, SectionInfoList), w)
        else
          (let (_, w) = file_SetPosition U File offset w;
               ((Status, _), w) = file_Read U File (ucast numSections * sizeof_Shdr U) sectionHeaders w
           in if EFI_ERROR Status then ((Status, SectionInfoList), w)
              else
                (let stringTableHeader = sectionHeaders + ucast stringTableIndex * sizeof_Shdr U;
                     ((_, stringTable), w) = bs_AllocatePool U (sh_size (Shdr_at U (fmem w) stringTableHeader)) w;
                     (_, w) = file_SetPosition U File (sh_offset (Shdr_at U (fmem w) stringTableHeader)) w;
                     ((Status, _), w) =
                       file_Read U File (sh_size (Shdr_at U (fmem w) stringTableHeader)) stringTable w
                 in if EFI_ERROR Status then ((Status, SectionInfoList), w)
                    else ((EFI_SUCCESS, map (section_info U (fmem w) sectionHeaders stringTable)
                            [0..<unat numSections]), w))))"

section \<open>Segments\<close>

abbreviation PT_LOAD :: u32 where "PT_LOAD \<equiv> 1"

text \<open>What \<open>LoadElfFile\<close> returns through its pointer arguments.\<close>

record elf_out =
  EntryPoint :: u64
  ElfPhysicalBase :: u64
  ElfVirtualBase :: u64
  ElfSize :: u64
  ElfSegmentList :: "ElfSegmentInfo list"
  ElfSegmentCount :: u64
  ElfSectionList :: "ElfSectionInfo list"

definition phdr_at :: "'f uefi \<Rightarrow> u64 \<Rightarrow> nat \<Rightarrow> mem \<Rightarrow> Elf64_Phdr" where
  "phdr_at U ProgramHeaders i m = Phdr_at U m (ProgramHeaders + of_nat i * sizeof_Phdr U)"

definition EFI_SIZE_TO_PAGES :: "u64 \<Rightarrow> u64" where
  "EFI_SIZE_TO_PAGES a = drop_bit 12 a + (if a AND 0xfff \<noteq> 0 then 1 else 0)"

definition total_size :: "'f uefi \<Rightarrow> u64 \<Rightarrow> u16 \<Rightarrow> mem \<Rightarrow> u64" where
  "total_size U ProgramHeaders NumHeaders m =
    fold (\<lambda>i TotalSize. if p_type (phdr_at U ProgramHeaders i m) = PT_LOAD
                        then TotalSize + p_memsz (phdr_at U ProgramHeaders i m) else TotalSize)
      [0..<unat NumHeaders] 0"

text \<open>One loadable header: the segment is read, zero-filled and recorded.\<close>

definition load_segment ::
  "'f uefi \<Rightarrow> u64 \<Rightarrow> u64 \<Rightarrow> u64 \<Rightarrow> nat \<Rightarrow> u64 \<Rightarrow> elf_out \<Rightarrow> 'f fw \<Rightarrow> EFI_STATUS \<times> elf_out \<times> 'f fw" where
  "load_segment U File ProgramHeaders ContiguousBase i Offset out w =
    (let phdr = (\<lambda>w. phdr_at U ProgramHeaders i (fmem w));
         Segment = ContiguousBase + Offset;
         (_, w) = file_SetPosition U File (p_offset (phdr w)) w;
         ((Status, _), w) = file_Read U File (p_filesz (phdr w)) Segment w
     in if EFI_ERROR Status then (Status, out, w)
        else
          (let w = (if p_filesz (phdr w) < p_memsz (phdr w)
                    then (SetMem (Segment + p_filesz (phdr w)) (p_memsz (phdr w) - p_filesz (phdr w)) 0 (fst w), snd w)
                    else w);
               out = (if i = 0 then out\<lparr>ElfVirtualBase := p_vaddr (phdr w)\<rparr> else out);
               SegInfo = \<lparr>seg_PhysicalBase = Segment, seg_PhysicalSize = p_memsz (phdr w),
                 seg_VirtualBase = p_vaddr (phdr w), seg_VirtualSize = p_memsz (phdr w), seg_Flags = 0\<rparr>
           in (EFI_SUCCESS, out\<lparr>ElfSegmentList := ElfSegmentList out @ [SegInfo],
                 ElfSegmentCount := ElfSegmentCount out + 1\<rparr>, w)))"

fun load_segments ::
  "'f uefi \<Rightarrow> u64 \<Rightarrow> u64 \<Rightarrow> u64 \<Rightarrow> nat list \<Rightarrow> u64 \<Rightarrow> elf_out \<Rightarrow> 'f fw \<Rightarrow> EFI_STATUS \<times> elf_out \<times> 'f fw" where
  "load_segments U File ProgramHeaders ContiguousBase [] Offset out w = (EFI_SUCCESS, out, w)"
| "load_segments U File ProgramHeaders ContiguousBase (i # is) Offset out w =
    (if p_type (phdr_at U ProgramHeaders i (fmem w)) \<noteq> PT_LOAD
     then load_segments U File ProgramHeaders ContiguousBase is Offset out w
     else (let (Status, out, w) = load_segment U File ProgramHeaders ContiguousBase i Offset out w
           in if EFI_ERROR Status then (Status, out, w)
              else load_segments U File ProgramHeaders ContiguousBase is
                (Offset + p_memsz (phdr_at U ProgramHeaders i (fmem w))) out w))"

definition LoadElfSegments ::
  "'f uefi \<Rightarrow> u64 \<Rightarrow> u64 \<Rightarrow> u16 \<Rightarrow> elf_out \<Rightarrow> 'f fw \<Rightarrow> EFI_STATUS \<times> elf_out \<times> 'f fw" where
  "LoadElfSegments U File ProgramHeaders NumHeaders out w =
    (let out = out\<lparr>ElfSize := total_size U ProgramHeaders NumHeaders (fmem w)\<rparr>;
         ((Status, ContiguousBase), w) = bs_AllocatePages U (EFI_SIZE_TO_PAGES (ElfSize out)) w
     in if EFI_ERROR Status then (Status, out, w)
        else load_segments U File ProgramHeaders ContiguousBase [0..<unat NumHeaders] 0
               (out\<lparr>ElfPhysicalBase := ContiguousBase, ElfSegmentList := []\<rparr>) w)"

section \<open>The ELF file\<close>

definition LoadElfFile :: "'f uefi \<Rightarrow> u64 \<Rightarrow> string \<Rightarrow> elf_out \<Rightarrow> 'f fw \<Rightarrow> EFI_STATUS \<times> elf_out \<times> 'f fw" where
  "LoadElfFile U RootDir FileName out w =
    (let ((Status, ElfFile), w) = OpenFile U RootDir FileName w
     in if EFI_ERROR Status then (Status, out, w)
        else
          (let ElfHeader = local_ElfHeader U; (Status, w) = ReadElfHeader U ElfFile ElfHeader w
           in if EFI_ERROR Status then (Status, out, file_Close U ElfFile w)
              else
                (let ((Status, ProgramHeaders), w) = ReadProgramHeaders U ElfFile ElfHeader w
                 in if EFI_ERROR Status then (Status, out, file_Close U ElfFile w)
                    else
                      (let ((Status, secs), w) = LoadElfSections U ElfFile ElfHeader (ElfSectionList out) w;
                           out = out\<lparr>ElfSectionList := secs\<rparr>
                       in if EFI_ERROR Status then (Status, out, file_Close U ElfFile w)
                          else
                            (let (Status, out, w) = LoadElfSegments U ElfFile ProgramHeaders
                                   (e_phnum (Ehdr_at U (fmem w) ElfHeader)) out w
                             in if EFI_ERROR Status
                                then (Status, out, file_Close U ElfFile (lib_FreePool U ProgramHeaders w))
                                else (let out = out\<lparr>EntryPoint := e_entry (Ehdr_at U (fmem w) ElfHeader)\<rparr>
                                      in (EFI_SUCCESS, out,
                                          file_Close U ElfFile (lib_FreePool U ProgramHeaders w))))))))"

section \<open>Memory map, font and frame buffer\<close>

definition GetTotalSystemMemory :: "'f uefi \<Rightarrow> u64 \<Rightarrow> u64 \<Rightarrow> u64 \<Rightarrow> mem \<Rightarrow> u64 option" where
  "GetTotalSystemMemory U MemoryMap Entries DescriptorSize m =
    for_up (\<lambda>i TotalMemory.
        Some (TotalMemory + desc_NumberOfPages U m (MemoryMap + i * DescriptorSize) * PAGE_SIZE))
      0 Entries 0"

text \<open>
  The map, its size, its key, the size of a descriptor and the total memory. \<open>None\<close> stands for a
  failed assertion or the division by a descriptor size of 0, and an address of 0 for \<^verbatim>\<open>NULL\<close>, with
  the arguments as they are then.
\<close>

definition ReadMemoryMap ::
  "'f uefi \<Rightarrow> u64 \<Rightarrow> u64 \<Rightarrow> 'f fw \<Rightarrow> ((u64 \<times> u64 \<times> u64 \<times> u64 \<times> u64) \<times> 'f fw) option" where
  "ReadMemoryMap U MemoryMapSize TotalSystemMemory w =
    (let ((Status, MemoryMapSize, MemoryMapKey, DescriptorSize), w) = GetMemoryMap U MemoryMapSize 0 w
     in if Status \<noteq> EFI_BUFFER_TOO_SMALL then None
        else
          (let (EfiMemoryMap, w) = lib_AllocatePool U (MemoryMapSize + 2 * DescriptorSize) w
           in if EfiMemoryMap = 0 then None
              else
                (let ((Status, MemoryMapSize, MemoryMapKey, DescriptorSize), w) =
                       GetMemoryMap U MemoryMapSize EfiMemoryMap w
                 in if EFI_ERROR Status
                    then Some ((0, MemoryMapSize, MemoryMapKey, DescriptorSize, TotalSystemMemory),
                               lib_FreePool U EfiMemoryMap w)
                    else if DescriptorSize = 0 then None
                    else do {
                      total \<leftarrow> GetTotalSystemMemory U EfiMemoryMap (MemoryMapSize div DescriptorSize)
                        DescriptorSize (fmem w);
                      Some ((EfiMemoryMap, MemoryMapSize, MemoryMapKey, DescriptorSize, total), w)
                    })))"

abbreviation PSF1_MAGIC0 :: u8 where "PSF1_MAGIC0 \<equiv> 0x36"
abbreviation PSF1_MAGIC1 :: u8 where "PSF1_MAGIC1 \<equiv> 0x04"

text \<open>A font header is four bytes: two of magic, the mode and the bytes per character.\<close>

definition LoadPSF1Font :: "'f uefi \<Rightarrow> string \<Rightarrow> 'f fw \<Rightarrow> u64 \<times> 'f fw" where
  "LoadPSF1Font U Path w =
    (let ((_, RootDir), w) = OpenRootDirectory U w;
         ((_, FontFile), w) = OpenFile U RootDir Path w
     in if FontFile = 0 then (0, w)
        else
          (let (FontHeader, w) = lib_AllocateZeroPool U 4 w;
               (_, w) = file_Read U FontFile 4 FontHeader w
           in if fmem w FontHeader \<noteq> PSF1_MAGIC0 \<or> fmem w (FontHeader + 1) \<noteq> PSF1_MAGIC1 then (0, w)
              else
                (let CharSize = ucast (fmem w (FontHeader + 3)) :: u64;
                     GlyphBufferSize = (if fmem w (FontHeader + 2) = 1 then CharSize * 512 else CharSize * 256);
                     (_, w) = file_SetPosition U FontFile 4 w;
                     (GlyphBuffer, w) = lib_AllocateZeroPool U GlyphBufferSize w;
                     (_, w) = file_Read U FontFile GlyphBufferSize GlyphBuffer w;
                     (result, w) = lib_AllocateZeroPool U 16 w;
                     m = store64 GlyphBuffer (result + 8) (store64 FontHeader result (fmem w))
                 in (result, ((fst w)\<lparr>bram := m\<rparr>, snd w)))))"

definition RetrieveGraphicsOutputProtocol :: "'f uefi \<Rightarrow> 'f fw \<Rightarrow> (EFI_STATUS \<times> u64) \<times> 'f fw" where
  "RetrieveGraphicsOutputProtocol U w =
    (let ((Status, OutputProtocol), w) = LocateGop U w
     in if EFI_ERROR Status then ((Status, OutputProtocol), w) else ((EFI_SUCCESS, OutputProtocol), w))"

section \<open>The boot loader\<close>

record KernelEntryParams =
  kep_KernelElfSegments :: u64
  kep_fb_Base :: u64
  kep_fb_Size :: u64
  kep_fb_Width :: u32
  kep_fb_Height :: u32
  kep_fb_PixelsPerScanline :: u32
  kep_TextRenderingFont :: u64
  kep_map_Base :: u64
  kep_map_Size :: u64
  kep_map_DescriptorSize :: u64
  kep_map_DescriptorCount :: u64
  kep_KernelStack :: u64
  kep_RSDP :: u64

definition LoadKernel :: "'f uefi \<Rightarrow> elf_out \<Rightarrow> 'f fw \<Rightarrow> EFI_STATUS \<times> elf_out \<times> 'f fw" where
  "LoadKernel U out w =
    (let ((Status, KernelRootDir), w) = OpenRootDirectory U w
     in if EFI_ERROR Status then (Status, out, w)
        else (let (Status, out, w) = LoadElfFile U KernelRootDir ''kernel.elf'' out w
              in if EFI_ERROR Status then (Status, out, w) else (EFI_SUCCESS, out, w)))"

text \<open>The first ACPI 2.0 table with the right signature, 0 when there is none.\<close>

fun find_rsdp :: "mem \<Rightarrow> (bool \<times> u64) list \<Rightarrow> u64" where
  "find_rsdp m [] = 0"
| "find_rsdp m ((acpi2, VendorTable) # ts) =
    (if acpi2 \<and> strncmp (literal ''RSD PTR '') (at m VendorTable) 8 = 0 then VendorTable else find_rsdp m ts)"

text \<open>
  The outcome of \<open>efi_main\<close>: a status for the firmware, or the jump to the kernel with its
  arguments, the page table loaded into the processor and the memory.
\<close>

datatype 'f boot_result =
    BootStatus EFI_STATUS
  | EnterKernel u64 KernelEntryParams u64 "'f fw"

text \<open>From the second reading of the memory map on. The status tested there is an earlier one, \<open>EFI_SUCCESS\<close>.\<close>

definition efi_handover ::
  "'f uefi \<Rightarrow> elf_out \<Rightarrow> u64 \<Rightarrow> u64 \<Rightarrow> u64 \<Rightarrow> u64 \<Rightarrow> u64 \<Rightarrow> u64 \<Rightarrow> u64 \<Rightarrow> 'f fw \<Rightarrow> 'f boot_result option" where
  "efi_handover U out KernelStack PML4 Gop ZapLightFont Rsdp MemoryMapSize TotalSystemMemory w = do {
     ((EfiMemoryMap, MemoryMapSize, MemoryMapKey, DescriptorSize, TotalSystemMemory), w) \<leftarrow>
       ReadMemoryMap U MemoryMapSize TotalSystemMemory w;
     let (Status, w) = ExitBootServices U MemoryMapKey w;
     if EFI_ERROR Status then Some (BootStatus Status)
     else if DescriptorSize = 0 then None
     else do {
       let off = ElfVirtualBase out - ElfPhysicalBase out;
       let mode = gop_mode U (fmem w) Gop;
       Some (EnterKernel (EntryPoint out)
         \<lparr>kep_KernelElfSegments = addr_KernelElfSegments U + off,
          kep_fb_Base = FrameBufferBase mode, kep_fb_Size = FrameBufferSize mode,
          kep_fb_Width = HorizontalResolution mode, kep_fb_Height = VerticalResolution mode,
          kep_fb_PixelsPerScanline = PixelsPerScanLine mode,
          kep_TextRenderingFont = ZapLightFont + off,
          kep_map_Base = EfiMemoryMap + off, kep_map_Size = MemoryMapSize,
          kep_map_DescriptorSize = DescriptorSize, kep_map_DescriptorCount = MemoryMapSize div DescriptorSize,
          kep_KernelStack = KernelStack + off, kep_RSDP = Rsdp + off\<rparr> PML4 w)
     }
   }"

text \<open>
  The values of the local variables that the source leaves uninitialised are arguments: the size
  of the memory map and of the kernel. \<open>None\<close> is a failed assertion, a fault or a loop without end.
\<close>

definition efi_main :: "'f uefi \<Rightarrow> u64 \<Rightarrow> u64 \<Rightarrow> 'f fw \<Rightarrow> 'f boot_result option" where
  "efi_main U MemoryMapSize KernelSize w =
    (let (Status, out, w) = LoadKernel U \<lparr>EntryPoint = 0, ElfPhysicalBase = 0, ElfVirtualBase = 0,
           ElfSize = KernelSize, ElfSegmentList = [], ElfSegmentCount = 0, ElfSectionList = []\<rparr> w
     in if EFI_ERROR Status then Some (BootStatus Status)
        else
          (let ((_, KernelStack), w) = bs_AllocatePages U 1 w;
               ((Status, Gop), w) = RetrieveGraphicsOutputProtocol U w
           in if EFI_ERROR Status then Some (BootStatus Status)
              else
                (let (ZapLightFont, w) = LoadPSF1Font U ''zap-light16.psf'' w
                 in if ZapLightFont = 0 then Some (BootStatus (EFIERR (- 1)))
                    else do {
                      let Rsdp = find_rsdp (fmem w) (config_tables U (fmem w));
                      ((EfiMemoryMap, MemoryMapSize, _, _, TotalSystemMemory), w) \<leftarrow>
                        ReadMemoryMap U MemoryMapSize 0 w;
                      if EfiMemoryMap = 0 then Some (BootStatus EFI_SUCCESS)
                      else do {
                        let mode = gop_mode U (fmem w) Gop;
                        (PML4, b) \<leftarrow> CreateIdentityMappedPageTable TotalSystemMemory (FrameBufferBase mode)
                          (FrameBufferSize mode) (fst w);
                        if PML4 = 0 then Some (BootStatus (EFIERR (- 1)))
                        else do {
                          b \<leftarrow> CreateHigherHalfMapping PML4 (ElfSegmentList out) (ElfSectionList out)
                            TotalSystemMemory b;
                          efi_handover U out KernelStack PML4 Gop ZapLightFont Rsdp MemoryMapSize
                            TotalSystemMemory (b, snd w)
                        }
                      }
                    })))"

section \<open>Loading the segments\<close>

text \<open>
  What the loader relies on of an open file with contents \<open>F\<close>: the position is set as asked for, and
  a read of bytes that the file has succeeds, stores exactly these bytes and advances the position.
\<close>

definition file_ok :: "'f uefi \<Rightarrow> u64 \<Rightarrow> u8 list \<Rightarrow> ('f \<Rightarrow> nat) \<Rightarrow> bool" where
  "file_ok U h F pos \<longleftrightarrow>
    (\<forall>p b f. \<exists>f'. file_SetPosition U h p (b, f) = (EFI_SUCCESS, (b, f')) \<and> pos f' = unat p) \<and>
    (\<forall>n a b f. pos f + unat n \<le> length F \<longrightarrow>
      (\<exists>f'. file_Read U h n a (b, f) =
        ((EFI_SUCCESS, n), (b\<lparr>bram := write_list a (take (unat n) (drop (pos f) F)) (bram b)\<rparr>, f'))))"

text \<open>The program headers do not lie in the block the segments are loaded to.\<close>

definition headers_fixed :: "'f uefi \<Rightarrow> u64 \<Rightarrow> Elf64_Phdr list \<Rightarrow> mem \<Rightarrow> u64 \<Rightarrow> nat \<Rightarrow> bool" where
  "headers_fixed U PH phs m0 B T \<longleftrightarrow>
    (\<forall>m. (\<forall>x. T \<le> unat (x - B) \<longrightarrow> m x = m0 x) \<longrightarrow> (\<forall>i < length phs. phdr_at U PH i m = phs ! i))"

abbreviation loadable :: "Elf64_Phdr list \<Rightarrow> Elf64_Phdr list" where
  "loadable phs \<equiv> filter (\<lambda>p. p_type p = PT_LOAD) phs"

definition phdr_ok :: "u8 list \<Rightarrow> Elf64_Phdr \<Rightarrow> bool" where
  "phdr_ok F p \<longleftrightarrow> unat (p_offset p) + unat (p_filesz p) \<le> length F \<and> p_filesz p \<le> p_memsz p"

text \<open>The bytes of one segment, of all of them, and the records made of them.\<close>

definition segment_bytes :: "u8 list \<Rightarrow> Elf64_Phdr \<Rightarrow> u8 list" where
  "segment_bytes F p = take (unat (p_filesz p)) (drop (unat (p_offset p)) F) @
    replicate (unat (p_memsz p) - unat (p_filesz p)) 0"

definition image_of :: "u8 list \<Rightarrow> Elf64_Phdr list \<Rightarrow> u8 list" where
  "image_of F ls = concat (map (segment_bytes F) ls)"

primrec seg_infos :: "u64 \<Rightarrow> Elf64_Phdr list \<Rightarrow> ElfSegmentInfo list" where
  "seg_infos a [] = []"
| "seg_infos a (p # ls) =
    \<lparr>seg_PhysicalBase = a, seg_PhysicalSize = p_memsz p, seg_VirtualBase = p_vaddr p,
     seg_VirtualSize = p_memsz p, seg_Flags = 0\<rparr> # seg_infos (a + p_memsz p) ls"

lemma length_segment_bytes: "phdr_ok F p \<Longrightarrow> length (segment_bytes F p) = unat (p_memsz p)"
  by (auto simp: segment_bytes_def phdr_ok_def word_le_nat_alt)

lemma write_list_append:
  assumes "length xs + length ys \<le> 2 ^ 64"
  shows "write_list (B + of_nat (length xs)) ys (write_list B xs m) = write_list B (xs @ ys) m"
proof (cases "ys = []")
  case True
  then show ?thesis by (auto simp: write_list_def)
next
  case False
  then have lx: "length xs < 2 ^ 64" using assms by (cases ys) auto
  show ?thesis
  proof
    fix x
    define d where "d = x - B"
    have e: "x - (B + of_nat (length xs)) = d - of_nat (length xs)" by (simp add: d_def algebra_simps)
    have u: "unat (d - of_nat (length xs)) = (if length xs \<le> unat d then unat d - length xs else unat d + 2 ^ 64 - length xs)"
      using lx by (simp add: unat_sub_if' unat64_of_nat)
    show "write_list (B + of_nat (length xs)) ys (write_list B xs m) x = write_list B (xs @ ys) m x"
      unfolding write_list_def e u using assms by (auto simp: d_def [symmetric] nth_append)
  qed
qed

lemma setn_write_list: "setn m a v n = write_list a (replicate n v) m"
  by (auto simp: setn_def write_list_def fun_eq_iff)

lemma write_segment:
  assumes "phdr_ok F p" "length xs + unat (p_memsz p) < 2 ^ 64"
  shows "setn (write_list (B + of_nat (length xs)) (take (unat (p_filesz p)) (drop (unat (p_offset p)) F)) (write_list B xs m))
      (B + of_nat (length xs) + p_filesz p) 0 (unat (p_memsz p) - unat (p_filesz p)) =
    write_list B (xs @ segment_bytes F p) m"
proof -
  let ?ys = "take (unat (p_filesz p)) (drop (unat (p_offset p)) F)"
  have ly: "length ?ys = unat (p_filesz p)" and le: "unat (p_filesz p) \<le> unat (p_memsz p)"
    using assms(1) by (auto simp: phdr_ok_def word_le_nat_alt)
  have a: "B + of_nat (length xs) + p_filesz p = B + of_nat (length (xs @ ?ys))" using ly by simp
  have 1: "write_list (B + of_nat (length xs)) ?ys (write_list B xs m) = write_list B (xs @ ?ys) m"
    using assms(2) ly le by (intro write_list_append) linarith
  have "length (xs @ ?ys) + length (replicate (unat (p_memsz p) - unat (p_filesz p)) (0 :: u8)) \<le> 2 ^ 64"
    using assms(2) ly le by simp
  note 2 = write_list_append [OF this, of B m]
  show ?thesis
    unfolding a setn_write_list 1 2 segment_bytes_def by simp
qed

text \<open>One iteration of the loop.\<close>

lemma load_segment_ok:
  assumes fo: "file_ok U h F pos" and hd: "headers_fixed U PH phs m0 B T" and i: "i < length phs"
    and ok: "phdr_ok F (phs ! i)" and T: "length xs + unat (p_memsz (phs ! i)) \<le> T" "T < 2 ^ 64"
    and m: "bram b = write_list B xs m0"
  shows "\<exists>f'. load_segment U h PH B i (of_nat (length xs)) out (b, f) =
    (EFI_SUCCESS, (if i = 0 then out\<lparr>ElfVirtualBase := p_vaddr (phs ! i)\<rparr> else out)
      \<lparr>ElfSegmentList := ElfSegmentList out @ seg_infos (B + of_nat (length xs)) [phs ! i],
       ElfSegmentCount := ElfSegmentCount out + 1\<rparr>,
     (b\<lparr>bram := write_list B (xs @ segment_bytes F (phs ! i)) m0\<rparr>, f'))"
proof -
  let ?p = "phs ! i" and ?A = "B + of_nat (length xs)"
  have ph: "phdr_at U PH i (write_list B ys m0) = ?p" if "length ys \<le> T" for ys
    using hd i that by (auto simp: headers_fixed_def write_list_def)
  let ?ys = "take (unat (p_filesz ?p)) (drop (unat (p_offset ?p)) F)"
  have ly: "length ?ys = unat (p_filesz ?p)" and le: "unat (p_filesz ?p) \<le> unat (p_memsz ?p)"
    using ok by (auto simp: phdr_ok_def word_le_nat_alt)
  obtain f1 where f1: "file_SetPosition U h (p_offset ?p) (b, f) = (EFI_SUCCESS, (b, f1))" "pos f1 = unat (p_offset ?p)"
    using fo unfolding file_ok_def by blast
  obtain f2 where f2: "file_Read U h (p_filesz ?p) ?A (b, f1) =
      ((EFI_SUCCESS, p_filesz ?p), (b\<lparr>bram := write_list ?A ?ys (bram b)\<rparr>, f2))"
    using fo f1(2) ok unfolding file_ok_def phdr_ok_def by metis
  have r: "write_list ?A ?ys (bram b) = write_list B (xs @ ?ys) m0"
    unfolding m using T ly le by (intro write_list_append) linarith
  have ph0: "phdr_at U PH i (bram b) = ?p" using ph [of xs] T m by simp
  have ph1: "phdr_at U PH i (write_list B (xs @ ?ys) m0) = ?p" using ph T ly le by simp
  have ph2: "phdr_at U PH i (write_list B (xs @ segment_bytes F ?p) m0) = ?p"
    using ph T length_segment_bytes [OF ok] by simp
  have z: "setn (write_list B (xs @ ?ys) m0) (?A + p_filesz ?p) 0 (unat (p_memsz ?p) - unat (p_filesz ?p)) =
      write_list B (xs @ segment_bytes F ?p) m0"
    using write_segment [OF ok, of xs B m0] T r unfolding m by simp
  have us: "unat (p_memsz ?p - p_filesz ?p) = unat (p_memsz ?p) - unat (p_filesz ?p)"
    using le by (simp add: unat_sub_if')
  have eq: "write_list B (xs @ ?ys) m0 = write_list B (xs @ segment_bytes F ?p) m0" if "\<not> p_filesz ?p < p_memsz ?p"
  proof -
    have "unat (p_memsz ?p) - unat (p_filesz ?p) = 0" using that by (simp add: word_less_nat_alt)
    then show ?thesis by (simp add: segment_bytes_def)
  qed
  show ?thesis
    using f1(1) f2 ph0 r ph1 ph2 us z eq
    by (cases "i = 0"; cases "p_filesz ?p < p_memsz ?p")
      (simp_all add: load_segment_def Let_def EFI_ERROR_def SetMem_def)
qed

text \<open>The loop over the headers from \<open>i\<close> on, with the bytes \<open>xs\<close> already in place.\<close>

lemma load_segments_ok:
  assumes fo: "file_ok U h F pos" and hd: "headers_fixed U PH phs m0 B T" and T: "T < 2 ^ 64"
  shows "i \<le> length phs \<Longrightarrow> (\<forall>p \<in> set (loadable (drop i phs)). phdr_ok F p) \<Longrightarrow>
    length xs + sum_list (map (unat \<circ> p_memsz) (loadable (drop i phs))) \<le> T \<Longrightarrow>
    bram b = write_list B xs m0 \<Longrightarrow>
    \<exists>f' b' out'. load_segments U h PH B [i..<length phs] (of_nat (length xs)) out (b, f) = (EFI_SUCCESS, out', (b', f')) \<and>
      b' = b\<lparr>bram := write_list B (xs @ image_of F (loadable (drop i phs))) m0\<rparr> \<and>
      out' = out\<lparr>ElfVirtualBase := (if i = 0 \<and> phs \<noteq> [] \<and> p_type (phs ! 0) = PT_LOAD then p_vaddr (phs ! 0) else ElfVirtualBase out),
        ElfSegmentList := ElfSegmentList out @ seg_infos (B + of_nat (length xs)) (loadable (drop i phs)),
        ElfSegmentCount := ElfSegmentCount out + of_nat (length (loadable (drop i phs)))\<rparr>"
proof (induction "length phs - i" arbitrary: i xs b out f)
  case 0
  then show ?case by (auto simp: image_of_def)
next
  case (Suc n)
  then have i: "i < length phs" and n: "n = length phs - Suc i" by linarith+
  have d: "drop i phs = phs ! i # drop (Suc i) phs" and up: "[i..<length phs] = i # [Suc i..<length phs]"
    using i by (simp_all add: Cons_nth_drop_Suc upt_conv_Cons)
  have ph: "phdr_at U PH i (bram b) = phs ! i"
    using hd i Suc.prems by (auto simp: headers_fixed_def write_list_def)
  show ?case
  proof (cases "p_type (phs ! i) = PT_LOAD")
    case False
    have pre: "Suc i \<le> length phs" "\<forall>p \<in> set (loadable (drop (Suc i) phs)). phdr_ok F p"
      "length xs + sum_list (map (unat \<circ> p_memsz) (loadable (drop (Suc i) phs))) \<le> T" "bram b = write_list B xs m0"
      using Suc.prems False i unfolding d by auto
    have l: "loadable (drop i phs) = loadable (drop (Suc i) phs)" using False d by simp
    show ?thesis
      using Suc.hyps(1) [OF n pre, of out f] False ph unfolding l up by (cases "i = 0") auto
  next
    case True
    have ok: "phdr_ok F (phs ! i)" and le: "length xs + unat (p_memsz (phs ! i)) \<le> T"
      using Suc.prems True unfolding d by auto
    obtain f1 where f1: "load_segment U h PH B i (of_nat (length xs)) out (b, f) =
      (EFI_SUCCESS, (if i = 0 then out\<lparr>ElfVirtualBase := p_vaddr (phs ! i)\<rparr> else out)
        \<lparr>ElfSegmentList := ElfSegmentList out @ seg_infos (B + of_nat (length xs)) [phs ! i],
         ElfSegmentCount := ElfSegmentCount out + 1\<rparr>,
       (b\<lparr>bram := write_list B (xs @ segment_bytes F (phs ! i)) m0\<rparr>, f1))" (is "_ = (_, ?out1, ?b1, _)")
      using load_segment_ok [OF fo hd i ok le T Suc.prems(4)] by blast
    let ?xs = "xs @ segment_bytes F (phs ! i)"
    have off: "of_nat (length xs) + p_memsz (phs ! i) = of_nat (length ?xs)"
      by (simp add: length_segment_bytes [OF ok])
    have ph1: "phdr_at U PH i (write_list B ?xs m0) = phs ! i"
      using hd i le length_segment_bytes [OF ok] by (auto simp: headers_fixed_def write_list_def)
    have pre: "Suc i \<le> length phs" "\<forall>p \<in> set (loadable (drop (Suc i) phs)). phdr_ok F p"
      "length ?xs + sum_list (map (unat \<circ> p_memsz) (loadable (drop (Suc i) phs))) \<le> T"
      "bram ?b1 = write_list B ?xs m0"
      using Suc.prems True i length_segment_bytes [OF ok] unfolding d by auto
    obtain f' where "load_segments U h PH B [Suc i..<length phs] (of_nat (length ?xs)) ?out1 (?b1, f1) =
        (EFI_SUCCESS, ?out1\<lparr>ElfVirtualBase := ElfVirtualBase ?out1,
          ElfSegmentList := ElfSegmentList ?out1 @ seg_infos (B + of_nat (length ?xs)) (loadable (drop (Suc i) phs)),
          ElfSegmentCount := ElfSegmentCount ?out1 + of_nat (length (loadable (drop (Suc i) phs)))\<rparr>,
         (?b1\<lparr>bram := write_list B (?xs @ image_of F (loadable (drop (Suc i) phs))) m0\<rparr>, f'))"
      using Suc.hyps(1) [OF n pre, of ?out1 f1] by auto
    then have "load_segments U h PH B [i..<length phs] (of_nat (length xs)) out (b, f) =
        (EFI_SUCCESS, ?out1\<lparr>ElfVirtualBase := ElfVirtualBase ?out1,
          ElfSegmentList := ElfSegmentList ?out1 @ seg_infos (B + of_nat (length ?xs)) (loadable (drop (Suc i) phs)),
          ElfSegmentCount := ElfSegmentCount ?out1 + of_nat (length (loadable (drop (Suc i) phs)))\<rparr>,
         (?b1\<lparr>bram := write_list B (?xs @ image_of F (loadable (drop (Suc i) phs))) m0\<rparr>, f'))"
      unfolding up load_segments.simps using True ph f1 ph1 by (simp add: EFI_ERROR_def off Let_def del: length_append)
    moreover have "loadable (drop i phs) = phs ! i # loadable (drop (Suc i) phs)" using True d by simp
    moreover have "B + of_nat (length ?xs) = B + of_nat (length xs) + p_memsz (phs ! i)"
      by (simp add: length_segment_bytes [OF ok])
    ultimately show ?thesis
      using True i by (cases "i = 0") (auto simp: image_of_def add.assoc)
  qed
qed

lemma total_size_sum:
  assumes "\<forall>i < length phs. phdr_at U PH i m = phs ! i" "unat n = length phs"
  shows "total_size U PH n m = of_nat (sum_list (map (unat \<circ> p_memsz) (loadable phs)))"
proof -
  let ?f = "\<lambda>p t. if p_type p = PT_LOAD then t + p_memsz p else t :: u64"
  have "total_size U PH n m = fold (\<lambda>i. ?f (phs ! i)) [0..<length phs] 0"
    unfolding total_size_def assms(2) using assms(1) by (intro fold_cong) auto
  also have "\<dots> = fold ?f (map ((!) phs) [0..<length phs]) 0" by (simp add: fold_map comp_def)
  also have "\<dots> = fold ?f phs 0" by (simp add: map_nth)
  also have "fold ?f phs t = t + of_nat (sum_list (map (unat \<circ> p_memsz) (loadable phs)))" for t
    by (induction phs arbitrary: t) auto
  finally show ?thesis by simp
qed

text \<open>
  C10: \<open>LoadElfSegments\<close>. For a file whose loadable segments lie inside it, the call succeeds: the
  block the firmware gave holds the segments one after the other, each with its bytes of the
  file followed by zeros up to its size in memory, and no other byte of memory changes. The records
  say where each segment is. The virtual base is set from the first header, if that is loadable.
\<close>

theorem LoadElfSegments_correct:
  assumes fo: "file_ok U h F pos" and hd: "headers_fixed U PH phs (bram b) B T" and n: "unat n = length phs"
    and ok: "\<forall>p \<in> set (loadable phs). phdr_ok F p"
    and T: "T = sum_list (map (unat \<circ> p_memsz) (loadable phs))" "T < 2 ^ 64"
    and alloc: "bs_AllocatePages U (EFI_SIZE_TO_PAGES (of_nat T)) (b, f) = ((EFI_SUCCESS, B), (b, f'))"
  shows "\<exists>out' f''. LoadElfSegments U h PH n out (b, f) =
      (EFI_SUCCESS, out', (b\<lparr>bram := write_list B (image_of F (loadable phs)) (bram b)\<rparr>, f'')) \<and>
    ElfPhysicalBase out' = B \<and> ElfSize out' = of_nat T \<and> ElfSegmentList out' = seg_infos B (loadable phs) \<and>
    ElfVirtualBase out' =
      (if phs \<noteq> [] \<and> p_type (phs ! 0) = PT_LOAD then p_vaddr (phs ! 0) else ElfVirtualBase out)"
proof -
  have "\<forall>i < length phs. phdr_at U PH i (bram b) = phs ! i"
    using hd by (auto simp: headers_fixed_def)
  note ts = total_size_sum [OF this n, folded T(1)]
  have m: "bram b = write_list B [] (bram b)" by (simp add: write_list_def)
  define out1 where "out1 = out\<lparr>ElfSize := of_nat T, ElfPhysicalBase := B, ElfSegmentList := []\<rparr>"
  obtain f'' b' out' where l: "load_segments U h PH B [0..<length phs] (of_nat (length ([] :: u8 list))) out1 (b, f') =
      (EFI_SUCCESS, out', (b', f''))"
    "b' = b\<lparr>bram := write_list B ([] @ image_of F (loadable (drop 0 phs))) (bram b)\<rparr>"
    "out' = out1\<lparr>ElfVirtualBase := (if 0 = 0 \<and> phs \<noteq> [] \<and> p_type (phs ! 0) = PT_LOAD then p_vaddr (phs ! 0) else ElfVirtualBase out1),
      ElfSegmentList := ElfSegmentList out1 @ seg_infos (B + of_nat (length ([] :: u8 list))) (loadable (drop 0 phs)),
      ElfSegmentCount := ElfSegmentCount out1 + of_nat (length (loadable (drop 0 phs)))\<rparr>"
    using load_segments_ok [OF fo hd T(2), of 0 "[]" b out1 f'] ok T(1) m by auto
  have "LoadElfSegments U h PH n out (b, f) = (EFI_SUCCESS, out', (b', f''))"
    using l(1) alloc by (simp add: LoadElfSegments_def Let_def ts EFI_ERROR_def n out1_def)
  then show ?thesis using l(2,3) by (simp add: out1_def)
qed

text \<open>
  A firmware with one open file, whose state is the file position. Program headers have the layout
  of the ELF-64 format; one header at 0x500 describes a segment of 16 bytes, four of them in the file.
\<close>

definition phdr64 :: "mem \<Rightarrow> u64 \<Rightarrow> Elf64_Phdr" where
  "phdr64 m a = \<lparr>p_type = ucast (load64 m a), p_offset = load64 m (a + 8), p_vaddr = load64 m (a + 16),
     p_filesz = load64 m (a + 32), p_memsz = load64 m (a + 40)\<rparr>"

definition read_file :: "u8 list \<Rightarrow> u64 \<Rightarrow> u64 \<Rightarrow> nat fw \<Rightarrow> (EFI_STATUS \<times> u64) \<times> nat fw" where
  "read_file F n a w =
    (let xs = take (unat n) (drop (snd w) F)
     in ((EFI_SUCCESS, of_nat (length xs)),
         ((fst w)\<lparr>bram := write_list a xs (fmem w)\<rparr>, snd w + length xs)))"

definition uefi1 :: "u8 list \<Rightarrow> nat uefi" where
  "uefi1 F = \<lparr>bs_AllocatePages = (\<lambda>n w. ((EFI_SUCCESS, 0x100000), w)), bs_AllocatePool = (\<lambda>n w. ((EFI_SUCCESS, 0x200000), w)),
     lib_AllocatePool = (\<lambda>n w. (0x200000, w)), lib_AllocateZeroPool = (\<lambda>n w. (0x200000, w)), lib_FreePool = (\<lambda>p w. w),
     LocateHandleBuffer = (\<lambda>w. ((EFI_SUCCESS, 0x300), w)), HandleProtocol = (\<lambda>h w. ((EFI_SUCCESS, 1), w)),
     OpenVolume = (\<lambda>v w. ((EFI_SUCCESS, 1), w)), file_Open = (\<lambda>d n w. ((EFI_SUCCESS, 2), (fst w, 0))),
     file_Read = (\<lambda>h. read_file F), file_SetPosition = (\<lambda>h p w. (EFI_SUCCESS, (fst w, unat p))),
     file_Close = (\<lambda>h w. w), LocateGop = (\<lambda>w. ((EFI_SUCCESS, 0x400), w)),
     GetMemoryMap = (\<lambda>n a w. ((if n < 48 then EFI_BUFFER_TOO_SMALL else EFI_SUCCESS, 48, 7, 48), w)),
     Ehdr_at = (\<lambda>m a. \<lparr>e_ident = at m a, e_type = load16 m (a + 16), e_machine = load16 m (a + 18),
       e_entry = load64 m (a + 24), e_phoff = load64 m (a + 32), e_shoff = load64 m (a + 40),
       e_phentsize = load16 m (a + 54), e_phnum = load16 m (a + 56), e_shnum = load16 m (a + 60),
       e_shstrndx = load16 m (a + 62)\<rparr>),
     Phdr_at = phdr64,
     Shdr_at = (\<lambda>m a. \<lparr>sh_name = load32 m a, sh_flags = load64 m (a + 8), sh_addr = load64 m (a + 16),
       sh_offset = load64 m (a + 24), sh_size = load64 m (a + 32)\<rparr>),
     sizeof_Ehdr = 64, sizeof_Phdr = 56, sizeof_Shdr = 64, desc_NumberOfPages = (\<lambda>m a. load64 m (a + 24)),
     local_ElfHeader = 0x7000,
     gop_mode = (\<lambda>m a. \<lparr>FrameBufferBase = 0xf000000, FrameBufferSize = 0x1000, HorizontalResolution = 32,
       VerticalResolution = 32, PixelsPerScanLine = 32\<rparr>),
     config_tables = (\<lambda>m. []), ExitBootServices = (\<lambda>k w. (EFI_SUCCESS, w)), addr_KernelElfSegments = 0x8000\<rparr>"

lemma uefi1_file_ok: "file_ok (uefi1 F) h F id"
  by (auto simp: file_ok_def uefi1_def read_file_def Let_def)

definition phdr1 :: Elf64_Phdr where
  "phdr1 = \<lparr>p_type = PT_LOAD, p_offset = 0, p_vaddr = 0xffffffff80000000, p_filesz = 4, p_memsz = 16\<rparr>"

definition elf_ram1 :: mem where
  "elf_ram1 = store64 16 0x528 (store64 4 0x520 (store64 0xffffffff80000000 0x510 (store64 1 0x500 (\<lambda>_. 0))))"

lemma load64_zero_mem: "load64 (\<lambda>_. 0) a = 0"
  by (rule bit_word_eqI) (simp add: bit_load64)

lemma phdr64_ram1: "phdr64 elf_ram1 0x500 = phdr1"
  by (simp add: phdr64_def elf_ram1_def phdr1_def load64_store64_same load64_store64_other load64_zero_mem)

lemma headers_fixed1: "headers_fixed (uefi1 F) 0x500 [phdr1] elf_ram1 0x100000 16"
proof -
  have "phdr64 m 0x500 = phdr64 elf_ram1 0x500" if "\<forall>x. 16 \<le> unat (x - 0x100000) \<longrightarrow> m x = elf_ram1 x" for m
  proof -
    have l: "load64 m (0x500 + of_nat k) = load64 elf_ram1 (0x500 + of_nat k)" if "k < 48" for k
    proof (rule load64_cong)
      fix i :: nat assume "i < 8"
      then have u: "unat (0x500 + of_nat k + of_nat i :: u64) = 0x500 + k + i"
        using \<open>k < 48\<close> by (simp add: unat_word_ariths unat64_of_nat)
      have far: "unat c < 0x1000 \<Longrightarrow> 16 \<le> unat (c - 0x100000)" for c :: u64
        by (simp add: unat_sub_if')
      have "16 \<le> unat (0x500 + of_nat k + of_nat i - 0x100000 :: u64)"
        by (rule far) (use u \<open>k < 48\<close> \<open>i < 8\<close> in linarith)
      then show "m (0x500 + of_nat k + of_nat i) = elf_ram1 (0x500 + of_nat k + of_nat i)"
        using \<open>\<forall>x. _\<close> by blast
    qed
    show ?thesis
      using l [of 0] l [of 8] l [of 16] l [of 32] l [of 40] by (simp add: phdr64_def)
  qed
  then show ?thesis
    by (auto simp: headers_fixed_def phdr_at_def uefi1_def phdr64_ram1)
qed

theorem LoadElfSegments_correct_witness:
  "\<exists>out' f''. LoadElfSegments (uefi1 [1, 2, 3, 4]) 2 0x500 1 \<lparr>EntryPoint = 0, ElfPhysicalBase = 0, ElfVirtualBase = 0,
        ElfSize = 0, ElfSegmentList = [], ElfSegmentCount = 0, ElfSectionList = []\<rparr> (boot1\<lparr>bram := elf_ram1\<rparr>, 0) =
      (EFI_SUCCESS, out', (boot1\<lparr>bram := write_list 0x100000 [1, 2, 3, 4, 0, 0, 0, 0, 0, 0, 0, 0, 0, 0, 0, 0] elf_ram1\<rparr>, f'')) \<and>
    ElfVirtualBase out' = 0xffffffff80000000"
proof -
  have ok: "\<forall>p \<in> set (loadable [phdr1]). phdr_ok [1, 2, 3, 4] p" by (simp add: phdr1_def phdr_ok_def)
  have T: "(16 :: nat) = sum_list (map (unat \<circ> p_memsz) (loadable [phdr1]))" "(16 :: nat) < 2 ^ 64"
    by (simp_all add: phdr1_def)
  have hd: "headers_fixed (uefi1 [1, 2, 3, 4]) 0x500 [phdr1] (bram (boot1\<lparr>bram := elf_ram1\<rparr>)) 0x100000 16"
    using headers_fixed1 by simp
  have al: "bs_AllocatePages (uefi1 [1, 2, 3, 4]) (EFI_SIZE_TO_PAGES (of_nat 16)) (boot1\<lparr>bram := elf_ram1\<rparr>, 0) =
      ((EFI_SUCCESS, 0x100000), (boot1\<lparr>bram := elf_ram1\<rparr>, 0))" by (simp add: uefi1_def)
  have n: "unat (1 :: u16) = length [phdr1]" by simp
  have "replicate 12 (0 :: u8) = [0, 0, 0, 0, 0, 0, 0, 0, 0, 0, 0, 0]" by (simp add: eval_nat_numeral)
  then have "image_of [1, 2, 3, 4] (loadable [phdr1]) = [1, 2, 3, 4, 0, 0, 0, 0, 0, 0, 0, 0, 0, 0, 0, 0]"
    by (simp add: image_of_def segment_bytes_def phdr1_def)
  then show ?thesis
    using LoadElfSegments_correct [OF uefi1_file_ok hd n ok T al]
    by (fastforce simp: phdr1_def)
qed

section \<open>The final memory map\<close>

text \<open>
  What the firmware documents of \<open>GetMemoryMap\<close>: given a buffer smaller than the current map it
  fails and says the size needed; it does not change its own state.
\<close>

definition map_service :: "'f uefi \<Rightarrow> ('f \<Rightarrow> u64) \<Rightarrow> u64 \<Rightarrow> bool" where
  "map_service U need ds \<longleftrightarrow>
    (\<forall>n a b f. \<exists>key b'. GetMemoryMap U n a (b, f) =
      ((if n < need f then EFI_BUFFER_TOO_SMALL else EFI_SUCCESS, need f, key, ds), (b', f)))"

lemma map_serviceE:
  assumes "map_service U need ds"
  obtains key b' where "GetMemoryMap U n a (b, f) =
    ((if n < need f then EFI_BUFFER_TOO_SMALL else EFI_SUCCESS, need f, key, ds), (b', f))"
  using assms unfolding map_service_def by blast

lemma EFI_ERROR_too_small: "EFI_ERROR EFI_BUFFER_TOO_SMALL"
  by (simp add: EFI_ERROR_def EFIERR_def)

text \<open>
  The final memory map. When allocating the buffer makes the map grow, the second \<open>GetMemoryMap\<close>
  fails even if the buffer, which is two descriptors larger than the first answer, could hold the map:
  the size passed is still the first answer. \<open>ReadMemoryMap\<close> then returns null, \<open>efi_main\<close> tests
  another variable, and the kernel is entered with the address of the memory map equal to null plus
  the kernel's offset.
\<close>

theorem boot_map_null:
  assumes gm: "map_service U need ds" and ds: "ds \<noteq> 0" and n: "n < need f"
    and pool: "lib_AllocatePool U (need f + 2 * ds) (b', f) = (p, (b1, f1))" "p \<noteq> 0" and grow: "need f < need f1"
    and first: "snd (GetMemoryMap U n 0 (b, f)) = (b', f)"
    and exit: "\<And>key w. \<not> EFI_ERROR (fst (ExitBootServices U key w))"
  shows "\<exists>entry params w'. efi_handover U out stk pml4 gop font rsdp n sysmem (b, f) =
    Some (EnterKernel entry params pml4 w') \<and> kep_map_Base params = ElfVirtualBase out - ElfPhysicalBase out"
proof -
  obtain k1 where 1: "GetMemoryMap U n 0 (b, f) = ((EFI_BUFFER_TOO_SMALL, need f, k1, ds), (b', f))"
    by (rule map_serviceE [OF gm, of n 0 b f]) (use first n in auto)
  obtain k2 b2 where 2: "GetMemoryMap U (need f) p (b1, f1) = ((EFI_BUFFER_TOO_SMALL, need f1, k2, ds), (b2, f1))"
    by (rule map_serviceE [OF gm, of "need f" p b1 f1]) (use grow in auto)
  have "ReadMemoryMap U n sysmem (b, f) = Some ((0, need f1, k2, ds, sysmem), lib_FreePool U p (b2, f1))"
    using 1 2 pool by (simp add: ReadMemoryMap_def Let_def EFI_ERROR_too_small)
  then show ?thesis
    using exit ds by (simp add: efi_handover_def case_prod_unfold Let_def)
qed

text \<open>A firmware whose memory map has \<open>f\<close> bytes and gains a descriptor with every allocation.\<close>

definition uefi2 :: "nat uefi" where
  "uefi2 = (uefi1 [])
    \<lparr>GetMemoryMap := (\<lambda>n a w. ((if n < of_nat (snd w) then EFI_BUFFER_TOO_SMALL else EFI_SUCCESS,
       of_nat (snd w), 7, 48), w)),
     lib_AllocatePool := (\<lambda>n w. (0x200000, (fst w, snd w + 48)))\<rparr>"

theorem boot_map_null_witness:
  "\<exists>entry params w'. efi_handover uefi2 \<lparr>EntryPoint = 0xffffffff80000000, ElfPhysicalBase = 0x100000,
      ElfVirtualBase = 0xffffffff80000000, ElfSize = 16, ElfSegmentList = [], ElfSegmentCount = 1, ElfSectionList = []\<rparr>
      0x9000 0x1000 0x400 0x5000 0 0 0x10000 (boot1, 480) = Some (EnterKernel entry params 0x1000 w') \<and>
    kep_map_Base params = 0xffffffff7ff00000"
proof -
  have gm: "map_service uefi2 of_nat 48" by (auto simp: map_service_def uefi2_def)
  have "(48 :: u64) \<noteq> 0" "(0 :: u64) < of_nat 480"
    "lib_AllocatePool uefi2 (of_nat 480 + 2 * 48) (boot1, 480) = (0x200000, (boot1, 528))" "(0x200000 :: u64) \<noteq> 0"
    "(of_nat 480 :: u64) < of_nat 528" "snd (GetMemoryMap uefi2 0 0 (boot1, 480)) = (boot1, 480)"
    "\<And>key w. \<not> EFI_ERROR (fst (ExitBootServices uefi2 key w))"
    by (simp_all add: uefi2_def uefi1_def EFI_ERROR_def)
  from boot_map_null [OF gm this, where stk = "0x9000" and ?pml4.0 = "0x1000" and gop = "0x400" and font = "0x5000" and rsdp = 0
      and sysmem = "0x10000" and out = "\<lparr>EntryPoint = 0xffffffff80000000, ElfPhysicalBase = 0x100000,
      ElfVirtualBase = 0xffffffff80000000, ElfSize = 16, ElfSegmentList = [], ElfSegmentCount = 1, ElfSectionList = []\<rparr>"]
  show ?thesis by simp
qed

end
