(* ===== verification/Ports.thy ===== *)
theory Ports
  imports Prelude
begin

text \<open>
  I/O ports and the serial line: \<^verbatim>\<open>ports/ports.cpp\<close> and \<^verbatim>\<open>ports/serial.cpp\<close>. The four instructions
  act on the devices behind the ports, which are a parameter: the record \<open>ports\<close> over a state of
  the devices.
\<close>

section \<open>Port instructions\<close>

record 'p ports =
  dev_outb :: "u16 \<Rightarrow> u8 \<Rightarrow> 'p \<Rightarrow> 'p"
  dev_inb :: "u16 \<Rightarrow> 'p \<Rightarrow> u8 \<times> 'p"
  dev_outl :: "u16 \<Rightarrow> u32 \<Rightarrow> 'p \<Rightarrow> 'p"
  dev_inl :: "u16 \<Rightarrow> 'p \<Rightarrow> u32 \<times> 'p"

definition outByte :: "'p ports \<Rightarrow> u16 \<Rightarrow> u8 \<Rightarrow> 'p \<Rightarrow> 'p" where
  "outByte P port value p = dev_outb P port value p"

definition inByte :: "'p ports \<Rightarrow> u16 \<Rightarrow> 'p \<Rightarrow> u8 \<times> 'p" where
  "inByte P port p = dev_inb P port p"

definition outl :: "'p ports \<Rightarrow> u16 \<Rightarrow> u32 \<Rightarrow> 'p \<Rightarrow> 'p" where
  "outl P port val p = dev_outl P port val p"

definition inl :: "'p ports \<Rightarrow> u16 \<Rightarrow> 'p \<Rightarrow> u32 \<times> 'p" where
  "inl P port p = dev_inl P port p"

section \<open>The serial line\<close>

definition SERIAL_PORT_BASE_COM1 :: u16 where "SERIAL_PORT_BASE_COM1 = 0x3F8"

definition SERIAL_DATA_PORT :: "u16 \<Rightarrow> u16" where "SERIAL_DATA_PORT base = base"
definition SERIAL_FIFO_COMMAND_PORT :: "u16 \<Rightarrow> u16" where "SERIAL_FIFO_COMMAND_PORT base = base + 2"
definition SERIAL_LINE_COMMAND_PORT :: "u16 \<Rightarrow> u16" where "SERIAL_LINE_COMMAND_PORT base = base + 3"
definition SERIAL_MODEM_COMMAND_PORT :: "u16 \<Rightarrow> u16" where "SERIAL_MODEM_COMMAND_PORT base = base + 4"
definition SERIAL_LINE_STATUS_PORT :: "u16 \<Rightarrow> u16" where "SERIAL_LINE_STATUS_PORT base = base + 5"

definition SERIAL_LINE_ENABLE_DLAB :: u8 where "SERIAL_LINE_ENABLE_DLAB = 0x80"
definition SERIAL_LINE_STATUS_THR_EMPTY :: u8 where "SERIAL_LINE_STATUS_THR_EMPTY = 0x20"
definition SERIAL_LCR_DISABLE_ALL_INTERRUPTS :: u8 where "SERIAL_LCR_DISABLE_ALL_INTERRUPTS = 0x00"
definition SERIAL_BAUD_RATE_DIVISOR_LOW :: u8 where "SERIAL_BAUD_RATE_DIVISOR_LOW = 0x03"
definition SERIAL_BAUD_RATE_DIVISOR_HIGH :: u8 where "SERIAL_BAUD_RATE_DIVISOR_HIGH = 0x00"
definition SERIAL_LCR_EIGHT_BITS_NO_PARITY_ONE_STOP :: u8 where "SERIAL_LCR_EIGHT_BITS_NO_PARITY_ONE_STOP = 0x03"
definition SERIAL_FIFO_CTRL_ENABLE_CLEAR_14BYTES :: u8 where "SERIAL_FIFO_CTRL_ENABLE_CLEAR_14BYTES = 0xC7"
definition SERIAL_MCR_ENABLE_IRQ_RTS_DSR :: u8 where "SERIAL_MCR_ENABLE_IRQ_RTS_DSR = 0x0B"

definition initializeSerialPort :: "'p ports \<Rightarrow> u16 \<Rightarrow> 'p \<Rightarrow> 'p" where
  "initializeSerialPort P base p =
    (let p = outByte P (SERIAL_LINE_COMMAND_PORT base) SERIAL_LCR_DISABLE_ALL_INTERRUPTS p;
         p = outByte P (SERIAL_LINE_COMMAND_PORT base) SERIAL_LINE_ENABLE_DLAB p;
         p = outByte P (SERIAL_DATA_PORT base) SERIAL_BAUD_RATE_DIVISOR_LOW p;
         p = outByte P (SERIAL_DATA_PORT base + 1) SERIAL_BAUD_RATE_DIVISOR_HIGH p;
         p = outByte P (SERIAL_LINE_COMMAND_PORT base) SERIAL_LCR_EIGHT_BITS_NO_PARITY_ONE_STOP p;
         p = outByte P (SERIAL_FIFO_COMMAND_PORT base) SERIAL_FIFO_CTRL_ENABLE_CLEAR_14BYTES p
     in outByte P (SERIAL_MODEM_COMMAND_PORT base) SERIAL_MCR_ENABLE_IRQ_RTS_DSR p)"

definition isTransmitQueueEmpty :: "'p ports \<Rightarrow> u16 \<Rightarrow> 'p \<Rightarrow> bool \<times> 'p" where
  "isTransmitQueueEmpty P base p =
    (let (v, p) = inByte P (SERIAL_LINE_STATUS_PORT base) p
     in (v AND SERIAL_LINE_STATUS_THR_EMPTY \<noteq> 0, p))"

partial_function (option) wait_transmit :: "'p ports \<Rightarrow> u16 \<Rightarrow> 'p \<Rightarrow> 'p option" where
  "wait_transmit P base p =
    (let (empty, p) = isTransmitQueueEmpty P base p in if empty then Some p else wait_transmit P base p)"

definition writeToSerialPort :: "'p ports \<Rightarrow> u16 \<Rightarrow> u8 \<Rightarrow> 'p \<Rightarrow> 'p option" where
  "writeToSerialPort P base chr p = do { p \<leftarrow> wait_transmit P base p; Some (outByte P base chr p) }"

partial_function (option) writeToSerialPort_str :: "'p ports \<Rightarrow> u16 \<Rightarrow> mem \<Rightarrow> u64 \<Rightarrow> 'p \<Rightarrow> 'p option" where
  "writeToSerialPort_str P base m str p =
    (if m str \<noteq> 0 then do {
       p \<leftarrow> writeToSerialPort P base (m str) p;
       writeToSerialPort_str P base m (str + 1) p
     }
     else Some p)"

section \<open>A line that drains\<close>

text \<open>
  What the driver relies on of the device at \<open>base\<close>: reading the status does not send anything and
  reports an empty transmit register after finitely many reads (at most \<open>busy\<close>), and a byte written
  to the data port is appended to what was sent.
\<close>

definition serial_device :: "'p ports \<Rightarrow> u16 \<Rightarrow> ('p \<Rightarrow> u8 list) \<Rightarrow> ('p \<Rightarrow> nat) \<Rightarrow> bool" where
  "serial_device P base sent busy \<longleftrightarrow>
    (\<forall>p v p'. dev_inb P (base + 5) p = (v, p') \<longrightarrow>
      sent p' = sent p \<and> (v AND 0x20 = 0 \<longrightarrow> busy p' < busy p)) \<and>
    (\<forall>p v. sent (dev_outb P base v p) = sent p @ [v])"

lemma wait_transmit_returns:
  assumes "serial_device P base sent busy"
  shows "\<exists>p'. wait_transmit P base p = Some p' \<and> sent p' = sent p"
proof (induction "busy p" arbitrary: p rule: less_induct)
  case less
  obtain v p1 where v: "dev_inb P (base + 5) p = (v, p1)" by fastforce
  have s: "sent p1 = sent p" "v AND 0x20 = 0 \<Longrightarrow> busy p1 < busy p"
    using assms v by (auto simp: serial_device_def)
  show ?case
  proof (cases "v AND 0x20 = 0")
    case True
    obtain p' where "wait_transmit P base p1 = Some p'" "sent p' = sent p1" using less [OF s(2) [OF True]] by blast
    then show ?thesis
      using True v s(1)
      by (subst wait_transmit.simps) (simp add: isTransmitQueueEmpty_def inByte_def SERIAL_LINE_STATUS_PORT_def
          SERIAL_LINE_STATUS_THR_EMPTY_def)
  next
    case False
    then show ?thesis
      using v s(1)
      by (subst wait_transmit.simps) (simp add: isTransmitQueueEmpty_def inByte_def SERIAL_LINE_STATUS_PORT_def
          SERIAL_LINE_STATUS_THR_EMPTY_def)
  qed
qed

lemma writeToSerialPort_sends:
  assumes "serial_device P base sent busy"
  shows "\<exists>p'. writeToSerialPort P base c p = Some p' \<and> sent p' = sent p @ [c]"
  using wait_transmit_returns [OF assms, of p] assms
  by (auto simp: writeToSerialPort_def outByte_def serial_device_def)

lemma writeToSerialPort_str_sends:
  assumes "serial_device P base sent busy" "\<forall>i < length xs. m (a + of_nat i) = xs ! i" "m (a + of_nat (length xs)) = 0" "0 \<notin> set xs"
  shows "\<exists>p'. writeToSerialPort_str P base m a p = Some p' \<and> sent p' = sent p @ xs"
  using assms(2-)
proof (induction xs arbitrary: a p)
  case Nil
  then show ?case by (subst writeToSerialPort_str.simps) simp
next
  case (Cons x xs)
  obtain p1 where 1: "writeToSerialPort P base x p = Some p1" "sent p1 = sent p @ [x]"
    using writeToSerialPort_sends [OF assms(1)] by blast
  have "\<forall>i < length xs. m (a + 1 + of_nat i) = xs ! i"
    using Cons.prems(1) by (auto simp: add.assoc dest: spec [of _ "Suc _"])
  moreover have "m (a + 1 + of_nat (length xs)) = 0" using Cons.prems(2) by (simp add: add.assoc)
  ultimately obtain p' where "writeToSerialPort_str P base m (a + 1) p1 = Some p'" "sent p' = sent p1 @ xs"
    using Cons.IH [of "a + 1" p1] Cons.prems(3) by auto
  moreover have "m a = x" "x \<noteq> 0" using Cons.prems by (auto dest: spec [of _ 0])
  ultimately show ?case
    using 1 by (subst writeToSerialPort_str.simps) simp
qed

end
