(* ===== verification/Pci.thy ===== *)
theory Pci
  imports Ports BitStruct Paging
begin

text \<open>
  PCI: configuration space access, names of classes and devices (\<^verbatim>\<open>pci/pci.cpp\<close>) and the enumeration
  of the bus through the MCFG table with the reading of capability lists (\<^verbatim>\<open>acpi/mcfg.cpp\<close>).

  Configuration space is reached in two ways, as in the source: through the ports 0xCF8 and 0xCFC,
  and as memory-mapped structures at the addresses of the MCFG table. The mapped region is a
  memory of its own. The list of devices is the vector of the source.
\<close>

section \<open>Names\<close>

definition g_pciDeviceClasses :: "string list" where
  "g_pciDeviceClasses = [
    ''Unclassified'', ''Mass Storage Controller'', ''Network Controller'', ''Display Controller'',
    ''Multimedia Controller'', ''Memory Controller'', ''Bridge Device'',
    ''Simple Communication Controller'', ''Base System Peripheral'', ''Input Device Controller'',
    ''Docking Station'', ''Processor'', ''Serial Bus Controller'', ''Wireless Controller'',
    ''Intelligent Controller'', ''Satellite Communication Controller'', ''Encryption Controller'',
    ''Signal Processing Controller'', ''Processing Accelerator'', ''Non Essential Instrumentation'']"

text \<open>\<open>None\<close> is the read beyond the end of the array.\<close>

definition getPciDeviceType :: "u8 \<Rightarrow> string option" where
  "getPciDeviceType classCode =
    (if unat classCode < length g_pciDeviceClasses then Some (g_pciDeviceClasses ! unat classCode) else None)"

definition lookup :: "string \<Rightarrow> ('k \<times> string) list \<Rightarrow> 'k \<Rightarrow> string" where
  "lookup d t k = (case map_of t k of None \<Rightarrow> d | Some v \<Rightarrow> v)"

definition getPciVendorName :: "u16 \<Rightarrow> string" where
  "getPciVendorName vendorID = lookup ''Unknown Vendor ID''
    [(0x8086, ''Intel Corp''), (0x1022, ''AMD''), (0x10DE, ''NVIDIA Corporation'')] vendorID"

definition getPciDeviceName :: "u16 \<Rightarrow> u16 \<Rightarrow> string" where
  "getPciDeviceName vendorID deviceID =
    (if vendorID = 0x8086 then lookup ''Unknown Device ID''
       [(0x29C0, ''Express DRAM Controller''), (0x2918, ''LPC Interface Controller''),
        (0x2922, ''6 port SATA Controller [AHCI mode]''), (0x2930, ''SMBus Controller'')] deviceID
     else ''Unknown Device ID'')"

definition getPciMassStorageControllerSubclassName :: "u8 \<Rightarrow> string" where
  "getPciMassStorageControllerSubclassName subclassCode = lookup ''Unknown Subclass Code''
    [(0x00, ''SCSI Bus Controller''), (0x01, ''IDE Controller''), (0x02, ''Floppy Disk Controller''),
     (0x03, ''IPI Bus Controller''), (0x04, ''RAID Controller''), (0x05, ''ATA Controller''),
     (0x06, ''Serial ATA''), (0x07, ''Serial Attached SCSI''), (0x08, ''Non-Volatile Memory Controller''),
     (0x80, ''Other'')] subclassCode"

definition getPciSerialBusControllerSubclassName :: "u8 \<Rightarrow> string" where
  "getPciSerialBusControllerSubclassName subclassCode = lookup ''Unknown Subclass Code''
    [(0x00, ''FireWire (IEEE 1394) Controller''), (0x01, ''ACCESS Bus''), (0x02, ''SSA''),
     (0x03, ''USB Controller''), (0x04, ''Fibre Channel''), (0x05, ''SMBus''), (0x06, ''Infiniband''),
     (0x07, ''IPMI Interface''), (0x08, ''SERCOS Interface (IEC 61491)''), (0x09, ''CANbus''),
     (0x80, ''SerialBusController - Other'')] subclassCode"

definition getPciBridgeDeviceSubclassName :: "u8 \<Rightarrow> string" where
  "getPciBridgeDeviceSubclassName subclassCode = lookup ''Unknown Subclass Code''
    [(0x00, ''Host Bridge''), (0x01, ''ISA Bridge''), (0x02, ''EISA Bridge''), (0x03, ''MCA Bridge''),
     (0x04, ''PCI-to-PCI Bridge''), (0x05, ''PCMCIA Bridge''), (0x06, ''NuBus Bridge''),
     (0x07, ''CardBus Bridge''), (0x08, ''RACEway Bridge''), (0x09, ''PCI-to-PCI Bridge''),
     (0x0a, ''InfiniBand-to-PCI Host Bridge''), (0x80, ''Other'')] subclassCode"

definition getPciSubclassName :: "u8 \<Rightarrow> u8 \<Rightarrow> string" where
  "getPciSubclassName classCode subclassCode =
    (if classCode = 0x01 then getPciMassStorageControllerSubclassName subclassCode
     else if classCode = 0x03 then
       (if subclassCode = 0x00 then ''VGA Compatible Controller'' else ''Unknown Subclass Code'')
     else if classCode = 0x06 then getPciBridgeDeviceSubclassName subclassCode
     else if classCode = 0x0C then getPciSerialBusControllerSubclassName subclassCode
     else ''Unknown Subclass Code'')"

definition getPciProgIFName :: "u8 \<Rightarrow> u8 \<Rightarrow> u8 \<Rightarrow> string" where
  "getPciProgIFName classCode subclassCode progIF =
    (if classCode = 0x01 \<and> subclassCode = 0x06 then lookup ''Unknown Controller''
       [(0x00, ''Vendor Specific Interface''), (0x01, ''AHCI 1.0''), (0x02, ''Serial Storage Bus'')] progIF
     else if classCode = 0x03 \<and> subclassCode = 0x00 then lookup ''Unknown Controller''
       [(0x00, ''VGA Controller''), (0x01, ''8514-Compatible Controller'')] progIF
     else if classCode = 0x0C \<and> subclassCode = 0x03 then lookup ''Unknown Controller''
       [(0x00, ''UHCI Controller''), (0x10, ''OHCI Controller''), (0x20, ''EHCI (USB2) Controller''),
        (0x30, ''XHCI (USB3) Controller''), (0x80, ''Unspecified''),
        (0xFE, ''USB Device (Not a Host Controller)'')] progIF
     else ''Unknown Controller'')"

section \<open>Structures\<close>

type_synonym pci_header = "512 word"

definition PciDeviceHeader :: layout where
  "PciDeviceHeader = [(''vendorID'', 16), (''deviceID'', 16), (''command'', 16), (''status'', 16),
    (''revisionID'', 8), (''progIF'', 8), (''subclass'', 8), (''classCode'', 8), (''cacheLineSize'', 8),
    (''latencyTimer'', 8), (''headerType'', 8), (''bist'', 8), (''bar0'', 32), (''bar1'', 32), (''bar2'', 32),
    (''bar3'', 32), (''bar4'', 32), (''bar5'', 32), (''cardbusCISPtr'', 32), (''subsystemVendorID'', 16),
    (''subsystemID'', 16), (''expansionROMBaseAddr'', 32), (''capabilitiesPtr'', 8), (''reserved'', 56),
    (''interruptLine'', 8), (''interruptPin'', 8), (''minGrant'', 8), (''maxLatency'', 8)]"

definition PciDeviceConfig :: layout where
  "PciDeviceConfig = [(''base'', 64), (''pciSegGroup'', 16), (''startBus'', 8), (''endBus'', 8), (''reserved'', 32)]"

abbreviation hdr_field :: "string \<Rightarrow> pci_header \<Rightarrow> pci_header" where
  "hdr_field f h \<equiv> fget PciDeviceHeader f h"

definition hdr_bar :: "nat \<Rightarrow> pci_header \<Rightarrow> u32" where
  "hdr_bar i h = ucast (bf_get (fld_lo PciDeviceHeader ''bar0'' + 32 * i) 32 h)"

definition bar_at :: "nat \<Rightarrow> pci_header \<Rightarrow> u64 option" where
  "bar_at i h =
    (let barValue = hdr_bar i h
     in if barValue AND 0x1 = 0 then
          (if barValue AND 0x6 = 0x4
           then Some (push_bit 32 (ucast (hdr_bar (i + 1) h)) OR ucast (barValue AND NOT 0xF))
           else Some (ucast (barValue AND NOT 0xF)))
        else None)"

definition getBarFromPciHeader :: "pci_header \<Rightarrow> u64" where
  "getBarFromPciHeader h =
    (case bar_at 0 h of Some a \<Rightarrow> a
     | None \<Rightarrow> (case bar_at 1 h of Some a \<Rightarrow> a | None \<Rightarrow> 0))"

section \<open>Configuration space\<close>

definition PCI_CONFIG_ADDRESS :: u16 where "PCI_CONFIG_ADDRESS = 0xCF8"
definition PCI_CONFIG_DATA :: u16 where "PCI_CONFIG_DATA = 0xCFC"
definition PCI_COMMAND_REGISTER :: u8 where "PCI_COMMAND_REGISTER = 0x04"

definition getPciConfigAddress :: "u8 \<Rightarrow> u8 \<Rightarrow> u8 \<Rightarrow> u8 \<Rightarrow> u32" where
  "getPciConfigAddress bus slot func offset =
    push_bit 16 (ucast bus) OR push_bit 11 (ucast slot) OR push_bit 8 (ucast func) OR
    ucast (offset AND 0xfc) OR 0x80000000"

definition pciConfigRead32 :: "'p ports \<Rightarrow> u8 \<Rightarrow> u8 \<Rightarrow> u8 \<Rightarrow> u8 \<Rightarrow> 'p \<Rightarrow> u32 \<times> 'p" where
  "pciConfigRead32 P bus slot func offset p =
    inl P PCI_CONFIG_DATA (outl P PCI_CONFIG_ADDRESS (getPciConfigAddress bus slot func offset) p)"

definition pciConfigRead8 :: "'p ports \<Rightarrow> u8 \<Rightarrow> u8 \<Rightarrow> u8 \<Rightarrow> u8 \<Rightarrow> 'p \<Rightarrow> u8 \<times> 'p" where
  "pciConfigRead8 P bus slot func offset p =
    (let (data, p) = inl P PCI_CONFIG_DATA (outl P PCI_CONFIG_ADDRESS (getPciConfigAddress bus slot func offset) p)
     in (ucast (drop_bit (unat (offset AND 3) * 8) data AND 0xff), p))"

definition pciConfigRead16 :: "'p ports \<Rightarrow> u8 \<Rightarrow> u8 \<Rightarrow> u8 \<Rightarrow> u8 \<Rightarrow> 'p \<Rightarrow> u16 \<times> 'p" where
  "pciConfigRead16 P bus slot func offset p =
    (let (data, p) = inl P PCI_CONFIG_DATA (outl P PCI_CONFIG_ADDRESS (getPciConfigAddress bus slot func offset) p)
     in (ucast (drop_bit (unat (offset AND 2) * 8) data AND 0xffff), p))"

definition pciConfigWrite8 :: "'p ports \<Rightarrow> u8 \<Rightarrow> u8 \<Rightarrow> u8 \<Rightarrow> u8 \<Rightarrow> u8 \<Rightarrow> 'p \<Rightarrow> 'p" where
  "pciConfigWrite8 P bus slot func offset value p =
    (let (data, p) = inl P PCI_CONFIG_DATA (outl P PCI_CONFIG_ADDRESS (getPciConfigAddress bus slot func offset) p);
         data = data AND NOT (push_bit (unat (offset AND 3) * 8) 0xFF);
         data = data OR push_bit (unat (offset AND 3) * 8) (ucast value)
     in outl P PCI_CONFIG_DATA data p)"

definition pciConfigWrite16 :: "'p ports \<Rightarrow> u8 \<Rightarrow> u8 \<Rightarrow> u8 \<Rightarrow> u8 \<Rightarrow> u16 \<Rightarrow> 'p \<Rightarrow> 'p" where
  "pciConfigWrite16 P bus slot func offset value p =
    (let (data, p) = inl P PCI_CONFIG_DATA (outl P PCI_CONFIG_ADDRESS (getPciConfigAddress bus slot func offset) p);
         data = data AND NOT (push_bit (unat (offset AND 2) * 8) 0xFFFF);
         data = data OR push_bit (unat (offset AND 2) * 8) (ucast value)
     in outl P PCI_CONFIG_DATA data p)"

definition pciConfigWrite32 :: "'p ports \<Rightarrow> u8 \<Rightarrow> u8 \<Rightarrow> u8 \<Rightarrow> u8 \<Rightarrow> u32 \<Rightarrow> 'p \<Rightarrow> 'p" where
  "pciConfigWrite32 P bus slot func offset value p =
    outl P PCI_CONFIG_DATA value (outl P PCI_CONFIG_ADDRESS (getPciConfigAddress bus slot func offset) p)"

definition enableBusMastering :: "'p ports \<Rightarrow> u8 \<Rightarrow> u8 \<Rightarrow> u8 \<Rightarrow> 'p \<Rightarrow> 'p" where
  "enableBusMastering P bus slot func p =
    (let (commandReg, p) = pciConfigRead16 P bus slot func PCI_COMMAND_REGISTER p
     in pciConfigWrite16 P bus slot func PCI_COMMAND_REGISTER (commandReg OR 0x04) p)"

section \<open>Capabilities\<close>

definition PciCapability :: "(u8 \<times> nat) list" where
  "PciCapability = [(0x01, 0), (0x02, 1), (0x03, 2), (0x04, 3), (0x05, 4), (0x06, 5), (0x07, 6), (0x08, 7),
    (0x09, 8), (0x0A, 9), (0x0B, 10), (0x0C, 11), (0x0D, 12), (0x0E, 13), (0x0F, 14), (0x10, 15), (0x11, 16),
    (0x12, 17), (0x13, 18)]"

definition cap_bit :: "u8 \<Rightarrow> u32" where
  "cap_bit capId = (case map_of PciCapability capId of None \<Rightarrow> 0 | Some cap \<Rightarrow> push_bit cap 1)"

definition HAS_PCI_CAP :: "u32 \<Rightarrow> nat \<Rightarrow> bool" where
  "HAS_PCI_CAP capabilities cap \<longleftrightarrow> capabilities AND push_bit cap 1 \<noteq> 0"

text \<open>The walk along the list; \<open>None\<close> when the list has no end.\<close>

partial_function (option) walk_capabilities ::
  "'p ports \<Rightarrow> u8 \<Rightarrow> u8 \<Rightarrow> u8 \<Rightarrow> u8 \<Rightarrow> u32 \<Rightarrow> 'p \<Rightarrow> (u32 \<times> 'p) option" where
  "walk_capabilities io bus device func capPointer capabilities p =
    (if capPointer \<noteq> 0 \<and> capPointer \<noteq> 0xFF then
       (let (capId, p) = pciConfigRead8 io bus device func capPointer p;
            (next, p) = pciConfigRead8 io bus device func (capPointer + 1) p
        in walk_capabilities io bus device func next (capabilities OR cap_bit capId) p)
     else Some (capabilities, p))"

text \<open>The variable \<open>capabilities\<close> is not initialised; its first value is the argument \<open>c0\<close>.\<close>

definition readCapabilities :: "'p ports \<Rightarrow> u32 \<Rightarrow> u8 \<Rightarrow> u8 \<Rightarrow> u8 \<Rightarrow> 'p \<Rightarrow> (u32 \<times> 'p) option" where
  "readCapabilities P c0 bus device func p =
    (let (capPointer, p) = pciConfigRead8 P bus device func 0x34 p
     in walk_capabilities P bus device func capPointer c0 p)"

record PciMsiXCapability =
  messageControl :: u16
  tableOffset :: u32
  pbaOffset :: u32

record PciMsiCapability =
  msi_messageControl :: u16
  msi_messageAddress :: u32
  msi_messageData :: u16

text \<open>
  The capability of the given kind in the list. The offsets are those of the members of the packed
  structures, 0, 2 and 6. The result is the (uninitialised) structure and offset passed in
  when there is none.
\<close>

partial_function (option) find_capability ::
  "'p ports \<Rightarrow> u8 \<Rightarrow> u8 \<Rightarrow> u8 \<Rightarrow> u8 \<Rightarrow> u8 \<Rightarrow> 'p \<Rightarrow> (u8 option \<times> 'p) option" where
  "find_capability io bus device func wanted capPointer p =
    (if capPointer \<noteq> 0 \<and> capPointer \<noteq> 0xFF then
       (let (capId, p) = pciConfigRead8 io bus device func capPointer p
        in if capId = wanted then Some (Some capPointer, p)
           else (let (next, p) = pciConfigRead8 io bus device func (capPointer + 1) p
                 in find_capability io bus device func wanted next p))
     else Some (None, p))"

definition readMsixCapability ::
  "'p ports \<Rightarrow> u8 \<Rightarrow> u8 \<Rightarrow> u8 \<Rightarrow> PciMsiXCapability \<Rightarrow> u32 \<Rightarrow> 'p \<Rightarrow> ((PciMsiXCapability \<times> u32) \<times> 'p) option" where
  "readMsixCapability P bus device func msixCap capOffset p = do {
     let (capPointer, p) = pciConfigRead8 P bus device func 0x34 p;
     (found, p) \<leftarrow> find_capability P bus device func 0x11 capPointer p;
     case found of None \<Rightarrow> Some ((msixCap, capOffset), p)
     | Some capPointer \<Rightarrow>
         (let (mc, p) = pciConfigRead16 P bus device func (capPointer + 0) p;
              (tab, p) = pciConfigRead32 P bus device func (capPointer + 2) p;
              (pba, p) = pciConfigRead32 P bus device func (capPointer + 6) p
          in Some ((\<lparr>messageControl = mc, tableOffset = tab, pbaOffset = pba\<rparr>, ucast capPointer), p))
   }"

definition readMsiCapability ::
  "'p ports \<Rightarrow> u8 \<Rightarrow> u8 \<Rightarrow> u8 \<Rightarrow> PciMsiCapability \<Rightarrow> u32 \<Rightarrow> 'p \<Rightarrow> ((PciMsiCapability \<times> u32) \<times> 'p) option" where
  "readMsiCapability P bus device func msiCap capOffset p = do {
     let (capPointer, p) = pciConfigRead8 P bus device func 0x34 p;
     (found, p) \<leftarrow> find_capability P bus device func 0x05 capPointer p;
     case found of None \<Rightarrow> Some ((msiCap, capOffset), p)
     | Some capPointer \<Rightarrow>
         (let (mc, p) = pciConfigRead16 P bus device func (capPointer + 0) p;
              (adr, p) = pciConfigRead32 P bus device func (capPointer + 2) p;
              (dat, p) = pciConfigRead16 P bus device func (capPointer + 6) p
          in Some ((\<lparr>msi_messageControl = mc, msi_messageAddress = adr, msi_messageData = dat\<rparr>, ucast capPointer), p))
   }"

section \<open>Enumeration\<close>

record PciDeviceInfo =
  headerInfo :: pci_header
  functionAddress :: u64
  barAddress :: u64
  info_bus :: u8
  info_device :: u8
  info_function :: u8
  info_capabilities :: u32

text \<open>
  The surroundings of the enumeration: the ports, the mapped configuration space and the tables in
  memory, the value of the uninitialised variable, and the page table in use. Its state: the page
  frames, the devices behind the ports and the list of functions found.
\<close>

record 'p pci_world =
  pw_ports :: "'p ports"
  pw_ecam :: mem
  pw_tables :: mem
  pw_stack :: u32
  pw_lin :: "u64 \<Rightarrow> u64"
  pw_root :: u64

record 'p mcfg_state =
  ms_pages :: pfa
  ms_ports :: 'p
  m_devices :: "PciDeviceInfo list"

definition map_config :: "'p pci_world \<Rightarrow> u64 \<Rightarrow> 'p mcfg_state \<Rightarrow> 'p mcfg_state option" where
  "map_config W a s = do {
     pages \<leftarrow> mapPage (pw_lin W) a a (ucast KERNEL_PAGE) 0 (pw_root W) (ms_pages s);
     Some (s\<lparr>ms_pages := pages\<rparr>)
   }"

definition present_at :: "'p pci_world \<Rightarrow> u64 \<Rightarrow> bool" where
  "present_at W a \<longleftrightarrow> hdr_field ''deviceID'' (ld (pw_ecam W) a) \<noteq> 0 \<and> hdr_field ''deviceID'' (ld (pw_ecam W) a) \<noteq> 0xFFFF"

definition enumeratePciFunction :: "'p pci_world \<Rightarrow> u64 \<Rightarrow> u64 \<Rightarrow> 'p mcfg_state \<Rightarrow> 'p mcfg_state option" where
  "enumeratePciFunction W deviceAddress func s = do {
     let functionAddress = deviceAddress + push_bit 12 func;
     s \<leftarrow> map_config W functionAddress s;
     if \<not> present_at W functionAddress then Some s
     else do {
       let h = ld (pw_ecam W) functionAddress;
       let bus = ucast (drop_bit 20 deviceAddress AND 0xFF);
       let device = ucast (drop_bit 15 deviceAddress AND 0x1F);
       (caps, p) \<leftarrow> readCapabilities (pw_ports W) (pw_stack W) bus device (ucast func) (ms_ports s);
       let info = \<lparr>headerInfo = h, functionAddress = functionAddress, barAddress = getBarFromPciHeader h,
         info_bus = bus, info_device = device, info_function = ucast func, info_capabilities = caps\<rparr>;
       Some (s\<lparr>ms_ports := p, m_devices := m_devices s @ [info]\<rparr>)
     }
   }"

definition enumeratePciDevice :: "'p pci_world \<Rightarrow> u64 \<Rightarrow> u64 \<Rightarrow> 'p mcfg_state \<Rightarrow> 'p mcfg_state option" where
  "enumeratePciDevice W busAddress device s = do {
     let deviceAddress = busAddress + push_bit 15 device;
     s \<leftarrow> map_config W deviceAddress s;
     if \<not> present_at W deviceAddress then Some s
     else for_up (enumeratePciFunction W deviceAddress) 0 8 s
   }"

definition enumeratePciBus :: "'p pci_world \<Rightarrow> u64 \<Rightarrow> u64 \<Rightarrow> 'p mcfg_state \<Rightarrow> 'p mcfg_state option" where
  "enumeratePciBus W baseAddress bus s = do {
     let busAddress = baseAddress + push_bit 20 bus;
     s \<leftarrow> map_config W busAddress s;
     if \<not> present_at W busAddress then Some s
     else for_up (enumeratePciDevice W busAddress) 0 32 s
   }"

text \<open>A table header has 36 bytes, its length at offset 4; the MCFG header has 44 and an entry 16.\<close>

definition mcfg_entries :: "mem \<Rightarrow> u64 \<Rightarrow> int" where
  "mcfg_entries m base = sint (ucast ((ucast (load32 m (base + 4)) - 44 :: u64) div 16) :: u32)"

definition mcfg_entry :: "mem \<Rightarrow> u64 \<Rightarrow> nat \<Rightarrow> 128 word" where
  "mcfg_entry m base t = ld m (base + 44 + 16 * of_nat t)"

definition enumerate_entry :: "'p pci_world \<Rightarrow> 128 word \<Rightarrow> 'p mcfg_state \<Rightarrow> 'p mcfg_state option" where
  "enumerate_entry W e s =
    for_up (enumeratePciBus W (ucast (fget PciDeviceConfig ''base'' e)))
      (ucast (fget PciDeviceConfig ''startBus'' e)) (ucast (fget PciDeviceConfig ''endBus'' e)) s"

primrec enumerate_entries :: "'p pci_world \<Rightarrow> 128 word list \<Rightarrow> 'p mcfg_state \<Rightarrow> 'p mcfg_state option" where
  "enumerate_entries W [] s = Some s"
| "enumerate_entries W (e # es) s = do { s \<leftarrow> enumerate_entry W e s; enumerate_entries W es s }"

definition enumeratePciDevices :: "'p pci_world \<Rightarrow> u64 \<Rightarrow> 'p mcfg_state \<Rightarrow> 'p mcfg_state option" where
  "enumeratePciDevices W m_base s =
    enumerate_entries W (map (mcfg_entry (pw_tables W) m_base) [0..<nat (mcfg_entries (pw_tables W) m_base)]) s"

text \<open>The index of the controller, \<open>None\<close> for \<open>npos\<close>.\<close>

definition is_xhci :: "PciDeviceInfo \<Rightarrow> bool" where
  "is_xhci info \<longleftrightarrow> hdr_field ''classCode'' (headerInfo info) = 0x0C \<and>
    hdr_field ''subclass'' (headerInfo info) = 0x03 \<and> hdr_field ''progIF'' (headerInfo info) = 0x30"

fun findXhciController_from :: "nat \<Rightarrow> PciDeviceInfo list \<Rightarrow> nat option" where
  "findXhciController_from i [] = None"
| "findXhciController_from i (info # ds) = (if is_xhci info then Some i else findXhciController_from (Suc i) ds)"

definition findXhciController :: "'p mcfg_state \<Rightarrow> nat option" where
  "findXhciController s = findXhciController_from 0 (m_devices s)"

section \<open>Configuration mechanism 1\<close>

text \<open>
  What the code relies on of the two ports: the address port latches an address, and the data port
  reads the double word of configuration space the latched address selects. \<open>cfg\<close> is the contents
  of configuration space by address.
\<close>

definition config_reads :: "'p ports \<Rightarrow> ('p \<Rightarrow> u32 \<Rightarrow> u32) \<Rightarrow> ('p \<Rightarrow> u32) \<Rightarrow> bool" where
  "config_reads P cfg latch \<longleftrightarrow>
    (\<forall>a p. latch (dev_outl P 0xCF8 a p) = a \<and> cfg (dev_outl P 0xCF8 a p) = cfg p) \<and>
    (\<forall>p. \<exists>p'. dev_inl P 0xCFC p = (cfg p (latch p), p') \<and> cfg p' = cfg p \<and> latch p' = latch p)"

text \<open>A write to the data port stores into the registers of the set \<open>A\<close>.\<close>

definition config_writes :: "'p ports \<Rightarrow> ('p \<Rightarrow> u32 \<Rightarrow> u32) \<Rightarrow> ('p \<Rightarrow> u32) \<Rightarrow> u32 set \<Rightarrow> bool" where
  "config_writes P cfg latch A \<longleftrightarrow>
    (\<forall>v p. latch p \<in> A \<longrightarrow> cfg (dev_outl P 0xCFC v p) = (cfg p)(latch p := v))"

definition cfg8 :: "(u32 \<Rightarrow> u32) \<Rightarrow> u8 \<Rightarrow> u8 \<Rightarrow> u8 \<Rightarrow> u8 \<Rightarrow> u8" where
  "cfg8 c bus device func offset =
    ucast (drop_bit (unat (offset AND 3) * 8) (c (getPciConfigAddress bus device func offset)))"

lemma config_read_at:
  assumes "config_reads P cfg latch"
  shows "\<exists>p'. inl P PCI_CONFIG_DATA (outl P PCI_CONFIG_ADDRESS a p) = (cfg p a, p') \<and> cfg p' = cfg p \<and> latch p' = a"
proof -
  let ?q = "dev_outl P 0xCF8 a p"
  have q: "latch ?q = a" "cfg ?q = cfg p" using assms by (auto simp: config_reads_def)
  obtain p' where "dev_inl P 0xCFC ?q = (cfg ?q (latch ?q), p')" "cfg p' = cfg ?q" "latch p' = latch ?q"
    using assms unfolding config_reads_def by blast
  then show ?thesis using q by (simp add: inl_def outl_def PCI_CONFIG_DATA_def PCI_CONFIG_ADDRESS_def)
qed

lemma ucast_and_ff: "(ucast (x AND 0xff) :: u8) = ucast (x :: u32)"
proof -
  have "x AND 0xff = take_bit 8 x" by (simp add: take_bit_eq_mask mask_eq_exp_minus_1)
  then show ?thesis by (simp add: bit_eq_iff bit_ucast_iff bit_take_bit_iff)
qed

lemma ucast_and_ffff: "(ucast (x AND 0xffff) :: u16) = ucast (x :: u32)"
proof -
  have "x AND 0xffff = take_bit 16 x" by (simp add: take_bit_eq_mask mask_eq_exp_minus_1)
  then show ?thesis by (simp add: bit_eq_iff bit_ucast_iff bit_take_bit_iff)
qed

lemma pciConfigRead8_cfg:
  assumes "config_reads P cfg latch"
  shows "\<exists>p'. pciConfigRead8 P bus device func offset p = (cfg8 (cfg p) bus device func offset, p') \<and> cfg p' = cfg p"
  using config_read_at [OF assms, of "getPciConfigAddress bus device func offset" p]
  by (auto simp: pciConfigRead8_def Let_def cfg8_def ucast_and_ff)

section \<open>Capability lists\<close>

primrec cap_chain :: "(u8 \<Rightarrow> u8) \<Rightarrow> u8 \<Rightarrow> u8 list \<Rightarrow> bool" where
  "cap_chain rd c [] \<longleftrightarrow> c = 0 \<or> c = 0xFF"
| "cap_chain rd c (x # xs) \<longleftrightarrow> c \<noteq> 0 \<and> c \<noteq> 0xFF \<and> x = c \<and> cap_chain rd (rd (c + 1)) xs"

definition cap_bits :: "(u8 \<Rightarrow> u8) \<Rightarrow> u8 list \<Rightarrow> u32 \<Rightarrow> u32" where
  "cap_bits rd cs c0 = fold (\<lambda>c bits. bits OR cap_bit (rd c)) cs c0"

lemma walk_capabilities_chain:
  assumes cr: "config_reads P cfg latch"
  shows "cap_chain (cfg8 (cfg p) b d f) c cs \<Longrightarrow>
    \<exists>p'. walk_capabilities P b d f c bits p = Some (cap_bits (cfg8 (cfg p) b d f) cs bits, p') \<and> cfg p' = cfg p"
proof (induction cs arbitrary: c bits p)
  case Nil
  then show ?case by (subst walk_capabilities.simps) (auto simp: cap_bits_def)
next
  case (Cons x cs)
  obtain p1 where 1: "pciConfigRead8 P b d f c p = (cfg8 (cfg p) b d f c, p1)" "cfg p1 = cfg p"
    using pciConfigRead8_cfg [OF cr] by blast
  obtain p2 where 2: "pciConfigRead8 P b d f (c + 1) p1 = (cfg8 (cfg p) b d f (c + 1), p2)" "cfg p2 = cfg p"
    using pciConfigRead8_cfg [OF cr, of b d f "c + 1" p1] 1(2) by auto
  obtain p' where "walk_capabilities P b d f (cfg8 (cfg p) b d f (c + 1)) (bits OR cap_bit (cfg8 (cfg p) b d f c)) p2 =
      Some (cap_bits (cfg8 (cfg p) b d f) cs (bits OR cap_bit (cfg8 (cfg p) b d f c)), p')" "cfg p' = cfg p"
    using Cons.IH [of p2 "cfg8 (cfg p) b d f (c + 1)"] Cons.prems 2(2) by auto
  then show ?case
    using 1 2 Cons.prems by (subst walk_capabilities.simps) (auto simp: cap_bits_def)
qed

lemma walk_capabilities_ends_aux:
  fixes P :: "'p ports"
  assumes w: "walk_capabilities P b d f c bits p = Some r"
  shows "config_reads P cfg latch \<longrightarrow> (\<exists>cs. cap_chain (cfg8 (cfg p) b d f) c cs)"
proof (rule walk_capabilities.raw_induct [OF _ w, where P = "\<lambda>P b d f c bits p r.
    config_reads P cfg latch \<longrightarrow> (\<exists>cs. cap_chain (cfg8 (cfg p) b d f) c cs)"], intro impI)
  fix walk and P :: "'p ports" and b d f c bits p r
  assume IH: "\<And>P b d f c bits p r. walk P b d f c bits p = Some r \<Longrightarrow>
      config_reads P cfg latch \<longrightarrow> (\<exists>cs. cap_chain (cfg8 (cfg p) b d f) c cs)"
    and r: "(if c \<noteq> 0 \<and> c \<noteq> 0xFF then
       (let (capId, p) = pciConfigRead8 P b d f c p; (next, p) = pciConfigRead8 P b d f (c + 1) p
        in walk P b d f next (bits OR cap_bit capId) p) else Some (bits, p)) = Some r"
    and cr: "config_reads P cfg latch"
  obtain p1 where 1: "pciConfigRead8 P b d f c p = (cfg8 (cfg p) b d f c, p1)" "cfg p1 = cfg p"
    using pciConfigRead8_cfg [OF cr] by blast
  obtain p2 where 2: "pciConfigRead8 P b d f (c + 1) p1 = (cfg8 (cfg p) b d f (c + 1), p2)" "cfg p2 = cfg p"
    using pciConfigRead8_cfg [OF cr, of b d f "c + 1" p1] 1(2) by auto
  show "\<exists>cs. cap_chain (cfg8 (cfg p) b d f) c cs"
  proof (cases "c \<noteq> 0 \<and> c \<noteq> 0xFF")
    case True
    then have "walk P b d f (cfg8 (cfg p) b d f (c + 1)) (bits OR cap_bit (cfg8 (cfg p) b d f c)) p2 = Some r"
      using r 1(1) 2(1) by simp
    from IH [OF this] cr 2(2) have "\<exists>cs. cap_chain (cfg8 (cfg p) b d f) (cfg8 (cfg p) b d f (c + 1)) cs" by simp
    then obtain cs where "cap_chain (cfg8 (cfg p) b d f) (cfg8 (cfg p) b d f (c + 1)) cs" ..
    then have "cap_chain (cfg8 (cfg p) b d f) c (c # cs)" using True by simp
    then show ?thesis ..
  next
    case False
    then have "cap_chain (cfg8 (cfg p) b d f) c []" by simp
    then show ?thesis ..
  qed
qed

text \<open>
  C28: reading the capability list. When following the pointers of the list leads to an end, the call
  returns the bits of exactly the capabilities in the list, added to whatever value the
  uninitialised variable had, and leaves configuration space unchanged. Otherwise it never returns.
\<close>

theorem readCapabilities_list:
  fixes P :: "'p ports" and p :: 'p and b d f :: u8
  assumes cr: "config_reads P cfg latch"
  defines "rd \<equiv> cfg8 (cfg p) b d f"
  shows "(\<forall>cs. cap_chain rd (rd 0x34) cs \<longrightarrow>
      (\<exists>p'. readCapabilities P c0 b d f p = Some (cap_bits rd cs c0, p') \<and> cfg p' = cfg p)) \<and>
    ((\<forall>cs. \<not> cap_chain rd (rd 0x34) cs) \<longrightarrow> readCapabilities P c0 b d f p = None)"
proof -
  obtain p1 where 1: "pciConfigRead8 P b d f 0x34 p = (rd 0x34, p1)" "cfg p1 = cfg p"
    using pciConfigRead8_cfg [OF cr] unfolding rd_def by blast
  have "\<exists>p'. readCapabilities P c0 b d f p = Some (cap_bits rd cs c0, p') \<and> cfg p' = cfg p"
    if "cap_chain rd (rd 0x34) cs" for cs
    using walk_capabilities_chain [OF cr, of p1 b d f "rd 0x34" cs c0] that 1
    by (simp add: readCapabilities_def rd_def)
  moreover have "readCapabilities P c0 b d f p = None" if "\<forall>cs. \<not> cap_chain rd (rd 0x34) cs"
  proof (rule ccontr)
    assume "readCapabilities P c0 b d f p \<noteq> None"
    then obtain r where "walk_capabilities P b d f (rd 0x34) c0 p1 = Some r"
      using 1 by (auto simp: readCapabilities_def)
    from walk_capabilities_ends_aux [OF this, of cfg latch] cr that 1(2) show False by (auto simp: rd_def)
  qed
  ultimately show ?thesis by blast
qed

text \<open>
  A host bridge with 64 double words of configuration space for each function: the state is the
  latched address and the contents.
\<close>

definition bridge :: "(u32 \<times> (u32 \<Rightarrow> u32)) ports" where
  "bridge = \<lparr>dev_outb = (\<lambda>port v p. p), dev_inb = (\<lambda>port p. (0, p)),
     dev_outl = (\<lambda>port v p. if port = 0xCF8 then (v, snd p)
       else if port = 0xCFC then (fst p, (snd p)(fst p := v)) else p),
     dev_inl = (\<lambda>port p. (if port = 0xCFC then snd p (fst p) else 0, p))\<rparr>"

lemma bridge_ok: "config_reads bridge snd fst" "config_writes bridge snd fst UNIV"
  by (auto simp: config_reads_def config_writes_def bridge_def)

text \<open>One function (bus 0, device 2, function 0) with an MSI-X capability at 0x40 and no other.\<close>

definition cfg_msix :: "u32 \<Rightarrow> u32" where
  "cfg_msix a = (if a = 0x80001034 then 0x40 else if a = 0x80001040 then 0x00070011
     else if a = 0x80001044 then 0x3 else 0)"

lemma cfg_msix_bytes:
  "cfg8 cfg_msix 0 2 0 0x34 = 0x40" "cfg8 cfg_msix 0 2 0 0x40 = 0x11" "cfg8 cfg_msix 0 2 0 0x41 = 0"
  by (simp_all add: cfg8_def cfg_msix_def getPciConfigAddress_def)

theorem readCapabilities_list_witness:
  "\<exists>p'. readCapabilities bridge 0 0 2 0 (0, cfg_msix) = Some (0x10000, p')"
proof -
  have "cap_chain (cfg8 (snd (0 :: u32, cfg_msix)) 0 2 0) (cfg8 (snd (0 :: u32, cfg_msix)) 0 2 0 0x34) [0x40]"
    by (simp add: cfg_msix_bytes)
  with readCapabilities_list [OF bridge_ok(1), THEN conjunct1, rule_format, of "(0, cfg_msix)" 0 2 0 "[0x40]" 0]
  show ?thesis by (auto simp: cap_bits_def cfg_msix_bytes cap_bit_def PciCapability_def)
qed

lemma and_3: "(x AND 3 = 0) = (unat (x :: u8) mod 4 = 0)"
proof -
  have "x AND 3 = take_bit 2 x" by (simp add: take_bit_eq_mask mask_eq_exp_minus_1)
  then have "unat (x AND 3) = unat x mod 4" by (simp add: unat_mod_distrib take_bit_eq_mod)
  then show ?thesis by (simp add: word_unat_eq_iff)
qed

lemma aligned_plus_4: "x AND 3 = 0 \<Longrightarrow> (x + 4 :: u8) AND 3 = 0"
  unfolding and_3 by (simp add: unat_word_ariths mod_mod_cancel)

lemma aligned_plus_2:
  fixes x :: u8
  assumes "x AND 3 = 0"
  shows "(x + 2) AND 0xfc = x AND 0xfc" "x AND 2 = 0"
proof -
  have b: "\<not> bit x 1" "\<not> bit x 0"
    using arg_cong [OF assms, of "\<lambda>y. bit y 1"] arg_cong [OF assms, of "\<lambda>y. bit y 0"]
    by (simp_all add: bit_and_iff bit_numeral_simps)
  have two: "bit (2 :: u8) n \<longleftrightarrow> n = 1" for n
    by (cases n) (auto simp: bit_2_iff bit_1_iff)
  have "\<not> bit x n \<or> \<not> bit (2 :: u8) n" for n
    using b two by (cases "n = 1") simp_all
  then have e: "x + 2 = x OR 2" by (intro disjunctive_add) blast
  show "(x + 2) AND 0xfc = x AND 0xfc"
  proof (rule bit_eqI)
    fix n
    have "\<not> bit (0xfc :: u8) 1" by (simp add: bit_numeral_simps)
    then show "bit ((x + 2) AND 0xfc) n = bit (x AND 0xfc) n"
      unfolding e using two by (cases "n = 1") (simp_all add: bit_and_iff bit_or_iff)
  qed
  show "x AND 2 = 0"
  proof (rule bit_eqI)
    fix n
    show "bit (x AND 2) n = bit (0 :: u8) n"
      using b two by (cases "n = 1") (simp_all add: bit_and_iff)
  qed
qed

text \<open>
  Reading an MSI-X capability. The members of the structure are read at their offsets 0, 2 and 6,
  but a capability starts with its identifier and next pointer and configuration reads are
  aligned down. So for a capability at a multiple of 4 the message control is the identifier and
  next pointer, the table offset is the first double word, and the offset of the pending bits
  is the double word that holds the table offset.
\<close>

theorem readMsix_misread:
  fixes P :: "'p ports" and p :: 'p and b d f :: u8
  assumes cr: "config_reads P cfg latch"
  defines "rd \<equiv> cfg8 (cfg p) b d f" and "dword \<equiv> \<lambda>off. cfg p (getPciConfigAddress b d f off)"
  assumes c: "rd 0x34 = c" "c \<noteq> 0" "c \<noteq> 0xFF" "rd c = 0x11" "c AND 3 = 0"
  shows "\<exists>p'. readMsixCapability P b d f m0 o0 p =
    Some ((\<lparr>messageControl = ucast (dword c), tableOffset = dword c, pbaOffset = dword (c + 4)\<rparr>, ucast c), p')"
proof -
  have adr: "getPciConfigAddress b d f (c + 2) = getPciConfigAddress b d f c"
    "getPciConfigAddress b d f (c + 6) = getPciConfigAddress b d f (c + 4)"
    using aligned_plus_2(1) [OF c(5)] aligned_plus_2(1) [OF aligned_plus_4 [OF c(5)]]
    by (simp_all add: getPciConfigAddress_def add.assoc)
  obtain p1 where 1: "pciConfigRead8 P b d f 0x34 p = (c, p1)" "cfg p1 = cfg p"
    using pciConfigRead8_cfg [OF cr, of b d f "0x34" p] c(1) by (auto simp: rd_def)
  obtain p2 where 2: "pciConfigRead8 P b d f c p1 = (0x11, p2)" "cfg p2 = cfg p"
    using pciConfigRead8_cfg [OF cr, of b d f c p1] c(4) 1(2) by (auto simp: rd_def)
  have found: "find_capability P b d f 0x11 c p1 = Some (Some c, p2)"
    using c(2,3) 2(1) by (subst find_capability.simps) simp
  obtain p3 where 3: "inl P PCI_CONFIG_DATA (outl P PCI_CONFIG_ADDRESS (getPciConfigAddress b d f c) p2) = (dword c, p3)"
    "cfg p3 = cfg p"
    using config_read_at [OF cr, of "getPciConfigAddress b d f c" p2] 2(2) by (auto simp: dword_def)
  obtain p4 where 4: "inl P PCI_CONFIG_DATA (outl P PCI_CONFIG_ADDRESS (getPciConfigAddress b d f c) p3) = (dword c, p4)"
    "cfg p4 = cfg p"
    using config_read_at [OF cr, of "getPciConfigAddress b d f c" p3] 3(2) by (auto simp: dword_def)
  obtain p5 where 5: "inl P PCI_CONFIG_DATA (outl P PCI_CONFIG_ADDRESS (getPciConfigAddress b d f (c + 4)) p4) = (dword (c + 4), p5)"
    using config_read_at [OF cr, of "getPciConfigAddress b d f (c + 4)" p4] 4(2) by (auto simp: dword_def)
  show ?thesis
    using 1(1) found 3(1) 4(1) 5 adr aligned_plus_2(2) [OF c(5)]
    by (simp add: readMsixCapability_def pciConfigRead16_def pciConfigRead32_def ucast_and_ffff)
qed

theorem readMsix_misread_witness:
  "\<exists>p'. readMsixCapability bridge 0 2 0 \<lparr>messageControl = 0, tableOffset = 0, pbaOffset = 0\<rparr> 0 (0, cfg_msix) =
    Some ((\<lparr>messageControl = 0x11, tableOffset = 0x00070011, pbaOffset = 0x3\<rparr>, 0x40), p')"
proof -
  have c: "cfg8 (snd (0 :: u32, cfg_msix)) 0 2 0 0x34 = 0x40" "(0x40 :: u8) \<noteq> 0" "(0x40 :: u8) \<noteq> 0xFF"
    "cfg8 (snd (0 :: u32, cfg_msix)) 0 2 0 0x40 = 0x11" "(0x40 :: u8) AND 3 = 0"
    by (simp_all add: cfg_msix_bytes)
  have d: "cfg_msix (getPciConfigAddress 0 2 0 0x40) = 0x00070011" "cfg_msix (getPciConfigAddress 0 2 0 0x44) = 0x3"
    by (simp_all add: cfg_msix_def getPciConfigAddress_def)
  have e: "(0x00070011 :: u16) = 0x11" by simp
  show ?thesis
    using readMsix_misread [OF bridge_ok(1) c, of "\<lparr>messageControl = 0, tableOffset = 0, pbaOffset = 0\<rparr>" 0]
    by (simp add: d e)
qed

section \<open>What the enumeration finds\<close>

text \<open>
  The state in which \<open>k\<close> more calls of \<open>mapPage\<close> succeed: the tables are a tree, three free pages are
  left for each call, and the configuration space is \<open>c\<close>.
\<close>

definition enum_ready ::
  "'p pci_world \<Rightarrow> ('p \<Rightarrow> u32 \<Rightarrow> u32) \<Rightarrow> (u32 \<Rightarrow> u32) \<Rightarrow> u64 \<Rightarrow> nat \<Rightarrow> nat \<Rightarrow> 'p mcfg_state \<Rightarrow> bool" where
  "enum_ready W cfg c off n k s \<longleftrightarrow> supply_inv off n (ms_pages s) \<and>
    tree_wf off (entry_at (vram (ms_pages s))) (pw_root W) (supply_own off n (ms_pages s)) \<and>
    3 * k \<le> supply_avail n (ms_pages s) \<and> cfg (ms_ports s) = c"

lemma map_config_ready:
  assumes "boot_lin (pw_lin W) off n" "enum_ready W cfg c off n (Suc k) s"
  shows "\<exists>s'. map_config W a s = Some s' \<and> enum_ready W cfg c off n k s' \<and> m_devices s' = m_devices s"
proof -
  have r: "supply_inv off n (ms_pages s)"
    "tree_wf off (entry_at (vram (ms_pages s))) (pw_root W) (supply_own off n (ms_pages s))"
    "3 + 3 * k \<le> supply_avail n (ms_pages s)" "cfg (ms_ports s) = c"
    using assms(2) by (auto simp: enum_ready_def)
  obtain pages where "mapPage (pw_lin W) a a (ucast KERNEL_PAGE) 0 (pw_root W) (ms_pages s) = Some pages"
    "supply_inv off n pages" "tree_wf off (entry_at (vram pages)) (pw_root W) (supply_own off n pages)"
    "supply_avail n (ms_pages s) \<le> supply_avail n pages + 3"
    by (rule mapPage_ok [OF r(1,2) _ assms(1), where v = a and pa = a and priv = "ucast KERNEL_PAGE" and attribs = 0])
      (use r(3) in auto)
  then show ?thesis using r by (auto simp: map_config_def enum_ready_def)
qed

text \<open>A loop each of whose rounds uses up to \<open>c\<close> calls and appends to the list of devices.\<close>

lemma for_up_collect:
  fixes i n :: "'a::len word"
  assumes step: "\<And>j w k. i \<le> j \<Longrightarrow> j < n \<Longrightarrow> R (k + c) w \<Longrightarrow>
      \<exists>w'. f j w = Some w' \<and> R k w' \<and> D w' = D w @ g j"
    and R: "R (k + c * (unat n - unat i)) w"
  shows "\<exists>w'. for_up f i n w = Some w' \<and> R k w' \<and> D w' = D w @ concat (map (\<lambda>j. g (of_nat j)) [unat i..<unat n])"
proof (cases "i \<le> n")
  case True
  let ?P = "\<lambda>j w'. R (k + c * (unat n - j)) w' \<and> D w' = D w @ concat (map (\<lambda>j. g (of_nat j)) [unat i..<j])"
  have "\<exists>w'. for_up f i n w = Some w' \<and> ?P (unat n) w'"
  proof (rule for_up_rule [where P = ?P, OF _ True])
    show "?P (unat i) w" using R by simp
    fix j w' assume P: "?P (unat j) w'" and j: "i \<le> j" "j < n"
    have lt: "unat i \<le> unat j" "unat j < unat n" using j by (simp_all add: word_le_nat_alt word_less_nat_alt)
    have e: "k + c * (unat n - unat j) = (k + c * (unat n - (unat j + 1))) + c"
    proof -
      have "unat n - unat j = Suc (unat n - (unat j + 1))" using lt by linarith
      then show ?thesis by simp
    qed
    obtain w'' where "f j w' = Some w''" "R (k + c * (unat n - (unat j + 1))) w''" "D w'' = D w' @ g j"
      using step [OF j, of "k + c * (unat n - (unat j + 1))" w'] P unfolding e by blast
    then show "\<exists>w''. f j w' = Some w'' \<and> ?P (unat j + 1) w''"
      using P lt by simp
  qed
  then show ?thesis by simp
next
  case False
  then have "unat n - unat i = 0" "[unat i..<unat n] = []" by (simp_all add: word_le_nat_alt)
  then show ?thesis using R False by (simp add: for_up_done)
qed

text \<open>The addresses of the functions present on a device, a bus and in an entry of the table.\<close>

definition functions_of :: "'p pci_world \<Rightarrow> u64 \<Rightarrow> u64 list" where
  "functions_of W deviceAddress =
    (if present_at W deviceAddress
     then filter (present_at W) (map (\<lambda>f. deviceAddress + push_bit 12 (of_nat f)) [0..<8]) else [])"

definition devices_of :: "'p pci_world \<Rightarrow> u64 \<Rightarrow> u64 list" where
  "devices_of W busAddress =
    (if present_at W busAddress
     then concat (map (\<lambda>d. functions_of W (busAddress + push_bit 15 (of_nat d))) [0..<32]) else [])"

definition entry_buses :: "128 word \<Rightarrow> nat list" where
  "entry_buses e = [unat (fget PciDeviceConfig ''startBus'' e)..<unat (fget PciDeviceConfig ''endBus'' e)]"

definition functions_in :: "'p pci_world \<Rightarrow> 128 word \<Rightarrow> u64 list" where
  "functions_in W e =
    concat (map (\<lambda>bus. devices_of W (ucast (fget PciDeviceConfig ''base'' e) + push_bit 20 (of_nat bus))) (entry_buses e))"

abbreviation found :: "'p mcfg_state \<Rightarrow> (u64 \<times> pci_header) list" where
  "found s \<equiv> map (\<lambda>i. (functionAddress i, headerInfo i)) (m_devices s)"

abbreviation with_header :: "'p pci_world \<Rightarrow> u64 \<Rightarrow> u64 \<times> pci_header" where
  "with_header W a \<equiv> (a, ld (pw_ecam W) a)"

text \<open>Every capability list in configuration space ends.\<close>

definition caps_end :: "(u32 \<Rightarrow> u32) \<Rightarrow> bool" where
  "caps_end c \<longleftrightarrow> (\<forall>b d f. \<exists>cs. cap_chain (cfg8 c b d f) (cfg8 c b d f 0x34) cs)"

lemma readCapabilities_returns:
  assumes cr: "config_reads P cfg latch" and "caps_end (cfg p)"
  shows "\<exists>caps p'. readCapabilities P c0 b d f p = Some (caps, p') \<and> cfg p' = cfg p"
proof -
  obtain p1 where 1: "pciConfigRead8 P b d f 0x34 p = (cfg8 (cfg p) b d f 0x34, p1)" "cfg p1 = cfg p"
    using pciConfigRead8_cfg [OF cr] by blast
  obtain cs where "cap_chain (cfg8 (cfg p1) b d f) (cfg8 (cfg p) b d f 0x34) cs"
    using assms(2) 1(2) unfolding caps_end_def by metis
  from walk_capabilities_chain [OF cr this, of c0] 1 show ?thesis
    by (auto simp: readCapabilities_def)
qed

definition enum_env ::
  "'p pci_world \<Rightarrow> ('p \<Rightarrow> u32 \<Rightarrow> u32) \<Rightarrow> ('p \<Rightarrow> u32) \<Rightarrow> (u32 \<Rightarrow> u32) \<Rightarrow> u64 \<Rightarrow> nat \<Rightarrow> bool" where
  "enum_env W cfg latch c off n \<longleftrightarrow>
    config_reads (pw_ports W) cfg latch \<and> caps_end c \<and> boot_lin (pw_lin W) off n"

lemma enumeratePciFunction_found:
  assumes env: "enum_env W cfg latch c off n" and R: "enum_ready W cfg c off n (k + 1) s"
  shows "\<exists>s'. enumeratePciFunction W dev f s = Some s' \<and> enum_ready W cfg c off n k s' \<and>
    found s' = found s @ map (with_header W) (filter (present_at W) [dev + push_bit 12 f])"
proof -
  let ?a = "dev + push_bit 12 f"
  obtain s1 where 1: "map_config W ?a s = Some s1" "enum_ready W cfg c off n k s1" "m_devices s1 = m_devices s"
    using map_config_ready [of W off n cfg c k s ?a] env R by (auto simp: enum_env_def)
  have "cfg (ms_ports s1) = c" using 1(2) by (simp add: enum_ready_def)
  then obtain caps p' where "readCapabilities (pw_ports W) (pw_stack W) (ucast (drop_bit 20 dev AND 0xFF))
      (ucast (drop_bit 15 dev AND 0x1F)) (ucast f) (ms_ports s1) = Some (caps, p')" "cfg p' = c"
    using readCapabilities_returns [of "pw_ports W" cfg latch "ms_ports s1"] env unfolding enum_env_def by metis
  then show ?thesis
    using 1 by (auto simp: enumeratePciFunction_def Let_def enum_ready_def)
qed

lemma enumeratePciDevice_found:
  assumes env: "enum_env W cfg latch c off n" and R: "enum_ready W cfg c off n (k + 9) s"
  shows "\<exists>s'. enumeratePciDevice W bus d s = Some s' \<and> enum_ready W cfg c off n k s' \<and>
    found s' = found s @ map (with_header W) (functions_of W (bus + push_bit 15 d))"
proof -
  let ?a = "bus + push_bit 15 d"
  obtain s1 where 1: "map_config W ?a s = Some s1" "enum_ready W cfg c off n (k + 8) s1" "m_devices s1 = m_devices s"
    using map_config_ready [of W off n cfg c "k + 8" s ?a] env R by (auto simp: enum_env_def add.commute)
  have R0: "enum_ready W cfg c off n k s1" using 1(2) by (auto simp: enum_ready_def)
  have "enum_ready W cfg c off n (k + 1 * (unat (8 :: u64) - unat (0 :: u64))) s1" using 1(2) by simp
  from for_up_collect [where R = "enum_ready W cfg c off n" and c = 1 and D = found and f = "enumeratePciFunction W ?a"
      and g = "\<lambda>f. map (with_header W) (filter (present_at W) [?a + push_bit 12 f])", OF _ this]
  obtain s2 where "for_up (enumeratePciFunction W ?a) 0 8 s1 = Some s2" "enum_ready W cfg c off n k s2"
    "found s2 = found s1 @ concat (map (\<lambda>j. map (with_header W) (filter (present_at W) [?a + push_bit 12 (of_nat j)])) [0..<8])"
    using enumeratePciFunction_found [OF env] by auto
  moreover have "concat (map (\<lambda>j. map (with_header W) (filter (present_at W) [?a + push_bit 12 (of_nat j)])) js) =
      map (with_header W) (filter (present_at W) (map (\<lambda>f. ?a + push_bit 12 (of_nat f)) js))" for js
    by (induction js) auto
  ultimately show ?thesis
    using 1 R0 by (auto simp: enumeratePciDevice_def functions_of_def)
qed

lemma enumeratePciBus_found:
  assumes env: "enum_env W cfg latch c off n" and R: "enum_ready W cfg c off n (k + 289) s"
  shows "\<exists>s'. enumeratePciBus W base bus s = Some s' \<and> enum_ready W cfg c off n k s' \<and>
    found s' = found s @ map (with_header W) (devices_of W (base + push_bit 20 bus))"
proof -
  let ?a = "base + push_bit 20 bus"
  obtain s1 where 1: "map_config W ?a s = Some s1" "enum_ready W cfg c off n (k + 288) s1" "m_devices s1 = m_devices s"
    using map_config_ready [of W off n cfg c "k + 288" s ?a] env R by (auto simp: enum_env_def add.commute)
  have R0: "enum_ready W cfg c off n k s1" using 1(2) by (auto simp: enum_ready_def)
  have "enum_ready W cfg c off n (k + 9 * (unat (32 :: u64) - unat (0 :: u64))) s1" using 1(2) by simp
  from for_up_collect [where R = "enum_ready W cfg c off n" and c = 9 and D = found and f = "enumeratePciDevice W ?a"
      and g = "\<lambda>d. map (with_header W) (functions_of W (?a + push_bit 15 d))", OF _ this]
  obtain s2 where "for_up (enumeratePciDevice W ?a) 0 32 s1 = Some s2" "enum_ready W cfg c off n k s2"
    "found s2 = found s1 @ concat (map (\<lambda>j. map (with_header W) (functions_of W (?a + push_bit 15 (of_nat j)))) [0..<32])"
    using enumeratePciDevice_found [OF env] by auto
  then show ?thesis
    using 1 R0 by (auto simp: enumeratePciBus_def devices_of_def map_concat comp_def)
qed

lemma enumerate_entry_found:
  assumes env: "enum_env W cfg latch c off n"
    and R: "enum_ready W cfg c off n (k + 289 * length (entry_buses e)) s"
  shows "\<exists>s'. enumerate_entry W e s = Some s' \<and> enum_ready W cfg c off n k s' \<and>
    found s' = found s @ map (with_header W) (functions_in W e)"
proof -
  let ?b = "ucast (fget PciDeviceConfig ''base'' e) :: u64"
  have u: "unat (ucast (fget PciDeviceConfig f e) :: u64) = unat (fget PciDeviceConfig f e)"
    if "f = ''startBus'' \<or> f = ''endBus''" for f
  proof -
    have "unat (fget PciDeviceConfig f e) < 2 ^ 8"
      using that bf_get_less [of 8 "fld_lo PciDeviceConfig f" e] by (auto simp: fget_def PciDeviceConfig_def)
    then show ?thesis by (simp add: unsigned_ucast_eq take_bit_nat_eq_self_iff)
  qed
  have R': "enum_ready W cfg c off n (k + 289 * (unat (ucast (fget PciDeviceConfig ''endBus'' e) :: u64) -
      unat (ucast (fget PciDeviceConfig ''startBus'' e) :: u64))) s"
    using R by (simp add: u entry_buses_def)
  from for_up_collect [where R = "enum_ready W cfg c off n" and c = 289 and D = found and f = "enumeratePciBus W ?b"
      and g = "\<lambda>b. map (with_header W) (devices_of W (?b + push_bit 20 b))", OF _ R']
  obtain s2 where "enumerate_entry W e s = Some s2" "enum_ready W cfg c off n k s2"
    "found s2 = found s @ concat (map (\<lambda>j. map (with_header W) (devices_of W (?b + push_bit 20 (of_nat j)))) (entry_buses e))"
    using enumeratePciBus_found [OF env] by (auto simp: enumerate_entry_def u entry_buses_def)
  then show ?thesis by (auto simp: functions_in_def map_concat comp_def)
qed

lemma enumerate_entries_found:
  assumes env: "enum_env W cfg latch c off n"
  shows "enum_ready W cfg c off n (k + 289 * sum_list (map (length \<circ> entry_buses) es)) s \<Longrightarrow>
    \<exists>s'. enumerate_entries W es s = Some s' \<and> enum_ready W cfg c off n k s' \<and>
      found s' = found s @ map (with_header W) (concat (map (functions_in W) es))"
proof (induction es arbitrary: s)
  case (Cons e es)
  have "enum_ready W cfg c off n ((k + 289 * sum_list (map (length \<circ> entry_buses) es)) + 289 * length (entry_buses e)) s"
    using Cons.prems by (simp add: algebra_simps comp_def)
  from enumerate_entry_found [OF env this] Cons.IH show ?case by fastforce
qed simp


text \<open>
  A machine with one function, a SATA controller at bus 0, device 0, in a table whose only entry covers
  bus 0: every other byte of the mapped configuration space reads as 0xff.
\<close>

definition ecam1 :: mem where
  "ecam1 x = (if x = 0xb0000002 then 0x22 else if x = 0xb0000003 then 0x29 else 0xff)"

definition tables1 :: mem where
  "tables1 = st (0xb0000000 + 0x10000000000000000000000 :: 128 word) 0x102c (store32 60 0x1004 (\<lambda>_. 0))"

definition world1 :: "(u32 \<times> (u32 \<Rightarrow> u32)) pci_world" where
  "world1 = \<lparr>pw_ports = bridge, pw_ecam = ecam1, pw_tables = tables1, pw_stack = 0, pw_lin = high_lin,
     pw_root = 0xffff800000000000\<rparr>"

definition mcfg1 :: "(u32 \<times> (u32 \<Rightarrow> u32)) mcfg_state" where
  "mcfg1 = \<lparr>ms_pages = pfa_zero 1024, ms_ports = (0, \<lambda>_. 0), m_devices = []\<rparr>"

lemma deviceID_bytes:
  "hdr_field ''deviceID'' (ld m a) = ucast (m (a + 2)) OR push_bit 8 (ucast (m (a + 3)))"
proof (rule bit_eqI)
  fix k :: nat
  have f: "fld_lo PciDeviceHeader ''deviceID'' = 16" "fld_wd PciDeviceHeader ''deviceID'' = 16"
    by (simp_all add: PciDeviceHeader_def)
  have l: "bit (hdr_field ''deviceID'' (ld m a)) k \<longleftrightarrow> k < 16 \<and> bit (m (a + of_nat ((16 + k) div 8))) ((16 + k) mod 8)"
    by (simp only: fget_def f bit_bf_get ld_def bit_load_bytes) auto
  have d: "k < 8 \<Longrightarrow> (16 + k) div 8 = 2 \<and> (16 + k) mod 8 = k"
    "8 \<le> k \<Longrightarrow> k < 16 \<Longrightarrow> (16 + k) div 8 = 3 \<and> (16 + k) mod 8 = k - 8"
    by presburger+
  consider "k < 8" | "8 \<le> k" "k < 16" | "16 \<le> k" by linarith
  then show "bit (hdr_field ''deviceID'' (ld m a)) k = bit (ucast (m (a + 2)) OR push_bit 8 (ucast (m (a + 3))) :: pci_header) k"
  proof cases
    case 1
    then show ?thesis unfolding l using d(1) by (simp add: bit_or_iff bit_push_bit_iff bit_ucast_iff)
  next
    case 2
    then show ?thesis
      unfolding l using d(2) by (auto simp: bit_or_iff bit_push_bit_iff bit_ucast_iff dest: bit_imp_le_length)
  next
    case 3
    then show ?thesis unfolding l by (auto simp: bit_or_iff bit_push_bit_iff bit_ucast_iff dest: bit_imp_le_length)
  qed
qed

lemma present1: "unat a mod 4096 = 0 \<Longrightarrow> present_at world1 a \<longleftrightarrow> a = 0xb0000000"
proof -
  assume al: "unat a mod 4096 = 0"
  show ?thesis
  proof (cases "a = 0xb0000000")
    case True
    then show ?thesis by (simp add: present_at_def deviceID_bytes world1_def ecam1_def)
  next
    case False
    have "a \<noteq> 0xb0000001" "a \<noteq> 0xafffffff" using al by auto
    then have "a + 2 \<noteq> 0xb0000002" "a + 2 \<noteq> 0xb0000003" "a + 3 \<noteq> 0xb0000002" "a + 3 \<noteq> 0xb0000003"
      using False by (auto simp: eq_diff_eq [symmetric])
    then show ?thesis using False by (simp add: present_at_def deviceID_bytes world1_def ecam1_def)
  qed
qed

lemma present1_at:
  assumes "d < 32" "f < 8"
  shows "present_at world1 (0xb0000000 + push_bit 15 (of_nat d) + push_bit 12 (of_nat f)) \<longleftrightarrow> d = 0 \<and> f = 0"
proof -
  have e: "0xb0000000 + push_bit 15 (of_nat d) + push_bit 12 (of_nat f) = (of_nat (0xb0000000 + d * 32768 + f * 4096) :: u64)"
    by (simp add: push_bit_eq_mult)
  have u: "unat (of_nat (0xb0000000 + d * 32768 + f * 4096) :: u64) = 0xb0000000 + d * 32768 + f * 4096"
    by (rule unat64_of_nat) (use assms in simp)
  have "0xb0000000 + d * 32768 + f * 4096 = (0xb0000 + d * 8 + f) * 4096" by simp
  then have "(0xb0000000 + d * 32768 + f * 4096) mod 4096 = 0" by (metis mod_mult_self2_is_0)
  then have "present_at world1 (of_nat (0xb0000000 + d * 32768 + f * 4096)) \<longleftrightarrow>
      of_nat (0xb0000000 + d * 32768 + f * 4096) = (0xb0000000 :: u64)"
    by (intro present1) (simp only: u)
  also have "\<dots> \<longleftrightarrow> unat (of_nat (0xb0000000 + d * 32768 + f * 4096) :: u64) = 0xb0000000"
    by (simp only: word_unat_eq_iff) simp
  also have "\<dots> \<longleftrightarrow> d = 0 \<and> f = 0" unfolding u by simp
  finally show ?thesis unfolding e .
qed

lemma filter_head:
  assumes "0 < n" "g 0 = x" "Q x" "\<And>i. 0 < i \<Longrightarrow> i < n \<Longrightarrow> \<not> Q (g i)"
  shows "filter Q (map g [0..<n]) = [x]"
proof -
  have "[0..<n] = 0 # [Suc 0..<n]" using assms(1) by (rule upt_conv_Cons)
  moreover have "filter Q (map g [Suc 0..<n]) = []" using assms(4) by (auto simp: filter_empty_conv)
  ultimately show ?thesis using assms(2,3) by simp
qed

lemma functions1_of:
  assumes "d < 32"
  shows "functions_of world1 (0xb0000000 + push_bit 15 (of_nat d)) = (if d = 0 then [0xb0000000] else [])"
proof (cases "d = 0")
  case True
  have "filter (present_at world1) (map (\<lambda>f. 0xb0000000 + push_bit 12 (of_nat f)) [0..<8]) = [0xb0000000]"
    by (rule filter_head) (use present1_at [of 0] present1 in simp_all)
  then show ?thesis using True present1_at [of 0 0] by (simp add: functions_of_def)
next
  case False
  then show ?thesis using present1_at [OF assms, of 0] by (simp add: functions_of_def)
qed

lemma functions1: "devices_of world1 0xb0000000 = [0xb0000000]"
proof -
  have "[0..<32] = 0 # [Suc 0..<32]" by (rule upt_conv_Cons) simp
  moreover have "concat (map (\<lambda>d. functions_of world1 (0xb0000000 + push_bit 15 (of_nat d))) [Suc 0..<32]) = []"
    using functions1_of by (auto simp: concat_eq_Nil_conv)
  moreover have "functions_of world1 0xb0000000 = [0xb0000000]" using functions1_of [of 0] by simp
  moreover have "present_at world1 0xb0000000" using present1_at [of 0 0] by simp
  ultimately show ?thesis by (simp add: devices_of_def)
qed

lemma entry1:
  "mcfg_entries tables1 0x1000 = 1" "mcfg_entry tables1 0x1000 0 = 0xb0000000 + 0x10000000000000000000000"
proof -
  have "load32 tables1 0x1004 = load32 (store32 60 0x1004 (\<lambda>_. 0)) 0x1004"
    unfolding load32_def
  proof (rule load_bytes_cong)
    fix i :: nat assume "i < 4"
    then have "i = 0 \<or> i = 1 \<or> i = 2 \<or> i = 3" by auto
    then show "tables1 (0x1004 + of_nat i) = store32 60 0x1004 (\<lambda>_. 0) (0x1004 + of_nat i)"
      by (auto simp: tables1_def st_apply)
  qed
  then show "mcfg_entries tables1 0x1000 = 1"
    by (simp add: mcfg_entries_def load32_store32_same)
  show "mcfg_entry tables1 0x1000 0 = 0xb0000000 + 0x10000000000000000000000"
    by (simp add: mcfg_entry_def tables1_def ld_st_same)
qed

lemma entry1_fields:
  fixes e :: "128 word"
  assumes "e = 0xb0000000 + 0x10000000000000000000000"
  shows "fget PciDeviceConfig ''base'' e = 0xb0000000" "fget PciDeviceConfig ''startBus'' e = 0"
    "fget PciDeviceConfig ''endBus'' e = 1"
  by (simp_all add: assms fget_def PciDeviceConfig_def bf_get_def)


end
