(* ===== verification/Machine.thy ===== *)
theory Machine
  imports Ports BitStruct Paging Sched
begin

text \<open>
  The processor and the board around it: model-specific registers and the system-call interface
  (\<^verbatim>\<open>arch/x86/msr.cpp\<close>), control registers (\<^verbatim>\<open>x86_cpu_control.cpp\<close>), the page attribute table
  (\<^verbatim>\<open>pat.cpp\<close>) and processor identification (\<^verbatim>\<open>cpuid.h\<close>).

  What the instructions and the devices do is a parameter, the record \<open>board\<close>: reads and writes
  of device registers at physical addresses, model-specific registers, the time-stamp counter and
  \<^verbatim>\<open>cpuid\<close>, each with the executing cpu. A virtual address reaches a device through the page tables.
\<close>

section \<open>The board\<close>

record 'd board =
  bus_read32 :: "int \<Rightarrow> u64 \<Rightarrow> 'd \<Rightarrow> u32 \<times> 'd"
  bus_write32 :: "int \<Rightarrow> u64 \<Rightarrow> u32 \<Rightarrow> 'd \<Rightarrow> 'd"
  bus_read64 :: "int \<Rightarrow> u64 \<Rightarrow> 'd \<Rightarrow> u64 \<times> 'd"
  bus_write64 :: "int \<Rightarrow> u64 \<Rightarrow> u64 \<Rightarrow> 'd \<Rightarrow> 'd"
  cpu_rdmsr :: "int \<Rightarrow> u32 \<Rightarrow> 'd \<Rightarrow> (u32 \<times> u32) \<times> 'd"
  cpu_wrmsr :: "int \<Rightarrow> u32 \<Rightarrow> u32 \<Rightarrow> u32 \<Rightarrow> 'd \<Rightarrow> 'd"
  cpu_rdtsc :: "int \<Rightarrow> 'd \<Rightarrow> (u32 \<times> u32) \<times> 'd"
  cpu_cpuid :: "u32 \<Rightarrow> u32 \<times> u32 \<times> u32 \<times> u32"
  cpu_wbinvd :: "int \<Rightarrow> 'd \<Rightarrow> 'd"
  io_ports :: "'d ports"
  linear :: "u64 \<Rightarrow> u64"

record ApicTimer =
  m_irqno :: u8
  m_divideConfig :: u32
  m_intervalValue :: u32

text \<open>
  The kernel with its scheduler, and the globals of the drivers below. An \<^verbatim>\<open>Apic\<close> object has no
  members: \<open>s_lapics\<close> tells whether the cpu's pointer is set. \<open>g_precisionTimerInstance\<close> is the
  \<open>m_base\<close> of the timer the pointer refers to.
\<close>

record 'd machine = sched +
  device :: 'd
  cr0_reg :: u64
  cr4_reg :: u64
  g_lapicPhysicalBase :: u64
  g_lapicVirtualBase :: u64
  s_lapics :: "int \<Rightarrow> bool"
  g_apicTimer :: ApicTimer
  g_precisionTimerInstance :: "u64 option"
  g_hardwareFrequency :: u64
  s_apicTicksCalibratedFrequency :: u64
  s_tscTicksCalibratedFrequency :: u64

text \<open>An operation of the scheduler on the whole state.\<close>

definition on_sched :: "(sched \<Rightarrow> sched) \<Rightarrow> 'd machine \<Rightarrow> 'd machine" where
  "on_sched f k = sched.extend (f (sched.truncate k)) (sched.more k)"

text \<open>\<open>RUN_ELEVATED\<close> around a body that may fault and assigns a local variable.\<close>

definition run_elevated ::
  "('a kernel_scheme \<Rightarrow> ('r \<times> 'a kernel_scheme) option) \<Rightarrow> 'a kernel_scheme \<Rightarrow> ('r \<times> 'a kernel_scheme) option" where
  "run_elevated code k =
    (let initiallyElevated = kcheck_elevated k;
         k = (if \<not> initiallyElevated then kelevate k else k)
     in do {
       (r, k) \<leftarrow> code k;
       Some (r, if \<not> initiallyElevated then klower k else k)
     })"

lemma run_elevated_total: "run_elevated (\<lambda>k. Some ((), code k)) k = Some ((), RUN_ELEVATED code k)"
  by (simp add: run_elevated_def RUN_ELEVATED_def Let_def)

text \<open>The physical address a virtual one stands for; \<open>None\<close> when the page is not present.\<close>

definition phys_of :: "'d machine \<Rightarrow> u64 \<Rightarrow> u64 option" where
  "phys_of k a =
    map_option (\<lambda>e. push_bit 12 (pte_pageFrameNumber e) + (a AND 0xfff)) (pte_of (page_frames k) (g_kernelRootPageTable k) a)"

definition reg_read32 :: "'d board \<Rightarrow> u64 \<Rightarrow> 'd machine \<Rightarrow> (u32 \<times> 'd machine) option" where
  "reg_read32 B a k = do {
     p \<leftarrow> phys_of k a;
     let (v, d) = bus_read32 B (this_cpu k) p (device k);
     Some (v, k\<lparr>device := d\<rparr>)
   }"

definition reg_write32 :: "'d board \<Rightarrow> u64 \<Rightarrow> u32 \<Rightarrow> 'd machine \<Rightarrow> 'd machine option" where
  "reg_write32 B a v k = do {
     p \<leftarrow> phys_of k a;
     Some (k\<lparr>device := bus_write32 B (this_cpu k) p v (device k)\<rparr>)
   }"

definition reg_read64 :: "'d board \<Rightarrow> u64 \<Rightarrow> 'd machine \<Rightarrow> (u64 \<times> 'd machine) option" where
  "reg_read64 B a k = do {
     p \<leftarrow> phys_of k a;
     let (v, d) = bus_read64 B (this_cpu k) p (device k);
     Some (v, k\<lparr>device := d\<rparr>)
   }"

definition reg_write64 :: "'d board \<Rightarrow> u64 \<Rightarrow> u64 \<Rightarrow> 'd machine \<Rightarrow> 'd machine option" where
  "reg_write64 B a v k = do {
     p \<leftarrow> phys_of k a;
     Some (k\<lparr>device := bus_write64 B (this_cpu k) p v (device k)\<rparr>)
   }"

text \<open>A fresh page whose address is made to stand for the device page at \<open>pa\<close>.\<close>

definition map_device ::
  "'d board \<Rightarrow> u64 \<Rightarrow> u64 \<Rightarrow> u8 \<Rightarrow> 'd machine \<Rightarrow> (u64 \<times> 'd machine) option" where
  "map_device B pa priv attribs k = do {
     (va, f) \<leftarrow> zallocPage (page_frames k);
     f \<leftarrow> mapPage (linear B) va pa (ucast priv) attribs (g_kernelRootPageTable k) f;
     Some (va, k\<lparr>page_frames := f\<rparr>)
   }"

section \<open>Model-specific registers\<close>

definition ALIGN_DOWN :: "u64 \<Rightarrow> u64 \<Rightarrow> u64" where
  "ALIGN_DOWN val alignment = val AND NOT (alignment - 1)"

definition ALIGN_UP :: "u64 \<Rightarrow> u64 \<Rightarrow> u64" where
  "ALIGN_UP val alignment = (val + alignment - 1) AND NOT (alignment - 1)"

definition isPowerOf2 :: "u64 \<Rightarrow> bool" where
  "isPowerOf2 x \<longleftrightarrow> x \<noteq> 0 \<and> x AND (x - 1) = 0"

definition readMsr :: "'d board \<Rightarrow> u32 \<Rightarrow> 'd machine \<Rightarrow> u64 \<times> 'd machine" where
  "readMsr B msr k =
    (let ((low, high), d) = cpu_rdmsr B (this_cpu k) msr (device k)
     in (ucast low OR push_bit 32 (ucast high), k\<lparr>device := d\<rparr>))"

definition writeMsr :: "'d board \<Rightarrow> u32 \<Rightarrow> u64 \<Rightarrow> 'd machine \<Rightarrow> 'd machine" where
  "writeMsr B msr val k =
    (let low = ucast (val AND 0xFFFFFFFF); high = ucast (drop_bit 32 val)
     in k\<lparr>device := cpu_wrmsr B (this_cpu k) msr low high (device k)\<rparr>)"

definition IA32_EFER :: u32 where "IA32_EFER = 0xC0000080"
definition IA32_STAR :: u32 where "IA32_STAR = 0xC0000081"
definition IA32_LSTAR :: u32 where "IA32_LSTAR = 0xC0000082"
definition IA32_FMASK :: u32 where "IA32_FMASK = 0xC0000084"
definition IA32_GS_BASE :: u32 where "IA32_GS_BASE = 0xC0000101"
definition IA32_KERNEL_GS_BASE :: u32 where "IA32_KERNEL_GS_BASE = 0xC0000102"
definition IA32_PAT_MSR :: u32 where "IA32_PAT_MSR = 0x277"
definition IA32_APIC_BASE_MSR :: u32 where "IA32_APIC_BASE_MSR = 0x1B"

definition KERNEL_CS :: u64 where "KERNEL_CS = 0x08"
definition TSS_PT1_SELECTOR :: u64 where "TSS_PT1_SELECTOR = 0x18"
definition TSS_PT2_SELECTOR :: u64 where "TSS_PT2_SELECTOR = 0x20"

text \<open>\<open>entry64\<close> is the address of the assembly entry point.\<close>

definition starRegValue :: u64 where
  "starRegValue = push_bit 48 (TSS_PT2_SELECTOR OR 3) OR push_bit 32 KERNEL_CS"

definition enableSyscallInterface :: "'d board \<Rightarrow> u64 \<Rightarrow> 'd machine \<Rightarrow> 'd machine" where
  "enableSyscallInterface B entry64 k =
    (let k = writeMsr B IA32_STAR starRegValue k;
         k = writeMsr B IA32_LSTAR entry64 k;
         k = writeMsr B IA32_FMASK 0x200 k;
         (efer, k) = readMsr B IA32_EFER k
     in writeMsr B IA32_EFER (efer OR 0x1) k)"

section \<open>Control registers and the page attribute table\<close>

definition x86_cpu_cache_disable :: "'d machine \<Rightarrow> u64 \<times> 'd machine" where
  "x86_cpu_cache_disable k =
    (let cr0 = cr0_reg k; old_cr0 = cr0;
         cr0 = cr0 OR push_bit 30 1;
         cr0 = cr0 AND NOT (push_bit 29 1)
     in (old_cr0, k\<lparr>cr0_reg := cr0\<rparr>))"

definition x86_cpu_set_cr0 :: "u64 \<Rightarrow> 'd machine \<Rightarrow> 'd machine" where
  "x86_cpu_set_cr0 old_cr0 k = k\<lparr>cr0_reg := old_cr0\<rparr>"

definition x86_cpu_cache_flush :: "'d board \<Rightarrow> 'd machine \<Rightarrow> 'd machine" where
  "x86_cpu_cache_flush B k = k\<lparr>device := cpu_wbinvd B (this_cpu k) (device k)\<rparr>"

definition x86_cpu_pge_clear :: "'d machine \<Rightarrow> 'd machine" where
  "x86_cpu_pge_clear k = k\<lparr>cr4_reg := cr4_reg k AND NOT (push_bit 7 1)\<rparr>"

definition x86_cpu_pge_enable :: "'d machine \<Rightarrow> 'd machine" where
  "x86_cpu_pge_enable k = k\<lparr>cr4_reg := cr4_reg k OR push_bit 7 1\<rparr>"

definition pat_t :: layout where
  "pat_t = concat (map (\<lambda>i. [(''pa'' @ [i], 3), (''rsvd'' @ [i], 5)]) ''01234567'')"

definition patAttribToString :: "u8 \<Rightarrow> string" where
  "patAttribToString t =
    (if t = 0 then ''Uncacheable'' else if t = 1 then ''Write Combining'' else if t = 4 then ''Write Through''
     else if t = 5 then ''Write Protected'' else if t = 6 then ''Write Back'' else if t = 7 then ''Uncacheable Minus''
     else ''Unknown'')"

definition readPatMsr :: "'d board \<Rightarrow> 'd machine \<Rightarrow> u64 \<times> 'd machine" where
  "readPatMsr B k = readMsr B IA32_PAT_MSR k"

definition writePatMsr :: "'d board \<Rightarrow> u64 \<Rightarrow> 'd machine \<Rightarrow> 'd machine" where
  "writePatMsr B pat k = writeMsr B IA32_PAT_MSR pat k"

definition ksetupPatOnKernelEntry :: "'d board \<Rightarrow> 'd machine \<Rightarrow> 'd machine" where
  "ksetupPatOnKernelEntry B k =
    (let (pat, k) = readPatMsr B k;
         k = k\<lparr>interrupts_on := False\<rparr>;
         (old_cr0, k) = x86_cpu_cache_disable k;
         k = x86_cpu_cache_flush B k;
         k = x86_cpu_pge_clear k;
         pat = fset pat_t ''pa4'' 0x01 pat;
         pat = fset pat_t ''pa2'' 0x00 pat;
         k = writePatMsr B pat k;
         k = x86_cpu_cache_flush B k;
         k = x86_cpu_pge_clear k;
         k = x86_cpu_set_cr0 old_cr0 k;
         k = x86_cpu_pge_enable k
     in k\<lparr>interrupts_on := True\<rparr>)"

section \<open>Processor identification\<close>

text \<open>\<open>eax\<close> and \<open>edx\<close> of a leaf.\<close>

definition readCpuid :: "'d board \<Rightarrow> u32 \<Rightarrow> u32 \<times> u32" where
  "readCpuid B code = (let (eax, ebx, ecx, edx) = cpu_cpuid B code in (eax, edx))"

definition cpuid_isLa57Supported :: "'d board \<Rightarrow> bool" where
  "cpuid_isLa57Supported B \<longleftrightarrow> fst (readCpuid B 7) AND push_bit 16 1 \<noteq> 0"

definition cpuid_readVendorId :: "'d board \<Rightarrow> u64 \<Rightarrow> mem \<Rightarrow> mem" where
  "cpuid_readVendorId B vendor m =
    (let (eax, ebx, ecx, edx) = cpu_cpuid B 0;
         m = store32 ebx vendor m;
         m = store32 edx (vendor + 4) m;
         m = store32 ecx (vendor + 8) m
     in m(vendor + 12 := 0))"

definition cpuid_isSSESupported :: "'d board \<Rightarrow> bool" where
  "cpuid_isSSESupported B \<longleftrightarrow> snd (readCpuid B 1) AND 0x02000000 \<noteq> 0"

definition cpuid_isSSE2Supported :: "'d board \<Rightarrow> bool" where
  "cpuid_isSSE2Supported B \<longleftrightarrow> snd (readCpuid B 1) AND 0x04000000 \<noteq> 0"

definition cpuid_isSSE3Supported :: "'d board \<Rightarrow> bool" where
  "cpuid_isSSE3Supported B \<longleftrightarrow> fst (readCpuid B 1) AND 0x00000001 \<noteq> 0"

definition cpuid_isAVXSupported :: "'d board \<Rightarrow> bool" where
  "cpuid_isAVXSupported B \<longleftrightarrow> fst (readCpuid B 1) AND 0x10000000 \<noteq> 0"

definition cpuid_isFMASupported :: "'d board \<Rightarrow> bool" where
  "cpuid_isFMASupported B \<longleftrightarrow> fst (readCpuid B 1) AND 0x00001000 \<noteq> 0"

definition cpuid_isPATSupported :: "'d board \<Rightarrow> bool" where
  "cpuid_isPATSupported B \<longleftrightarrow> snd (readCpuid B 1) AND push_bit 16 1 \<noteq> 0"

section \<open>Addresses of one page\<close>

lemma unat_drop_bit_64: "unat (drop_bit k v :: u64) = unat v div 2 ^ k"
  using unsigned_drop_bit_eq [of k v, where 'a = nat] unat_lt64 [of v]
  by (simp add: drop_bit_eq_div take_bit_nat_eq_self)

lemma vidx_nat: "vidx k v = unat v div 2 ^ k mod 512"
proof -
  have "(drop_bit k v AND 0x1ff) = take_bit 9 (drop_bit k v)" by (simp add: take_bit_eq_mask mask_eq_exp_minus_1)
  then show ?thesis by (simp add: vidx_def unsigned_take_bit_eq take_bit_nat_def unat_drop_bit_64)
qed

lemma page_index: "unat v div 4096 mod 2 ^ 36 =
  vidx 12 v + 512 * (vidx 21 v + 512 * (vidx 30 v + 512 * vidx 39 v))"
proof -
  let ?n = "unat v"
  have "?n div 2 ^ 12 mod (512 * 2 ^ 27) = 512 * (?n div 2 ^ 21 mod 2 ^ 27) + ?n div 2 ^ 12 mod 512"
    by (simp only: mod_mult2_eq div_mult2_eq [symmetric]) (simp add: div_mult2_eq [symmetric])
  moreover have "?n div 2 ^ 21 mod (512 * 2 ^ 18) = 512 * (?n div 2 ^ 30 mod 2 ^ 18) + ?n div 2 ^ 21 mod 512"
    by (simp only: mod_mult2_eq div_mult2_eq [symmetric]) (simp add: div_mult2_eq [symmetric])
  moreover have "?n div 2 ^ 30 mod (512 * 2 ^ 9) = 512 * (?n div 2 ^ 39 mod 2 ^ 9) + ?n div 2 ^ 30 mod 512"
    by (simp only: mod_mult2_eq div_mult2_eq [symmetric]) (simp add: div_mult2_eq [symmetric])
  ultimately show ?thesis by (simp add: vidx_nat)
qed

lemma aligned_offset:
  fixes va :: u64
  assumes "unat va mod 4096 = 0" "i < 4096"
  shows "unat (va + of_nat i) = unat va + i" "unat (va + of_nat i) div 4096 = unat va div 4096"
    "(va + of_nat i) AND 0xfff = of_nat i"
proof -
  have i: "unat (of_nat i :: u64) = i" using assms(2) by (intro unat64_of_nat) simp
  have d: "unat va = 4096 * (unat va div 4096)" using assms(1) by auto
  have "unat va div 4096 < 4503599627370496" using unat_lt64 [of va] by (intro div_less_iff_less_mult [THEN iffD2]) simp_all
  with d have "unat va + i < 18446744073709551616" using assms(2) by linarith
  then show u: "unat (va + of_nat i) = unat va + i" using i by (subst unat_add_no_wrap) simp_all
  show "unat (va + of_nat i) div 4096 = unat va div 4096"
    unfolding u using d assms(2) by linarith
  have "(va + of_nat i) AND 0xfff = take_bit 12 (va + of_nat i)" by (simp add: take_bit_eq_mask mask_eq_exp_minus_1)
  then have "unat ((va + of_nat i) AND 0xfff) = (unat va + i) mod 4096"
    using u by (simp add: unsigned_take_bit_eq take_bit_nat_def)
  also have "\<dots> = i" using d assms(2) by (metis mod_add_left_eq assms(1) add_0 mod_less)
  finally show "(va + of_nat i) AND 0xfff = of_nat i" using i by (simp add: word_unat_eq_iff)
qed

lemma indices_offset:
  assumes "unat va mod 4096 = 0" "i < 4096"
  shows "vidx 12 (va + of_nat i) = vidx 12 va" "vidx 21 (va + of_nat i) = vidx 21 va"
    "vidx 30 (va + of_nat i) = vidx 30 va" "vidx 39 (va + of_nat i) = vidx 39 va"
proof -
  have e: "n div 2 ^ 21 = n div 4096 div 512" "n div 2 ^ 30 = n div 4096 div 2 ^ 18" "n div 2 ^ 39 = n div 4096 div 2 ^ 27"
    for n :: nat by (simp_all add: div_mult2_eq [symmetric])
  show "vidx 12 (va + of_nat i) = vidx 12 va" "vidx 21 (va + of_nat i) = vidx 21 va"
    "vidx 30 (va + of_nat i) = vidx 30 va" "vidx 39 (va + of_nat i) = vidx 39 va"
    unfolding vidx_nat e using aligned_offset(2) [OF assms] by simp_all
qed

text \<open>Pages of the linear region differ in their indices.\<close>

lemma linear_pages_differ:
  assumes "i < 2 ^ 36" "j < 2 ^ 36" "unat off mod 4096 = 0"
    and "getPageTableIndicesFromVirtualAddress (pg i + off) = getPageTableIndicesFromVirtualAddress (pg j + off)"
  shows "i = j"
proof -
  have small: "unat (of_nat (vidx k w) :: u64) = vidx k w" for k w
    using vidx_less [of k w] by (intro unat64_of_nat) simp
  have v: "vidx 12 (pg i + off) = vidx 12 (pg j + off)" "vidx 21 (pg i + off) = vidx 21 (pg j + off)"
    "vidx 30 (pg i + off) = vidx 30 (pg j + off)" "vidx 39 (pg i + off) = vidx 39 (pg j + off)"
    using assms(4) small by (simp_all add: indices_vidx word_unat_eq_iff)
  obtain q where q: "unat off = 4096 * q" using assms(3) by (metis mod_0_imp_dvd dvd_def)
  have u: "unat (pg k + off) div 4096 mod 2 ^ 36 = (k + q) mod 2 ^ 36" if "k < 2 ^ 36" for k
  proof -
    have "unat (pg k + off) = (k * 4096 + 4096 * q) mod 2 ^ 64"
      using that q by (simp add: unat_word_ariths unat_pg)
    also have "\<dots> = 4096 * ((k + q) mod 2 ^ 52)"
      using mult_mod_right [of 4096 "k + q" "2 ^ 52"] by (simp add: add_mult_distrib2 mult.commute)
    finally have "unat (pg k + off) div 4096 = (k + q) mod 2 ^ 52" by simp
    moreover have "(k + q) mod 2 ^ 52 mod 2 ^ 36 = (k + q) mod 2 ^ 36"
      by (rule mod_mod_cancel) (simp add: le_imp_power_dvd)
    ultimately show ?thesis by (simp only:)
  qed
  have "(i + q) mod 2 ^ 36 = (j + q) mod 2 ^ 36"
    unfolding u [OF assms(1), symmetric] u [OF assms(2), symmetric] page_index v ..
  then have "int ((i + q) mod 2 ^ 36) = int ((j + q) mod 2 ^ 36)" by (simp only:)
  then have "(2 ^ 36 :: int) dvd int i - int j"
    by (simp add: of_nat_mod mod_eq_dvd_iff)
  moreover have "\<bar>int i - int j\<bar> < 2 ^ 36" using assms(1,2) by auto
  ultimately show ?thesis using dvd_imp_le_int [of "int i - int j" "2 ^ 36"] by fastforce
qed

section \<open>Mapped devices\<close>

text \<open>
  The state in which \<open>c\<close> more pages can be had: page frames and tables are well-formed and the
  linear region starts at a page.
\<close>

definition frames_ok :: "'d board \<Rightarrow> u64 \<Rightarrow> nat \<Rightarrow> nat \<Rightarrow> 'd machine \<Rightarrow> bool" where
  "frames_ok B off n c k \<longleftrightarrow> supply_inv off n (page_frames k) \<and> unat off mod 4096 = 0 \<and>
    tree_wf off (entry_at (vram (page_frames k))) (g_kernelRootPageTable k) (supply_own off n (page_frames k)) \<and>
    boot_lin (linear B) off n \<and> c \<le> supply_avail n (page_frames k)"

definition maps_page :: "'d machine \<Rightarrow> u64 \<Rightarrow> u64 \<Rightarrow> bool" where
  "maps_page k va pa \<longleftrightarrow> unat va mod 4096 = 0 \<and> (\<forall>i < 4096. phys_of k (va + of_nat i) = Some (pa + of_nat i))"

lemma push_frame:
  assumes "unat pa mod 4096 = 0" "unat pa < 2 ^ 48"
  shows "push_bit 12 (take_bit 36 (drop_bit 12 pa)) = (pa :: u64)"
proof -
  have "unat pa div 4096 < 2 ^ 36" using assms(2) by (intro div_less_iff_less_mult [THEN iffD2]) simp_all
  then have t: "unat (take_bit 36 (drop_bit 12 pa)) = unat pa div 4096"
    by (simp add: unsigned_take_bit_eq take_bit_nat_def unat_drop_bit_64)
  have "unat (push_bit 12 (take_bit 36 (drop_bit 12 pa))) = unat pa"
    using t assms by (simp add: push_bit_eq_mult unat_word_ariths) auto
  then show ?thesis by (simp add: word_unat_eq_iff)
qed

lemma own_page:
  assumes "supply_inv off n f" "unat off mod 4096 = 0" "a \<in> supply_own off n f"
  obtains j where "j < 2 ^ 36" "a = pg j + off" "unat a mod 4096 = 0"
proof -
  obtain j where a: "j < n" "a = pg j + off" using assms(3) by (auto simp: supply_own_def)
  have "n < 2 ^ 36" using assms(1) by (simp only: supply_inv_def)
  with a(1) have j: "j < 2 ^ 36" by (rule less_trans)
  have "unat a = (j * 4096 + unat off) mod 2 ^ 64"
    using j unfolding a(2) by (simp add: unat_word_ariths unat_pg)
  then have "unat a mod 4096 = (j * 4096 + unat off) mod 2 ^ 64 mod 4096" by (rule arg_cong)
  also have "\<dots> = (j * 4096 + unat off) mod 4096" by (rule mod_mod_cancel) simp
  also have "\<dots> = 0" using assms(2) by (simp only: mod_mult_self3)
  finally show thesis by (rule that [OF j a(2)])
qed

lemma pte_of_offset:
  assumes "unat va mod 4096 = 0" "i < 4096"
  shows "pte_of f r (va + of_nat i) = pte_of f r va"
  by (simp add: pte_of_def vpath_def indices_offset [OF assms])

lemma maps_page_iff:
  assumes "unat va mod 4096 = 0"
  shows "maps_page k va pa \<longleftrightarrow>
    (\<exists>e. pte_of (page_frames k) (g_kernelRootPageTable k) va = Some e \<and> push_bit 12 (pte_pageFrameNumber e) = pa)"
proof -
  have "phys_of k (va + of_nat i) = map_option (\<lambda>e. push_bit 12 (pte_pageFrameNumber e) + of_nat i)
      (pte_of (page_frames k) (g_kernelRootPageTable k) va)" if "i < 4096" for i
    using that by (simp add: phys_of_def pte_of_offset [OF assms] aligned_offset(3) [OF assms])
  note p = this and p0 = this [of 0]
  show ?thesis
  proof
    assume m: "maps_page k va pa"
    have "(0 :: nat) < 4096" by simp
    with m have "phys_of k (va + of_nat 0) = Some (pa + of_nat 0)" unfolding maps_page_def by blast
    then show "\<exists>e. pte_of (page_frames k) (g_kernelRootPageTable k) va = Some e \<and> push_bit 12 (pte_pageFrameNumber e) = pa"
      using p0 by (cases "pte_of (page_frames k) (g_kernelRootPageTable k) va") simp_all
  next
    assume "\<exists>e. pte_of (page_frames k) (g_kernelRootPageTable k) va = Some e \<and> push_bit 12 (pte_pageFrameNumber e) = pa"
    then show "maps_page k va pa" using p assms by (auto simp: maps_page_def)
  qed
qed

lemma map_device_ok:
  assumes fo: "frames_ok B off n (c + 4) k" and pa: "unat pa mod 4096 = 0" "unat pa < 2 ^ 48"
  obtains va f where "map_device B pa priv attribs k = Some (va, k\<lparr>page_frames := f\<rparr>)"
    "frames_ok B off n c (k\<lparr>page_frames := f\<rparr>)" "va \<notin> supply_own off n (page_frames k)"
    "insert va (supply_own off n (page_frames k)) \<subseteq> supply_own off n f" "maps_page (k\<lparr>page_frames := f\<rparr>) va pa"
    "\<And>w p. w \<in> supply_own off n (page_frames k) \<Longrightarrow> maps_page k w p \<Longrightarrow> maps_page (k\<lparr>page_frames := f\<rparr>) w p"
proof -
  let ?f = "page_frames k" and ?r = "g_kernelRootPageTable k"
  have i: "supply_inv off n ?f" "tree_wf off (entry_at (vram ?f)) ?r (supply_own off n ?f)" "unat off mod 4096 = 0"
    "boot_lin (linear B) off n" "c + 4 \<le> supply_avail n ?f"
    using fo by (auto simp: frames_ok_def)
  obtain va f1 where 1: "requestFreePageZeroed ?f = Some (va, f1)" "supply_inv off n f1"
    "tree_wf off (entry_at (vram f1)) ?r (supply_own off n f1)" "va \<notin> supply_own off n ?f"
    "supply_own off n f1 = insert va (supply_own off n ?f)" "supply_avail n ?f = Suc (supply_avail n f1)"
    and l1: "\<And>q j. path3 q \<Longrightarrow> j < 512 \<Longrightarrow> leaf off (entry_at (vram f1)) ?r q j = leaf off (entry_at (vram ?f)) ?r q j"
    by (rule ksup.alloc_tree [OF i(1,2)]) (use i(5) in auto)
  have p1: "pte_of f1 ?r w = pte_of ?f ?r w" for w
    using l1 [OF vpath_path3(1) vidx_less, of w 12 w] i(1) 1(2) by (simp add: pte_of_def supply_inv_def)
  obtain f e0 where 2: "mapPage (linear B) va pa (ucast priv) attribs ?r f1 = Some f" "supply_inv off n f"
    "tree_wf off (entry_at (vram f)) ?r (supply_own off n f)" "supply_avail n f1 \<le> supply_avail n f + 3"
    "supply_own off n f1 \<subseteq> supply_own off n f" "pte_of f ?r va = Some (leaf_entry pa (ucast priv) attribs e0)"
    and o2: "\<And>w. getPageTableIndicesFromVirtualAddress w \<noteq> getPageTableIndicesFromVirtualAddress va \<Longrightarrow>
      pte_of f ?r w = pte_of f1 ?r w"
    by (rule mapPage_ok [OF 1(2,3) _ i(4), where v = va and pa = pa and priv = "ucast priv" and attribs = attribs])
      (use i(5) 1(6) in auto)
  obtain j where j: "j < 2 ^ 36" "va = pg j + off" "unat va mod 4096 = 0"
    by (rule own_page [OF 1(2) i(3), of va]) (use 1(5) in auto)
  have "maps_page (k\<lparr>page_frames := f\<rparr>) w p" if w: "w \<in> supply_own off n ?f" "maps_page k w p" for w p
  proof -
    obtain j' where j': "j' < 2 ^ 36" "w = pg j' + off" "unat w mod 4096 = 0"
      by (rule own_page [OF i(1,3) w(1)])
    have "getPageTableIndicesFromVirtualAddress w \<noteq> getPageTableIndicesFromVirtualAddress va"
      using linear_pages_differ [OF j'(1) j(1) i(3)] 1(4) w(1) unfolding j(2) j'(2) by blast
    then show ?thesis using w(2) o2 p1 by (simp add: maps_page_iff [OF j'(3)])
  qed
  moreover have "maps_page (k\<lparr>page_frames := f\<rparr>) va pa"
    using 2(6) push_frame [OF pa] by (simp add: maps_page_iff [OF j(3)] leaf_entry_fields)
  moreover have "map_device B pa priv attribs k = Some (va, k\<lparr>page_frames := f\<rparr>)"
    using 1(1) 2(1) by (simp add: map_device_def zallocPage_def)
  moreover have "frames_ok B off n c (k\<lparr>page_frames := f\<rparr>)"
    using 2(2-4) i(3-5) 1(6) by (simp add: frames_ok_def)
  moreover have "insert va (supply_own off n ?f) \<subseteq> supply_own off n f" using 1(5) 2(5) by blast
  ultimately show thesis using that [of va f] 1(4) by blast
qed

section \<open>Elevation around an access\<close>

text \<open>What elevation and accesses to devices leave alone.\<close>

definition same_tables :: "'d machine \<Rightarrow> 'd machine \<Rightarrow> bool" where
  "same_tables k k' \<longleftrightarrow> page_frames k' = page_frames k \<and> g_kernelRootPageTable k' = g_kernelRootPageTable k \<and>
    this_cpu k' = this_cpu k \<and> current k' = current k \<and> kcheck_elevated k' = kcheck_elevated k"

lemma same_tables_refl [simp]: "same_tables k k"
  by (simp add: same_tables_def)

lemma same_tables_trans [trans]: "same_tables a b \<Longrightarrow> same_tables b c \<Longrightarrow> same_tables a c"
  by (simp add: same_tables_def)

lemma same_tables_phys: "same_tables k k' \<Longrightarrow> phys_of k' a = phys_of k a"
  by (simp add: same_tables_def phys_of_def)

lemma same_tables_maps: "same_tables k k' \<Longrightarrow> maps_page k' a p = maps_page k a p"
  by (simp add: maps_page_def same_tables_phys)

lemma current_device [simp]: "current (k\<lparr>device := d\<rparr>) = current (k :: 'd machine)"
  by (simp add: current_def)

lemma same_tables_device [simp]: "same_tables k (k\<lparr>device := d\<rparr>)"
  by (simp add: same_tables_def current_def kcheck_elevated_iff)

lemmas elevation_defs = kelevate_def klower_def set_elevated_usergs_def restore_lowered_usergs_def
  syscall_handler_def syscall_numbers upd_pcb_def say_def current_def

lemma kelevate_machine [simp]:
  fixes k :: "'d machine"
  shows "page_frames (kelevate k) = page_frames k" "g_kernelRootPageTable (kelevate k) = g_kernelRootPageTable k"
    "this_cpu (kelevate k) = this_cpu k" "device (kelevate k) = device k" "current (kelevate k) = current k"
    "phys_of (kelevate k) a = phys_of k a"
  by (simp_all add: elevation_defs phys_of_def Let_def)

lemma klower_machine [simp]:
  fixes k :: "'d machine"
  shows "page_frames (klower k) = page_frames k" "g_kernelRootPageTable (klower k) = g_kernelRootPageTable k"
    "this_cpu (klower k) = this_cpu k" "device (klower k) = device k" "current (klower k) = current k"
    "kcheck_elevated (klower k) \<longleftrightarrow> False"
  by (simp_all add: elevation_defs Let_def kcheck_elevated_iff)

text \<open>A body that only accesses devices, run elevated: its result and the device state it leaves.\<close>

lemma run_elevated_device:
  fixes k :: "'d machine"
  assumes "\<And>k'. page_frames k' = page_frames k \<Longrightarrow> g_kernelRootPageTable k' = g_kernelRootPageTable k \<Longrightarrow>
      this_cpu k' = this_cpu k \<Longrightarrow> device k' = device k \<Longrightarrow> code k' = Some (r, k'\<lparr>device := d\<rparr>)"
  shows "\<exists>k'. run_elevated code k = Some (r, k') \<and> same_tables k k' \<and> device k' = d"
proof (cases "kcheck_elevated k")
  case True
  have "code k = Some (r, k\<lparr>device := d\<rparr>)" by (rule assms) simp_all
  then show ?thesis using True by (simp add: run_elevated_def)
next
  case False
  have "code (kelevate k) = Some (r, (kelevate k)\<lparr>device := d\<rparr>)" by (rule assms) simp_all
  moreover have "same_tables k (klower ((kelevate k)\<lparr>device := d\<rparr>))"
    using False by (simp add: same_tables_def)
  ultimately show ?thesis using False by (simp add: run_elevated_def)
qed

lemma reg_read32_at:
  assumes "maps_page k va pa" "i < 4096" "bus_read32 B (this_cpu k) (pa + of_nat i) (device k) = (v, d)"
  shows "reg_read32 B (va + of_nat i) k = Some (v, k\<lparr>device := d\<rparr>)"
  using assms by (simp add: reg_read32_def maps_page_def)

lemma reg_write32_at:
  assumes "maps_page k va pa" "i < 4096"
  shows "reg_write32 B (va + of_nat i) v k =
    Some (k\<lparr>device := bus_write32 B (this_cpu k) (pa + of_nat i) v (device k)\<rparr>)"
  using assms by (simp add: reg_write32_def maps_page_def)

end
