(* ===== verification/Apic.thy ===== *)
theory Apic
  imports Machine
begin

text \<open>
  The interrupt controllers: the local controller of a cpu (\<^verbatim>\<open>arch/x86/apic.cpp\<close>) with its timer
  (\<^verbatim>\<open>apic_timer.cpp\<close>), and the I/O controller with its redirection table (\<^verbatim>\<open>ioapic.cpp\<close>).
\<close>

section \<open>The local interrupt controller\<close>

definition APIC_ICR_LO :: u32 where "APIC_ICR_LO = 0x300"
definition APIC_ICR_HI :: u32 where "APIC_ICR_HI = 0x310"

definition apic_write :: "'d board \<Rightarrow> u32 \<Rightarrow> u32 \<Rightarrow> 'd machine \<Rightarrow> 'd machine option" where
  "apic_write B reg val k = reg_write32 B (g_lapicVirtualBase k + ucast (reg div 4) * 4) val k"

definition apic_read :: "'d board \<Rightarrow> u32 \<Rightarrow> 'd machine \<Rightarrow> (u32 \<times> 'd machine) option" where
  "apic_read B reg k = reg_read32 B (g_lapicVirtualBase k + ucast (reg div 4) * 4) k"

definition apic_map :: "'d board \<Rightarrow> u64 \<Rightarrow> 'd machine \<Rightarrow> 'd machine option" where
  "apic_map B base k =
    (if g_lapicPhysicalBase k = 0 then do {
       let k = k\<lparr>g_lapicPhysicalBase := base\<rparr>;
       (page, f) \<leftarrow> zallocPage (page_frames k);
       let k = k\<lparr>page_frames := f, g_lapicVirtualBase := page\<rparr>;
       (_, k) \<leftarrow> run_elevated (\<lambda>k. do {
         f \<leftarrow> mapPage (linear B) (g_lapicVirtualBase k) (g_lapicPhysicalBase k) (ucast USERSPACE_PAGE)
           PAGE_ATTRIB_CACHE_DISABLED (g_kernelRootPageTable k) (page_frames k);
         Some ((), k\<lparr>page_frames := f\<rparr>)
       }) k;
       Some k
     }
     else Some k)"

definition apic_new :: "'d board \<Rightarrow> u64 \<Rightarrow> u8 \<Rightarrow> 'd machine \<Rightarrow> 'd machine option" where
  "apic_new B base spuriousIrq k = do {
     k \<leftarrow> apic_map B base k;
     (spuriousVector, k) \<leftarrow> apic_read B 0xF0 k;
     let spuriousVector = spuriousVector OR push_bit 8 1;
     let spuriousVector = spuriousVector OR ucast spuriousIrq;
     apic_write B 0xF0 spuriousVector k
   }"

definition apic_completeIrq :: "'d board \<Rightarrow> 'd machine \<Rightarrow> 'd machine option" where
  "apic_completeIrq B k = apic_write B 0xB0 0 k"

definition sendIpi :: "'d board \<Rightarrow> u8 \<Rightarrow> u32 \<Rightarrow> 'd machine \<Rightarrow> 'd machine option" where
  "sendIpi B apicId vector k = do {
     k \<leftarrow> apic_write B APIC_ICR_HI (push_bit 24 (ucast apicId)) k;
     apic_write B APIC_ICR_LO (vector OR push_bit 14 1) k
   }"

text \<open>The table has an entry per possible cpu; \<open>None\<close> is a fault or an access beyond it.\<close>

definition initializeLocalApic :: "'d board \<Rightarrow> 'd machine \<Rightarrow> 'd machine option" where
  "initializeLocalApic B k =
    (let c = uint (getCurrentCpuId k)
     in if MAX_CPUS \<le> c then None
        else if s_lapics k c then Some k
        else do {
          (apicBaseMsr, k) \<leftarrow> run_elevated (\<lambda>k.
            (let (apicBaseMsr, k) = readMsr B IA32_APIC_BASE_MSR k;
                 apicBaseMsr = apicBaseMsr OR push_bit 11 1
             in Some (apicBaseMsr, writeMsr B IA32_APIC_BASE_MSR apicBaseMsr k))) k;
          let physicalBase = apicBaseMsr AND NOT 0xFFF;
          k \<leftarrow> apic_new B physicalBase 0xFF k;
          Some (k\<lparr>s_lapics := (s_lapics k)(c := True)\<rparr>)
        })"

text \<open>The object has no members: the reference returned is the current cpu's, as set here.\<close>

definition getLocalApic :: "'d board \<Rightarrow> 'd machine \<Rightarrow> 'd machine option" where
  "getLocalApic B k =
    (let c = uint (getCurrentCpuId k)
     in if MAX_CPUS \<le> c then None
        else if s_lapics k c then Some k else initializeLocalApic B k)"

definition disableLegacyPic :: "'d board \<Rightarrow> 'd machine \<Rightarrow> 'd machine option" where
  "disableLegacyPic B k = do {
     (_, k) \<leftarrow> run_elevated (\<lambda>k.
       (let d = outByte (io_ports B) 0xA1 0xFF (device k);
            d = outByte (io_ports B) 0x21 0xFF d
        in Some ((), k\<lparr>device := d\<rparr>))) k;
     Some k
   }"

section \<open>Its timer\<close>

definition APIC_TIMER_REGISTER :: u32 where "APIC_TIMER_REGISTER = 0x320"
definition APIC_TIMER_DIVIDE_CONFIG :: u32 where "APIC_TIMER_DIVIDE_CONFIG = 0x3E0"
definition APIC_TIMER_INITIAL_COUNT :: u32 where "APIC_TIMER_INITIAL_COUNT = 0x380"
definition APIC_CURRENT_COUNT :: u32 where "APIC_CURRENT_COUNT = 0x390"

definition timer_setup :: "'d board \<Rightarrow> u32 \<Rightarrow> u8 \<Rightarrow> u32 \<Rightarrow> u32 \<Rightarrow> 'd machine \<Rightarrow> 'd machine option" where
  "timer_setup B mode irqNumber divideConfig intervalValue k = do {
     let k = k\<lparr>g_apicTimer := \<lparr>m_irqno = irqNumber, m_divideConfig = divideConfig, m_intervalValue = intervalValue\<rparr>\<rparr>;
     k \<leftarrow> getLocalApic B k;
     k \<leftarrow> apic_write B APIC_TIMER_REGISTER (mode OR ucast irqNumber) k;
     k \<leftarrow> apic_write B APIC_TIMER_DIVIDE_CONFIG (m_divideConfig (g_apicTimer k)) k;
     apic_write B APIC_TIMER_INITIAL_COUNT 0 k
   }"

definition setupPeriodic :: "'d board \<Rightarrow> u8 \<Rightarrow> u32 \<Rightarrow> u32 \<Rightarrow> 'd machine \<Rightarrow> 'd machine option" where
  "setupPeriodic B irqNumber divideConfig intervalValue k = timer_setup B 0x20000 irqNumber divideConfig intervalValue k"

definition setupOneShot :: "'d board \<Rightarrow> u8 \<Rightarrow> u32 \<Rightarrow> u32 \<Rightarrow> 'd machine \<Rightarrow> 'd machine option" where
  "setupOneShot B irqNumber divideConfig intervalValue k = timer_setup B 0x0 irqNumber divideConfig intervalValue k"

definition timer_start :: "'d board \<Rightarrow> 'd machine \<Rightarrow> 'd machine option" where
  "timer_start B k = do {
     k \<leftarrow> getLocalApic B k;
     apic_write B APIC_TIMER_INITIAL_COUNT (m_intervalValue (g_apicTimer k)) k
   }"

definition timer_readCounter :: "'d board \<Rightarrow> 'd machine \<Rightarrow> (u32 \<times> 'd machine) option" where
  "timer_readCounter B k = do { k \<leftarrow> getLocalApic B k; apic_read B APIC_CURRENT_COUNT k }"

definition timer_stop :: "'d board \<Rightarrow> 'd machine \<Rightarrow> (u32 \<times> 'd machine) option" where
  "timer_stop B k = do {
     (cnt, k) \<leftarrow> timer_readCounter B k;
     k \<leftarrow> getLocalApic B k;
     k \<leftarrow> apic_write B APIC_TIMER_INITIAL_COUNT 0 k;
     Some (cnt, k)
   }"

section \<open>The I/O interrupt controller\<close>

record IoApic =
  m_virtualBase :: u64
  m_apicId :: u8
  m_apicVersion :: u8
  m_redirectionEntryCount :: u8
  m_globalIntrBase :: u64

definition RedirectionEntry :: layout where
  "RedirectionEntry = [(''vector'', 8), (''delvMode'', 3), (''destMode'', 1), (''delvStatus'', 1), (''pinPolarity'', 1),
    (''remoteIRR'', 1), (''triggerMode'', 1), (''mask'', 1), (''reserved'', 39), (''destination'', 8)]"

definition IOAPICREDTBL :: "u8 \<Rightarrow> u8" where "IOAPICREDTBL n = 0x10 + 2 * n"

definition ioapic_read :: "'d board \<Rightarrow> u64 \<Rightarrow> u8 \<Rightarrow> 'd machine \<Rightarrow> (u32 \<times> 'd machine) option" where
  "ioapic_read B base regOff k =
     run_elevated (\<lambda>k. do {
       k \<leftarrow> reg_write32 B (base + 0x00) (ucast regOff) k;
       reg_read32 B (base + 0x10) k
     }) k"

definition ioapic_write :: "'d board \<Rightarrow> u64 \<Rightarrow> u8 \<Rightarrow> u32 \<Rightarrow> 'd machine \<Rightarrow> 'd machine option" where
  "ioapic_write B base regOff data k = do {
     (_, k) \<leftarrow> run_elevated (\<lambda>k. do {
       k \<leftarrow> reg_write32 B (base + 0x00) (ucast regOff) k;
       k \<leftarrow> reg_write32 B (base + 0x10) data k;
       Some ((), k)
     }) k;
     Some k
   }"

definition ioapic_new :: "'d board \<Rightarrow> u64 \<Rightarrow> u64 \<Rightarrow> 'd machine \<Rightarrow> (IoApic \<times> 'd machine) option" where
  "ioapic_new B physRegs gsib k = do {
     (va, k) \<leftarrow> map_device B physRegs (ucast KERNEL_PAGE) PAGE_ATTRIB_CACHE_DISABLED k;
     (idr, k) \<leftarrow> ioapic_read B va 0x00 k;
     (ver, k) \<leftarrow> ioapic_read B va 0x01 k;
     (ver2, k) \<leftarrow> ioapic_read B va 0x01 k;
     Some (\<lparr>m_virtualBase = va, m_apicId = ucast (drop_bit 24 idr AND 0xF0), m_apicVersion = ucast ver,
       m_redirectionEntryCount = ucast (drop_bit 16 ver2 + 1), m_globalIntrBase = gsib\<rparr>, k)
   }"

definition getRedirectionEntry :: "'d board \<Rightarrow> IoApic \<Rightarrow> u8 \<Rightarrow> 'd machine \<Rightarrow> (u64 \<times> 'd machine) option" where
  "getRedirectionEntry B io entNo k =
    (if m_redirectionEntryCount io \<le> entNo then Some (0, k)
     else do {
       (lowerDword, k) \<leftarrow> ioapic_read B (m_virtualBase io) (IOAPICREDTBL entNo) k;
       (upperDword, k) \<leftarrow> ioapic_read B (m_virtualBase io) (IOAPICREDTBL entNo + 1) k;
       Some (ucast lowerDword OR push_bit 32 (ucast upperDword), k)
     })"

definition writeRedirectionEntry :: "'d board \<Rightarrow> IoApic \<Rightarrow> u8 \<Rightarrow> u64 \<Rightarrow> 'd machine \<Rightarrow> (bool \<times> 'd machine) option" where
  "writeRedirectionEntry B io entNo entry k =
    (if m_redirectionEntryCount io \<le> entNo then Some (False, k)
     else do {
       k \<leftarrow> ioapic_write B (m_virtualBase io) (IOAPICREDTBL entNo) (ucast entry) k;
       k \<leftarrow> ioapic_write B (m_virtualBase io) (IOAPICREDTBL entNo + 1) (ucast (drop_bit 32 entry)) k;
       Some (True, k)
     })"

section \<open>Registers behind a selector\<close>

text \<open>
  The documented behaviour of the controller whose two registers are at \<open>base\<close>: the first selects,
  the second reads and writes the selected register. A write to the redirection table stores the
  writable bits; delivery status (bit 12) and remote IRR (bit 14) are the controller's.
\<close>

definition redir_rw :: "u8 \<Rightarrow> u32" where
  "redir_rw r = (if even (unat r) then 0x1AFFF else 0xFF000000)"

definition ioapic_device :: "'d board \<Rightarrow> u64 \<Rightarrow> ('d \<Rightarrow> u8) \<Rightarrow> ('d \<Rightarrow> u8 \<Rightarrow> u32) \<Rightarrow> bool" where
  "ioapic_device B base sel reg \<longleftrightarrow>
    (\<forall>c d v. sel (bus_write32 B c base v d) = ucast v \<and> reg (bus_write32 B c base v d) = reg d) \<and>
    (\<forall>c d v d'. bus_read32 B c (base + 0x10) d = (v, d') \<longrightarrow> v = reg d (sel d) \<and> sel d' = sel d \<and> reg d' = reg d) \<and>
    (\<forall>c d v. sel (bus_write32 B c (base + 0x10) v d) = sel d \<and>
      (\<forall>r. r \<noteq> sel d \<longrightarrow> reg (bus_write32 B c (base + 0x10) v d) r = reg d r) \<and>
      (0x10 \<le> sel d \<longrightarrow> reg (bus_write32 B c (base + 0x10) v d) (sel d) AND redir_rw (sel d) = v AND redir_rw (sel d)))"

lemma ucast_8_32_8 [simp]: "(ucast (ucast (x :: u8) :: u32) :: u8) = x"
  by (rule bit_word_eqI) (simp add: bit_simps)

lemma ioapic_read_ok:
  fixes B :: "'d board"
  assumes "ioapic_device B pa sel reg" "maps_page k va pa"
  shows "\<exists>k'. ioapic_read B va r k = Some (reg (device k) r, k') \<and> same_tables k k' \<and> reg (device k') = reg (device k)"
proof -
  let ?d1 = "bus_write32 B (this_cpu k) pa (ucast r) (device k)"
  obtain v d where r: "bus_read32 B (this_cpu k) (pa + 0x10) ?d1 = (v, d)" by fastforce
  have "sel ?d1 = r" "reg ?d1 = reg (device k)" using assms(1) by (auto simp: ioapic_device_def)
  then have v: "v = reg (device k) r" "reg d = reg (device k)"
    using assms(1) r unfolding ioapic_device_def by metis+
  have "\<exists>k'. ioapic_read B va r k = Some (v, k') \<and> same_tables k k' \<and> device k' = d"
    unfolding ioapic_read_def
  proof (rule run_elevated_device)
    fix k' :: "'d machine" assume k': "page_frames k' = page_frames k" "g_kernelRootPageTable k' = g_kernelRootPageTable k"
      "this_cpu k' = this_cpu k" "device k' = device k"
    then have m: "maps_page k' va pa" using assms(2) by (simp add: maps_page_def phys_of_def)
    then have "maps_page (k'\<lparr>device := ?d1\<rparr>) va pa" by (simp add: maps_page_def phys_of_def)
    from reg_read32_at [OF this, of 16 B v d] reg_write32_at [OF m, of 0 B "ucast r"] k' r
    show "(do { k \<leftarrow> reg_write32 B (va + 0) (ucast r) k'; reg_read32 B (va + 16) k }) = Some (v, k'\<lparr>device := d\<rparr>)"
      by simp
  qed
  then show ?thesis using v by auto
qed

lemma ioapic_write_ok:
  fixes B :: "'d board"
  assumes "ioapic_device B pa sel reg" "maps_page k va pa"
  shows "\<exists>k'. ioapic_write B va r v k = Some k' \<and> same_tables k k' \<and>
    (\<forall>q. q \<noteq> r \<longrightarrow> reg (device k') q = reg (device k) q) \<and>
    (0x10 \<le> r \<longrightarrow> reg (device k') r AND redir_rw r = v AND redir_rw r)"
proof -
  let ?d1 = "bus_write32 B (this_cpu k) pa (ucast r) (device k)"
  let ?d2 = "bus_write32 B (this_cpu k) (pa + 0x10) v ?d1"
  have "sel ?d1 = r" "reg ?d1 = reg (device k)" using assms(1) by (auto simp: ioapic_device_def)
  then have d: "\<forall>q. q \<noteq> r \<longrightarrow> reg ?d2 q = reg (device k) q" "0x10 \<le> r \<longrightarrow> reg ?d2 r AND redir_rw r = v AND redir_rw r"
    using assms(1) unfolding ioapic_device_def by metis+
  have "\<exists>k'. run_elevated (\<lambda>k. do {
       k \<leftarrow> reg_write32 B (va + 0x00) (ucast r) k;
       k \<leftarrow> reg_write32 B (va + 0x10) v k;
       Some ((), k) }) k = Some ((), k') \<and> same_tables k k' \<and> device k' = ?d2"
  proof (rule run_elevated_device)
    fix k' :: "'d machine" assume k': "page_frames k' = page_frames k" "g_kernelRootPageTable k' = g_kernelRootPageTable k"
      "this_cpu k' = this_cpu k" "device k' = device k"
    then have m: "maps_page k' va pa" using assms(2) by (simp add: maps_page_def phys_of_def)
    then have "maps_page (k'\<lparr>device := ?d1\<rparr>) va pa" by (simp add: maps_page_def phys_of_def)
    from reg_write32_at [OF this, of 16 B v] reg_write32_at [OF m, of 0 B "ucast r"] k'
    show "(do { k \<leftarrow> reg_write32 B (va + 0) (ucast r) k'; k \<leftarrow> reg_write32 B (va + 16) v k; Some ((), k) }) =
      Some ((), k'\<lparr>device := ?d2\<rparr>)"
      by simp
  qed
  then show ?thesis using d by (auto simp: ioapic_write_def)
qed

section \<open>A new I/O controller\<close>

lemma ioapic_read_total:
  fixes B :: "'d board"
  assumes "maps_page k va pa"
  shows "\<exists>v k'. ioapic_read B va r k = Some (v, k') \<and> same_tables k k'"
proof -
  let ?d1 = "bus_write32 B (this_cpu k) pa (ucast r) (device k)"
  obtain v d where r: "bus_read32 B (this_cpu k) (pa + 0x10) ?d1 = (v, d)" by fastforce
  have "\<exists>k'. ioapic_read B va r k = Some (v, k') \<and> same_tables k k' \<and> device k' = d"
    unfolding ioapic_read_def
  proof (rule run_elevated_device)
    fix k' :: "'d machine" assume k': "page_frames k' = page_frames k" "g_kernelRootPageTable k' = g_kernelRootPageTable k"
      "this_cpu k' = this_cpu k" "device k' = device k"
    then have m: "maps_page k' va pa" using assms by (simp add: maps_page_def phys_of_def)
    then have "maps_page (k'\<lparr>device := ?d1\<rparr>) va pa" by (simp add: maps_page_def phys_of_def)
    from reg_read32_at [OF this, of 16 B v d] reg_write32_at [OF m, of 0 B "ucast r"] k' r
    show "(do { k \<leftarrow> reg_write32 B (va + 0) (ucast r) k'; reg_read32 B (va + 16) k }) = Some (v, k'\<lparr>device := d\<rparr>)"
      by simp
  qed
  then show ?thesis by blast
qed

lemma same_tables_frames_ok: "same_tables k k' \<Longrightarrow> frames_ok B off n c k' = frames_ok B off n c k"
  by (simp add: same_tables_def frames_ok_def)

lemma ioapic_new_ok:
  fixes B :: "'d board"
  assumes fo: "frames_ok B off n (c + 4) k" and pa: "unat pa mod 4096 = 0" "unat pa < 2 ^ 48"
  obtains io k' where "ioapic_new B pa gsib k = Some (io, k')" "frames_ok B off n c k'"
    "m_virtualBase io \<notin> supply_own off n (page_frames k)" "m_globalIntrBase io = gsib"
    "insert (m_virtualBase io) (supply_own off n (page_frames k)) \<subseteq> supply_own off n (page_frames k')"
    "maps_page k' (m_virtualBase io) pa"
    "\<And>w p. w \<in> supply_own off n (page_frames k) \<Longrightarrow> maps_page k w p \<Longrightarrow> maps_page k' w p"
    "\<And>sel reg. ioapic_device B pa sel reg \<Longrightarrow>
      reg (device k') = reg (device k) \<and> m_redirectionEntryCount io = ucast (drop_bit 16 (reg (device k) 1) + 1)"
proof -
  obtain va f where m: "map_device B pa (ucast KERNEL_PAGE) PAGE_ATTRIB_CACHE_DISABLED k = Some (va, k\<lparr>page_frames := f\<rparr>)"
    "frames_ok B off n c (k\<lparr>page_frames := f\<rparr>)" "va \<notin> supply_own off n (page_frames k)"
    "insert va (supply_own off n (page_frames k)) \<subseteq> supply_own off n f" "maps_page (k\<lparr>page_frames := f\<rparr>) va pa"
    and keep: "\<And>w p. w \<in> supply_own off n (page_frames k) \<Longrightarrow> maps_page k w p \<Longrightarrow> maps_page (k\<lparr>page_frames := f\<rparr>) w p"
    by (rule map_device_ok [OF fo pa]) blast
  let ?k0 = "k\<lparr>page_frames := f\<rparr>"
  obtain v1 k1 where 1: "ioapic_read B va 0 ?k0 = Some (v1, k1)" "same_tables ?k0 k1"
    using ioapic_read_total [OF m(5)] by blast
  have m1: "maps_page k1 va pa" using m(5) same_tables_maps [OF 1(2)] by simp
  obtain v2 k2 where 2: "ioapic_read B va 1 k1 = Some (v2, k2)" "same_tables k1 k2"
    using ioapic_read_total [OF m1] by blast
  have m2: "maps_page k2 va pa" using m1 same_tables_maps [OF 2(2)] by simp
  obtain v3 k3 where 3: "ioapic_read B va 1 k2 = Some (v3, k3)" "same_tables k2 k3"
    using ioapic_read_total [OF m2] by blast
  have s: "same_tables ?k0 k3" using 1(2) 2(2) 3(2) by (blast intro: same_tables_trans)
  then have pf: "page_frames k3 = f" by (simp add: same_tables_def)
  have dev: "reg (device k3) = reg (device k) \<and> v3 = reg (device k) 1" if "ioapic_device B pa sel reg" for sel reg
    using ioapic_read_ok [OF that m(5), of 0] ioapic_read_ok [OF that m1, of 1] ioapic_read_ok [OF that m2, of 1]
      1(1) 2(1) 3(1) by auto
  let ?io = "\<lparr>m_virtualBase = va, m_apicId = ucast (drop_bit 24 v1 AND 0xF0), m_apicVersion = ucast v2,
    m_redirectionEntryCount = ucast (drop_bit 16 v3 + 1), m_globalIntrBase = gsib\<rparr>"
  show thesis
  proof (rule that [of ?io k3])
    show "ioapic_new B pa gsib k = Some (?io, k3)"
      using m(1) 1(1) 2(1) 3(1) by (simp add: ioapic_new_def)
  qed (use m(2-5) keep s pf dev same_tables_maps [OF s] same_tables_frames_ok [OF s] in auto)
qed

section \<open>Redirection entries read back\<close>

lemma bit_redir_low:
  assumes "b < 12 \<or> b = 13 \<or> b = 15 \<or> b = 16"
  shows "bit (0x1AFFF :: u32) b"
proof -
  have e: "(0x1AFFF :: u32) = mask 12 OR push_bit 13 1 OR push_bit 15 1 OR push_bit 16 1" by (simp add: mask_eq_exp_minus_1)
  show ?thesis unfolding e bit_or_iff bit_mask_iff bit_push_bit_iff using assms by auto
qed

lemma bit_redir_high:
  assumes "24 \<le> b" "b < 32"
  shows "bit (0xFF000000 :: u32) b"
proof -
  have e: "(0xFF000000 :: u32) = push_bit 24 (mask 8)" by (simp add: mask_eq_exp_minus_1)
  show ?thesis unfolding e bit_mask_iff bit_push_bit_iff using assms by auto
qed

lemma bit_of_and_eq: "x AND m = y AND m \<Longrightarrow> bit m b \<Longrightarrow> bit x b = bit (y :: 'a::len word) b"
  by (metis bit_and_iff)

definition writable_fields :: "string list" where
  "writable_fields = [''vector'', ''delvMode'', ''destMode'', ''pinPolarity'', ''triggerMode'', ''mask'', ''destination'']"

lemma redirection_fields:
  fixes e :: u64
  assumes "lo AND 0x1AFFF = ucast e AND (0x1AFFF :: u32)" "hi AND 0xFF000000 = ucast (drop_bit 32 e) AND (0xFF000000 :: u32)"
    and f: "f \<in> set writable_fields"
  shows "fget RedirectionEntry f (ucast lo OR push_bit 32 (ucast hi)) = fget RedirectionEntry f e"
proof -
  have l: "bit lo b = bit e b" if "b < 12 \<or> b = 13 \<or> b = 15 \<or> b = 16" for b
    using bit_of_and_eq [OF assms(1) bit_redir_low [OF that]] that by (auto simp: bit_simps)
  have h: "bit hi b = bit e (32 + b)" if "24 \<le> b" "b < 32" for b
    using bit_of_and_eq [OF assms(2) bit_redir_high [OF that]] that by (auto simp: bit_simps)
  have e: "bit (ucast lo OR push_bit 32 (ucast hi) :: u64) b = bit e b"
    if "b < 12 \<or> b = 13 \<or> b = 15 \<or> b = 16 \<or> 56 \<le> b \<and> b < 64" for b
    using that l [of b] h [of "b - 32"] by (auto simp: bit_simps dest: bit_imp_le_length)
  have g: "bf_get l w (ucast lo OR push_bit 32 (ucast hi)) = bf_get l w e"
    if "\<And>b. b < w \<Longrightarrow> l + b < 12 \<or> l + b = 13 \<or> l + b = 15 \<or> l + b = 16 \<or> 56 \<le> l + b \<and> l + b < 64" for l w
    by (rule bit_word_eqI) (use e that in \<open>auto simp: bit_bf_get\<close>)
  have "(fld_lo RedirectionEntry f, fld_wd RedirectionEntry f) \<in> {(0, 8), (8, 3), (11, 1), (13, 1), (15, 1), (16, 1), (56, 8)}"
    using f by (auto simp: writable_fields_def RedirectionEntry_def)
  then show ?thesis unfolding fget_def by (intro g) auto
qed

text \<open>
  C32: programming the redirection table of the I/O interrupt controller. Over the documented
  selector and window registers, writing an entry in range succeeds, and reading it back gives
  every writable field as written, for every entry of the 8-bit register space; all other
  registers keep their value. An entry out of range is refused with no effect.
\<close>

theorem redirection_entry_roundtrip:
  assumes dev: "ioapic_device B base sel reg" and m: "maps_page k (m_virtualBase io) base"
  shows "if entNo < m_redirectionEntryCount io then
      entNo < 120 \<longrightarrow>
      (\<exists>k1 e k2. writeRedirectionEntry B io entNo entry k = Some (True, k1) \<and>
        getRedirectionEntry B io entNo k1 = Some (e, k2) \<and>
        (\<forall>f \<in> set writable_fields. fget RedirectionEntry f e = fget RedirectionEntry f entry) \<and>
        (\<forall>r. r \<noteq> IOAPICREDTBL entNo \<and> r \<noteq> IOAPICREDTBL entNo + 1 \<longrightarrow> reg (device k1) r = reg (device k) r))
    else writeRedirectionEntry B io entNo entry k = Some (False, k) \<and> getRedirectionEntry B io entNo k = Some (0, k)"
proof (cases "entNo < m_redirectionEntryCount io")
  case False
  then show ?thesis by (auto simp: writeRedirectionEntry_def getRedirectionEntry_def)
next
  case True
  then have nle: "\<not> m_redirectionEntryCount io \<le> entNo" by simp
  show ?thesis
  proof (simp add: True, intro impI)
    assume n: "entNo < 120"
    let ?a = "IOAPICREDTBL entNo" and ?b = "IOAPICREDTBL entNo + 1"
    have u: "unat ?a = 16 + 2 * unat entNo" "unat ?b = 17 + 2 * unat entNo"
      using n by (simp_all add: IOAPICREDTBL_def unat_word_ariths word_less_nat_alt)
    have ab: "?a \<noteq> ?b" "0x10 \<le> ?a" "0x10 \<le> ?b" "redir_rw ?a = 0x1AFFF" "redir_rw ?b = 0xFF000000"
      using u by (simp_all add: redir_rw_def word_le_nat_alt word_unat_eq_iff)
    obtain k0 where w0: "ioapic_write B (m_virtualBase io) ?a (ucast entry) k = Some k0" "same_tables k k0"
      "\<forall>q. q \<noteq> ?a \<longrightarrow> reg (device k0) q = reg (device k) q" "reg (device k0) ?a AND 0x1AFFF = ucast entry AND 0x1AFFF"
      using ioapic_write_ok [OF dev m, of ?a "ucast entry"] ab by auto
    have m0: "maps_page k0 (m_virtualBase io) base" using m same_tables_maps [OF w0(2)] by simp
    obtain k1 where w1: "ioapic_write B (m_virtualBase io) ?b (ucast (drop_bit 32 entry)) k0 = Some k1" "same_tables k0 k1"
      "\<forall>q. q \<noteq> ?b \<longrightarrow> reg (device k1) q = reg (device k0) q"
      "reg (device k1) ?b AND 0xFF000000 = ucast (drop_bit 32 entry) AND 0xFF000000"
      using ioapic_write_ok [OF dev m0, of ?b "ucast (drop_bit 32 entry)"] ab by auto
    have m1: "maps_page k1 (m_virtualBase io) base" using m0 same_tables_maps [OF w1(2)] by simp
    obtain k2 where r0: "ioapic_read B (m_virtualBase io) ?a k1 = Some (reg (device k1) ?a, k2)" "same_tables k1 k2"
      "reg (device k2) = reg (device k1)"
      using ioapic_read_ok [OF dev m1] by blast
    have m2: "maps_page k2 (m_virtualBase io) base" using m1 same_tables_maps [OF r0(2)] by simp
    obtain k3 where r1: "ioapic_read B (m_virtualBase io) ?b k2 = Some (reg (device k2) ?b, k3)"
      using ioapic_read_ok [OF dev m2] by blast
    have lo: "reg (device k1) ?a AND 0x1AFFF = ucast entry AND 0x1AFFF" using w1(3) w0(4) ab(1) by simp
    show "\<exists>k1. writeRedirectionEntry B io entNo entry k = Some (True, k1) \<and>
        (\<exists>e. (\<exists>k2. getRedirectionEntry B io entNo k1 = Some (e, k2)) \<and>
          (\<forall>f \<in> set writable_fields. fget RedirectionEntry f e = fget RedirectionEntry f entry) \<and>
        (\<forall>r. r \<noteq> ?a \<and> r \<noteq> ?b \<longrightarrow> reg (device k1) r = reg (device k) r))"
    proof (intro exI conjI)
      show "writeRedirectionEntry B io entNo entry k = Some (True, k1)"
        using nle w0(1) w1(1) by (simp add: writeRedirectionEntry_def)
      show "getRedirectionEntry B io entNo k1 =
        Some (ucast (reg (device k1) ?a) OR push_bit 32 (ucast (reg (device k1) ?b)), k3)"
        using nle r0 r1 by (simp add: getRedirectionEntry_def)
    qed (use redirection_fields [OF lo w1(4)] w0(3) w1(3) in auto)
  qed
qed

text \<open>A board whose only device is the controller at 0xFEC00000, and 32 pages of memory.\<close>

definition no_ports :: "'d ports" where
  "no_ports = \<lparr>dev_outb = (\<lambda>p v d. d), dev_inb = (\<lambda>p d. (0, d)), dev_outl = (\<lambda>p v d. d), dev_inl = (\<lambda>p d. (0, d))\<rparr>"

definition ioapic_board :: "(u8 \<times> (u8 \<Rightarrow> u32)) board" where
  "ioapic_board = \<lparr>bus_read32 = (\<lambda>c a d. (if a = 0xfec00010 then snd d (fst d) else 0, d)),
    bus_write32 = (\<lambda>c a v d. if a = 0xfec00000 then (ucast v, snd d)
      else if a = 0xfec00010 then (fst d, (snd d)(fst d := v)) else d),
    bus_read64 = (\<lambda>c a d. (0, d)), bus_write64 = (\<lambda>c a v d. d), cpu_rdmsr = (\<lambda>c r d. ((0, 0), d)),
    cpu_wrmsr = (\<lambda>c r l h d. d), cpu_rdtsc = (\<lambda>c d. ((0, 0), d)), cpu_cpuid = (\<lambda>i. (0, 0, 0, 0)), cpu_wbinvd = (\<lambda>c d. d),
    io_ports = no_ports, linear = high_lin\<rparr>"

definition machine0 :: "'d \<Rightarrow> 'd machine" where
  "machine0 d = sched.extend sched4
    \<lparr>device = d, cr0_reg = 0, cr4_reg = 0, g_lapicPhysicalBase = 0, g_lapicVirtualBase = 0, s_lapics = (\<lambda>_. False),
     g_apicTimer = \<lparr>m_irqno = 0, m_divideConfig = 0, m_intervalValue = 0\<rparr>, g_precisionTimerInstance = None,
     g_hardwareFrequency = 0, s_apicTicksCalibratedFrequency = 0, s_tscTicksCalibratedFrequency = 0\<rparr>
    \<lparr>page_frames := pfa_zero 32, g_kernelRootPageTable := 0xffff800000000000\<rparr>"

lemma machine0_frames: "linear B = high_lin \<Longrightarrow> frames_ok B 0xffff800000000000 32 31 (machine0 d)"
  using pfa_zero_inv [of 32] pfa_zero_tree [of 32] pfa_zero_avail [of 32] high_lin_boot [of 32]
  by (simp add: frames_ok_def machine0_def)

lemma ioapic_board_device: "ioapic_device ioapic_board 0xfec00000 fst snd"
  by (auto simp: ioapic_device_def ioapic_board_def)

theorem redirection_entry_roundtrip_witness:
  "\<exists>io k k1 e k2. ioapic_new ioapic_board 0xfec00000 0 (machine0 (0, \<lambda>r. if r = 1 then 0x170011 else 0)) = Some (io, k) \<and>
    writeRedirectionEntry ioapic_board io 1 33 k = Some (True, k1) \<and>
    getRedirectionEntry ioapic_board io 1 k1 = Some (e, k2) \<and> fget RedirectionEntry ''vector'' e = 33"
proof -
  have f: "frames_ok ioapic_board 0xffff800000000000 32 (27 + 4) (machine0 (0, \<lambda>r. if r = 1 then 0x170011 else 0))"
    using machine0_frames [of ioapic_board] by (simp add: ioapic_board_def)
  obtain io k where io: "ioapic_new ioapic_board 0xfec00000 0 (machine0 (0, \<lambda>r. if r = 1 then 0x170011 else 0)) = Some (io, k)"
    "maps_page k (m_virtualBase io) 0xfec00000"
    and c: "\<And>sel reg. ioapic_device ioapic_board 0xfec00000 sel reg \<Longrightarrow>
      reg (device k) = reg (device (machine0 (0, \<lambda>r. if r = 1 then 0x170011 else 0))) \<and>
      m_redirectionEntryCount io = ucast (drop_bit 16 (reg (device (machine0 (0, \<lambda>r. if r = 1 then 0x170011 else 0))) 1) + 1)"
    by (rule ioapic_new_ok [OF f, of "0xfec00000" 0]) auto
  have "m_redirectionEntryCount io = 24" using c [OF ioapic_board_device] by (simp add: machine0_def sched.defs)
  then show ?thesis
    using redirection_entry_roundtrip [OF ioapic_board_device io(2), of 1 33] io(1)
    by (auto simp: writable_fields_def fget_def bf_get_def RedirectionEntry_def)
qed

end
