(* ===== verification/Acpi.thy ===== *)
theory Acpi
  imports Apic Pci
begin

text \<open>
  The ACPI tables and the clocks: the interrupt controller table (\<^verbatim>\<open>acpi/madt.cpp\<close>), the event timer
  (\<^verbatim>\<open>acpi/hpet.cpp\<close>), the search through the root table and the byte code scanner
  (\<^verbatim>\<open>acpi/acpi_controller.cpp\<close>), and the kernel's time and sleep functions (\<^verbatim>\<open>time/ktime.cpp\<close>).

  The tables are in a memory \<open>m\<close> that the firmware wrote. The vectors of the source are lists.
\<close>

section \<open>The interrupt controller table\<close>

definition AcpiTableHeader :: layout where
  "AcpiTableHeader = [(''signature'', 32), (''length'', 32), (''revision'', 8), (''checksum'', 8), (''oemId'', 48),
    (''oemTableId'', 64), (''oemRevision'', 32), (''creatorId'', 32), (''creatorRevision'', 32)]"

definition LocalApicDescriptor :: layout where
  "LocalApicDescriptor = [(''type'', 8), (''length'', 8), (''acpiProcessorId'', 8), (''apicId'', 8), (''flags'', 32)]"

definition IoApicDescriptor :: layout where
  "IoApicDescriptor = [(''type'', 8), (''length'', 8), (''ioapicId'', 8), (''reserved'', 8), (''ioapicAddress'', 32),
    (''globalSystemInterruptBase'', 32)]"

record madt =
  m_localApics :: "u64 list"
  m_ioApics :: "IoApic list"

definition table_length :: "mem \<Rightarrow> u64 \<Rightarrow> u32" where
  "table_length m a = load32 m (a + 4)"

definition lapic_enabled :: "mem \<Rightarrow> u64 \<Rightarrow> bool" where
  "lapic_enabled m p \<longleftrightarrow> load32 m (p + 4) AND 1 \<noteq> 0"

definition madt_entry :: "'d board \<Rightarrow> mem \<Rightarrow> u64 \<Rightarrow> madt \<Rightarrow> 'd machine \<Rightarrow> (madt \<times> 'd machine) option" where
  "madt_entry B m entryPtr t k =
    (let entryType = m entryPtr
     in if entryType = 0 then
          Some (if lapic_enabled m entryPtr then t\<lparr>m_localApics := m_localApics t @ [ld m entryPtr]\<rparr> else t, k)
        else if entryType = 1 then do {
          (ioapic, k) \<leftarrow> run_elevated
            (ioapic_new B (ucast (load32 m (entryPtr + 4))) (ucast (load32 m (entryPtr + 8)))) k;
          Some (t\<lparr>m_ioApics := m_ioApics t @ [ioapic]\<rparr>, k)
        }
        else Some (t, k))"

text \<open>\<open>None\<close> when the loop has no end.\<close>

partial_function (option) madt_loop ::
  "'d board \<Rightarrow> mem \<Rightarrow> u64 \<Rightarrow> u64 \<Rightarrow> madt \<Rightarrow> 'd machine \<Rightarrow> (madt \<times> 'd machine) option" where
  "madt_loop B m entryPtr madtEnd t k =
    (if entryPtr < madtEnd then do {
       (t, k) \<leftarrow> madt_entry B m entryPtr t k;
       madt_loop B m (entryPtr + ucast (m (entryPtr + 1))) madtEnd t k
     }
     else Some (t, k))"

definition madt_new :: "'d board \<Rightarrow> mem \<Rightarrow> u64 \<Rightarrow> 'd machine \<Rightarrow> (madt \<times> 'd machine) option" where
  "madt_new B m desc k =
    madt_loop B m (desc + 44) (desc + ucast (table_length m desc)) \<lparr>m_localApics = [], m_ioApics = []\<rparr> k"

definition getLocalApicDescriptor :: "madt \<Rightarrow> nat \<Rightarrow> u64 option" where
  "getLocalApicDescriptor t idx = (if idx < length (m_localApics t) then Some (m_localApics t ! idx) else None)"

definition getIoApic :: "madt \<Rightarrow> nat \<Rightarrow> IoApic option" where
  "getIoApic t idx = (if idx < length (m_ioApics t) then Some (m_ioApics t ! idx) else None)"

definition getCpuCount :: "madt \<Rightarrow> nat" where
  "getCpuCount t = length (m_localApics t)"

section \<open>The event timer\<close>

definition HPET_GENERAL_CONFIGURATION_OFFSET :: u64 where "HPET_GENERAL_CONFIGURATION_OFFSET = 0x10"
definition HPET_MAIN_COUNTER_OFFSET :: u64 where "HPET_MAIN_COUNTER_OFFSET = 0xF0"

definition HpetTable :: layout where
  "HpetTable = AcpiTableHeader @ [(''hardwareRevId'', 8), (''comparatorCount'', 5), (''counterSize'', 1), (''reserved'', 1),
    (''legacyReplacement'', 1), (''pciVendorId'', 16), (''addressSpaceId'', 8), (''registerBitWidth'', 8),
    (''registerBitOffset'', 8), (''reserved2'', 8), (''address'', 64)]"

definition hpet_new :: "'d board \<Rightarrow> mem \<Rightarrow> u64 \<Rightarrow> 'd machine \<Rightarrow> (u64 \<times> 'd machine) option" where
  "hpet_new B m table k =
    map_device B (load64 m (table + offsetof HpetTable ''address'')) (ucast USERSPACE_PAGE) 0 k"

definition hpet_init :: "'d board \<Rightarrow> u64 \<Rightarrow> 'd machine \<Rightarrow> 'd machine option" where
  "hpet_init B base k = do {
     (genConfig, k) \<leftarrow> reg_read64 B (base + HPET_GENERAL_CONFIGURATION_OFFSET) k;
     reg_write64 B (base + HPET_GENERAL_CONFIGURATION_OFFSET) (genConfig OR 1) k
   }"

definition hpet_readCounter :: "'d board \<Rightarrow> u64 \<Rightarrow> 'd machine \<Rightarrow> (u64 \<times> 'd machine) option" where
  "hpet_readCounter B base k = reg_read64 B (base + HPET_MAIN_COUNTER_OFFSET) k"

definition hpet_frequency :: "u64 \<Rightarrow> u64" where
  "hpet_frequency gcIdReg =
    (let clockPeriodFs = (ucast (drop_bit 32 gcIdReg) :: u32)
     in if clockPeriodFs = 0 then 0 else 1000000000000000 div ucast clockPeriodFs)"

definition qeueryFrequency :: "'d board \<Rightarrow> u64 \<Rightarrow> 'd machine \<Rightarrow> (u64 \<times> 'd machine) option" where
  "qeueryFrequency B base k = do {
     (gcIdReg, k) \<leftarrow> reg_read64 B base k;
     Some (hpet_frequency gcIdReg, k)
   }"

section \<open>Byte code\<close>

function pkg_bytes :: "mem \<Rightarrow> u64 \<Rightarrow> u32 \<Rightarrow> u32 \<Rightarrow> u8 \<Rightarrow> u32 \<times> u8" where
  "pkg_bytes m p byte_count package_length zmask =
    (if byte_count \<noteq> 0
     then pkg_bytes m p (byte_count - 1)
       (package_length OR push_bit (unat (push_bit 3 byte_count - 4)) (ucast (m (p + ucast byte_count)))) 0x0F
     else (package_length, zmask))"
  by pat_completeness auto
termination
  by (relation "measure (\<lambda>(m, p, n, l, b). unat n)") (auto simp: unat_minus_one unat_gt_0)

text \<open>The length and the pointer behind the encoding.\<close>

definition parsePkgLength :: "mem \<Rightarrow> u64 \<Rightarrow> u32 \<times> u64" where
  "parsePkgLength m amlPointer =
    (let byte_count = ucast (drop_bit 6 (m amlPointer));
         amlPointer = amlPointer + (ucast byte_count + 1);
         (package_length, byte_zero_mask) = pkg_bytes m amlPointer byte_count 0 0x3F
     in (package_length OR ucast (m amlPointer AND byte_zero_mask), amlPointer))"

text \<open>The copy loop of \<open>parseNameObject\<close>; \<open>None\<close> is a write beyond the buffer or no end.\<close>

partial_function (option) copy_name :: "mem \<Rightarrow> u64 \<Rightarrow> nat \<Rightarrow> u8 list \<Rightarrow> (u8 list \<times> nat \<times> u64) option" where
  "copy_name m amlPointer i buffer =
    (if i < length buffer then
       (let buffer = buffer[i := m amlPointer]
        in if m amlPointer \<noteq> 0
           then copy_name m (amlPointer + 1) (if i < 256 - 2 then i + 1 else i) buffer
           else Some (buffer, i, amlPointer))
     else None)"

definition ascii :: "string \<Rightarrow> u8 list" where
  "ascii s = map of_char s"

text \<open>The pointer afterwards and the string found.\<close>

definition parseNameObject :: "mem \<Rightarrow> u64 \<Rightarrow> (u64 \<times> u8 list option) option" where
  "parseNameObject m amlPointer =
    (let amlPointer = amlPointer + 4;
         dataType = m amlPointer;
         amlPointer = amlPointer + 1
     in if dataType = 0x0D then do {
          (buffer, i, amlPointer) \<leftarrow> copy_name m amlPointer 0 (replicate 256 0);
          let buffer = buffer[i := 0];
          Some (amlPointer, Some buffer)
        }
        else Some (amlPointer, None))"

definition is_xhci_hid :: "u8 list \<Rightarrow> bool" where
  "is_xhci_hid buffer \<longleftrightarrow> take 7 buffer = ascii ''PNP0D10'' \<or> take 13 buffer = ascii (''ACPI'' @ [CHR 0x5C] @ ''80860F35'')"

definition bytes_at :: "mem \<Rightarrow> u64 \<Rightarrow> nat \<Rightarrow> u8 list" where
  "bytes_at m a n = map (\<lambda>i. m (a + of_nat i)) [0..<n]"

partial_function (option) dsdt_device :: "mem \<Rightarrow> u64 \<Rightarrow> u64 \<Rightarrow> u8 list list \<Rightarrow> u8 list list option" where
  "dsdt_device m amlPointer deviceEnd hids =
    (if amlPointer < deviceEnd then
       (if m amlPointer = 0x08 then
          (let amlPointer = amlPointer + 1
           in if bytes_at m amlPointer 4 = ascii ''_HID'' then do {
                (amlPointer, s) \<leftarrow> parseNameObject m amlPointer;
                dsdt_device m amlPointer deviceEnd (hids @ (case s of None \<Rightarrow> [] | Some b \<Rightarrow> [b]))
              }
              else dsdt_device m (amlPointer + 4) deviceEnd hids)
        else dsdt_device m (amlPointer + 1) deviceEnd hids)
     else Some hids)"

partial_function (option) dsdt_loop :: "mem \<Rightarrow> u64 \<Rightarrow> u64 \<Rightarrow> u8 list list \<Rightarrow> u8 list list option" where
  "dsdt_loop m amlPointer amlEnd hids =
    (if amlPointer < amlEnd then
       (let opcode = m amlPointer; amlPointer = amlPointer + 1
        in if opcode = 0x82 then
             (let (pkgLength, amlPointer) = parsePkgLength m amlPointer;
                  deviceEnd = amlPointer + ucast pkgLength
              in do {
                hids \<leftarrow> dsdt_device m amlPointer deviceEnd hids;
                dsdt_loop m deviceEnd amlEnd hids
              })
           else dsdt_loop m amlPointer amlEnd hids)
     else Some hids)"

text \<open>The strings printed.\<close>

definition parseDsdt :: "mem \<Rightarrow> u64 \<Rightarrow> u8 list list option" where
  "parseDsdt m dsdt = dsdt_loop m (dsdt + 36) (dsdt + ucast (table_length m dsdt)) []"

section \<open>The controller\<close>

record acpi =
  m_xsdt :: u64
  m_madt :: "madt option"
  m_hpet :: "u64 option"
  m_mcfg :: "PciDeviceInfo list option"
  m_acpiTableEntries :: u64

text \<open>
  The surroundings: the tables in memory, the mapped configuration space, the value of the
  uninitialised variable of the enumeration, and the offset of the linear region.
\<close>

record acpi_world =
  aw_tables :: mem
  aw_ecam :: mem
  aw_stack :: u32
  aw_off :: u64

definition has_sig :: "mem \<Rightarrow> u64 \<Rightarrow> string \<Rightarrow> bool" where
  "has_sig m a s \<longleftrightarrow> bytes_at m a 4 = ascii s"

definition mcfg_new :: "'d board \<Rightarrow> acpi_world \<Rightarrow> u64 \<Rightarrow> 'd machine \<Rightarrow> (PciDeviceInfo list \<times> 'd machine) option" where
  "mcfg_new B W table k = do {
     let P = \<lparr>pw_ports = io_ports B, pw_ecam = aw_ecam W, pw_tables = aw_tables W, pw_stack = aw_stack W,
       pw_lin = linear B, pw_root = g_kernelRootPageTable k\<rparr>;
     s \<leftarrow> enumeratePciDevices P table \<lparr>ms_pages = page_frames k, ms_ports = device k, m_devices = []\<rparr>;
     Some (m_devices s, k\<lparr>page_frames := ms_pages s, device := ms_ports s\<rparr>)
   }"

definition acpi_table :: "'d board \<Rightarrow> acpi_world \<Rightarrow> u64 \<Rightarrow> acpi \<times> 'd machine \<Rightarrow> (acpi \<times> 'd machine) option" where
  "acpi_table B W i s = do {
     let (a, k) = s;
     let m = aw_tables W;
     let table = load64 m (m_xsdt a + 36 + 8 * i);
     if has_sig m table ''APIC'' then do {
       (t, k) \<leftarrow> madt_new B m table k;
       Some (a\<lparr>m_madt := Some t\<rparr>, k)
     }
     else if has_sig m table ''FACP'' then Some (a, k)
     else if has_sig m table ''SSDT'' then Some (a, k)
     else if has_sig m table ''MCFG'' then do {
       (ds, k) \<leftarrow> mcfg_new B W table k;
       Some (a\<lparr>m_mcfg := Some ds\<rparr>, k)
     }
     else if has_sig m table ''HPET'' then do {
       (base, k) \<leftarrow> hpet_new B m table k;
       Some (a\<lparr>m_hpet := Some base\<rparr>, k)
     }
     else Some (a, k)
   }"

text \<open>The address of the root table is at offset 24 of the root pointer.\<close>

definition acpi_init :: "'d board \<Rightarrow> acpi_world \<Rightarrow> u64 \<Rightarrow> acpi \<times> 'd machine \<Rightarrow> (acpi \<times> 'd machine) option" where
  "acpi_init B W rsdp s =
    (let (a, k) = s; m = aw_tables W;
         a = a\<lparr>m_xsdt := physToVirtAddr (aw_off W) (load64 m (rsdp + 24))\<rparr>;
         a = a\<lparr>m_acpiTableEntries := (ucast (table_length m (m_xsdt a)) - 36) div 8\<rparr>
     in for_up (acpi_table B W) 0 (m_acpiTableEntries a) (a, k))"

definition hasApicTable :: "acpi \<Rightarrow> bool" where "hasApicTable a \<longleftrightarrow> m_madt a \<noteq> None"
definition hasHpetTable :: "acpi \<Rightarrow> bool" where "hasHpetTable a \<longleftrightarrow> m_hpet a \<noteq> None"
definition hasPciDeviceTable :: "acpi \<Rightarrow> bool" where "hasPciDeviceTable a \<longleftrightarrow> m_mcfg a \<noteq> None"

section \<open>Time\<close>

definition IRQ0 :: u8 where "IRQ0 = 32"
definition IRQ1 :: u8 where "IRQ1 = 33"

definition rdtsc :: "'d board \<Rightarrow> 'd machine \<Rightarrow> u64 \<times> 'd machine" where
  "rdtsc B k =
    (let ((lo, hi), d) = cpu_rdtsc B (this_cpu k) (device k)
     in (ucast lo OR push_bit 32 (ucast hi), k\<lparr>device := d\<rparr>))"

text \<open>\<open>None\<close> is the access through the null pointer when there is no timer.\<close>

definition ktimer_init :: "'d board \<Rightarrow> acpi \<Rightarrow> 'd machine \<Rightarrow> 'd machine option" where
  "ktimer_init B a k = do {
     let k = k\<lparr>g_precisionTimerInstance := m_hpet a\<rparr>;
     base \<leftarrow> g_precisionTimerInstance k;
     k \<leftarrow> hpet_init B base k;
     (f, k) \<leftarrow> qeueryFrequency B base k;
     let k = k\<lparr>g_hardwareFrequency := f\<rparr>;
     (_, k) \<leftarrow> run_elevated (\<lambda>k. Some ((), k)) k;
     Some k
   }"

partial_function (option) wait_elapsed :: "'d board \<Rightarrow> u64 \<Rightarrow> u64 \<Rightarrow> 'd machine \<Rightarrow> 'd machine option" where
  "wait_elapsed B base start k = do {
     (c, k) \<leftarrow> hpet_readCounter B base k;
     if c - start < g_hardwareFrequency k then wait_elapsed B base start k else Some k
   }"

definition calibrateApicTimer :: "'d board \<Rightarrow> u64 \<Rightarrow> 'd machine \<Rightarrow> 'd machine option" where
  "calibrateApicTimer B milliseconds k = do {
     (_, k) \<leftarrow> run_elevated (\<lambda>k. Some ((), k\<lparr>interrupts_on := False\<rparr>)) k;
     k \<leftarrow> setupOneShot B IRQ0 1 0xffffffff k;
     base \<leftarrow> g_precisionTimerInstance k;
     (hpetStart, k) \<leftarrow> hpet_readCounter B base k;
     let (rdtscStart, k) = rdtsc B k;
     k \<leftarrow> timer_start B k;
     k \<leftarrow> wait_elapsed B base hpetStart k;
     (apicEnd, k) \<leftarrow> timer_stop B k;
     let (rdtscEnd, k) = rdtsc B k;
     (_, k) \<leftarrow> run_elevated (\<lambda>k. Some ((), k\<lparr>interrupts_on := True\<rparr>)) k;
     Some (k\<lparr>s_apicTicksCalibratedFrequency := (ucast (0xffffffff - apicEnd) div 1000) * milliseconds,
       s_tscTicksCalibratedFrequency := rdtscEnd - rdtscStart\<rparr>)
   }"

definition startApicPeriodicTimer :: "'d board \<Rightarrow> 'd machine \<Rightarrow> 'd machine option" where
  "startApicPeriodicTimer B k = do {
     k \<leftarrow> setupPeriodic B IRQ0 1 (ucast (s_apicTicksCalibratedFrequency k)) k;
     timer_start B k
   }"

definition getSystemTime :: "'d board \<Rightarrow> 'd machine \<Rightarrow> (u64 \<times> 'd machine) option" where
  "getSystemTime B k = do { base \<leftarrow> g_precisionTimerInstance k; hpet_readCounter B base k }"

text \<open>Whole seconds times the unit; \<open>None\<close> is the division by zero.\<close>

definition system_time_in :: "u64 \<Rightarrow> 'd board \<Rightarrow> 'd machine \<Rightarrow> (u64 \<times> 'd machine) option" where
  "system_time_in units B k = do {
     (t, k) \<leftarrow> getSystemTime B k;
     if g_hardwareFrequency k = 0 then None else Some (t div g_hardwareFrequency k * units, k)
   }"

definition getSystemTimeInNanoseconds :: "'d board \<Rightarrow> 'd machine \<Rightarrow> (u64 \<times> 'd machine) option" where
  "getSystemTimeInNanoseconds B k = system_time_in 1000000000 B k"
definition getSystemTimeInMicroseconds :: "'d board \<Rightarrow> 'd machine \<Rightarrow> (u64 \<times> 'd machine) option" where
  "getSystemTimeInMicroseconds B k = system_time_in 1000000 B k"
definition getSystemTimeInMilliseconds :: "'d board \<Rightarrow> 'd machine \<Rightarrow> (u64 \<times> 'd machine) option" where
  "getSystemTimeInMilliseconds B k = system_time_in 1000 B k"
definition getSystemTimeInSeconds :: "'d board \<Rightarrow> 'd machine \<Rightarrow> (u64 \<times> 'd machine) option" where
  "getSystemTimeInSeconds B k = system_time_in 1 B k"

partial_function (option) wait_until :: "'d board \<Rightarrow> u64 \<Rightarrow> u64 \<Rightarrow> 'd machine \<Rightarrow> 'd machine option" where
  "wait_until B base limit k = do {
     (c, k) \<leftarrow> hpet_readCounter B base k;
     if c < limit then wait_until B base limit k else Some k
   }"

definition sleep_ticks :: "'d board \<Rightarrow> (u64 \<Rightarrow> u64) \<Rightarrow> 'd machine \<Rightarrow> 'd machine option" where
  "sleep_ticks B ticks k = do {
     base \<leftarrow> g_precisionTimerInstance k;
     (start, k) \<leftarrow> hpet_readCounter B base k;
     wait_until B base (start + ticks (g_hardwareFrequency k)) k
   }"

definition sleep_s :: "'d board \<Rightarrow> u32 \<Rightarrow> 'd machine \<Rightarrow> 'd machine option" where
  "sleep_s B seconds k = sleep_ticks B (\<lambda>f. ucast seconds * f) k"
definition msleep :: "'d board \<Rightarrow> u32 \<Rightarrow> 'd machine \<Rightarrow> 'd machine option" where
  "msleep B milliseconds k = sleep_ticks B (\<lambda>f. ucast milliseconds * (f div 1000)) k"
definition usleep :: "'d board \<Rightarrow> u32 \<Rightarrow> 'd machine \<Rightarrow> 'd machine option" where
  "usleep B microseconds k = sleep_ticks B (\<lambda>f. ucast microseconds * (f div 1000000)) k"
definition nanosleep :: "'d board \<Rightarrow> u32 \<Rightarrow> 'd machine \<Rightarrow> 'd machine option" where
  "nanosleep B nanoseconds k = sleep_ticks B (\<lambda>f. ucast nanoseconds * (f div 1000000000)) k"

section \<open>Sleeping\<close>

text \<open>
  The documented behaviour of the timer at \<open>base\<close>: the main counter never goes back, a read shows
  its value, advances by at most \<open>s\<close> ticks, and shows the same value only finitely often in a
  row (at most \<open>stall\<close> times). \<open>ticks\<close> is the number of ticks since the start, without bound.
\<close>

definition hpet_device :: "'d board \<Rightarrow> u64 \<Rightarrow> ('d \<Rightarrow> nat) \<Rightarrow> ('d \<Rightarrow> nat) \<Rightarrow> nat \<Rightarrow> bool" where
  "hpet_device B base ticks stall s \<longleftrightarrow> (\<forall>c d v d'. bus_read64 B c (base + 0xF0) d = (v, d') \<longrightarrow>
    v = of_nat (ticks d') \<and> ticks d \<le> ticks d' \<and> ticks d' \<le> ticks d + s \<and> (ticks d' = ticks d \<longrightarrow> stall d' < stall d))"

lemma hpet_readCounter_ok:
  assumes "hpet_device B base ticks stall s" "maps_page k va base"
  obtains d where "hpet_readCounter B va k = Some (of_nat (ticks d), k\<lparr>device := d\<rparr>)" "ticks (device k) \<le> ticks d"
    "ticks d \<le> ticks (device k) + s" "ticks d = ticks (device k) \<Longrightarrow> stall d < stall (device k)"
    "maps_page (k\<lparr>device := d\<rparr>) va base"
proof -
  obtain v d where r: "bus_read64 B (this_cpu k) (base + 0xF0) (device k) = (v, d)" by fastforce
  have "(0xF0 :: nat) < 4096" by simp
  with assms(2) have "phys_of k (va + of_nat 0xF0) = Some (base + of_nat 0xF0)" unfolding maps_page_def by blast
  then have p: "phys_of k (va + 0xF0) = Some (base + 0xF0)" by simp
  have "v = of_nat (ticks d)" "ticks (device k) \<le> ticks d" "ticks d \<le> ticks (device k) + s"
    "ticks d = ticks (device k) \<longrightarrow> stall d < stall (device k)"
    using assms(1) r unfolding hpet_device_def by blast+
  then show thesis
    using that [of d] p r assms(2)
    by (simp add: same_tables_maps [OF same_tables_device] hpet_readCounter_def reg_read64_def HPET_MAIN_COUNTER_OFFSET_def)
qed

lemma wait_until_returns:
  fixes B :: "'d board"
  assumes dev: "hpet_device B base ticks stall s" and L: "L + s < 2 ^ 64"
  shows "maps_page k va base \<Longrightarrow> ticks (device k) \<le> L \<Longrightarrow>
    \<exists>k'. wait_until B va (of_nat L) k = Some k' \<and> L \<le> ticks (device k')"
proof (induction k rule: wf_induct_rule [OF wf_measures, of "[\<lambda>k. L - ticks (device k), \<lambda>k. stall (device k)]"])
  case (1 k)
  obtain d where d: "hpet_readCounter B va k = Some (of_nat (ticks d), k\<lparr>device := d\<rparr>)" "ticks (device k) \<le> ticks d"
    "ticks d \<le> ticks (device k) + s" "ticks d = ticks (device k) \<Longrightarrow> stall d < stall (device k)"
    "maps_page (k\<lparr>device := d\<rparr>) va base"
    using hpet_readCounter_ok [OF dev 1(2)] by blast
  have u: "unat (of_nat (ticks d) :: u64) = ticks d" "unat (of_nat L :: u64) = L"
    using d(3) 1(3) L by (auto intro!: unat64_of_nat)
  then have c: "(of_nat (ticks d) :: u64) < of_nat L \<longleftrightarrow> ticks d < L" by (simp add: word_less_nat_alt)
  show ?case
  proof (cases "ticks d < L")
    case False
    then show ?thesis using d(1) c by (subst wait_until.simps) simp
  next
    case True
    have "(k\<lparr>device := d\<rparr>, k) \<in> measures [\<lambda>k. L - ticks (device k), \<lambda>k. stall (device k)]"
      using d(2,4) True by (cases "ticks d = ticks (device k)") auto
    from 1(1) [OF this d(5)] True
    obtain k' where "wait_until B va (of_nat L) (k\<lparr>device := d\<rparr>) = Some k'" "L \<le> ticks (device k')" by auto
    then show ?thesis using d(1) c True by (subst wait_until.simps) simp
  qed
qed

text \<open>
  C34: \<open>msleep\<close> sleeps. On a timer that counts, as long as the 64-bit counter does not wrap during
  the wait, the call returns, and by then the counter has advanced by at least the milliseconds
  asked for times the ticks per millisecond.
\<close>

theorem msleep_waits:
  assumes dev: "hpet_device B base ticks stall s" and va: "g_precisionTimerInstance k = Some va" "maps_page k va base"
    and w: "ticks (device k) + s + unat ms * (unat (g_hardwareFrequency k) div 1000) + s < 2 ^ 64"
  shows "\<exists>k'. msleep B ms k = Some k' \<and>
    ticks (device k) + unat ms * (unat (g_hardwareFrequency k) div 1000) \<le> ticks (device k')"
proof -
  let ?n = "unat ms * (unat (g_hardwareFrequency k) div 1000)"
  obtain d where d: "hpet_readCounter B va k = Some (of_nat (ticks d), k\<lparr>device := d\<rparr>)" "ticks (device k) \<le> ticks d"
    "ticks d \<le> ticks (device k) + s" "maps_page (k\<lparr>device := d\<rparr>) va base"
    using hpet_readCounter_ok [OF dev va(2)] by blast
  have "(ucast ms :: u64) * (g_hardwareFrequency k div 1000) = of_nat ?n"
  proof -
    have "(ucast ms :: u64) = of_nat (unat ms)" by simp
    moreover have "g_hardwareFrequency k div 1000 = of_nat (unat (g_hardwareFrequency k div 1000))" by simp
    ultimately show ?thesis by (simp only: of_nat_mult unat_div_distrib) simp
  qed
  then have n: "of_nat (ticks d) + (ucast ms :: u64) * (g_hardwareFrequency k div 1000) = of_nat (ticks d + ?n)" by simp
  have "ticks d + ?n + s < 2 ^ 64" using w d(3) by simp
  from wait_until_returns [OF dev this d(4)]
  obtain k' where "wait_until B va (of_nat (ticks d + ?n)) (k\<lparr>device := d\<rparr>) = Some k'" "ticks d + ?n \<le> ticks (device k')"
    by auto
  then show ?thesis using va d n by (auto simp: msleep_def sleep_ticks_def)
qed

text \<open>
  \<open>nanosleep\<close> does not sleep. With a timer below 1 GHz the ticks per nanosecond are
  truncated to zero: a call with any argument is a call with the argument 0.
\<close>

theorem nanosleep_no_wait:
  assumes "g_hardwareFrequency k < 1000000000"
  shows "nanosleep B ns k = nanosleep B 0 k"
proof -
  have "g_hardwareFrequency k div 1000000000 = 0" using assms by (simp add: div_word_less)
  moreover have "g_hardwareFrequency k' = g_hardwareFrequency k"
    if "hpet_readCounter B va k = Some (c, k')" for va c k'
    using that
    by (cases "phys_of k (va + HPET_MAIN_COUNTER_OFFSET)")
      (auto simp: hpet_readCounter_def reg_read64_def Let_def split_def)
  ultimately show ?thesis
    by (auto simp: nanosleep_def sleep_ticks_def split: Option.bind_splits)
qed

section \<open>Parsing the interrupt controller table\<close>

text \<open>
  A table of entries as the specification lays it out: the second byte of an entry is its length.
  \<open>entry_addrs\<close> are the addresses at which the entries start.
\<close>

definition entry_ok :: "u8 list \<Rightarrow> bool" where
  "entry_ok e \<longleftrightarrow> 2 \<le> length e \<and> length e < 256 \<and> e ! 1 = of_nat (length e)"

definition entries_at :: "mem \<Rightarrow> u64 \<Rightarrow> u8 list list \<Rightarrow> bool" where
  "entries_at m a es \<longleftrightarrow> (\<forall>i < length (concat es). m (a + of_nat i) = concat es ! i)"

primrec entry_addrs :: "u64 \<Rightarrow> u8 list list \<Rightarrow> u64 list" where
  "entry_addrs a [] = []"
| "entry_addrs a (e # es) = a # entry_addrs (a + of_nat (length e)) es"

lemma entries_at_Cons:
  assumes "entries_at m a (e # es)"
  shows "i < length e \<Longrightarrow> m (a + of_nat i) = e ! i" "entries_at m (a + of_nat (length e)) es"
proof -
  show "m (a + of_nat i) = e ! i" if "i < length e"
    using assms that by (auto simp: entries_at_def nth_append)
  show "entries_at m (a + of_nat (length e)) es"
    unfolding entries_at_def
  proof (intro allI impI)
    fix i assume "i < length (concat es)"
    then have "m (a + of_nat (length e + i)) = concat (e # es) ! (length e + i)"
      using assms unfolding entries_at_def by (auto simp del: of_nat_add)
    then show "m (a + of_nat (length e) + of_nat i) = concat es ! i" by (simp add: add.assoc)
  qed
qed

lemma elevated_frames [simp]:
  fixes k :: "'d machine"
  shows "frames_ok B off n c (kelevate k) = frames_ok B off n c k" "frames_ok B off n c (klower k) = frames_ok B off n c k"
    "maps_page (kelevate k) a p = maps_page k a p" "maps_page (klower k) a p = maps_page k a p"
  by (simp_all add: frames_ok_def maps_page_def phys_of_def)

lemma elevated_ioapic_new:
  fixes B :: "'d board" and k :: "'d machine"
  assumes fo: "frames_ok B off n (c + 4) k" and pa: "unat pa mod 4096 = 0" "unat pa < 2 ^ 48"
  obtains io k' where "run_elevated (ioapic_new B pa gsib) k = Some (io, k')" "frames_ok B off n c k'"
    "m_virtualBase io \<notin> supply_own off n (page_frames k)" "m_globalIntrBase io = gsib"
    "insert (m_virtualBase io) (supply_own off n (page_frames k)) \<subseteq> supply_own off n (page_frames k')"
    "maps_page k' (m_virtualBase io) pa"
    "\<And>w p. w \<in> supply_own off n (page_frames k) \<Longrightarrow> maps_page k w p \<Longrightarrow> maps_page k' w p"
proof (cases "kcheck_elevated k")
  case True
  obtain io k' where "ioapic_new B pa gsib k = Some (io, k')" "frames_ok B off n c k'"
    "m_virtualBase io \<notin> supply_own off n (page_frames k)" "m_globalIntrBase io = gsib"
    "insert (m_virtualBase io) (supply_own off n (page_frames k)) \<subseteq> supply_own off n (page_frames k')"
    "maps_page k' (m_virtualBase io) pa"
    "\<And>w p. w \<in> supply_own off n (page_frames k) \<Longrightarrow> maps_page k w p \<Longrightarrow> maps_page k' w p"
    by (rule ioapic_new_ok [OF fo pa, of gsib]) blast
  with True that show thesis by (simp add: run_elevated_def)
next
  case False
  have "frames_ok B off n (c + 4) (kelevate k)" using fo by simp
  then obtain io k' where "ioapic_new B pa gsib (kelevate k) = Some (io, k')" "frames_ok B off n c k'"
    "m_virtualBase io \<notin> supply_own off n (page_frames (kelevate k))" "m_globalIntrBase io = gsib"
    "insert (m_virtualBase io) (supply_own off n (page_frames (kelevate k))) \<subseteq> supply_own off n (page_frames k')"
    "maps_page k' (m_virtualBase io) pa"
    "\<And>w p. w \<in> supply_own off n (page_frames (kelevate k)) \<Longrightarrow> maps_page (kelevate k) w p \<Longrightarrow> maps_page k' w p"
    by (rule ioapic_new_ok [OF _ pa, of B off n c "kelevate k" gsib]) blast
  with False that [of io "klower k'"] show thesis by (simp add: run_elevated_def)
qed

lemma unat_ucast_32_64: "unat (ucast (x :: u32) :: u64) = unat x"
proof -
  have "unat x < 2 ^ 32" using unsigned_less [of x, where 'a = nat] by simp
  then have "unat x < 2 ^ 64" by simp
  then show ?thesis by (simp add: unsigned_ucast_eq take_bit_nat_eq_self)
qed

definition ioapics_mapped :: "'d machine \<Rightarrow> mem \<Rightarrow> IoApic list \<Rightarrow> u64 list \<Rightarrow> bool" where
  "ioapics_mapped k m ios ps \<longleftrightarrow> list_all2 (\<lambda>io p. maps_page k (m_virtualBase io) (ucast (load32 m (p + 4))) \<and>
    m_globalIntrBase io = ucast (load32 m (p + 8))) ios ps"

lemma madt_loop_ok:
  fixes B :: "'d board"
  assumes "list_all entry_ok es" "entries_at m a es" "unat a + length (concat es) < 2 ^ 64"
    and "\<forall>p \<in> set (entry_addrs a es). m p = 1 \<longrightarrow> unat (load32 m (p + 4)) mod 4096 = 0"
    and "frames_ok B off n (c + 4 * length (filter (\<lambda>p. m p = 1) (entry_addrs a es))) k"
  shows "\<exists>ios k'. madt_loop B m a (a + of_nat (length (concat es))) t k =
      Some (\<lparr>m_localApics = m_localApics t @ map (ld m) (filter (\<lambda>p. m p = 0 \<and> lapic_enabled m p) (entry_addrs a es)),
        m_ioApics = m_ioApics t @ ios\<rparr>, k') \<and> frames_ok B off n c k' \<and>
    ioapics_mapped k' m ios (filter (\<lambda>p. m p = 1) (entry_addrs a es)) \<and>
    supply_own off n (page_frames k) \<subseteq> supply_own off n (page_frames k') \<and>
    (\<forall>w p. w \<in> supply_own off n (page_frames k) \<longrightarrow> maps_page k w p \<longrightarrow> maps_page k' w p)"
  using assms
proof (induction es arbitrary: a t k)
  case Nil
  then show ?case by (subst madt_loop.simps) (simp add: ioapics_mapped_def)
next
  case (Cons e es)
  let ?a' = "a + of_nat (length e)" and ?E = "a + of_nat (length (concat (e # es)))"
  have eo: "entry_ok e" "list_all entry_ok es" using Cons.prems(1) by simp_all
  then have ok: "2 \<le> length e" "length e < 256" "e ! 1 = of_nat (length e)" "list_all entry_ok es"
    by (simp_all only: entry_ok_def)
  have m1: "m (a + 1) = of_nat (length e)" using entries_at_Cons(1) [OF Cons.prems(2), of 1] ok by simp
  have u8: "(ucast (of_nat (length e) :: u8) :: u64) = of_nat (length e)"
    using ok(2) by (simp add: word_unat_eq_iff unsigned_ucast_eq unat64_of_nat unat_of_nat_less take_bit_nat_eq_self)
  have lt: "a < ?E"
    using Cons.prems(3) ok(1) by (cases e) (simp_all add: word_less_nat_alt unat_word_ariths unat64_of_nat)
  have E: "?E = ?a' + of_nat (length (concat es))" by simp
  have wr: "unat ?a' + length (concat es) < 2 ^ 64"
    using Cons.prems(3) by (simp add: unat_word_ariths unat64_of_nat)
  have un: "madt_loop B m a ?E t k = do { (t, k) \<leftarrow> madt_entry B m a t k; madt_loop B m ?a' ?E t k }" for t k
    using lt m1 u8 by (subst madt_loop.simps) simp
  note IH = Cons.IH [OF ok(4) entries_at_Cons(2) [OF Cons.prems(2)] wr]
  have al: "\<forall>p \<in> set (entry_addrs ?a' es). m p = 1 \<longrightarrow> unat (load32 m (p + 4)) mod 4096 = 0" using Cons.prems(4) by simp
  show ?case
  proof (cases "m a = 1")
    case False
    have fo: "frames_ok B off n (c + 4 * length (filter (\<lambda>p. m p = 1) (entry_addrs ?a' es))) k"
      using Cons.prems(5) False by simp
    define t1 where "t1 = (if m a = 0 \<and> lapic_enabled m a then t\<lparr>m_localApics := m_localApics t @ [ld m a]\<rparr> else t)"
    have "madt_entry B m a t k = Some (t1, k)" using False by (simp add: madt_entry_def t1_def Let_def)
    then have "madt_loop B m a ?E t k = madt_loop B m ?a' ?E t1 k" using un by simp
    moreover obtain ios k' where "madt_loop B m ?a' ?E t1 k =
      Some (\<lparr>m_localApics = m_localApics t1 @ map (ld m) (filter (\<lambda>p. m p = 0 \<and> lapic_enabled m p) (entry_addrs ?a' es)),
        m_ioApics = m_ioApics t1 @ ios\<rparr>, k')" "frames_ok B off n c k'"
      "ioapics_mapped k' m ios (filter (\<lambda>p. m p = 1) (entry_addrs ?a' es))"
      "supply_own off n (page_frames k) \<subseteq> supply_own off n (page_frames k')"
      "\<forall>w p. w \<in> supply_own off n (page_frames k) \<longrightarrow> maps_page k w p \<longrightarrow> maps_page k' w p"
      using IH [OF al fo, of t1] unfolding E by blast
    ultimately show ?thesis using False by (auto simp: t1_def)
  next
    case True
    have fo: "frames_ok B off n (c + 4 * length (filter (\<lambda>p. m p = 1) (entry_addrs ?a' es)) + 4) k"
      using Cons.prems(5) True by (simp add: ac_simps)
    let ?pa = "ucast (load32 m (a + 4)) :: u64" and ?g = "ucast (load32 m (a + 8)) :: u64"
    have "unat ?pa = unat (load32 m (a + 4))" by (rule unat_ucast_32_64)
    then have pa: "unat ?pa mod 4096 = 0" "unat ?pa < 2 ^ 48"
      using Cons.prems(4) True unsigned_less [of "load32 m (a + 4)", where 'a = nat] by simp_all
    obtain io k1 where 1: "run_elevated (ioapic_new B ?pa ?g) k = Some (io, k1)"
      "frames_ok B off n (c + 4 * length (filter (\<lambda>p. m p = 1) (entry_addrs ?a' es))) k1" "m_globalIntrBase io = ?g"
      "insert (m_virtualBase io) (supply_own off n (page_frames k)) \<subseteq> supply_own off n (page_frames k1)"
      "maps_page k1 (m_virtualBase io) ?pa"
      "\<And>w p. w \<in> supply_own off n (page_frames k) \<Longrightarrow> maps_page k w p \<Longrightarrow> maps_page k1 w p"
      by (rule elevated_ioapic_new [OF fo pa, of ?g]) blast
    let ?t1 = "t\<lparr>m_ioApics := m_ioApics t @ [io]\<rparr>"
    have "madt_entry B m a t k = Some (?t1, k1)" using True 1(1) by (simp add: madt_entry_def Let_def)
    then have "madt_loop B m a ?E t k = madt_loop B m ?a' ?E ?t1 k1" using un by simp
    moreover obtain ios k' where 2: "madt_loop B m ?a' ?E ?t1 k1 =
      Some (\<lparr>m_localApics = m_localApics ?t1 @ map (ld m) (filter (\<lambda>p. m p = 0 \<and> lapic_enabled m p) (entry_addrs ?a' es)),
        m_ioApics = m_ioApics ?t1 @ ios\<rparr>, k')" "frames_ok B off n c k'"
      "ioapics_mapped k' m ios (filter (\<lambda>p. m p = 1) (entry_addrs ?a' es))"
      "supply_own off n (page_frames k1) \<subseteq> supply_own off n (page_frames k')"
      "\<forall>w p. w \<in> supply_own off n (page_frames k1) \<longrightarrow> maps_page k1 w p \<longrightarrow> maps_page k' w p"
      using IH [OF al 1(2), of ?t1] unfolding E by blast
    moreover have "maps_page k' (m_virtualBase io) ?pa" using 2(5) 1(4,5) by blast
    ultimately show ?thesis
      using True 1(3,4,6) by (intro exI [of _ "io # ios"] exI [of _ k']) (auto simp: ioapics_mapped_def)
  qed
qed

text \<open>
  C33: the interrupt controller table. On a table that is a sequence of entries as the
  specification lays them out, with page-aligned controllers and memory for their pages, the
  constructor returns; its local controllers are the enabled entries of type 0 in the table's order,
  and its I/O controllers are those of type 1 in order, each with the interrupt base of its
  entry and a page mapped to the address of its entry.
\<close>

theorem madt_new_parses:
  assumes "list_all entry_ok es" "entries_at m (desc + 44) es" "unat (desc + 44) + length (concat es) < 2 ^ 64"
    and len: "unat (table_length m desc) = 44 + length (concat es)"
    and "\<forall>p \<in> set (entry_addrs (desc + 44) es). m p = 1 \<longrightarrow> unat (load32 m (p + 4)) mod 4096 = 0"
    and "frames_ok B off n (4 * length (filter (\<lambda>p. m p = 1) (entry_addrs (desc + 44) es))) k"
  shows "\<exists>t k'. madt_new B m desc k = Some (t, k') \<and>
    m_localApics t = map (ld m) (filter (\<lambda>p. m p = 0 \<and> lapic_enabled m p) (entry_addrs (desc + 44) es)) \<and>
    ioapics_mapped k' m (m_ioApics t) (filter (\<lambda>p. m p = 1) (entry_addrs (desc + 44) es))"
proof -
  have "(ucast (table_length m desc) :: u64) = of_nat (unat (table_length m desc))" by simp
  then have E: "desc + ucast (table_length m desc) = desc + 44 + of_nat (length (concat es))"
    unfolding len by (simp add: add.assoc)
  show ?thesis
    using madt_loop_ok [OF assms(1-3,5), of B off n 0 k "\<lparr>m_localApics = [], m_ioApics = []\<rparr>"] assms(6)
    unfolding madt_new_def E by auto
qed

text \<open>
  An entry of length 0. The loop advances by the length byte, so on a table with such an
  entry (of a type it does not know) it never returns.
\<close>

theorem madt_zero_length_hangs:
  assumes "desc + 44 < desc + ucast (table_length m desc)" "m (desc + 45) = 0" "m (desc + 44) \<notin> {0, 1}"
  shows "madt_new B m desc k = None"
proof (rule ccontr)
  let ?E = "desc + ucast (table_length m desc)" and ?t = "\<lparr>m_localApics = [], m_ioApics = []\<rparr>"
  assume "madt_new B m desc k \<noteq> None"
  then obtain r where w: "madt_loop B m (desc + 44) ?E ?t k = Some r" by (auto simp: madt_new_def)
  have "(B, m, desc + 44, ?E, ?t, k) = (B, m, desc + 44, ?E, ?t, k) \<longrightarrow> False"
  proof (rule madt_loop.raw_induct [OF _ w, where P = "\<lambda>B' m' a E t k' r. (B', m', a, E, t, k') = (B, m, desc + 44, ?E, ?t, k) \<longrightarrow> False"],
      intro impI)
    fix f :: "'a board \<Rightarrow> mem \<Rightarrow> u64 \<Rightarrow> u64 \<Rightarrow> madt \<Rightarrow> 'a machine \<Rightarrow> (madt \<times> 'a machine) option" and B' m' a E t k' r
    assume IH: "\<And>B' m' a E t k' r. f B' m' a E t k' = Some r \<Longrightarrow> (B', m', a, E, t, k') = (B, m, desc + 44, ?E, ?t, k) \<longrightarrow> False"
      and step: "(if a < E then do { (t, k) \<leftarrow> madt_entry B' m' a t k'; f B' m' (a + ucast (m' (a + 1))) E t k } else Some (t, k')) = Some r"
      and eq: "(B', m', a, E, t, k') = (B, m, desc + 44, ?E, ?t, k)"
    have "f B m (desc + 44) ?E ?t k = Some r"
      using step eq assms by (auto simp: madt_entry_def Let_def add.assoc)
    from IH [OF this] show False by simp
  qed
  then show False by simp
qed

section \<open>Instances\<close>

lemma load32_bytes: "load32 m a = ucast (m a) OR push_bit 8 (ucast (m (a + 1)) OR
  push_bit 8 (ucast (m (a + 2)) OR push_bit 8 (ucast (m (a + 3)))))"
proof -
  have "load32 m a = load_bytes (Suc (Suc (Suc (Suc 0)))) m a" by (simp add: load32_def numeral_eq_Suc)
  then show ?thesis by (simp add: add.assoc)
qed

text \<open>A timer at 0xFED00000 that counts one tick per read.\<close>

definition timer_board :: "nat board" where
  "timer_board = \<lparr>bus_read32 = (\<lambda>c a d. (0, d)), bus_write32 = (\<lambda>c a v d. d),
    bus_read64 = (\<lambda>c a d. if a = 0xfed000f0 then (of_nat (Suc d), Suc d) else (0, d)), bus_write64 = (\<lambda>c a v d. d),
    cpu_rdmsr = (\<lambda>c r d. ((0, 0), d)), cpu_wrmsr = (\<lambda>c r l h d. d), cpu_rdtsc = (\<lambda>c d. ((0, 0), d)),
    cpu_cpuid = (\<lambda>i. (0, 0, 0, 0)), cpu_wbinvd = (\<lambda>c d. d), io_ports = no_ports, linear = high_lin\<rparr>"

theorem msleep_waits_witness:
  "\<exists>k k'. g_hardwareFrequency k = 10000000 \<and> msleep timer_board 20 k = Some k' \<and> 200000 \<le> device k'"
proof -
  let ?k0 = "(machine0 (0 :: nat))\<lparr>g_hardwareFrequency := 10000000\<rparr>"
  have fo: "frames_ok timer_board 0xffff800000000000 32 (27 + 4) ?k0"
    using machine0_frames [of timer_board 0] by (simp add: timer_board_def frames_ok_def)
  have pa: "unat (0xfed00000 :: u64) mod 4096 = 0" "unat (0xfed00000 :: u64) < 2 ^ 48" by simp_all
  obtain va f where m: "maps_page (?k0\<lparr>page_frames := f\<rparr>) va 0xfed00000"
  proof (rule map_device_ok [OF fo pa, of 0 0])
    fix va f assume "maps_page (?k0\<lparr>page_frames := f\<rparr>) va 0xfed00000"
    then show thesis by (rule that)
  qed
  let ?k = "?k0\<lparr>page_frames := f, g_precisionTimerInstance := Some va\<rparr>"
  have dev: "hpet_device timer_board 0xfed00000 (\<lambda>d. d) (\<lambda>_. 0) 1" by (auto simp: hpet_device_def timer_board_def)
  have mp: "maps_page ?k va 0xfed00000" using m by (simp add: maps_page_def phys_of_def)
  have d: "device ?k = 0" by (simp add: machine0_def sched.defs)
  have g: "g_precisionTimerInstance ?k = Some va" "g_hardwareFrequency ?k = 10000000" by simp_all
  have "(\<lambda>d. d) (device ?k) + 1 + unat (20 :: u32) * (unat (g_hardwareFrequency ?k) div 1000) + 1 < 2 ^ 64"
    unfolding d g by simp
  from msleep_waits [OF dev g(1) mp this] obtain k' where "msleep timer_board 20 ?k = Some k'" "200000 \<le> device k'"
    unfolding d g by auto
  with g(2) show ?thesis by blast
qed

theorem nanosleep_no_wait_witness:
  "nanosleep timer_board 500 ((machine0 0)\<lparr>g_hardwareFrequency := 14318180\<rparr>) =
   nanosleep timer_board 0 ((machine0 0)\<lparr>g_hardwareFrequency := 14318180\<rparr>)"
  by (rule nanosleep_no_wait) simp

text \<open>A table with one enabled cpu and one I/O controller at 0xFEC00000.\<close>

definition madt_entries1 :: "u8 list list" where
  "madt_entries1 = [[0, 8, 0, 0, 1, 0, 0, 0], [1, 12, 0, 0, 0, 0, 0xC0, 0xFE, 0, 0, 0, 0]]"

definition madt1 :: mem where
  "madt1 a = (let i = unat (a - 0x1000) in if i = 4 then 64
    else if 44 \<le> i \<and> i < 64 then concat madt_entries1 ! (i - 44) else 0)"

theorem madt_new_parses_witness:
  "\<exists>t k'. madt_new ioapic_board madt1 0x1000 (machine0 (0, \<lambda>_. 0)) = Some (t, k') \<and>
     length (m_localApics t) = 1 \<and> length (m_ioApics t) = 1"
proof -
  have ok: "list_all entry_ok madt_entries1" by (simp add: entry_ok_def madt_entries1_def)
  have at: "entries_at madt1 (0x1000 + 44) madt_entries1"
  proof (unfold entries_at_def, intro allI impI)
    fix i assume i: "i < length (concat madt_entries1)"
    then have "i < 20" by (simp add: madt_entries1_def)
    then have "unat (44 + of_nat i :: u64) = 44 + i" by (simp add: unat_word_ariths unat64_of_nat)
    then show "madt1 (0x1000 + 44 + of_nat i) = concat madt_entries1 ! i"
      using \<open>i < 20\<close> by (simp add: madt1_def add.assoc)
  qed
  have addrs: "entry_addrs (0x1000 + 44) madt_entries1 = [0x102c, 0x1034]" by (simp add: madt_entries1_def)
  have b: "madt1 0x102c = 0" "madt1 0x1034 = 1" "unat (load32 madt1 (0x1034 + 4)) = 0xfec00000" "lapic_enabled madt1 0x102c"
    "unat (table_length madt1 0x1000) = 64"
    by (simp_all add: madt1_def madt_entries1_def lapic_enabled_def table_length_def load32_bytes)
  have "frames_ok ioapic_board 0xffff800000000000 32 4 (machine0 (0, \<lambda>_. 0))"
    using machine0_frames [of ioapic_board "(0, \<lambda>_. 0)"] by (simp add: ioapic_board_def frames_ok_def)
  then show ?thesis
    using madt_new_parses [OF ok at, of ioapic_board "0xffff800000000000" 32 "machine0 (0, \<lambda>_. 0)"] b
    unfolding addrs by (auto simp: madt_entries1_def ioapics_mapped_def list_all2_lengthD)
qed

theorem madt_zero_length_hangs_witness:
  "madt_new ioapic_board (\<lambda>a. if a = 0x1004 then 64 else if a = 0x102c then 2 else 0) 0x1000 (machine0 (0, \<lambda>_. 0)) = None"
  by (rule madt_zero_length_hangs) (simp_all add: table_length_def load32_bytes)

end
