(* ===== verification/Descriptors.thy ===== *)
theory Descriptors
  imports Machine
begin

text \<open>
  The descriptor tables of a cpu: segments and task state (\<^verbatim>\<open>gdt/gdt.cpp\<close>, \<^verbatim>\<open>gdt/tss.h\<close>), the interrupt
  gates with the dispatch of interrupts to handlers (\<^verbatim>\<open>interrupts/idt.cpp\<close>), and the accesses to the
  \<^verbatim>\<open>gs\<close> base (\<^verbatim>\<open>arch/x86/gsfsbase.h\<close>).

  Descriptors are words with the layout of their structures. The addresses at which the tables
  and the entry stubs are linked are the record \<open>image\<close>.
\<close>

section \<open>Structures\<close>

definition GdtSegmentDescriptor :: layout where
  "GdtSegmentDescriptor = [(''limitLow'', 16), (''baseLow'', 16), (''baseMid'', 8), (''accessed'', 1), (''readWrite'', 1),
    (''directionConform'', 1), (''executable'', 1), (''descriptorType'', 1), (''descriptorPrivilegeLvl'', 2), (''present'', 1),
    (''limitHigh'', 4), (''available'', 1), (''longMode'', 1), (''defaultBound'', 1), (''granularity'', 1), (''baseHigh'', 8)]"

definition TSSDescriptor :: layout where
  "TSSDescriptor = [(''limitLow'', 16), (''baseLow'', 16), (''baseMid'', 8), (''type'', 4), (''zero0'', 1), (''dpl'', 2),
    (''present'', 1), (''limitHigh'', 4), (''available'', 1), (''zero'', 1), (''zeroAgain'', 1), (''granularity'', 1),
    (''baseHigh'', 8), (''baseUpper'', 32), (''reserved'', 32)]"

record TaskStateSegment =
  tss_reserved0 :: u32
  rsp0 :: u64
  rsp1 :: u64
  rsp2 :: u64
  tss_reserved1 :: u64
  ist1 :: u64
  ist2 :: u64
  ist3 :: u64
  ist4 :: u64
  ist5 :: u64
  ist6 :: u64
  ist7 :: u64
  tss_reserved2 :: u64
  tss_reserved3 :: u16
  ioMapBase :: u16

definition zero_tss :: TaskStateSegment where
  "zero_tss = \<lparr>tss_reserved0 = 0, rsp0 = 0, rsp1 = 0, rsp2 = 0, tss_reserved1 = 0, ist1 = 0, ist2 = 0, ist3 = 0,
    ist4 = 0, ist5 = 0, ist6 = 0, ist7 = 0, tss_reserved2 = 0, tss_reserved3 = 0, ioMapBase = 0\<rparr>"

definition sizeof_TaskStateSegment :: u16 where "sizeof_TaskStateSegment = 104"

definition GDT :: layout where
  "GDT = [(''kernelNull'', 64), (''kernelCode'', 64), (''kernelData'', 64), (''tss'', 128), (''userData'', 64), (''userCode'', 64)]"

record GdtAndTssData =
  kernelNullDescriptor :: u64
  kernelCodeDescriptor :: u64
  kernelDataDescriptor :: u64
  userCodeDescriptor :: u64
  userDataDescriptor :: u64
  tssDescriptor :: "128 word"
  gdt :: "448 word"
  tss :: TaskStateSegment

record image =
  adr_gdt :: "int \<Rightarrow> u64"
  adr_tss :: "int \<Rightarrow> u64"
  adr_cpu :: "int \<Rightarrow> u64"
  adr_idt :: u64
  adr_stub :: "string \<Rightarrow> u64"

definition IdtGateDescriptor :: layout where
  "IdtGateDescriptor = [(''offsetLow'', 16), (''selector'', 16), (''ist'', 3), (''reserved0'', 5), (''type'', 4),
    (''reserved1'', 1), (''dpl'', 2), (''present'', 1), (''offsetMid'', 16), (''offsetHigh'', 32), (''reserved2'', 32)]"

text \<open>The tables, and the registers that refer to them (limit and base; selector).\<close>

record tables =
  g_gdtPerCpuArray :: "int \<Rightarrow> GdtAndTssData"
  gdtr :: "u16 \<times> u64"
  task_register :: u16
  g_kernelIdt :: "nat \<Rightarrow> 128 word"
  g_kernelIdtDescriptor :: "u16 \<times> u64"
  idtr :: "u16 \<times> u64"

text \<open>The four layouts fill words of 64, 128, 128 and 448 bits.\<close>

interpretation segment_struct: bit_struct GdtSegmentDescriptor 64
  by unfold_locales (simp_all add: GdtSegmentDescriptor_def)

interpretation tss_struct: bit_struct TSSDescriptor 128
  by unfold_locales (simp_all add: TSSDescriptor_def)

interpretation gate_struct: bit_struct IdtGateDescriptor 128
  by unfold_locales (simp_all add: IdtGateDescriptor_def)

interpretation gdt_struct: bit_struct GDT 448
  by unfold_locales (simp_all add: GDT_def)

section \<open>Segments\<close>

definition setSegmentDescriptorBase :: "u64 \<Rightarrow> u64 \<Rightarrow> u64" where
  "setSegmentDescriptorBase base d =
    (let d = fset GdtSegmentDescriptor ''baseLow'' (base AND 0xffff) d;
         d = fset GdtSegmentDescriptor ''baseMid'' (drop_bit 16 base AND 0xFF) d
     in fset GdtSegmentDescriptor ''baseHigh'' (drop_bit 24 base AND 0xFF) d)"

definition setSegmentDescriptorLimit :: "u64 \<Rightarrow> u64 \<Rightarrow> u64" where
  "setSegmentDescriptorLimit limit d =
    (let d = fset GdtSegmentDescriptor ''limitLow'' (limit AND 0xFFFF) d
     in fset GdtSegmentDescriptor ''limitHigh'' (drop_bit 16 limit AND 0xF) d)"

definition setTSSDescriptorBase :: "u64 \<Rightarrow> 128 word \<Rightarrow> 128 word" where
  "setTSSDescriptorBase base d =
    (let d = fset TSSDescriptor ''baseLow'' (ucast (base AND 0xFFFF)) d;
         d = fset TSSDescriptor ''baseMid'' (ucast (drop_bit 16 base AND 0xFF)) d;
         d = fset TSSDescriptor ''baseHigh'' (ucast (drop_bit 24 base AND 0xFF)) d
     in fset TSSDescriptor ''baseUpper'' (ucast (drop_bit 32 base AND 0xFFFFFFFF)) d)"

definition setTSSDescriptorLimit :: "u32 \<Rightarrow> 128 word \<Rightarrow> 128 word" where
  "setTSSDescriptorLimit limit d =
    (let d = fset TSSDescriptor ''limitLow'' (ucast (limit AND 0xFFFF)) d
     in fset TSSDescriptor ''limitHigh'' (ucast (drop_bit 16 limit AND 0x0F)) d)"

text \<open>The assignments shared by the four segments; \<open>x\<close> is the executable bit.\<close>

definition segment :: "u64 \<Rightarrow> u64 \<Rightarrow> u64 \<Rightarrow> u64" where
  "segment dpl x d =
    (let d = setSegmentDescriptorBase 0 d;
         d = setSegmentDescriptorLimit 0xFFFFF d;
         d = fset GdtSegmentDescriptor ''longMode'' 1 d;
         d = fset GdtSegmentDescriptor ''granularity'' 1 d;
         d = fset GdtSegmentDescriptor ''available'' 1 d;
         d = fset GdtSegmentDescriptor ''present'' 1 d;
         d = fset GdtSegmentDescriptor ''descriptorPrivilegeLvl'' dpl d;
         d = fset GdtSegmentDescriptor ''executable'' x d;
         d = fset GdtSegmentDescriptor ''readWrite'' 1 d
     in fset GdtSegmentDescriptor ''descriptorType'' 1 d)"

definition tss_segment :: "u64 \<Rightarrow> 128 word \<Rightarrow> 128 word" where
  "tss_segment base d =
    (let d = setTSSDescriptorBase base d;
         d = setTSSDescriptorLimit (ucast sizeof_TaskStateSegment - 1) d;
         d = fset TSSDescriptor ''type'' 0x9 d;
         d = fset TSSDescriptor ''present'' 1 d;
         d = fset TSSDescriptor ''dpl'' 0 d;
         d = fset TSSDescriptor ''zero0'' 0 d;
         d = fset TSSDescriptor ''limitHigh'' 0 d;
         d = fset TSSDescriptor ''available'' 1 d;
         d = fset TSSDescriptor ''granularity'' 0 d;
         d = fset TSSDescriptor ''zero'' 0 d
     in fset TSSDescriptor ''zeroAgain'' 0 d)"

definition gdt_data :: "u64 \<Rightarrow> u64 \<Rightarrow> GdtAndTssData \<Rightarrow> GdtAndTssData" where
  "gdt_data tssAddr kstack d =
    (let d = d\<lparr>kernelNullDescriptor := 0, kernelCodeDescriptor := 0, kernelDataDescriptor := 0,
           userCodeDescriptor := 0, userDataDescriptor := 0\<rparr>;
         d = d\<lparr>kernelCodeDescriptor := segment 0 1 (kernelCodeDescriptor d)\<rparr>;
         d = d\<lparr>kernelDataDescriptor := segment 0 0 (kernelDataDescriptor d)\<rparr>;
         d = d\<lparr>userCodeDescriptor := segment 3 1 (userCodeDescriptor d)\<rparr>;
         d = d\<lparr>userDataDescriptor := segment 3 0 (userDataDescriptor d)\<rparr>;
         d = d\<lparr>tss := zero_tss\<lparr>rsp0 := kstack, ioMapBase := sizeof_TaskStateSegment\<rparr>\<rparr>;
         d = d\<lparr>tssDescriptor := tss_segment tssAddr (tssDescriptor d)\<rparr>;
         g = fset GDT ''kernelNull'' (ucast (kernelNullDescriptor d)) (gdt d);
         g = fset GDT ''kernelCode'' (ucast (kernelCodeDescriptor d)) g;
         g = fset GDT ''kernelData'' (ucast (kernelDataDescriptor d)) g;
         g = fset GDT ''userCode'' (ucast (userCodeDescriptor d)) g;
         g = fset GDT ''userData'' (ucast (userDataDescriptor d)) g;
         g = fset GDT ''tss'' (ucast (tssDescriptor d)) g
     in d\<lparr>gdt := g\<rparr>)"

text \<open>
  The whole function; writing the two base registers is also what the model of processes reads.
\<close>

definition initializeAndInstallGDT ::
  "'d board \<Rightarrow> image \<Rightarrow> int \<Rightarrow> u64 \<Rightarrow> tables \<times> 'd machine \<Rightarrow> tables \<times> 'd machine" where
  "initializeAndInstallGDT B im apicid kstack s =
    (let (T, k) = s;
         T = T\<lparr>g_gdtPerCpuArray := (g_gdtPerCpuArray T)(apicid :=
           gdt_data (adr_tss im apicid) kstack (g_gdtPerCpuArray T apicid))\<rparr>;
         T = T\<lparr>gdtr := (56 - 1, adr_gdt im apicid)\<rparr>;
         T = T\<lparr>task_register := ucast TSS_PT1_SELECTOR\<rparr>;
         k = upd_cpu apicid (\<lambda>c. c\<lparr>defaultKernelStack := kstack\<rparr>) k;
         k = (writeMsr B IA32_GS_BASE (adr_cpu im apicid) k)\<lparr>gs_base := adr_cpu im apicid\<rparr>;
         k = (writeMsr B IA32_KERNEL_GS_BASE (adr_cpu im apicid) k)\<lparr>kernel_gs_base := adr_cpu im apicid\<rparr>
     in (T, k))"

section \<open>The gs base\<close>

definition enableFSGSBase :: "'d machine \<Rightarrow> 'd machine" where
  "enableFSGSBase k = k\<lparr>cr4_reg := cr4_reg k OR push_bit 16 1\<rparr>"

definition rdgsbase :: "'d board \<Rightarrow> 'd machine \<Rightarrow> u64 \<times> 'd machine" where
  "rdgsbase B k = readMsr B IA32_GS_BASE k"

definition wrgsbase :: "'d board \<Rightarrow> u64 \<Rightarrow> 'd machine \<Rightarrow> 'd machine" where
  "wrgsbase B gsbase k = writeMsr B IA32_GS_BASE gsbase k"

section \<open>Gates\<close>

definition INTERRUPT_GATE :: u8 where "INTERRUPT_GATE = 0x0E"
definition TRAP_GATE :: u8 where "TRAP_GATE = 0x0F"
definition KERNEL_DPL :: u8 where "KERNEL_DPL = 0"
definition USER_DPL :: u8 where "USER_DPL = 3"

definition idt_gate :: "u64 \<Rightarrow> u8 \<Rightarrow> u8 \<Rightarrow> u8 \<Rightarrow> u16 \<Rightarrow> 128 word \<Rightarrow> 128 word" where
  "idt_gate isr istIndex type dpl selector d =
    (let d = fset IdtGateDescriptor ''offsetLow'' (ucast isr) d;
         d = fset IdtGateDescriptor ''offsetMid'' (ucast (drop_bit 16 isr)) d;
         d = fset IdtGateDescriptor ''offsetHigh'' (ucast (drop_bit 32 isr)) d;
         d = fset IdtGateDescriptor ''selector'' (ucast selector) d;
         d = fset IdtGateDescriptor ''ist'' (ucast istIndex) d;
         d = fset IdtGateDescriptor ''type'' (ucast type) d;
         d = fset IdtGateDescriptor ''dpl'' (ucast dpl) d;
         d = fset IdtGateDescriptor ''present'' 1 d;
         d = fset IdtGateDescriptor ''reserved0'' 0 d;
         d = fset IdtGateDescriptor ''reserved1'' 0 d
     in fset IdtGateDescriptor ''reserved2'' 0 d)"

definition SET_KERNEL_GATE :: "u8 \<Rightarrow> nat \<Rightarrow> u64 \<Rightarrow> (nat \<Rightarrow> 128 word) \<Rightarrow> (nat \<Rightarrow> 128 word)" where
  "SET_KERNEL_GATE type entryIndex isr idt =
    idt(entryIndex := idt_gate isr 0 type KERNEL_DPL (ucast KERNEL_CS) (idt entryIndex))"

definition exception_stubs :: "(nat \<times> string) list" where
  "exception_stubs = [(0, ''div''), (1, ''db''), (2, ''nmi''), (3, ''bp''), (4, ''of''), (5, ''br''), (6, ''ud''), (7, ''nm''),
    (8, ''df''), (9, ''cso''), (10, ''ts''), (11, ''np''), (12, ''ss''), (13, ''gp''), (14, ''pf''), (16, ''mf''), (17, ''ac''),
    (18, ''mc''), (19, ''xm''), (20, ''ve''), (30, ''cp''), (21, ''hv''), (28, ''vc''), (29, ''sx'')]"

definition irq_stubs :: "(nat \<times> string) list" where
  "irq_stubs = [(32, ''irq0''), (33, ''irq1''), (34, ''irq2''), (35, ''irq3''), (36, ''irq4''), (37, ''irq5''), (38, ''irq6''),
    (39, ''irq7''), (40, ''irq8''), (41, ''irq9''), (42, ''irq10''), (43, ''irq11''), (44, ''irq12''), (45, ''irq13''),
    (46, ''irq14''), (47, ''irq15'')]"

definition setupInterruptDescriptorTable :: "image \<Rightarrow> tables \<Rightarrow> tables" where
  "setupInterruptDescriptorTable im T =
    (let T = T\<lparr>g_kernelIdtDescriptor := (16 * 256 - 1, adr_idt im)\<rparr>;
         idt = fold (\<lambda>(i, s). SET_KERNEL_GATE INTERRUPT_GATE i (adr_stub im s)) exception_stubs (g_kernelIdt T);
         idt = fold (\<lambda>(i, s). SET_KERNEL_GATE TRAP_GATE i (adr_stub im s)) irq_stubs idt
     in T\<lparr>g_kernelIdt := idt\<rparr>)"

definition loadIdtr :: "tables \<Rightarrow> tables" where
  "loadIdtr T = T\<lparr>idtr := g_kernelIdtDescriptor T\<rparr>"

section \<open>Dispatch\<close>

datatype handler = exc_handler_div | exc_handler_pf | irq_handler_timer | irq_handler_keyboard
  | userspace_common_exc_handler | kpanic_handler

definition g_int_exc_handlers :: "handler option list" where
  "g_int_exc_handlers = [Some exc_handler_div] @ replicate 13 None @ [Some exc_handler_pf]"

definition g_int_irq_handlers :: "handler option list" where
  "g_int_irq_handlers = [Some irq_handler_timer, Some irq_handler_keyboard] @ replicate 13 None"

text \<open>The handler called, if any; the outer \<open>None\<close> is a read beyond the end of a handler table.\<close>

definition common_exc_entry :: "PtRegs \<Rightarrow> handler option option" where
  "common_exc_entry frame =
    (let i = unat (f_intno frame)
     in if \<not> i < length g_int_exc_handlers then None
        else if g_int_exc_handlers ! i \<noteq> None then Some (g_int_exc_handlers ! i)
        else if h_cs (hwframe frame) AND ucast USER_DPL \<noteq> 0 then Some (Some userspace_common_exc_handler)
        else Some (Some kpanic_handler))"

definition common_irq_entry :: "PtRegs \<Rightarrow> handler option option" where
  "common_irq_entry frame =
    (let i = unat (f_intno frame - 32)
     in if \<not> i < length g_int_irq_handlers then None
        else Some (g_int_irq_handlers ! i))"

definition common_isr_entry :: "PtRegs \<Rightarrow> handler option option" where
  "common_isr_entry frame = (if 32 \<le> f_intno frame then common_irq_entry frame else common_exc_entry frame)"

section \<open>What the processor finds\<close>

text \<open>The eight bytes of the segment table a selector names.\<close>

definition selected :: "448 word \<Rightarrow> u16 \<Rightarrow> u64" where
  "selected g sel = ucast (drop_bit (8 * unat (sel AND NOT 7)) g)"

definition flat_segment :: "u64 \<Rightarrow> u64 \<Rightarrow> u64 \<Rightarrow> bool" where
  "flat_segment dpl x d \<longleftrightarrow> fget GdtSegmentDescriptor ''present'' d = 1 \<and>
    fget GdtSegmentDescriptor ''descriptorType'' d = 1 \<and> fget GdtSegmentDescriptor ''descriptorPrivilegeLvl'' d = dpl \<and>
    fget GdtSegmentDescriptor ''executable'' d = x \<and> fget GdtSegmentDescriptor ''readWrite'' d = 1 \<and>
    fget GdtSegmentDescriptor ''longMode'' d = 1 \<and> fget GdtSegmentDescriptor ''baseLow'' d = 0 \<and>
    fget GdtSegmentDescriptor ''baseMid'' d = 0 \<and> fget GdtSegmentDescriptor ''baseHigh'' d = 0"

lemmas segment_defs = segment_def setSegmentDescriptorBase_def setSegmentDescriptorLimit_def

lemma segment_flat: "dpl \<in> {0, 3} \<Longrightarrow> x \<in> {0, 1} \<Longrightarrow> flat_segment dpl x (segment dpl x 0)"
  by (auto simp: flat_segment_def segment_defs fget_def fset_def GdtSegmentDescriptor_def bf_get_def bf_set_def Let_def mask_eq_exp_minus_1)

lemma selected_bf: "selected g sel = ucast (bf_get (8 * unat (sel AND NOT 7)) 64 g)"
  by (rule bit_word_eqI) (simp add: selected_def bf_get_def bit_simps)

lemma ucast_64_448 [simp]: "(ucast (take_bit 64 (ucast (x :: u64) :: 448 word)) :: u64) = x"
  by (rule bit_word_eqI) (simp add: bit_simps)

lemma ucast_128_448 [simp]: "(ucast (take_bit 128 (ucast (x :: 128 word) :: 448 word)) :: 128 word) = x"
  by (rule bit_word_eqI) (simp add: bit_simps)

lemma gdt_slots:
  "selected (gdt (gdt_data a ks d)) 0x08 = segment 0 1 0" "selected (gdt (gdt_data a ks d)) 0x10 = segment 0 0 0"
  "selected (gdt (gdt_data a ks d)) 0x2B = segment 3 0 0" "selected (gdt (gdt_data a ks d)) 0x33 = segment 3 1 0"
  "selected (gdt (gdt_data a ks d)) 0 = 0"
  "ucast (bf_get 192 128 (gdt (gdt_data a ks d))) = tss_segment a (tssDescriptor d)"
  by (simp_all add: selected_bf gdt_data_def Let_def fset_def GDT_def bf_get_set_same bf_get_set_other)

definition tss_base :: "128 word \<Rightarrow> u64" where
  "tss_base D = ucast (fget TSSDescriptor ''baseLow'' D) OR push_bit 16 (ucast (fget TSSDescriptor ''baseMid'' D)) OR
    push_bit 24 (ucast (fget TSSDescriptor ''baseHigh'' D)) OR push_bit 32 (ucast (fget TSSDescriptor ''baseUpper'' D))"

lemma tss_segment_fields:
  "fget TSSDescriptor ''type'' (tss_segment a D) = 9" "fget TSSDescriptor ''present'' (tss_segment a D) = 1"
  "fget TSSDescriptor ''dpl'' (tss_segment a D) = 0" "fget TSSDescriptor ''limitLow'' (tss_segment a D) = 103"
  "fget TSSDescriptor ''limitHigh'' (tss_segment a D) = 0"
  "fget TSSDescriptor ''baseLow'' (tss_segment a D) = take_bit 16 (ucast (a AND 0xFFFF))"
  "fget TSSDescriptor ''baseMid'' (tss_segment a D) = take_bit 8 (ucast (drop_bit 16 a AND 0xFF))"
  "fget TSSDescriptor ''baseHigh'' (tss_segment a D) = take_bit 8 (ucast (drop_bit 24 a AND 0xFF))"
  "fget TSSDescriptor ''baseUpper'' (tss_segment a D) = take_bit 32 (ucast (drop_bit 32 a AND 0xFFFFFFFF))"
  by (simp_all add: tss_segment_def setTSSDescriptorBase_def setTSSDescriptorLimit_def sizeof_TaskStateSegment_def Let_def
      fget_def fset_def TSSDescriptor_def bf_get_set_same bf_get_set_other)

lemma and_low_masks: "x AND 0xFFFF = take_bit 16 x" "x AND 0xFF = take_bit 8 x" "x AND 0xFFFFFFFF = take_bit 32 (x :: u64)"
  by (simp_all add: take_bit_eq_mask mask_eq_exp_minus_1)

lemma tss_base_segment: "tss_base (tss_segment a D) = a"
proof (rule bit_word_eqI)
  fix n assume "n < LENGTH(64)"
  then show "bit (tss_base (tss_segment a D)) n = bit a n"
    unfolding tss_base_def tss_segment_fields and_low_masks
    by (cases "n < 24"; cases "n < 32") (auto simp: bit_simps)
qed


section \<open>Gates and dispatch\<close>

text \<open>The address in a gate.\<close>

definition gate_offset :: "128 word \<Rightarrow> u64" where
  "gate_offset D = ucast (fget IdtGateDescriptor ''offsetLow'' D) OR push_bit 16 (ucast (fget IdtGateDescriptor ''offsetMid'' D)) OR
    push_bit 32 (ucast (fget IdtGateDescriptor ''offsetHigh'' D))"

definition kernel_gate :: "u64 \<Rightarrow> u8 \<Rightarrow> 128 word \<Rightarrow> bool" where
  "kernel_gate a type D \<longleftrightarrow> gate_offset D = a \<and> fget IdtGateDescriptor ''type'' D = ucast type \<and>
    fget IdtGateDescriptor ''selector'' D = 0x08 \<and> fget IdtGateDescriptor ''present'' D = 1 \<and>
    fget IdtGateDescriptor ''dpl'' D = 0 \<and> fget IdtGateDescriptor ''ist'' D = 0"

lemma idt_gate_kernel:
  assumes "type \<in> {INTERRUPT_GATE, TRAP_GATE}"
  shows "kernel_gate a type (idt_gate a 0 type KERNEL_DPL (ucast KERNEL_CS) D)"
proof -
  let ?D = "idt_gate a 0 type KERNEL_DPL (ucast KERNEL_CS) D"
  have f: "fget IdtGateDescriptor ''offsetLow'' ?D = take_bit 16 (ucast a)"
    "fget IdtGateDescriptor ''offsetMid'' ?D = take_bit 16 (ucast (drop_bit 16 a))"
    "fget IdtGateDescriptor ''offsetHigh'' ?D = take_bit 32 (ucast (drop_bit 32 a))"
    "fget IdtGateDescriptor ''type'' ?D = take_bit 4 (ucast type)" "fget IdtGateDescriptor ''selector'' ?D = 8"
    "fget IdtGateDescriptor ''present'' ?D = 1" "fget IdtGateDescriptor ''dpl'' ?D = 0" "fget IdtGateDescriptor ''ist'' ?D = 0"
    by (simp_all add: idt_gate_def Let_def fget_def fset_def IdtGateDescriptor_def bf_get_set_same bf_get_set_other
        KERNEL_DPL_def KERNEL_CS_def)
  have "gate_offset ?D = a"
    unfolding gate_offset_def f by (rule bit_word_eqI) (auto simp: bit_simps)
  then show ?thesis
    using f assms by (auto simp: kernel_gate_def INTERRUPT_GATE_def TRAP_GATE_def)
qed

lemma fold_gates:
  assumes "type \<in> {INTERRUPT_GATE, TRAP_GATE}" "distinct (map fst xs)"
  shows "(i, s) \<in> set xs \<Longrightarrow> kernel_gate (f s) type (fold (\<lambda>(i, s). SET_KERNEL_GATE type i (f s)) xs idt i)"
    "i \<notin> fst ` set xs \<Longrightarrow> fold (\<lambda>(i, s). SET_KERNEL_GATE type i (f s)) xs idt i = idt i"
proof -
  show other: "i \<notin> fst ` set xs \<Longrightarrow> fold (\<lambda>(i, s). SET_KERNEL_GATE type i (f s)) xs idt i = idt i" for xs idt i
    by (induction xs arbitrary: idt) (auto simp: SET_KERNEL_GATE_def)
  show "(i, s) \<in> set xs \<Longrightarrow> kernel_gate (f s) type (fold (\<lambda>(i, s). SET_KERNEL_GATE type i (f s)) xs idt i)"
    using assms(2)
  proof (induction xs arbitrary: idt)
    case (Cons p xs)
    show ?case
    proof (cases "(i, s) \<in> set xs")
      case True
      then show ?thesis using Cons by (cases p) auto
    next
      case False
      then have p: "p = (i, s)" using Cons.prems by auto
      moreover have "i \<notin> fst ` set xs" using Cons.prems(2) unfolding p by auto
      ultimately show ?thesis using other [of i xs] idt_gate_kernel [OF assms(1)] by simp (simp add: SET_KERNEL_GATE_def)
    qed
  qed simp
qed

text \<open>
  The interrupt table and the handler tables disagree. Every exception and interrupt has a
  present kernel gate to its stub, but the two handler tables have 15 entries: the dispatch of
  a vector with a gate stays inside them exactly for the vectors up to 14 and 32 to 46, and for
  the vectors from 16 on, and for 47, it reads beyond the end of a table.
\<close>

theorem isr_tables_overrun:
  assumes "(v, s) \<in> set exception_stubs \<union> set irq_stubs"
  shows "kernel_gate (adr_stub im s) (if v < 32 then INTERRUPT_GATE else TRAP_GATE)
      (g_kernelIdt (setupInterruptDescriptorTable im T) v) \<and>
    (common_isr_entry (frame\<lparr>f_intno := of_nat v\<rparr>) = None \<longleftrightarrow> 16 \<le> v \<and> v < 32 \<or> v = 47)"
proof
  have d: "distinct (map fst exception_stubs)" "distinct (map fst irq_stubs)"
    by (simp_all add: exception_stubs_def irq_stubs_def)
  have r: "i < 32" if "i \<in> fst ` set exception_stubs" for i using that by (auto simp: exception_stubs_def)
  have q: "32 \<le> i" if "i \<in> fst ` set irq_stubs" for i using that by (auto simp: irq_stubs_def)
  have e: "g_kernelIdt (setupInterruptDescriptorTable im T) =
      fold (\<lambda>(i, s). SET_KERNEL_GATE TRAP_GATE i (adr_stub im s)) irq_stubs
       (fold (\<lambda>(i, s). SET_KERNEL_GATE INTERRUPT_GATE i (adr_stub im s)) exception_stubs (g_kernelIdt T))"
    by (simp add: setupInterruptDescriptorTable_def)
  consider "(v, s) \<in> set exception_stubs" | "(v, s) \<in> set irq_stubs" using assms by blast
  then show "kernel_gate (adr_stub im s) (if v < 32 then INTERRUPT_GATE else TRAP_GATE)
      (g_kernelIdt (setupInterruptDescriptorTable im T) v)"
  proof cases
    case 1
    then have "v < 32" "v \<notin> fst ` set irq_stubs" using r q by force+
    then show ?thesis
      unfolding e using fold_gates(1) [OF _ d(1) 1, of INTERRUPT_GATE] by (simp add: fold_gates(2) [OF _ d(2)])
  next
    case 2
    then have "32 \<le> v" using q by force
    then show ?thesis unfolding e using fold_gates(1) [OF _ d(2) 2, of TRAP_GATE] by simp
  qed
  have "v \<in> {0..14} \<or> v \<in> {16..31} \<or> v \<in> {32..47}"
    using assms by (auto simp: exception_stubs_def irq_stubs_def)
  then show "common_isr_entry (frame\<lparr>f_intno := of_nat v\<rparr>) = None \<longleftrightarrow> 16 \<le> v \<and> v < 32 \<or> v = 47"
  proof -
    assume v: "v \<in> {0..14} \<or> v \<in> {16..31} \<or> v \<in> {32..47}"
    then have u: "unat (of_nat v :: u64) = v" by (intro unat64_of_nat) auto
    then have c: "(32 :: u64) \<le> of_nat v \<longleftrightarrow> 32 \<le> v" by (simp add: word_le_nat_alt)
    have "unat (of_nat v - 32 :: u64) = v - 32" if "32 \<le> v" using that u c by (simp add: unat_sub)
    with v u c show ?thesis
      by (auto simp: common_isr_entry_def common_irq_entry_def common_exc_entry_def g_int_exc_handlers_def
          g_int_irq_handlers_def Let_def)
  qed
qed

definition image0 :: image where
  "image0 = \<lparr>adr_gdt = (\<lambda>_. 0), adr_tss = (\<lambda>_. 0), adr_cpu = (\<lambda>_. 0), adr_idt = 0, adr_stub = (\<lambda>_. 0x4000)\<rparr>"

definition tables0 :: tables where
  "tables0 = \<lparr>g_gdtPerCpuArray = (\<lambda>_. \<lparr>kernelNullDescriptor = 0, kernelCodeDescriptor = 0, kernelDataDescriptor = 0,
      userCodeDescriptor = 0, userDataDescriptor = 0, tssDescriptor = 0, gdt = 0, tss = zero_tss\<rparr>),
     gdtr = (0, 0), task_register = 0, g_kernelIdt = (\<lambda>_. 0), g_kernelIdtDescriptor = (0, 0), idtr = (0, 0)\<rparr>"

theorem isr_tables_overrun_witness:
  "kernel_gate 0x4000 TRAP_GATE (g_kernelIdt (setupInterruptDescriptorTable image0 tables0) 47) \<and>
   common_isr_entry (frame0\<lparr>f_intno := 47\<rparr>) = None"
  using isr_tables_overrun [of 47 "''irq15''" image0 tables0 frame0] by (simp add: irq_stubs_def image0_def)

end
