(* ===== verification/Display.thy ===== *)
theory Display
  imports Machine KConv
begin

text \<open>
  The frame buffer console's drawing operations: \<^verbatim>\<open>graphics/kdisplay.cpp\<close>. The record \<open>display\<close> holds the
  static members; pixels, the font and the frame buffer lie in the memory the operations take.
  Coordinates are 32-bit, the loop counters 64-bit, as in the code.

  \<open>screen\<close> relates the memory to a picture, a function from columns and rows to colours; the lemmas
  show what each drawing operation does to the picture, and that nothing outside the back buffer
  changes.
\<close>

section \<open>The code\<close>

definition CHAR_PIXEL_WIDTH :: u32 where "CHAR_PIXEL_WIDTH = 8"

record display =
  s_displayWidth :: u32
  s_displayHeight :: u32
  fb_base :: u64
  fb_size :: u64
  fb_width :: u32
  fb_height :: u32
  fb_pixelsPerScanline :: u32
  s_font :: u64
  s_backBuffer :: u64

text \<open>A loop \<^verbatim>\<open>for (; i < n; ++i)\<close> whose body cannot fail.\<close>

definition for_range :: "('a::len word \<Rightarrow> 's \<Rightarrow> 's) \<Rightarrow> 'a word \<Rightarrow> 'a word \<Rightarrow> 's \<Rightarrow> 's" where
  "for_range f i n s = fold (\<lambda>j. f (of_nat j)) [unat i..<unat n] s"

partial_function (option) write_combine :: "u64 \<Rightarrow> u64 \<Rightarrow> u64 \<Rightarrow> pfa \<Rightarrow> pfa option" where
  "write_combine page end_addr root f =
    (if page < end_addr then do {
       f \<leftarrow> update_pte (set_pte_pageAccessType 1) page root f;
       write_combine (page + PAGE_SIZE) end_addr root f
     }
     else Some f)"

text \<open>\<open>None\<close>: an access through the null pointer, when the heap is full or a page is not mapped.\<close>

definition display_initialize ::
  "u64 \<Rightarrow> u64 \<Rightarrow> u64 \<Rightarrow> display \<Rightarrow> kheap \<Rightarrow> pfa \<Rightarrow> (display \<times> kheap \<times> pfa) option" where
  "display_initialize framebuffer font root d h f =
    (let m = ram h; off = va_off f;
         d = d\<lparr>fb_base := load64 m framebuffer, fb_size := load64 m (framebuffer + 8),
               fb_width := load32 m (framebuffer + 16), fb_height := load32 m (framebuffer + 20),
               fb_pixelsPerScanline := load32 m (framebuffer + 24), s_font := font\<rparr>;
         m = store64 (load64 m font + off) font m;
         m = store64 (load64 m (font + 8) + off) (font + 8) m;
         m = memset m (fb_base d) 0xA (fb_size d);
         d = d\<lparr>s_displayWidth := fb_width d, s_displayHeight := fb_height d\<rparr>
     in do {
       (b, h) \<leftarrow> kmalloc (h\<lparr>ram := m\<rparr>) (fb_size d);
       if b = 0 then None
       else do {
         let h = h\<lparr>ram := memset (ram h) b 0xA (fb_size d)\<rparr>;
         f \<leftarrow> write_combine (fb_base d) (fb_base d + fb_size d) root f;
         Some (d\<lparr>s_backBuffer := b\<rparr>, h, f)
       }
     })"

definition fillPixel :: "display \<Rightarrow> u32 \<Rightarrow> u32 \<Rightarrow> u32 \<Rightarrow> mem \<Rightarrow> mem" where
  "fillPixel d x y color m =
    store32 color (s_backBuffer d + 4 * ucast x + 4 * ucast (y * s_displayWidth d)) m"

definition charSize :: "display \<Rightarrow> mem \<Rightarrow> u8" where
  "charSize d m = m (load64 m (s_font d) + 3)"

text \<open>The scrolling part of \<open>renderTextGlyph\<close>: the lines move up by \<open>ch\<close>, the last \<open>ch\<close> are cleared.\<close>

definition scroll_lines :: "display \<Rightarrow> u8 \<Rightarrow> mem \<Rightarrow> mem" where
  "scroll_lines d ch m =
    (let fullLineWidthInBytes = ucast (s_displayWidth d) * 4;
         dstLine = s_backBuffer d;
         srcLine = dstLine + ucast ch * fullLineWidthInBytes;
         (dstLine, srcLine, m) =
           for_range (\<lambda>offy (dstLine, srcLine, m).
               (dstLine + fullLineWidthInBytes, srcLine + fullLineWidthInBytes, memcpy m dstLine srcLine fullLineWidthInBytes))
             (ucast ch :: u64) (ucast (s_displayHeight d)) (dstLine, srcLine, m)
     in for_range (\<lambda>offy.
            for_range (\<lambda>offx. fillPixel d (ucast offx) (ucast offy) 0xA0A0A0A) (0 :: u64) (ucast (fb_width d)))
          (ucast (s_displayHeight d - ucast ch) :: u64) (ucast (s_displayHeight d)) m)"

text \<open>The byte of the glyph is a signed \<open>char\<close>, promoted to \<open>int\<close> before the test.\<close>

definition glyph_bit :: "u8 \<Rightarrow> u64 \<Rightarrow> bool" where
  "glyph_bit b k \<longleftrightarrow> 0 < sint (scast b AND drop_bit (unat k) (0x80 :: u32))"

definition renderTextGlyph :: "display \<Rightarrow> u8 \<Rightarrow> u32 \<Rightarrow> u32 \<Rightarrow> u32 \<Rightarrow> mem \<Rightarrow> u32 \<times> u32 \<times> mem" where
  "renderTextGlyph d chr x y color m =
    (let charPixelHeight = charSize d m;
         fontBuffer = load64 m (s_font d + 8) + word_of_int (sint chr * uint charPixelHeight);
         (y, m) = (if s_displayHeight d < y + ucast charPixelHeight
                   then (y - ucast charPixelHeight, scroll_lines d charPixelHeight m)
                   else (y, m));
         m = for_range (\<lambda>yOffset.
                 for_range (\<lambda>xOffset. fillPixel d (ucast xOffset) (ucast yOffset) 0xA0A0A0A)
                   (ucast x :: u64) (ucast (x + CHAR_PIXEL_WIDTH)))
               (ucast y :: u64) (ucast (y + ucast charPixelHeight)) m;
         (fontBuffer, m) = for_range (\<lambda>yOffset (fontBuffer, m).
                 (fontBuffer + 1,
                  for_range (\<lambda>xOffset m.
                      if glyph_bit (m fontBuffer) (xOffset - ucast x)
                      then fillPixel d (ucast xOffset) (ucast yOffset) color m else m)
                    (ucast x :: u64) (ucast (x + CHAR_PIXEL_WIDTH)) m))
               (ucast y :: u64) (ucast (y + ucast charPixelHeight)) (fontBuffer, m)
     in (x, y, m))"

definition swapBuffers_lines :: "display \<Rightarrow> mem \<Rightarrow> mem" where
  "swapBuffers_lines d m =
    for_range (\<lambda>i m. memcpy m (fb_base d + i * ucast (fb_pixelsPerScanline d) * 4)
        (s_backBuffer d + i * ucast (s_displayWidth d) * 4) (ucast (s_displayWidth d) * 4))
      (0 :: u64) (ucast (s_displayHeight d)) m"

text \<open>\<open>tempRow\<close> is the address of the array the function keeps on its stack.\<close>

definition drawRectangle :: "u64 \<Rightarrow> display \<Rightarrow> u32 \<Rightarrow> u32 \<Rightarrow> u32 \<Rightarrow> u32 \<Rightarrow> u32 \<Rightarrow> mem \<Rightarrow> mem" where
  "drawRectangle tempRow d x y width height color m =
    (if fb_width d < x + width \<or> fb_height d < y + height then m
     else
       (let rowSize = width * 4;
            m = for_range (\<lambda>i. store32 color (tempRow + 4 * ucast i)) 0 width m
        in for_range (\<lambda>row m. memcpy m (fb_base d + 4 * ucast (row * fb_pixelsPerScanline d) + 4 * ucast x) tempRow (ucast rowSize))
             y (y + height) m))"

section \<open>Pictures\<close>

abbreviation dispW :: "display \<Rightarrow> nat" where "dispW d \<equiv> unat (s_displayWidth d)"
abbreviation dispH :: "display \<Rightarrow> nat" where "dispH d \<equiv> unat (s_displayHeight d)"

definition pixel :: "display \<Rightarrow> mem \<Rightarrow> nat \<Rightarrow> nat \<Rightarrow> u32" where
  "pixel d m X Y = load32 m (s_backBuffer d + of_nat (4 * (X + Y * dispW d)))"

definition outside :: "display \<Rightarrow> u64 \<Rightarrow> bool" where
  "outside d a \<longleftrightarrow> 4 * (dispW d * dispH d) \<le> unat (a - s_backBuffer d)"

text \<open>The back buffer shows \<open>p\<close>, and the rest of the memory is as in \<open>m0\<close>.\<close>

definition screen :: "display \<Rightarrow> mem \<Rightarrow> mem \<Rightarrow> (nat \<Rightarrow> nat \<Rightarrow> u32) \<Rightarrow> bool" where
  "screen d m0 m p \<longleftrightarrow>
    (\<forall>X < dispW d. \<forall>Y < dispH d. pixel d m X Y = p X Y) \<and> (\<forall>a. outside d a \<longrightarrow> m a = m0 a)"

definition display_ok :: "display \<Rightarrow> bool" where
  "display_ok d \<longleftrightarrow> dispW d * dispH d < 2 ^ 32"

lemma pixel_index: "X < W \<Longrightarrow> Y < H \<Longrightarrow> X + Y * W < W * (H :: nat)"
proof -
  assume "X < W" "Y < H"
  then have "X + Y * W < (Suc Y) * W" by simp
  also have "\<dots> \<le> H * W" using \<open>Y < H\<close> by (intro mult_right_mono) auto
  finally show ?thesis by (simp add: mult.commute)
qed

lemma pixel_index_inj: "X < W \<Longrightarrow> X' < W \<Longrightarrow> X + Y * W = X' + Y' * W \<longleftrightarrow> X = X' \<and> Y = (Y' :: nat)"
proof
  assume *: "X < W" "X' < W" "X + Y * W = X' + Y' * W"
  then have "(X + Y * W) mod W = (X' + Y' * W) mod W" "(X + Y * W) div W = (X' + Y' * W) div W" by auto
  then show "X = X' \<and> Y = Y'" using *(1,2) by simp
qed auto

lemma screen_same: "screen d m m (pixel d m)"
  by (simp add: screen_def)

lemma screen_pic: "screen d m0 m p \<Longrightarrow> (\<And>X Y. X < dispW d \<Longrightarrow> Y < dispH d \<Longrightarrow> p X Y = q X Y) \<Longrightarrow> screen d m0 m q"
  by (simp add: screen_def)

lemma store32_block:
  assumes "i < 2 ^ 32" and "4 * n \<le> unat (x - a)" and "i < n"
  shows "store32 c (a + of_nat (4 * i)) m x = m x"
proof -
  have "unat (x - a - of_nat (4 * i)) = unat (x - a) - 4 * i"
    using assms by (subst unat_sub_of_nat) auto
  then have "4 \<le> unat (x - (a + of_nat (4 * i)))" using assms(2,3) by (simp add: diff_diff_eq)
  then show ?thesis by (simp add: store32_apply)
qed

lemma load32_store32_index:
  assumes "i < 2 ^ 32" "j < 2 ^ 32" "i \<noteq> j"
  shows "load32 (store32 c (a + of_nat (4 * i)) m) (a + of_nat (4 * j)) = load32 m (a + of_nat (4 * j))"
proof -
  have "store32 c (a + of_nat (4 * i)) m (a + of_nat (4 * j) + of_nat k) = m (a + of_nat (4 * j) + of_nat k)" if "k < 4" for k
  proof -
    have u: "unat (of_nat (4 * j + k) :: u64) = 4 * j + k" using assms that by (intro unat64_of_nat) simp
    have "4 \<le> unat (of_nat (4 * j + k) - of_nat (4 * i) :: u64)"
      using assms that by (subst unat_sub_of_nat) (auto simp: u simp del: of_nat_add of_nat_mult)
    then show ?thesis by (simp add: store32_apply add.assoc)
  qed
  then show ?thesis by (intro bit_word_eqI) (simp add: mem_simps)
qed

lemma fillPixel_index:
  assumes "display_ok d" "X < dispW d" "Y < dispH d"
  shows "fillPixel d (of_nat X) (of_nat Y) c m = store32 c (s_backBuffer d + of_nat (4 * (X + Y * dispW d))) m"
proof -
  have lt: "X + Y * dispW d < 2 ^ 32" using pixel_index [OF assms(2,3)] assms(1) by (simp add: display_ok_def)
  have x: "(ucast (of_nat X :: u32) :: u64) = of_nat X"
    using lt by (simp add: unsigned_of_nat take_bit_nat_eq_self unsigned_ucast_eq word_unat_eq_iff)
  have "(of_nat Y * s_displayWidth d) = (of_nat (Y * dispW d) :: u32)" by simp
  then have y: "(ucast (of_nat Y * s_displayWidth d) :: u64) = of_nat (Y * dispW d)"
    using lt by (simp add: unsigned_of_nat take_bit_nat_eq_self unsigned_ucast_eq word_unat_eq_iff del: of_nat_mult)
  show ?thesis unfolding fillPixel_def x y by (simp add: algebra_simps)
qed

lemma screen_fill:
  assumes "display_ok d" "screen d m0 m p" "X < dispW d" "Y < dispH d"
  shows "screen d m0 (fillPixel d (of_nat X) (of_nat Y) c m) (\<lambda>X' Y'. if X' = X \<and> Y' = Y then c else p X' Y')"
  unfolding screen_def
proof (intro conjI allI impI)
  fix X' Y' assume *: "X' < dispW d" "Y' < dispH d"
  have lt: "X + Y * dispW d < 2 ^ 32" "X' + Y' * dispW d < 2 ^ 32"
    using pixel_index [OF assms(3,4)] pixel_index [OF *] assms(1) by (simp_all add: display_ok_def)
  show "pixel d (fillPixel d (of_nat X) (of_nat Y) c m) X' Y' = (if X' = X \<and> Y' = Y then c else p X' Y')"
  proof (cases "X' = X \<and> Y' = Y")
    case True
    then show ?thesis by (simp add: pixel_def fillPixel_index [OF assms(1,3,4)] load32_store32_same)
  next
    case False
    then have "X + Y * dispW d \<noteq> X' + Y' * dispW d"
      using pixel_index_inj [OF assms(3) *(1), of Y Y'] by auto
    then have "pixel d (fillPixel d (of_nat X) (of_nat Y) c m) X' Y' = pixel d m X' Y'"
      unfolding pixel_def fillPixel_index [OF assms(1,3,4)] using lt by (intro load32_store32_index)
    with False show ?thesis using assms(2) * by (auto simp: screen_def)
  qed
next
  fix a assume "outside d a"
  then show "fillPixel d (of_nat X) (of_nat Y) c m a = m0 a"
    using assms pixel_index [OF assms(3,4)] unfolding fillPixel_index [OF assms(1,3,4)]
    by (subst store32_block [where n = "dispW d * dispH d"]) (auto simp: outside_def screen_def display_ok_def)
qed

section \<open>Loops over rows and columns\<close>

lemma fold_upt_rule:
  assumes "P a s" "a \<le> b" "\<And>j s. a \<le> j \<Longrightarrow> j < b \<Longrightarrow> P j s \<Longrightarrow> P (Suc j) (f j s)"
  shows "P b (fold f [a..<b] s)"
  using assms(2,1,3)
proof (induction b rule: dec_induct)
  case base
  then show ?case by simp
next
  case (step n)
  then show ?case by simp
qed

lemma for_range_rule:
  assumes "P (unat i) s" "unat i \<le> unat n"
    and "\<And>j s. unat i \<le> j \<Longrightarrow> j < unat n \<Longrightarrow> P j s \<Longrightarrow> P (Suc j) (f (of_nat j) s)"
  shows "P (unat n) (for_range f i n s)"
  unfolding for_range_def using assms by (rule fold_upt_rule)

lemma unat_ucast_up:
  "LENGTH('a) \<le> LENGTH('b) \<Longrightarrow> unat (ucast (x :: 'a::len word) :: 'b::len word) = unat x"
  unfolding unsigned_ucast_eq
  by (intro take_bit_nat_eq_self order_less_le_trans [OF unsigned_less] power_increasing) simp_all

lemma ucast_of_nat_64_32 [simp]: "(ucast (of_nat n :: u64) :: u32) = of_nat n"
  by (simp add: word_unat_eq_iff unsigned_ucast_eq unsigned_of_nat take_bit_take_bit)

lemma screen_row:
  assumes d: "display_ok d" and s: "screen d m0 m p" and r: "unat a \<le> unat b" "unat b \<le> dispW d" "Y < dispH d"
    and g: "\<And>X m. unat a \<le> X \<Longrightarrow> X < unat b \<Longrightarrow> \<forall>z. outside d z \<longrightarrow> m z = m0 z \<Longrightarrow> g (of_nat X) m = G X"
  shows "screen d m0 (for_range (\<lambda>xo m. if g xo m then fillPixel d (ucast xo) (ucast (of_nat Y :: u64)) c m else m) (a :: u64) b m)
    (\<lambda>X' Y'. if Y' = Y \<and> unat a \<le> X' \<and> X' < unat b \<and> G X' then c else p X' Y')"
proof (rule for_range_rule [where P = "\<lambda>j m. screen d m0 m (\<lambda>X' Y'. if Y' = Y \<and> unat a \<le> X' \<and> X' < j \<and> G X' then c else p X' Y')"])
  show "screen d m0 m (\<lambda>X' Y'. if Y' = Y \<and> unat a \<le> X' \<and> X' < unat a \<and> G X' then c else p X' Y')"
    using s by (rule screen_pic) auto
next
  fix j m
  assume j: "unat a \<le> j" "j < unat b"
    and m: "screen d m0 m (\<lambda>X' Y'. if Y' = Y \<and> unat a \<le> X' \<and> X' < j \<and> G X' then c else p X' Y')"
  have gj: "g (of_nat j) m = G j" using m by (intro g j) (simp add: screen_def)
  show "screen d m0 (if g (of_nat j) m then fillPixel d (ucast (of_nat j :: u64)) (ucast (of_nat Y :: u64)) c m else m)
      (\<lambda>X' Y'. if Y' = Y \<and> unat a \<le> X' \<and> X' < Suc j \<and> G X' then c else p X' Y')"
  proof (cases "G j")
    case True
    have "screen d m0 (fillPixel d (of_nat j) (of_nat Y) c m) (\<lambda>X' Y'. if X' = j \<and> Y' = Y then c
        else if Y' = Y \<and> unat a \<le> X' \<and> X' < j \<and> G X' then c else p X' Y')"
      using j r by (intro screen_fill d m) simp_all
    then show ?thesis using True j(1) unfolding gj
      by (simp only: if_True ucast_of_nat_64_32) (erule screen_pic, auto simp: less_Suc_eq)
  next
    case False
    then show ?thesis unfolding gj using m by (simp only: if_False) (erule screen_pic, auto simp: less_Suc_eq)
  qed
qed (use r in auto)

lemma screen_fill_row:
  assumes "display_ok d" "screen d m0 m p" "unat a \<le> unat b" "unat b \<le> dispW d" "Y < dispH d"
  shows "screen d m0 (for_range (\<lambda>xo. fillPixel d (ucast xo) (ucast (of_nat Y :: u64)) c) (a :: u64) b m)
    (\<lambda>X' Y'. if Y' = Y \<and> unat a \<le> X' \<and> X' < unat b then c else p X' Y')"
  using screen_row [OF assms, of "\<lambda>_ _. True" "\<lambda>_. True" c] by simp

lemma screen_fill_rect:
  assumes d: "display_ok d" and s: "screen d m0 m p" and r: "unat a \<le> unat b" "unat b \<le> dispW d"
    and e: "unat e \<le> unat f" "unat f \<le> dispH d"
  shows "screen d m0 (for_range (\<lambda>yo. for_range (\<lambda>xo. fillPixel d (ucast xo) (ucast yo) c) (a :: u64) b) (e :: u64) f m)
    (\<lambda>X Y. if unat e \<le> Y \<and> Y < unat f \<and> unat a \<le> X \<and> X < unat b then c else p X Y)"
proof (rule for_range_rule [where P = "\<lambda>j m. screen d m0 m (\<lambda>X Y. if unat e \<le> Y \<and> Y < j \<and> unat a \<le> X \<and> X < unat b then c else p X Y)"])
  show "screen d m0 m (\<lambda>X Y. if unat e \<le> Y \<and> Y < unat e \<and> unat a \<le> X \<and> X < unat b then c else p X Y)"
    using s by (rule screen_pic) auto
next
  fix j m
  assume j: "unat e \<le> j" "j < unat f"
    and m: "screen d m0 m (\<lambda>X Y. if unat e \<le> Y \<and> Y < j \<and> unat a \<le> X \<and> X < unat b then c else p X Y)"
  have "j < dispH d" using j e by simp
  from screen_fill_row [OF d m r this, of c]
  show "screen d m0 (for_range (\<lambda>xo. fillPixel d (ucast xo) (ucast (of_nat j :: u64)) c) a b m)
      (\<lambda>X Y. if unat e \<le> Y \<and> Y < Suc j \<and> unat a \<le> X \<and> X < unat b then c else p X Y)"
    by (rule screen_pic) (use j(1) in \<open>auto simp: less_Suc_eq\<close>)
qed (rule e(1))

section \<open>Glyphs\<close>

lemma glyph_bit_bit: "k < 8 \<Longrightarrow> glyph_bit b (of_nat k) \<longleftrightarrow> bit b (7 - k)"
proof -
  assume k: "k < 8"
  have u: "unat (of_nat k :: u64) = k" using k by (intro unat64_of_nat) simp
  have e: "scast b AND drop_bit k (0x80 :: u32) = (if bit b (7 - k) then 2 ^ (7 - k) else 0)"
  proof (rule bit_word_eqI)
    fix n
    assume "n < LENGTH(32)"
    have e80: "bit (0x80 :: u32) i \<longleftrightarrow> i = 7" for i
    proof -
      have "bit (2 ^ 7 :: u32) i \<longleftrightarrow> possible_bit TYPE(u32) i \<and> i = 7" by (simp only: bit_exp_iff)
      then show ?thesis by (cases "i = 7") simp_all
    qed
    have dn: "bit (drop_bit k (0x80 :: u32)) n \<longleftrightarrow> n = 7 - k"
      using k unfolding bit_drop_bit_eq comp_def e80 by auto
    have sc: "bit (scast b :: u32) (7 - k) = bit b (7 - k)"
      using k by (cases "k = 0") (auto simp: bit_signed_iff min_def)
    show "bit (scast b AND drop_bit k (0x80 :: u32)) n = bit (if bit b (7 - k) then 2 ^ (7 - k) else 0 :: u32) n"
      unfolding bit_and_iff dn using sc k by (cases "n = 7 - k") (auto simp: bit_exp_iff)
  qed
  have "7 - k \<in> {0, 1, 2, 3, 4, 5, 6, 7}" by auto
  then have "0 < sint (2 ^ (7 - k) :: u32)"
    by (elim insertE) (simp_all only: , simp_all)
  then show ?thesis unfolding glyph_bit_def u e by simp
qed

text \<open>The pixels of a glyph: column \<open>X\<close> and row \<open>Y\<close> of the bitmap at \<open>fb\<close>.\<close>

definition glyph_pixel :: "mem \<Rightarrow> u64 \<Rightarrow> nat \<Rightarrow> nat \<Rightarrow> bool" where
  "glyph_pixel m fb X Y \<longleftrightarrow> bit (m (fb + of_nat Y)) (7 - X)"

lemma screen_glyph:
  assumes d: "display_ok d" and s: "screen d m0 m p" and r: "unat b = unat a + 8" "unat b \<le> dispW d"
    and e: "unat e \<le> unat f" "unat f \<le> dispH d"
    and fb: "\<And>i. i < unat f - unat e \<Longrightarrow> outside d (fb + of_nat i)"
  shows "screen d m0 (snd (for_range (\<lambda>yo (fb, m). (fb + 1, for_range (\<lambda>xo m.
        if glyph_bit (m fb) (xo - a) then fillPixel d (ucast xo) (ucast yo) c m else m) a b m)) (e :: u64) f (fb, m)))
    (\<lambda>X Y. if unat e \<le> Y \<and> Y < unat f \<and> unat a \<le> X \<and> X < unat b \<and> glyph_pixel m0 fb (X - unat a) (Y - unat e)
           then c else p X Y)"
proof -
  let ?p = "\<lambda>j X Y. if unat e \<le> Y \<and> Y < j \<and> unat a \<le> X \<and> X < unat b \<and> glyph_pixel m0 fb (X - unat a) (Y - unat e)
           then c else p X Y"
  let ?P = "\<lambda>j (fb', m). fb' = fb + of_nat (j - unat e) \<and> screen d m0 m (?p j)"
  have "?P (unat f) (for_range (\<lambda>yo (fb, m). (fb + 1, for_range (\<lambda>xo m.
        if glyph_bit (m fb) (xo - a) then fillPixel d (ucast xo) (ucast yo) c m else m) a b m)) (e :: u64) f (fb, m))"
  proof (rule for_range_rule [where P = ?P])
    have "screen d m0 m (?p (unat e))" using s by (rule screen_pic) auto
    then show "?P (unat e) (fb, m)" by simp
  next
    fix j and st :: "u64 \<times> mem"
    assume j: "unat e \<le> j" "j < unat f" and st: "?P j st"
    obtain fb' m' where st': "st = (fb', m')" by (cases st)
    have fb': "fb' = fb + of_nat (j - unat e)" and m': "screen d m0 m' (?p j)" using st unfolding st' by simp_all
    have o': "outside d fb'" unfolding fb' using j by (intro fb) simp
    have g: "glyph_bit (m fb') (of_nat X - a) = glyph_pixel m0 fb (X - unat a) (j - unat e)"
      if "unat a \<le> X" "X < unat b" "\<forall>z. outside d z \<longrightarrow> m z = m0 z" for X m
    proof -
      have "of_nat X - a = of_nat (X - unat a)" using that(1) by (simp add: of_nat_diff)
      then show ?thesis
        using that r o' glyph_bit_bit [of "X - unat a" "m fb'"] by (simp add: glyph_pixel_def fb')
    qed
    have "screen d m0 (for_range (\<lambda>xo m. if glyph_bit (m fb') (xo - a)
            then fillPixel d (ucast xo) (ucast (of_nat j :: u64)) c m else m) a b m')
        (\<lambda>X Y. if Y = j \<and> unat a \<le> X \<and> X < unat b \<and> glyph_pixel m0 fb (X - unat a) (j - unat e) then c else ?p j X Y)"
      using j e r g by (intro screen_row [OF d m']) auto
    then have "screen d m0 (for_range (\<lambda>xo m. if glyph_bit (m fb') (xo - a)
            then fillPixel d (ucast xo) (ucast (of_nat j :: u64)) c m else m) a b m') (?p (Suc j))"
      by (rule screen_pic) (use j(1) in \<open>auto simp: less_Suc_eq\<close>)
    moreover have "fb' + 1 = fb + of_nat (Suc j - unat e)" using fb' j(1) by (simp add: Suc_diff_le)
    ultimately show "?P (Suc j) ((\<lambda>yo (fb, m). (fb + 1, for_range (\<lambda>xo m.
        if glyph_bit (m fb) (xo - a) then fillPixel d (ucast xo) (ucast yo) c m else m) a b m)) (of_nat j :: u64) st)"
      unfolding st' prod.case by (rule conjI [rotated])
  qed (rule e(1))
  then show ?thesis by (simp add: case_prod_beta)
qed

section \<open>Scrolling\<close>

text \<open>Copying line \<open>j\<close> over line \<open>i\<close>.\<close>

lemma screen_copy_line:
  assumes d: "display_ok d" and s: "screen d m0 m p" and ij: "i < j" "j < dispH d" and w: "0 < dispW d"
  shows "screen d m0 (memcpy m (s_backBuffer d + of_nat (i * (4 * dispW d))) (s_backBuffer d + of_nat (j * (4 * dispW d)))
      (of_nat (4 * dispW d))) (\<lambda>X Y. if Y = i then p X j else p X Y)"
proof -
  let ?W = "dispW d" and ?b = "s_backBuffer d"
  let ?dst = "?b + of_nat (i * (4 * ?W))" and ?src = "?b + of_nat (j * (4 * ?W))"
  define N where "N = ?W * dispH d"
  have lt: "N < 2 ^ 32" using d by (simp only: display_ok_def N_def)
  have jw: "Suc j * ?W \<le> N"
    using ij(2) mult_le_mono1 [of "Suc j" "dispH d" ?W] by (simp only: N_def mult.commute [of ?W] Suc_le_eq)
  have iw: "Suc i * ?W \<le> j * ?W" using ij(1) by (intro mult_right_mono) auto
  have wl: "4 * ?W < 2 ^ 64" using lt jw by simp
  have uw: "unat (of_nat (4 * ?W) :: u64) = 4 * ?W" using wl by (intro unat64_of_nat) simp
  have safe: "fwd_safe ?dst ?src (4 * ?W)"
  proof -
    have "unat (of_nat (i * (4 * ?W)) :: u64) = i * (4 * ?W)" using iw jw lt by (intro unat64_of_nat) simp
    moreover have "j * (4 * ?W) < 2 ^ 34" using jw lt by simp
    ultimately have "4 * ?W \<le> unat (of_nat (i * (4 * ?W)) - of_nat (j * (4 * ?W)) :: u64)"
      using iw ij by (subst unat_sub_of_nat) (auto simp del: of_nat_mult)
    then show ?thesis by (simp add: fwd_safe_def)
  qed
  have c: "memcpy m ?dst ?src (of_nat (4 * ?W)) = copyn m ?dst ?src (4 * ?W)"
    using memcpy_copies [of ?dst ?src "of_nat (4 * ?W)" m] safe by (simp only: uw)
  have byte: "copyn m ?dst ?src (4 * ?W) (?b + of_nat (4 * (X + Y * ?W) + k)) =
      m (?b + of_nat (4 * (X + (if Y = i then j else Y) * ?W) + k))" if XY: "X < ?W" "Y < dispH d" "k < 4" for X Y k
  proof -
    have idx: "4 * (X + Y * ?W) + k < 2 ^ 34" using pixel_index [OF XY(1,2), folded N_def] XY(3) lt by simp
    have "unat (of_nat (4 * (X + Y * ?W) + k) :: u64) = 4 * (X + Y * ?W) + k" using idx by (intro unat64_of_nat) simp
    moreover have il: "i * (4 * ?W) \<le> 2 ^ 64" using iw jw lt by simp
    ultimately have u: "unat (of_nat (4 * (X + Y * ?W) + k) - of_nat (i * (4 * ?W)) :: u64) =
        (if i * (4 * ?W) \<le> 4 * (X + Y * ?W) + k then 4 * (X + Y * ?W) + k - i * (4 * ?W)
         else 2 ^ 64 + (4 * (X + Y * ?W) + k) - i * (4 * ?W))"
      by (subst unat_sub_of_nat) (auto simp del: of_nat_mult of_nat_add)
    consider "Y = i" | "Y < i" | "i < Y" by linarith
    then show ?thesis
    proof cases
      case 1
      then have "unat (of_nat (4 * (X + Y * ?W) + k) - of_nat (i * (4 * ?W)) :: u64) < 4 * ?W"
        unfolding u using XY by (simp add: algebra_simps)
      then show ?thesis
        using 1 by (simp add: copyn_def algebra_simps)
    next
      case 2
      then have "Suc Y * ?W \<le> i * ?W" by (intro mult_right_mono) auto
      then have "\<not> i * (4 * ?W) \<le> 4 * (X + Y * ?W) + k" using XY by simp
      then have "\<not> unat (of_nat (4 * (X + Y * ?W) + k) - of_nat (i * (4 * ?W)) :: u64) < 4 * ?W"
        unfolding u using iw jw lt by simp
      then show ?thesis using 2 by (simp add: copyn_def algebra_simps)
    next
      case 3
      then have "Suc i * ?W \<le> Y * ?W" by (intro mult_right_mono) auto
      then have "\<not> unat (of_nat (4 * (X + Y * ?W) + k) - of_nat (i * (4 * ?W)) :: u64) < 4 * ?W"
        unfolding u by simp
      then show ?thesis using 3 by (simp add: copyn_def algebra_simps)
    qed
  qed
  show ?thesis
    unfolding c screen_def
  proof (intro conjI allI impI)
    fix X Y assume XY: "X < ?W" "Y < dispH d"
    have "pixel d (copyn m ?dst ?src (4 * ?W)) X Y = pixel d m X (if Y = i then j else Y)"
      using byte [OF XY] unfolding pixel_def by (intro bit_word_eqI) (simp add: bit_load32 add.assoc)
    then show "pixel d (copyn m ?dst ?src (4 * ?W)) X Y = (if Y = i then p X j else p X Y)"
      using s XY ij by (simp add: screen_def)
  next
    fix a assume a: "outside d a"
    have "i * (4 * ?W) \<le> unat (a - ?b)" using a iw jw by (simp add: outside_def N_def [symmetric])
    moreover have "i * (4 * ?W) \<le> 2 ^ 64" using iw jw lt by simp
    ultimately have "unat (a - ?b - of_nat (i * (4 * ?W))) = unat (a - ?b) - i * (4 * ?W)"
      by (subst unat_sub_of_nat) auto
    then have "\<not> unat (a - ?dst) < 4 * ?W" using a iw jw by (simp add: outside_def N_def [symmetric] diff_diff_eq)
    then show "copyn m ?dst ?src (4 * ?W) a = m0 a" using s a by (simp add: copyn_out screen_def)
  qed
qed

definition scrolled :: "display \<Rightarrow> nat \<Rightarrow> (nat \<Rightarrow> nat \<Rightarrow> u32) \<Rightarrow> nat \<Rightarrow> nat \<Rightarrow> u32" where
  "scrolled d ch p X Y = (if Y + ch < dispH d then p X (Y + ch) else 0xA0A0A0A)"

lemma screen_move_lines:
  assumes d: "display_ok d" and s: "screen d m0 m p" and w: "0 < dispW d" and c: "0 < unat ch" "unat ch \<le> dispH d"
    and len: "len = ucast (s_displayWidth d) * 4"
  shows "screen d m0 (snd (snd (for_range (\<lambda>offy (dst, src, m). (dst + len, src + len, memcpy m dst src len))
        (ucast ch :: u64) (ucast (s_displayHeight d)) (s_backBuffer d, s_backBuffer d + ucast (ch :: u8) * len, m))))
      (\<lambda>X Y. if Y + unat ch < dispH d then p X (Y + unat ch) else p X Y)"
proof -
  let ?W = "dispW d" and ?b = "s_backBuffer d"
  let ?p = "\<lambda>j X Y. if Y + unat ch < j then p X (Y + unat ch) else p X Y"
  let ?P = "\<lambda>j (dst, src, m). dst = ?b + of_nat ((j - unat ch) * (4 * ?W)) \<and> src = ?b + of_nat (j * (4 * ?W)) \<and> screen d m0 m (?p j)"
  have l: "len = of_nat (4 * ?W)" unfolding len by simp
  have u: "unat (ucast ch :: u64) = unat ch" "unat (ucast (s_displayHeight d) :: u64) = dispH d"
    by (simp_all add: unat_ucast_up)
  have "?P (unat (ucast (s_displayHeight d) :: u64))
      (for_range (\<lambda>offy (dst, src, m). (dst + len, src + len, memcpy m dst src len))
        (ucast ch :: u64) (ucast (s_displayHeight d)) (?b, ?b + ucast (ch :: u8) * len, m))"
  proof (rule for_range_rule [where P = ?P])
    have "screen d m0 m (?p (unat ch))" using s by (rule screen_pic) auto
    moreover have "(ucast ch :: u64) * len = of_nat (unat ch * (4 * ?W))" unfolding l by simp
    ultimately show "?P (unat (ucast ch :: u64)) (?b, ?b + ucast ch * len, m)" unfolding u by simp
  next
    fix j and st :: "u64 \<times> u64 \<times> mem"
    assume j: "unat (ucast ch :: u64) \<le> j" "j < unat (ucast (s_displayHeight d) :: u64)" and st: "?P j st"
    obtain dst src m where st': "st = (dst, src, m)" by (cases st)
    have dst: "dst = ?b + of_nat ((j - unat ch) * (4 * ?W))" and src: "src = ?b + of_nat (j * (4 * ?W))"
      and m: "screen d m0 m (?p j)" using st unfolding st' by simp_all
    have "screen d m0 (memcpy m dst src len) (\<lambda>X Y. if Y = j - unat ch then ?p j X j else ?p j X Y)"
      unfolding dst src l using j c w by (intro screen_copy_line d m) (auto simp: u)
    then have "screen d m0 (memcpy m dst src len) (?p (Suc j))"
      by (rule screen_pic) (use j(1) c(1) in \<open>auto simp: u less_Suc_eq\<close>)
    moreover have "(Suc j - unat ch) * (4 * ?W) = (j - unat ch) * (4 * ?W) + 4 * ?W"
      using j(1) by (simp add: u Suc_diff_le)
    then have "dst + len = ?b + of_nat ((Suc j - unat ch) * (4 * ?W))"
      unfolding dst l by (simp only: of_nat_add add.assoc)
    moreover have "src + len = ?b + of_nat (Suc j * (4 * ?W))" unfolding src l by (simp add: algebra_simps)
    ultimately show "?P (Suc j) ((\<lambda>offy (dst, src, m). (dst + len, src + len, memcpy m dst src len)) (of_nat j) st)"
      unfolding st' prod.case by blast
  qed (use c(2) in \<open>simp add: u\<close>)
  then show ?thesis unfolding u by (simp add: case_prod_beta)
qed

lemma screen_scroll:
  assumes d: "display_ok d" and s: "screen d m0 m p" and w: "0 < dispW d" "fb_width d = s_displayWidth d"
    and c: "0 < unat ch" "unat ch \<le> dispH d"
  shows "screen d m0 (scroll_lines d ch m) (scrolled d (unat ch) p)"
proof -
  have u: "unat (ucast (s_displayHeight d - ucast ch) :: u64) = dispH d - unat ch"
    "unat (ucast (s_displayHeight d) :: u64) = dispH d" "unat (ucast (s_displayWidth d) :: u64) = dispW d"
  proof -
    have "ucast ch \<le> s_displayHeight d"
      using c(2) by (simp add: word_le_nat_alt unat_ucast_up)
    then have "unat (s_displayHeight d - ucast ch) = dispH d - unat ch"
      by (simp add: unat_sub unat_ucast_up)
    then show "unat (ucast (s_displayHeight d - ucast ch) :: u64) = dispH d - unat ch"
      by (simp add: unat_ucast_up)
  qed (simp_all add: unat_ucast_up)
  show ?thesis
    unfolding scroll_lines_def Let_def case_prod_beta
    by (rule screen_pic, rule screen_fill_rect [OF d screen_move_lines [OF d s w(1) c refl, unfolded case_prod_beta]])
      (use c in \<open>auto simp: u w(2) scrolled_def\<close>)
qed

section \<open>Properties\<close>

text \<open>The picture \<open>p\<close> with the glyph at \<open>fb\<close> drawn in colour \<open>c\<close> at column \<open>x\<close> and row \<open>y\<close>.\<close>

definition with_glyph :: "mem \<Rightarrow> u64 \<Rightarrow> nat \<Rightarrow> nat \<Rightarrow> nat \<Rightarrow> u32 \<Rightarrow> (nat \<Rightarrow> nat \<Rightarrow> u32) \<Rightarrow> nat \<Rightarrow> nat \<Rightarrow> u32" where
  "with_glyph m fb x y ch c p X Y =
    (if x \<le> X \<and> X < x + 8 \<and> y \<le> Y \<and> Y < y + ch
     then if glyph_pixel m fb (X - x) (Y - y) then c else 0xA0A0A0A
     else p X Y)"

lemma unat_add_le32: "unat a + unat b \<le> unat (z :: u32) \<Longrightarrow> unat (a + b :: u32) = unat a + unat b"
proof -
  assume *: "unat a + unat b \<le> unat z"
  have "unat z < 2 ^ 32" using unsigned_less [of z] by simp
  with * show ?thesis by (intro unat_add_no_wrap) simp
qed

lemma screen_with_glyph:
  assumes d: "display_ok d" and s: "screen d m0 m p" and x: "unat x + 8 \<le> dispW d" and y: "unat (y :: u32) + unat ch \<le> dispH d"
    and fb: "\<forall>i < unat ch. outside d (fb + of_nat i)"
  shows "screen d m0 (snd (for_range (\<lambda>yo (fb, m). (fb + 1, for_range (\<lambda>xo m.
            if glyph_bit (m fb) (xo - ucast x) then fillPixel d (ucast xo) (ucast yo) c m else m)
              (ucast x :: u64) (ucast (x + CHAR_PIXEL_WIDTH)) m))
          (ucast y :: u64) (ucast (y + ucast (ch :: u8)))
          (fb, for_range (\<lambda>yo. for_range (\<lambda>xo. fillPixel d (ucast xo) (ucast yo) 0xA0A0A0A)
              (ucast x :: u64) (ucast (x + CHAR_PIXEL_WIDTH))) (ucast y :: u64) (ucast (y + ucast ch)) m)))
      (with_glyph m0 fb (unat x) (unat y) (unat ch) c p)"
proof -
  have "unat (x + 8) = unat x + 8" "unat (y + ucast ch) = unat y + unat ch"
    using x y unat_add_le32 [of x 8 "s_displayWidth d"] unat_add_le32 [of y "ucast ch" "s_displayHeight d"]
    by (simp_all add: unat_ucast_up)
  then have u: "unat (ucast x :: u64) = unat x" "unat (ucast (x + CHAR_PIXEL_WIDTH) :: u64) = unat x + 8"
    "unat (ucast y :: u64) = unat y" "unat (ucast (y + ucast ch) :: u64) = unat y + unat ch"
    by (simp_all add: unat_ucast_up CHAR_PIXEL_WIDTH_def)
  note clear = screen_fill_rect [OF d s, of "ucast x" "ucast (x + CHAR_PIXEL_WIDTH)" "ucast y" "ucast (y + ucast ch)" "0xA0A0A0A"]
  show ?thesis
    by (rule screen_pic, rule screen_glyph [OF d clear]) (use x y fb in \<open>auto simp: u with_glyph_def\<close>)
qed

lemma renderTextGlyph_screen:
  assumes "display_ok d" and "fb_width d = s_displayWidth d"
    and "0 < unat (charSize d m)" and "2 * unat (charSize d m) \<le> dispH d" and "unat x + 8 \<le> dispW d" and "unat y \<le> dispH d"
    and "fb = load64 m (s_font d + 8) + word_of_int (sint chr * uint (charSize d m))"
    and "\<forall>i < unat (charSize d m). outside d (fb + of_nat i)"
  shows "let ch = unat (charSize d m); full = dispH d < unat y + ch in
    \<exists>y' m'. renderTextGlyph d chr x y color m = (x, y', m') \<and> unat y' = (if full then unat y - ch else unat y) \<and>
      screen d m m' (with_glyph m fb (unat x) (unat y') ch color (if full then scrolled d ch (pixel d m) else pixel d m))"
proof -
  let ?ch = "charSize d m"
  have "8 * dispH d \<le> dispW d * dispH d" using assms(5) by (intro mult_le_mono1) simp
  also have "\<dots> < 2 ^ 32" using assms(1) by (simp only: display_ok_def)
  finally have H: "dispH d < 2 ^ 29" by simp
  have ch: "unat (ucast ?ch :: u32) = unat ?ch" by (simp add: unat_ucast_up)
  have yc: "unat (y + ucast ?ch) = unat y + unat ?ch"
    using H assms(4,6) by (simp add: unat_add_no_wrap ch)
  then have full: "s_displayHeight d < y + ucast ?ch \<longleftrightarrow> dispH d < unat y + unat ?ch"
    by (simp add: word_less_nat_alt)
  show ?thesis
  proof (cases "dispH d < unat y + unat ?ch")
    case True
    have "ucast ?ch \<le> y" using True assms(4) by (simp add: word_le_nat_alt ch)
    then have y': "unat (y - ucast ?ch) = unat y - unat ?ch" by (simp add: unat_sub ch)
    have w: "0 < dispW d" "unat ?ch \<le> dispH d" "unat (y - ucast ?ch) + unat ?ch \<le> dispH d"
      using True assms(4-6) y' by simp_all
    show ?thesis
      using True y' screen_with_glyph [OF assms(1) screen_scroll [OF assms(1) screen_same w(1) assms(2,3) w(2)] assms(5) w(3) assms(8)]
      by (simp add: renderTextGlyph_def Let_def full case_prod_beta assms(7))
  next
    case False
    then show ?thesis
      using screen_with_glyph [OF assms(1) screen_same assms(5) _ assms(8), of y]
      by (auto simp: renderTextGlyph_def Let_def full case_prod_beta assms(7))
  qed
qed

text \<open>
  C16: A character is drawn where the cursor stands, and nothing else of the picture changes. The
  slot of eight columns and \<open>charSize\<close> rows shows the bits of the glyph in the colour, the other
  pixels of the slot the background. When the slot does not fit below the cursor, the picture first
  moves up by \<open>charSize\<close> lines, the last lines are cleared and the cursor's row moves with them.
  Memory outside the back buffer is unchanged.
\<close>

theorem renderTextGlyph_draws:
  assumes "display_ok d" and "fb_width d = s_displayWidth d"
    and "0 < unat (charSize d m)" and "2 * unat (charSize d m) \<le> dispH d" and "unat x + 8 \<le> dispW d" and "unat y \<le> dispH d"
    and "fb = load64 m (s_font d + 8) + word_of_int (sint chr * uint (charSize d m))"
    and "\<forall>i < unat (charSize d m). outside d (fb + of_nat i)"
  shows "let ch = unat (charSize d m); full = dispH d < unat y + ch in
    \<exists>y' m'. renderTextGlyph d chr x y color m = (x, y', m') \<and> unat y' = (if full then unat y - ch else unat y) \<and>
      screen d m m' (with_glyph m fb (unat x) (unat y') ch color (if full then scrolled d ch (pixel d m) else pixel d m))"
  using assms by (rule renderTextGlyph_screen)

text \<open>A display of 16 by 32 pixels, a font of 16 rows at \<open>0x3000\<close> and a dot in the glyph of \<open>A\<close>.\<close>

definition display0 :: display where
  "display0 = \<lparr>s_displayWidth = 16, s_displayHeight = 32, fb_base = 0x80000, fb_size = 2048, fb_width = 16, fb_height = 32,
    fb_pixelsPerScanline = 16, s_font = 0x1000, s_backBuffer = 0x100000\<rparr>"

definition font0 :: mem where
  "font0 = store64 0x2000 0x1000 (store64 0x3000 0x1008 ((\<lambda>_. 0)(0x2003 := 16, 0x3410 := 0x80)))"

lemma font0_simps: "charSize display0 font0 = 16" "load64 font0 0x1008 = 0x3000" "font0 0x3410 = 0x80"
  by (simp_all add: charSize_def display0_def font0_def load64_store64_other mem_simps)

theorem renderTextGlyph_draws_witness:
  "\<exists>m'. renderTextGlyph display0 65 8 8 0xffffffff font0 = (8, 8, m') \<and> pixel display0 m' 8 8 = 0xffffffff"
proof -
  have o: "\<forall>i < 16. outside display0 (0x3410 + of_nat i)"
  proof (intro allI impI)
    fix i :: nat
    assume "i < 16"
    then have "unat (of_nat i :: u64) = i" by (intro unat64_of_nat) simp
    then show "outside display0 (0x3410 + of_nat i)"
      using \<open>i < 16\<close> by (simp add: outside_def display0_def unat_sub_if' unat_word_ariths)
  qed
  obtain y' m' where r: "renderTextGlyph display0 65 8 8 0xffffffff font0 = (8, y', m')" "unat y' = 8"
    "screen display0 font0 m' (with_glyph font0 0x3410 8 (unat y') 16 0xffffffff (pixel display0 font0))"
    using renderTextGlyph_draws [of display0 font0 8 8 "0x3410" 65 "0xffffffff"] o
    by (auto simp: font0_simps Let_def) (auto simp: display0_def display_ok_def font0_simps Let_def)
  moreover have "y' = 8" using r(2) by (simp add: word_unat_eq_iff)
  moreover have "pixel display0 m' 8 8 = 0xffffffff"
    using r(2,3) by (simp add: screen_def with_glyph_def glyph_pixel_def display0_def font0_simps bit_simps)
  ultimately show ?thesis by blast
qed

end
