(* ===== verification/Console.thy ===== *)
theory Console
  imports Display Apic
begin

text \<open>
  The console of the kernel: \<^verbatim>\<open>core/kprint.cpp\<close>, \<^verbatim>\<open>interrupts/panic.cpp\<close> and the handlers of
  \<^verbatim>\<open>interrupts/interrupts.cpp\<close> that print. A character goes to the serial line and to the display. The
  state \<open>terminal\<close> is the machine with the display, the cursor and the locks of these files.

  Strings are read from memories given as arguments: \<open>f\<close> holds the format, \<open>t\<close> the strings the
  arguments point to; the operations do not write to them. A variable argument list is a list of
  64-bit words, of which \<open>va_arg\<close> takes the head and keeps the width it asks for. \<open>None\<close> stands for
  a call that does not return (the serial line never drains, a lock is never free, an unterminated
  string) or that takes an argument that is not there.
\<close>

section \<open>State\<close>

definition TEXT_COLOR_WHITE :: u32 where "TEXT_COLOR_WHITE = 0xffffffff"
definition TEXT_COLOR_RED :: u32 where "TEXT_COLOR_RED = 0xffff0000"
definition TEXT_COLOR_GREEN :: u32 where "TEXT_COLOR_GREEN = 0xff00ff00"
definition TEXT_COLOR_YELLOW :: u32 where "TEXT_COLOR_YELLOW = 0xffffff00"
definition DEFAULT_TEXT_COLOR :: u32 where "DEFAULT_TEXT_COLOR = 0xff05ffa4"

definition CHAR_TOP_BORDER_OFFSET :: u32 where "CHAR_TOP_BORDER_OFFSET = 8"
definition CHAR_LEFT_BORDER_OFFSET :: u32 where "CHAR_LEFT_BORDER_OFFSET = 8"

record 'd terminal =
  mach :: "'d machine"
  disp :: display
  cursor_x :: u32
  cursor_y :: u32
  kprint_spinlock :: u32
  kpanic_lock :: u32
  kexc_log_lock :: u32
  cr2_reg :: u64

definition tmem :: "'d terminal \<Rightarrow> mem" where
  "tmem k = ram (task_heap (mach k))"

definition set_tmem :: "mem \<Rightarrow> 'd terminal \<Rightarrow> 'd terminal" where
  "set_tmem m k = k\<lparr>mach := (mach k)\<lparr>task_heap := (task_heap (mach k))\<lparr>ram := m\<rparr>\<rparr>\<rparr>"

definition on_mach :: "('d machine \<Rightarrow> 'd machine) \<Rightarrow> 'd terminal \<Rightarrow> 'd terminal" where
  "on_mach f k = k\<lparr>mach := f (mach k)\<rparr>"

definition kprintSetCursorLocation :: "u32 \<Rightarrow> u32 \<Rightarrow> 'd terminal \<Rightarrow> 'd terminal" where
  "kprintSetCursorLocation x y k =
    k\<lparr>cursor_x := if x = - 1 then CHAR_LEFT_BORDER_OFFSET else x,
      cursor_y := if y = - 1 then CHAR_TOP_BORDER_OFFSET else y\<rparr>"

text \<open>\<open>renderTextGlyph\<close> on the cursor, which it takes by reference.\<close>

definition draw_at_cursor :: "u8 \<Rightarrow> u32 \<Rightarrow> 'd terminal \<Rightarrow> 'd terminal" where
  "draw_at_cursor chr color k =
    (let (x, y, m) = renderTextGlyph (disp k) chr (cursor_x k) (cursor_y k) color (tmem k)
     in set_tmem m (k\<lparr>cursor_x := x, cursor_y := y\<rparr>))"

section \<open>Characters and strings\<close>

definition kprintCharColored :: "'d board \<Rightarrow> u8 \<Rightarrow> u32 \<Rightarrow> 'd terminal \<Rightarrow> 'd terminal option" where
  "kprintCharColored B chr color k = do {
     p \<leftarrow> writeToSerialPort (io_ports B) SERIAL_PORT_BASE_COM1 chr (device (mach k));
     let k = on_mach (\<lambda>c. c\<lparr>device := p\<rparr>) k;
     let charPixelHeight = ucast (charSize (disp k) (tmem k));
     if chr = 10 then
       Some (draw_at_cursor 32 0 (k\<lparr>cursor_x := CHAR_LEFT_BORDER_OFFSET, cursor_y := cursor_y k + charPixelHeight\<rparr>))
     else if chr = 13 then Some (k\<lparr>cursor_x := CHAR_LEFT_BORDER_OFFSET\<rparr>)
     else
       (let k = draw_at_cursor chr color k;
            k = k\<lparr>cursor_x := cursor_x k + CHAR_PIXEL_WIDTH\<rparr>
        in if fb_width (disp k) < cursor_x k + CHAR_PIXEL_WIDTH
           then Some (k\<lparr>cursor_x := CHAR_LEFT_BORDER_OFFSET, cursor_y := cursor_y k + charPixelHeight\<rparr>)
           else Some k)
   }"

definition kprintChar :: "'d board \<Rightarrow> u8 \<Rightarrow> 'd terminal \<Rightarrow> 'd terminal option" where
  "kprintChar B chr k = kprintCharColored B chr DEFAULT_TEXT_COLOR k"

partial_function (option) kprintColoredEx :: "'d board \<Rightarrow> mem \<Rightarrow> u64 \<Rightarrow> u32 \<Rightarrow> 'd terminal \<Rightarrow> 'd terminal option" where
  "kprintColoredEx B t chr color k =
    (if t chr \<noteq> 0 then do {
       k \<leftarrow> kprintCharColored B (t chr) color k;
       kprintColoredEx B t (chr + 1) color k
     }
     else Some k)"

text \<open>A string literal, at address 0 of a memory of its own.\<close>

definition lit :: "string \<Rightarrow> mem" where
  "lit s a = (if unat a < length s then of_char (s ! unat a) else 0)"

section \<open>Formatting\<close>

text \<open>\<open>swapBuffers\<close> with the interrupt flag it saves and restores.\<close>

definition swapBuffers :: "'d terminal \<Rightarrow> 'd terminal" where
  "swapBuffers k =
    (let initialIrqFlag = interrupts_on (mach k);
         k = (if initialIrqFlag then on_mach (\<lambda>c. c\<lparr>interrupts_on := False\<rparr>) k else k);
         k = set_tmem (swapBuffers_lines (disp k) (tmem k)) k
     in if initialIrqFlag then on_mach (\<lambda>c. c\<lparr>interrupts_on := True\<rparr>) k else k)"

definition print_buf :: "'d board \<Rightarrow> int \<times> mem \<Rightarrow> u32 \<Rightarrow> 'd terminal \<Rightarrow> 'd terminal option" where
  "print_buf B r color k = kprintColoredEx B (snd r) 0 color k"

fun va_arg :: "u64 list \<Rightarrow> (u64 \<times> u64 list) option" where
  "va_arg [] = None"
| "va_arg (a # args) = Some (a, args)"

text \<open>
  One pass of the \<open>switch\<close>: the arguments left, the position of the last character of the
  directive and the state. The local buffers are zeroed memories of their own.
\<close>

definition kprint_directive ::
  "'d board \<Rightarrow> u32 \<Rightarrow> mem \<Rightarrow> u64 \<Rightarrow> mem \<Rightarrow> u64 list \<Rightarrow> 'd terminal \<Rightarrow> (u64 \<times> u64 list \<times> 'd terminal) option" where
  "kprint_directive B color f fmt t args k =
    (if f fmt = of_char CHR ''c'' then do {
       (a, args) \<leftarrow> va_arg args;
       k \<leftarrow> kprintCharColored B (ucast a) color k;
       Some (fmt, args, k)
     }
     else if f fmt = of_char CHR ''s'' then do {
       (a, args) \<leftarrow> va_arg args;
       k \<leftarrow> kprintColoredEx B t a color k;
       Some (fmt, args, k)
     }
     else if f fmt = of_char CHR ''i'' then do {
       (a, args) \<leftarrow> va_arg args;
       k \<leftarrow> print_buf B (lltoa (\<lambda>_. 0) (scast (ucast a :: u32)) 0 128) color k;
       Some (fmt, args, k)
     }
     else if f fmt = of_char CHR ''x'' then do {
       (a, args) \<leftarrow> va_arg args;
       k \<leftarrow> print_buf B (htoa (\<lambda>_. 0) (ucast (ucast a :: u32)) 0 17) color k;
       Some (fmt, args, k)
     }
     else if f fmt = of_char CHR ''l'' then
       (if f (fmt + 1) = of_char CHR ''l'' \<and> f (fmt + 2) = of_char CHR ''u'' then do {
          (a, args) \<leftarrow> va_arg args;
          k \<leftarrow> print_buf B (lltoa (\<lambda>_. 0) a 0 128) color k;
          Some (fmt + 2, args, k)
        }
        else if f (fmt + 1) = of_char CHR ''l'' \<and> f (fmt + 2) = of_char CHR ''i'' then do {
          (a, args) \<leftarrow> va_arg args;
          k \<leftarrow> print_buf B (lltoa (\<lambda>_. 0) a 0 128) color k;
          Some (fmt + 2, args, k)
        }
        else if f (fmt + 1) = of_char CHR ''l'' \<and> f (fmt + 2) = of_char CHR ''x'' then do {
          (a, args) \<leftarrow> va_arg args;
          k \<leftarrow> print_buf B (htoa (\<lambda>_. 0) a 0 128) color k;
          Some (fmt + 2, args, k)
        }
        else do {
          (a, args) \<leftarrow> va_arg args;
          k \<leftarrow> print_buf B (lltoa (\<lambda>_. 0) (scast (ucast a :: u32)) 0 128) color k;
          Some (fmt, args, k)
        })
     else do { k \<leftarrow> kprintCharColored B (f fmt) color k; Some (fmt, args, k) })"

partial_function (option) kprintFmt_loop ::
  "'d board \<Rightarrow> u32 \<Rightarrow> mem \<Rightarrow> u64 \<Rightarrow> bool \<Rightarrow> mem \<Rightarrow> u64 list \<Rightarrow> 'd terminal \<Rightarrow> 'd terminal option" where
  "kprintFmt_loop B color f fmt fmtDiscovered t args k =
    (if f fmt = 0 then Some k
     else if f fmt = of_char CHR ''%'' then kprintFmt_loop B color f (fmt + 1) True t args k
     else if \<not> fmtDiscovered then do {
       k \<leftarrow> kprintCharColored B (f fmt) color k;
       kprintFmt_loop B color f (fmt + 1) fmtDiscovered t args k
     }
     else do {
       (fmt, args, k) \<leftarrow> kprint_directive B color f fmt t args k;
       kprintFmt_loop B color f (fmt + 1) False t args k
     })"

definition kprintFmtColoredEx ::
  "'d board \<Rightarrow> u32 \<Rightarrow> mem \<Rightarrow> u64 \<Rightarrow> mem \<Rightarrow> u64 list \<Rightarrow> 'd terminal \<Rightarrow> 'd terminal option" where
  "kprintFmtColoredEx B color f fmt t args k = do {
     k \<leftarrow> kprintFmt_loop B color f fmt False t args k;
     Some (swapBuffers k)
   }"

definition kprintFmtColoredExLocked ::
  "'d board \<Rightarrow> u32 \<Rightarrow> mem \<Rightarrow> u64 \<Rightarrow> mem \<Rightarrow> u64 list \<Rightarrow> 'd terminal \<Rightarrow> 'd terminal option" where
  "kprintFmtColoredExLocked B color f fmt t args k = do {
     l \<leftarrow> acquireSpinlock (kprint_spinlock k);
     k \<leftarrow> kprintFmtColoredEx B color f fmt t args (k\<lparr>kprint_spinlock := l\<rparr>);
     Some (k\<lparr>kprint_spinlock := releaseSpinlock (kprint_spinlock k)\<rparr>)
   }"

definition kprintFmtColored ::
  "'d board \<Rightarrow> u32 \<Rightarrow> mem \<Rightarrow> u64 \<Rightarrow> mem \<Rightarrow> u64 list \<Rightarrow> 'd terminal \<Rightarrow> 'd terminal option" where
  "kprintFmtColored B color f fmt t args k = kprintFmtColoredEx B color f fmt t args k"

definition kprint :: "'d board \<Rightarrow> mem \<Rightarrow> u64 \<Rightarrow> mem \<Rightarrow> u64 list \<Rightarrow> 'd terminal \<Rightarrow> 'd terminal option" where
  "kprint B f fmt t args k = kprintFmtColoredEx B DEFAULT_TEXT_COLOR f fmt t args k"

definition kprintLocked :: "'d board \<Rightarrow> mem \<Rightarrow> u64 \<Rightarrow> mem \<Rightarrow> u64 list \<Rightarrow> 'd terminal \<Rightarrow> 'd terminal option" where
  "kprintLocked B f fmt t args k = do {
     l \<leftarrow> acquireSpinlock (kprint_spinlock k);
     k \<leftarrow> kprintFmtColoredEx B DEFAULT_TEXT_COLOR f fmt t args (k\<lparr>kprint_spinlock := l\<rparr>);
     Some (k\<lparr>kprint_spinlock := releaseSpinlock (kprint_spinlock k)\<rparr>)
   }"

definition kprintError :: "'d board \<Rightarrow> mem \<Rightarrow> u64 \<Rightarrow> mem \<Rightarrow> u64 list \<Rightarrow> 'd terminal \<Rightarrow> 'd terminal option" where
  "kprintError B f fmt t args k = do {
     k \<leftarrow> kprintColoredEx B (lit ''#ERROR '') 0 TEXT_COLOR_RED k;
     kprintFmtColoredEx B TEXT_COLOR_WHITE f fmt t args k
   }"

definition kprintWarn :: "'d board \<Rightarrow> mem \<Rightarrow> u64 \<Rightarrow> mem \<Rightarrow> u64 list \<Rightarrow> 'd terminal \<Rightarrow> 'd terminal option" where
  "kprintWarn B f fmt t args k = do {
     k \<leftarrow> kprintColoredEx B (lit ''#WARN '') 0 TEXT_COLOR_YELLOW k;
     kprintFmtColoredEx B TEXT_COLOR_WHITE f fmt t args k
   }"

definition kprintInfo :: "'d board \<Rightarrow> mem \<Rightarrow> u64 \<Rightarrow> mem \<Rightarrow> u64 list \<Rightarrow> 'd terminal \<Rightarrow> 'd terminal option" where
  "kprintInfo B f fmt t args k = do {
     k \<leftarrow> kprintColoredEx B (lit ''#INFO '') 0 TEXT_COLOR_GREEN k;
     kprintFmtColoredEx B TEXT_COLOR_WHITE f fmt t args k
   }"

definition kuPrint :: "'d board \<Rightarrow> mem \<Rightarrow> u64 \<Rightarrow> mem \<Rightarrow> u64 list \<Rightarrow> 'd terminal \<Rightarrow> 'd terminal option" where
  "kuPrint B f fmt t args k =
    (let initiallyElevated = kcheck_elevated (mach k);
         k = (if \<not> initiallyElevated then on_mach kelevate k else k)
     in do {
       k \<leftarrow> kprintFmtColoredExLocked B DEFAULT_TEXT_COLOR f fmt t args k;
       Some (if \<not> initiallyElevated then on_mach klower k else k)
     })"

section \<open>Panic and the exception handlers\<close>

definition line :: "string \<Rightarrow> mem" where
  "line s = lit (s @ [CHR 0x0A])"

abbreviation no_strings :: mem where
  "no_strings \<equiv> \<lambda>_. 0"

definition g_cpuExceptionMessages :: "string list" where
  "g_cpuExceptionMessages =
    [''Division By Zero'', ''Debug'', ''Non Maskable Interrupt'', ''Breakpoint'', ''Into Detected Overflow'',
     ''Out of Bounds'', ''Invalid Opcode'', ''No Coprocessor'',
     ''Double Fault'', ''Coprocessor Segment Overrun'', ''Bad TSS'', ''Segment Not Present'', ''Stack Fault'',
     ''General Protection Fault'', ''Page Fault'', ''Unknown Interrupt'',
     ''Coprocessor Fault'', ''Alignment Check'', ''Machine Check'', ''SIMD Floating-Point Exception'',
     ''Virtualization Exception'', ''Control Protection Exception'', ''Reserved'', ''Reserved'',
     ''Reserved'', ''Reserved'', ''Reserved'', ''Reserved'', ''Hypervisor Injection Exception'',
     ''VMM Communication Exception'', ''Security Exception'']"

partial_function (option) backtrace_loop :: "'d board \<Rightarrow> u64 \<Rightarrow> 'd terminal \<Rightarrow> 'd terminal option" where
  "backtrace_loop B rbp k =
    (if rbp \<noteq> 0 then
       (let next_rip = load64 (tmem k) (rbp + 8)
        in if next_rip = 0 then Some k
           else do {
             k \<leftarrow> kprintInfo B (line '' -> 0x%llx'') 0 no_strings [next_rip] k;
             backtrace_loop B (load64 (tmem k) rbp) k
           })
     else Some k)"

definition printBacktrace :: "'d board \<Rightarrow> PtRegs \<Rightarrow> 'd terminal \<Rightarrow> 'd terminal option" where
  "printBacktrace B regs k = do {
     k \<leftarrow> kprintInfo B (line ''======= BACKTRACE ======='') 0 no_strings [] k;
     k \<leftarrow> kprintInfo B (line ''RIP: 0x%llx'') 0 no_strings [h_rip (hwframe regs)] k;
     backtrace_loop B (f_rbp regs) k
   }"

text \<open>
  \<open>kpanic\<close> ends in a loop of \<^verbatim>\<open>hlt\<close> with interrupts off: the result is the state in which the processor
  stays. The message is looked up by the interrupt number without a check; a number past the table
  is \<open>None\<close>.
\<close>

definition kpanic :: "'d board \<Rightarrow> PtRegs \<Rightarrow> 'd terminal \<Rightarrow> 'd terminal option" where
  "kpanic B frame k = do {
     let k = on_mach (\<lambda>c. c\<lparr>interrupts_on := False\<rparr>) k;
     l \<leftarrow> acquireSpinlock (kpanic_lock k);
     let k = k\<lparr>kpanic_lock := l\<rparr>;
     let cr0 = cr0_reg (mach k);
     let cr2 = cr2_reg k;
     let cr3 = cr3_reg (mach k);
     let cr4 = cr4_reg (mach k);
     k \<leftarrow> kprintChar B 10 k;
     k \<leftarrow> (if unat (f_intno frame) < length g_cpuExceptionMessages
           then kprintError B (line ''====== PANIC: CPU EXCEPTION %s ======'') 0
                  (lit (g_cpuExceptionMessages ! unat (f_intno frame))) [0] k
           else None);
     k \<leftarrow> kprintInfo B (line ''Error Code: %llx'') 0 no_strings [f_error frame] k;
     k \<leftarrow> printBacktrace B frame k;
     k \<leftarrow> kprint B (line ''======= REGISTER STATE ======='') 0 no_strings [] k;
     k \<leftarrow> kprintInfo B (line ''RAX: %llx  RCX: %llx  RDX: %llx'') 0 no_strings [f_rax frame, f_rcx frame, f_rdx frame] k;
     k \<leftarrow> kprintInfo B (line ''RBX: %llx  RSP: %llx  RBP: %llx'') 0 no_strings [f_rbx frame, h_rsp (hwframe frame), f_rbp frame] k;
     k \<leftarrow> kprintInfo B (line ''RSI: %llx  RDI: %llx  R8 : %llx'') 0 no_strings [f_rsi frame, f_rdi frame, f_r8 frame] k;
     k \<leftarrow> kprintInfo B (line ''R9 : %llx  R10: %llx  R11: %llx'') 0 no_strings [f_r9 frame, f_r10 frame, f_r11 frame] k;
     k \<leftarrow> kprintInfo B (line ''R12: %llx  R13: %llx  R14: %llx'') 0 no_strings [f_r12 frame, f_r13 frame, f_r14 frame] k;
     k \<leftarrow> kprintInfo B (line ''R15: %llx'') 0 no_strings [f_r15 frame] k;
     k \<leftarrow> kprint B (line ''======= SEGMENT REGISTERS ======='') 0 no_strings [] k;
     k \<leftarrow> kprintInfo B (line ''CS : %llx  DS : %llx  ES : %llx'') 0 no_strings [h_cs (hwframe frame), f_ds frame, f_es frame] k;
     k \<leftarrow> kprintInfo B (line ''FS : %llx  GS : %llx  SS : %llx'') 0 no_strings [f_fs frame, f_gs frame, h_ss (hwframe frame)] k;
     k \<leftarrow> kprint B (line ''======= CONTROL REGISTERS ======='') 0 no_strings [] k;
     k \<leftarrow> kprintInfo B (line ''CR0: %llx  CR2: %llx  CR3: %llx  CR4: %llx'') 0 no_strings [cr0, cr2, cr3, cr4] k;
     k \<leftarrow> kprint B (line ''======= SPECIAL REGISTERS ======='') 0 no_strings [] k;
     k \<leftarrow> kprintInfo B (line ''RIP: %llx  RFLAGS: %llx'') 0 no_strings [h_rip (hwframe frame), h_rflags (hwframe frame)] k;
     k \<leftarrow> kprintError B (line ''======= PROCESSOR HALTED ======='') 0 no_strings [] k;
     Some (k\<lparr>kpanic_lock := releaseSpinlock (kpanic_lock k)\<rparr>)
   }"

definition userspace_common_exc_handler :: "'d board \<Rightarrow> PtRegs \<Rightarrow> 'd terminal \<Rightarrow> 'd terminal option" where
  "userspace_common_exc_handler B frame k = kpanic B frame k"

definition exc_handler_div :: "'d board \<Rightarrow> PtRegs \<Rightarrow> 'd terminal \<Rightarrow> 'd terminal option" where
  "exc_handler_div B frame k = do {
     l \<leftarrow> acquireSpinlock (kexc_log_lock k);
     let k = k\<lparr>kexc_log_lock := l\<rparr>;
     k \<leftarrow> kprintColoredEx B (lit ''#DIV'') 0 TEXT_COLOR_RED k;
     k \<leftarrow> kprintFmtColored B TEXT_COLOR_WHITE (line '' faulting instruction at 0x%llx'') 0 no_strings [h_rip (hwframe frame)] k;
     k \<leftarrow> kprintColoredEx B (lit ''#DIV '') 0 TEXT_COLOR_RED k;
     k \<leftarrow> kprintColoredEx B (line ''Your goomba code tried to divide by 0'') 0 TEXT_COLOR_WHITE k;
     kpanic B frame (k\<lparr>kexc_log_lock := releaseSpinlock (kexc_log_lock k)\<rparr>)
   }"

definition PF_PRESENT :: u64 where "PF_PRESENT = 0x1"
definition PF_WRITE :: u64 where "PF_WRITE = 0x2"
definition PF_USER :: u64 where "PF_USER = 0x4"

definition exc_handler_pf :: "'d board \<Rightarrow> PtRegs \<Rightarrow> 'd terminal \<Rightarrow> 'd terminal option" where
  "exc_handler_pf B frame k = do {
     l \<leftarrow> acquireSpinlock (kexc_log_lock k);
     let k = k\<lparr>kexc_log_lock := l\<rparr>;
     k \<leftarrow> kprintColoredEx B (lit ''#PF'') 0 TEXT_COLOR_RED k;
     k \<leftarrow> kprintFmtColored B TEXT_COLOR_WHITE (line '' faulting instruction at 0x%llx'') 0 no_strings [h_rip (hwframe frame)] k;
     k \<leftarrow> kprintColoredEx B (lit ''#PF'') 0 TEXT_COLOR_RED k;
     k \<leftarrow> kprintFmtColored B TEXT_COLOR_WHITE (lit '' error_code: (0x%llx)'') 0 no_strings [f_error frame] k;
     k \<leftarrow> kprintFmtColored B TEXT_COLOR_WHITE
           (lit (if f_error frame AND PF_PRESENT \<noteq> 0 then '' - page-level protection violation'' else '' - page not present''))
           0 no_strings [] k;
     k \<leftarrow> kprintFmtColored B TEXT_COLOR_WHITE
           (lit (if f_error frame AND PF_WRITE \<noteq> 0 then '' - write operation'' else '' - read operation'')) 0 no_strings [] k;
     k \<leftarrow> kprintFmtColored B TEXT_COLOR_WHITE
           (lit (if f_error frame AND PF_USER \<noteq> 0
                 then if f_ds frame AND 3 \<noteq> 0 then '' - occurred in user mode'' else '' - occurred in lowered-supervisor mode''
                 else if f_ds frame AND 3 \<noteq> 0 then '' - occurred in user-elevated mode'' else '' - occurred in supervisor mode''))
           0 no_strings [] k;
     k \<leftarrow> kprintChar B 10 k;
     k \<leftarrow> kprintWarn B (line ''Faulting address: 0x%llx'') 0 no_strings [cr2_reg k] k;
     k \<leftarrow> kprintChar B 10 k;
     kpanic B frame (k\<lparr>kexc_log_lock := releaseSpinlock (kexc_log_lock k)\<rparr>)
   }"

definition irq_handler_keyboard :: "'d board \<Rightarrow> 'd terminal \<Rightarrow> 'd terminal option" where
  "irq_handler_keyboard B k = do {
     c \<leftarrow> apic_completeIrq B (mach k);
     let (scancode, p) = inByte (io_ports B) 0x60 (device c);
     kprint B (line ''Scancode: %i'') 0 no_strings [ucast scancode] (k\<lparr>mach := c\<lparr>device := p\<rparr>\<rparr>)
   }"

section \<open>The text of a format\<close>

definition str_at :: "mem \<Rightarrow> u64 \<Rightarrow> u8 list \<Rightarrow> bool" where
  "str_at m a xs \<longleftrightarrow> (\<forall>i < length xs. m (a + of_nat i) = xs ! i) \<and> m (a + of_nat (length xs)) = 0 \<and> 0 \<notin> set xs"

definition hex_ascii :: "u64 \<Rightarrow> u8 list" where
  "hex_ascii v = map (\<lambda>i. g_hexAlphabet ! unat (drop_bit (4 * (15 - i)) v AND 15)) [0..<16]"

text \<open>
  What a directive stands for: its text, how many further characters of the format belong to it,
  and the arguments left. \<open>strs\<close> gives the strings that arguments point to.
\<close>

definition directive_text ::
  "(u64 \<Rightarrow> u8 list option) \<Rightarrow> u8 \<Rightarrow> u8 list \<Rightarrow> u64 list \<Rightarrow> (u8 list \<times> nat \<times> u64 list) option" where
  "directive_text strs c fs args =
    (if c \<notin> of_char ` set ''csixl'' then Some ([c], 0, args)
     else case args of [] \<Rightarrow> None | a # args \<Rightarrow>
       if c = of_char CHR ''c'' then Some ([ucast a], 0, args)
       else if c = of_char CHR ''s'' then map_option (\<lambda>s. (s, 0, args)) (strs a)
       else if c = of_char CHR ''x'' then Some (hex_ascii (ucast (ucast a :: u32)), 0, args)
       else if c = of_char CHR ''l'' \<and> take 2 fs \<in> {map of_char ''lu'', map of_char ''li''}
         then Some (dec_ascii (unat a), 2, args)
       else if c = of_char CHR ''l'' \<and> take 2 fs = map of_char ''lx'' then Some (hex_ascii a, 2, args)
       else Some (dec_ascii (unat (scast (ucast a :: u32) :: u64)), 0, args))"

function fmt_text :: "(u64 \<Rightarrow> u8 list option) \<Rightarrow> bool \<Rightarrow> u8 list \<Rightarrow> u64 list \<Rightarrow> u8 list option" where
  "fmt_text strs d [] args = Some []"
| "fmt_text strs d (c # fs) args =
    (if c = of_char CHR ''%'' then fmt_text strs True fs args
     else if \<not> d then map_option ((#) c) (fmt_text strs False fs args)
     else do {
       (out, n, args) \<leftarrow> directive_text strs c fs args;
       rest \<leftarrow> fmt_text strs False (drop n fs) args;
       Some (out @ rest)
     })"
  by pat_completeness auto
termination
  by (relation "measure (\<lambda>(strs, d, fs, args). length fs)") auto

lemma str_at_Cons: "str_at m a (x # xs) \<longleftrightarrow> m a = x \<and> x \<noteq> 0 \<and> str_at m (a + 1) xs"
proof
  assume *: "str_at m a (x # xs)"
  then have "\<forall>i < length xs. m (a + 1 + of_nat i) = xs ! i"
    by (auto simp: str_at_def add.assoc dest: spec [of _ "Suc _"])
  with * show "m a = x \<and> x \<noteq> 0 \<and> str_at m (a + 1) xs"
    by (auto simp: str_at_def add.assoc dest: spec [of _ 0])
next
  assume *: "m a = x \<and> x \<noteq> 0 \<and> str_at m (a + 1) xs"
  have "m (a + of_nat i) = (x # xs) ! i" if "i < length (x # xs)" for i
    using * that by (cases i) (auto simp: str_at_def add.assoc)
  with * show "str_at m a (x # xs)" by (auto simp: str_at_def add.assoc)
qed

lemma str_at_Nil: "str_at m a [] \<longleftrightarrow> m a = 0"
  by (simp add: str_at_def)

lemma str_at_drop: "str_at m a xs \<Longrightarrow> n \<le> length xs \<Longrightarrow> str_at m (a + of_nat n) (drop n xs)"
proof (induction n arbitrary: a xs)
  case (Suc n)
  then obtain y ys where "xs = y # ys" by (cases xs) auto
  then show ?case using Suc.IH [of "a + 1" ys] Suc.prems by (simp add: str_at_Cons add.assoc)
qed simp

lemma str_at_lltoa: "str_at (snd (lltoa m v 0 128)) 0 (dec_ascii (unat v))"
proof -
  let ?d = "dec_ascii (unat v)"
  have l: "length ?d \<le> 20" using dec_length_20 [of v] by (simp add: dec_ascii_def)
  have u: "unat (of_nat i :: u64) = i" if "i \<le> length ?d" for i
    using that l by (intro unat64_of_nat) simp
  have nz: "0 \<notin> set ?d"
  proof
    assume "0 \<in> set ?d"
    then obtain k where k: "k < 10" "of_nat k + 48 = (0 :: u8)" by (auto simp: dec_ascii_def dest: dec_digit)
    then have "unat (of_nat k :: u8) = k" by (simp add: unat_of_nat_less)
    then have "unat (of_nat k + 48 :: u8) = k + 48" using k(1) by (subst unat_add_no_wrap) simp_all
    with k(2) show False by simp
  qed
  have "snd (lltoa m v 0 128) = write_list 0 (?d @ [0]) m"
    using dec_length_20 [of v] by (simp add: lltoa_dec)
  then show ?thesis
    using nz by (auto simp: str_at_def write_list_def u nth_append)
qed

lemma hex_digit_nonzero: "n < 16 \<Longrightarrow> g_hexAlphabet ! n \<noteq> 0"
proof -
  assume "n < 16"
  then have "g_hexAlphabet ! n \<in> set g_hexAlphabet" by (intro nth_mem) (simp add: g_hexAlphabet_def)
  moreover have "0 \<notin> set g_hexAlphabet" by (simp add: g_hexAlphabet_def)
  ultimately show ?thesis by metis
qed

lemma hex_nibbles:
  fixes v :: u64
  shows "unat (drop_bit 4 ((ucast (drop_bit n v) :: u8) AND 0xF0)) = unat (drop_bit (n + 4) v AND 15)"
    and "unat ((ucast (drop_bit n v) :: u8) AND 0x0F) = unat (drop_bit n v AND 15)"
proof -
  have m: "(15 :: u8) = mask 4" "(15 :: u64) = mask 4" "(0xF0 :: u8) = push_bit 4 (mask 4)"
    by (simp_all add: mask_eq_exp_minus_1)
  have "drop_bit 4 ((ucast (drop_bit n v) :: u8) AND 0xF0) = ucast (drop_bit (n + 4) v AND 15)"
    unfolding m by (rule bit_word_eqI) (auto simp: bit_simps ac_simps)
  moreover have "((ucast (drop_bit n v) :: u8) AND 0x0F) = ucast (drop_bit n v AND 15)"
    unfolding m by (rule bit_word_eqI) (auto simp: bit_simps)
  moreover have "unat (ucast (w AND 15) :: u8) = unat (w AND 15)" for w :: u64
  proof -
    have "unat (w AND 15) < 2 ^ 4"
      unfolding m take_bit_eq_mask [symmetric] unsigned_take_bit_eq by (rule take_bit_nat_less_exp)
    then show ?thesis by (simp add: unsigned_ucast_eq take_bit_nat_eq_self)
  qed
  ultimately show "unat (drop_bit 4 ((ucast (drop_bit n v) :: u8) AND 0xF0)) = unat (drop_bit (n + 4) v AND 15)"
    "unat ((ucast (drop_bit n v) :: u8) AND 0x0F) = unat (drop_bit n v AND 15)" by simp_all
qed

lemma htoa_step_nibbles:
  "htoa_step v b i m = m(b + of_nat (15 - (i * 2 + 1)) := g_hexAlphabet ! unat (drop_bit (8 * i + 4) v AND 15),
     b + of_nat (15 - (i * 2 + 0)) := g_hexAlphabet ! unat (drop_bit (8 * i) v AND 15))"
  unfolding htoa_step_def Let_def hex_nibbles ..

lemma str_at_htoa:
  assumes "17 \<le> n"
  shows "str_at (snd (htoa m v 0 n)) 0 (hex_ascii v)"
proof -
  have "unat (drop_bit k v AND 15) < 16" for k
    using word_and_le1 [of "drop_bit k v" 15] by (simp add: word_le_nat_alt le_less_trans)
  then have nz: "0 \<notin> set (hex_ascii v)" using hex_digit_nonzero by (auto simp: hex_ascii_def)
  have "\<not> n < 17" using assms by simp
  then have m: "snd (htoa m v 0 n) = (fold (htoa_step v 0) [0..<8] m)(16 := 0)" by (simp add: htoa_def)
  have "map (\<lambda>i. snd (htoa m v 0 n) (of_nat i)) [0..<17] = hex_ascii v @ [0]"
    unfolding m by (simp add: upt_rec htoa_step_nibbles hex_ascii_def)
  then have "snd (htoa m v 0 n) (of_nat i) = (hex_ascii v @ [0]) ! i" if "i < 17" for i
    using that by (metis (no_types, lifting) diff_zero length_upt nth_map nth_upt plus_nat.add_0)
  moreover have "snd (htoa m v 0 n) 16 = 0" unfolding m by simp
  ultimately show ?thesis using nz by (auto simp: str_at_def hex_ascii_def nth_append)
qed

section \<open>Printing character by character\<close>

text \<open>
  A relation \<open>J\<close> between states and the text printed so far that every character extends. Strings
  and formats extend it by their text.
\<close>

definition prints :: "'d board \<Rightarrow> ('d terminal \<Rightarrow> u8 list \<Rightarrow> bool) \<Rightarrow> bool" where
  "prints B J \<longleftrightarrow>
    (\<forall>k xs c color. J k xs \<longrightarrow> (\<exists>k'. kprintCharColored B c color k = Some k' \<and> J k' (xs @ [c]))) \<and>
    (\<forall>k xs. J k xs \<longrightarrow> J (swapBuffers k) xs)"

lemma printsD:
  assumes "prints B J" "J k xs"
  obtains k' where "kprintCharColored B c color k = Some k'" "J k' (xs @ [c])"
proof -
  have "\<exists>k'. kprintCharColored B c color k = Some k' \<and> J k' (xs @ [c])" using assms by (simp add: prints_def)
  then show ?thesis using that by blast
qed

lemma kprintColoredEx_prints:
  assumes "prints B J" "str_at t a s" "J k xs"
  shows "\<exists>k'. kprintColoredEx B t a color k = Some k' \<and> J k' (xs @ s)"
  using assms(2,3)
proof (induction s arbitrary: a k xs)
  case Nil
  then show ?case by (subst kprintColoredEx.simps) (simp add: str_at_Nil)
next
  case (Cons c s)
  obtain k1 where k1: "kprintCharColored B c color k = Some k1" "J k1 (xs @ [c])"
    using printsD [OF assms(1) Cons.prems(2)] .
  obtain k2 where "kprintColoredEx B t (a + 1) color k1 = Some k2" "J k2 ((xs @ [c]) @ s)"
    using Cons.IH [OF _ k1(2), of "a + 1"] Cons.prems(1) by (auto simp: str_at_Cons)
  then show ?case using k1(1) Cons.prems(1) by (subst kprintColoredEx.simps) (simp add: str_at_Cons)
qed

lemma print_buf_prints:
  assumes "prints B J" "str_at (snd r) 0 s" "J k xs"
  shows "\<exists>k'. print_buf B r color k = Some k' \<and> J k' (xs @ s)"
  unfolding print_buf_def using assms by (rule kprintColoredEx_prints)

lemma str_at_take2:
  "str_at f (a + 1) fs \<Longrightarrow> c1 \<noteq> 0 \<Longrightarrow> c2 \<noteq> 0 \<Longrightarrow> take 2 fs = [c1, c2] \<longleftrightarrow> f (a + 1) = c1 \<and> f (a + 2) = c2"
  by (cases fs; cases "tl fs") (auto simp: str_at_Cons str_at_Nil add.assoc)

lemma kprint_long_prints:
  assumes J: "prints B J" "J k xs" and f: "f a = 108" "str_at f (a + 1) fs"
    and d: "directive_text strs 108 fs args = Some (out, n, args')"
  shows "\<exists>k'. kprint_directive B color f a t args k = Some (a + of_nat n, args', k') \<and> J k' (xs @ out) \<and> n \<le> length fs"
proof -
  obtain x rest where args: "args = x # rest" using d by (auto simp: directive_text_def split: list.splits)
  note t2 = str_at_take2 [OF f(2)]
  have ll: "\<exists>k'. print_buf B (lltoa (\<lambda>_. 0) v 0 128) color k = Some k' \<and> J k' (xs @ dec_ascii (unat v))" for v
    by (rule print_buf_prints [OF J(1) str_at_lltoa J(2)])
  have ht: "\<exists>k'. print_buf B (htoa (\<lambda>_. 0) x 0 128) color k = Some k' \<and> J k' (xs @ hex_ascii x)"
    by (rule print_buf_prints [OF J(1) str_at_htoa J(2)]) simp
  have len: "take 2 fs = [y, z] \<Longrightarrow> 2 \<le> length fs" for y z
    by (metis length_Cons length_take list.size(3) min.cobounded1 numeral_2_eq_2)
  consider "take 2 fs \<in> {[108, 117], [108, 105]}" | "take 2 fs = [108, 120]"
    | "take 2 fs \<noteq> [108, 117]" "take 2 fs \<noteq> [108, 105]" "take 2 fs \<noteq> [108, 120]" by auto
  then show ?thesis
  proof cases
    case 1
    then show ?thesis
      using d ll [of x] len t2 [of 108 117] t2 [of 108 105] by (auto simp: directive_text_def kprint_directive_def f(1) args)
  next
    case 2
    then show ?thesis
      using d ht len t2 [of 108 120] by (auto simp: directive_text_def kprint_directive_def f(1) args)
  next
    case 3
    then have "\<not> (f (a + 1) = 108 \<and> f (a + 2) = 117)" "\<not> (f (a + 1) = 108 \<and> f (a + 2) = 105)"
      "\<not> (f (a + 1) = 108 \<and> f (a + 2) = 120)" using t2 by simp_all
    then show ?thesis
      using 3 d ll [of "scast (ucast x :: u32)"] by (auto simp: directive_text_def kprint_directive_def f(1) args)
  qed
qed

lemma kprint_directive_prints:
  assumes J: "prints B J" "J k xs" and f: "str_at f a (c # fs)" and s: "\<forall>a s. strs a = Some s \<longrightarrow> str_at t a s"
    and d: "directive_text strs c fs args = Some (out, n, args')"
  shows "\<exists>k'. kprint_directive B color f a t args k = Some (a + of_nat n, args', k') \<and> J k' (xs @ out) \<and> n \<le> length fs"
proof -
  have fa: "f a = c" and f1: "str_at f (a + 1) fs" using f by (auto simp: str_at_Cons)
  have ll: "\<exists>k'. print_buf B (lltoa (\<lambda>_. 0) v 0 128) color k = Some k' \<and> J k' (xs @ dec_ascii (unat v))" for v
    by (rule print_buf_prints [OF J(1) str_at_lltoa J(2)])
  have ht: "17 \<le> b \<Longrightarrow> \<exists>k'. print_buf B (htoa (\<lambda>_. 0) v 0 b) color k = Some k' \<and> J k' (xs @ hex_ascii v)" for v b
    by (rule print_buf_prints [OF J(1) str_at_htoa J(2)])
  have ch: "\<exists>k'. kprintCharColored B e color k = Some k' \<and> J k' (xs @ [e])" for e
    using printsD [OF J] by metis
  show ?thesis
  proof (cases "c \<in> of_char ` set ''csixl''")
    case False
    then show ?thesis
      using d ch [of c] by (auto simp: directive_text_def kprint_directive_def fa)
  next
    case True
    then obtain x rest where args: "args = x # rest"
      using d by (auto simp: directive_text_def split: list.splits)
    from True consider "c = 99" | "c = 115" | "c = 105" | "c = 120" | "c = 108" by auto
    then show ?thesis
    proof cases
      case 1
      then show ?thesis using d ch [of "ucast x"] by (auto simp: directive_text_def kprint_directive_def fa args)
    next
      case 2
      then show ?thesis
        using d s kprintColoredEx_prints [OF J(1) _ J(2), of t x out color]
        by (auto simp: directive_text_def kprint_directive_def fa args)
    next
      case 3
      then show ?thesis
        using d ll [of "scast (ucast x :: u32)"] by (auto simp: directive_text_def kprint_directive_def fa args)
    next
      case 4
      then show ?thesis
        using d ht [of 17 "ucast (ucast x :: u32)"] by (auto simp: directive_text_def kprint_directive_def fa args)
    next
      case 5
      then show ?thesis using kprint_long_prints [OF J, of f a fs strs args] fa f1 d by simp
    qed
  qed
qed

lemma kprintFmt_loop_prints:
  assumes J: "prints B J" and s: "\<forall>a s. strs a = Some s \<longrightarrow> str_at t a s"
  shows "str_at f a fs \<Longrightarrow> J k xs \<Longrightarrow> fmt_text strs d fs args = Some out \<Longrightarrow>
    \<exists>k'. kprintFmt_loop B color f a d t args k = Some k' \<and> J k' (xs @ out)"
proof (induction "length fs" arbitrary: fs a k xs d args out rule: less_induct)
  case less
  show ?case
  proof (cases fs)
    case Nil
    then show ?thesis using less.prems by (subst kprintFmt_loop.simps) (simp add: str_at_Nil)
  next
    case (Cons c gs)
    have fa: "f a = c" "c \<noteq> 0" and f1: "str_at f (a + 1) gs" using less.prems(1) by (auto simp: Cons str_at_Cons)
    note out = less.prems(3) [unfolded Cons fmt_text.simps]
    consider "c = 37" | "c \<noteq> 37" "\<not> d" | "c \<noteq> 37" "d" by blast
    then show ?thesis
    proof cases
      case 1
      then show ?thesis
        using less.hyps [OF _ f1 less.prems(2), of True args out] out fa
        by (subst kprintFmt_loop.simps) (simp add: Cons)
    next
      case 2
      obtain k1 where k1: "kprintCharColored B c color k = Some k1" "J k1 (xs @ [c])"
        using printsD [OF J less.prems(2)] .
      obtain r where r: "fmt_text strs False gs args = Some r" "out = c # r" using out 2 by auto
      show ?thesis
        using less.hyps [OF _ f1 k1(2) r(1)] 2 fa k1(1) r(2) by (subst kprintFmt_loop.simps) (simp add: Cons)
    next
      case 3
      obtain o1 n as r where dt: "directive_text strs c gs args = Some (o1, n, as)"
        and r: "fmt_text strs False (drop n gs) as = Some r" "out = o1 @ r"
        using out 3 by (auto split: bind_splits)
      obtain k1 where k1: "kprint_directive B color f a t args k = Some (a + of_nat n, as, k1)" "J k1 (xs @ o1)" "n \<le> length gs"
        using kprint_directive_prints [OF J less.prems(2) less.prems(1) [unfolded Cons] s dt] by blast
      have "str_at f (a + of_nat n + 1) (drop n gs)"
        using str_at_drop [OF f1 k1(3)] by (simp add: ac_simps)
      then show ?thesis
        using less.hyps [OF _ _ k1(2) r(1), of "a + of_nat n + 1"] 3 fa k1(1) r(2)
        by (subst kprintFmt_loop.simps) (simp add: Cons)
    qed
  qed
qed

lemma kprintFmtColoredEx_prints:
  assumes "prints B J" "\<forall>a s. strs a = Some s \<longrightarrow> str_at t a s" "str_at f a fs" "J k xs" "fmt_text strs False fs args = Some out"
  shows "\<exists>k'. kprintFmtColoredEx B color f a t args k = Some k' \<and> J k' (xs @ out)"
  using kprintFmt_loop_prints [OF assms, of color] assms(1) by (auto simp: kprintFmtColoredEx_def prints_def)

text \<open>Printing changes the devices and the memory of the machine, and no lock.\<close>

definition same_but_output :: "'d terminal \<Rightarrow> 'd terminal \<Rightarrow> bool" where
  "same_but_output k k' \<longleftrightarrow>
    (\<forall>d h. (mach k')\<lparr>device := d, task_heap := h\<rparr> = (mach k)\<lparr>device := d, task_heap := h\<rparr>) \<and> disp k' = disp k \<and>
    kprint_spinlock k' = kprint_spinlock k \<and> kpanic_lock k' = kpanic_lock k \<and> kexc_log_lock k' = kexc_log_lock k"

lemma same_but_output_refl: "same_but_output k k"
  by (simp add: same_but_output_def)

lemma same_but_output_trans: "same_but_output a b \<Longrightarrow> same_but_output b c \<Longrightarrow> same_but_output a c"
  by (simp add: same_but_output_def)

lemma same_but_output_fields:
  assumes "same_but_output k k'"
  shows "page_frames (mach k') = page_frames (mach k)" "g_kernelRootPageTable (mach k') = g_kernelRootPageTable (mach k)"
    "this_cpu (mach k') = this_cpu (mach k)" "pcbs (mach k') = pcbs (mach k)" "per_cpu (mach k') = per_cpu (mach k)"
    "disp k' = disp k" "kprint_spinlock k' = kprint_spinlock k"
proof -
  obtain d :: 'a and h :: kheap where True by simp
  have e: "(mach k')\<lparr>device := d, task_heap := h\<rparr> = (mach k)\<lparr>device := d, task_heap := h\<rparr>"
    using assms by (simp add: same_but_output_def)
  show "page_frames (mach k') = page_frames (mach k)" using arg_cong [OF e, of page_frames] by simp
  show "g_kernelRootPageTable (mach k') = g_kernelRootPageTable (mach k)"
    using arg_cong [OF e, of g_kernelRootPageTable] by simp
  show "this_cpu (mach k') = this_cpu (mach k)" using arg_cong [OF e, of this_cpu] by simp
  show "pcbs (mach k') = pcbs (mach k)" using arg_cong [OF e, of pcbs] by simp
  show "per_cpu (mach k') = per_cpu (mach k)" using arg_cong [OF e, of per_cpu] by simp
qed (use assms in \<open>simp_all add: same_but_output_def\<close>)

lemma same_but_output_swap: "same_but_output k (swapBuffers k)"
proof (cases "interrupts_on (mach k)")
  case True
  then have "(mach k)\<lparr>interrupts_on := True, device := d, task_heap := h\<rparr> = (mach k)\<lparr>device := d, task_heap := h\<rparr>" for d h
    by (cases "mach k") simp
  with True show ?thesis by (simp add: same_but_output_def swapBuffers_def set_tmem_def on_mach_def)
qed (simp add: same_but_output_def swapBuffers_def set_tmem_def)

lemma device_simps [simp]:
  "device (mach (draw_at_cursor c color k)) = device (mach k)" "device (mach (set_tmem m k)) = device (mach k)"
  "device (mach (swapBuffers k)) = device (mach k)"
  by (simp_all add: draw_at_cursor_def case_prod_beta Let_def set_tmem_def swapBuffers_def on_mach_def)

lemma same_but_output_iff [simp]:
  "same_but_output k (set_tmem m k') = same_but_output k k'" "same_but_output k (k'\<lparr>cursor_x := x\<rparr>) = same_but_output k k'"
  "same_but_output k (k'\<lparr>cursor_y := y\<rparr>) = same_but_output k k'"
  "same_but_output k (on_mach (\<lambda>c. c\<lparr>device := p\<rparr>) k') = same_but_output k k'"
  "same_but_output k k"
  by (simp_all add: same_but_output_def set_tmem_def on_mach_def)

lemma same_but_output_draw_iff [simp]: "same_but_output k (draw_at_cursor c color k') = same_but_output k k'"
  by (simp add: draw_at_cursor_def case_prod_beta Let_def)

lemma kprintCharColored_output:
  assumes "kprintCharColored B c color k = Some k'"
  shows "same_but_output k k'"
proof -
  obtain p where p: "writeToSerialPort (io_ports B) SERIAL_PORT_BASE_COM1 c (device (mach k)) = Some p"
    using assms unfolding kprintCharColored_def by (meson bind_eq_Some_conv)
  define k0 where "k0 = on_mach (\<lambda>c. c\<lparr>device := p\<rparr>) k"
  have k0: "same_but_output k k0" by (simp add: k0_def)
  show ?thesis
    using assms k0 unfolding kprintCharColored_def p bind.bind_lunit k0_def [symmetric]
    by (auto simp: Let_def split: if_splits)
qed

lemma kprintCharColored_sends:
  assumes "serial_device (io_ports B) SERIAL_PORT_BASE_COM1 sent busy"
  shows "\<exists>k'. kprintCharColored B c color k = Some k' \<and> sent (device (mach k')) = sent (device (mach k)) @ [c]"
  using writeToSerialPort_sends [OF assms, of c "device (mach k)"]
  by (auto simp: kprintCharColored_def on_mach_def Let_def)

lemma serial_prints:
  assumes "serial_device (io_ports B) SERIAL_PORT_BASE_COM1 sent busy"
  shows "prints B (\<lambda>k' xs. sent (device (mach k')) = sent (device (mach k)) @ xs \<and> same_but_output k k')"
  unfolding prints_def
proof (intro conjI allI impI)
  fix k1 xs c color
  assume "sent (device (mach k1)) = sent (device (mach k)) @ xs \<and> same_but_output k k1"
  then show "\<exists>k'. kprintCharColored B c color k1 = Some k' \<and> sent (device (mach k')) = sent (device (mach k)) @ xs @ [c] \<and>
      same_but_output k k'"
    using kprintCharColored_sends [OF assms, of c color k1] kprintCharColored_output same_but_output_trans by fastforce
qed (auto intro: same_but_output_trans [OF _ same_but_output_swap])

section \<open>The cursor\<close>

text \<open>The font lies outside the back buffer: its two pointers, the size byte and every glyph.\<close>

definition font_outside :: "display \<Rightarrow> mem \<Rightarrow> bool" where
  "font_outside d m \<longleftrightarrow> (\<forall>i < 16. outside d (s_font d + of_nat i)) \<and> outside d (load64 m (s_font d) + 3) \<and>
    (\<forall>c i. i < unat (charSize d m) \<longrightarrow>
      outside d (load64 m (s_font d + 8) + word_of_int (sint (c :: u8) * uint (charSize d m)) + of_nat i))"

definition console_ok :: "'d terminal \<Rightarrow> bool" where
  "console_ok k \<longleftrightarrow> (let d = disp k; ch = unat (charSize d (tmem k)) in
    display_ok d \<and> fb_width d = s_displayWidth d \<and> 16 \<le> dispW d \<and> 0 < ch \<and> 2 * ch \<le> dispH d \<and> font_outside d (tmem k) \<and>
    unat (cursor_x k) + 8 \<le> dispW d \<and> unat (cursor_y k) \<le> dispH d)"

abbreviation outside_same :: "'d terminal \<Rightarrow> 'd terminal \<Rightarrow> bool" where
  "outside_same k k' \<equiv> \<forall>a. outside (disp k) a \<longrightarrow> tmem k' a = tmem k a"

lemma font_outside_same:
  assumes "font_outside d m" "\<forall>a. outside d a \<longrightarrow> m' a = m a"
  shows "charSize d m' = charSize d m" "font_outside d m'"
proof -
  have l: "load64 m' (s_font d) = load64 m (s_font d)" "load64 m' (s_font d + 8) = load64 m (s_font d + 8)"
  proof -
    have b: "m' (s_font d + of_nat i) = m (s_font d + of_nat i)" if "i < 16" for i
      using assms that by (simp add: font_outside_def)
    show "load64 m' (s_font d) = load64 m (s_font d)" by (rule load64_cong) (use b in simp)
    show "load64 m' (s_font d + 8) = load64 m (s_font d + 8)"
    proof (rule load64_cong)
      fix i :: nat
      assume "i < 8"
      then show "m' (s_font d + 8 + of_nat i) = m (s_font d + 8 + of_nat i)" using b [of "8 + i"] by (simp add: add.assoc)
    qed
  qed
  show c: "charSize d m' = charSize d m" using assms l by (simp add: charSize_def font_outside_def)
  show "font_outside d m'" using assms(1) unfolding font_outside_def c l .
qed

lemma tmem_simps [simp]:
  "tmem (set_tmem m k) = m" "tmem (k\<lparr>cursor_x := x\<rparr>) = tmem k" "tmem (k\<lparr>cursor_y := y\<rparr>) = tmem k"
  "tmem (on_mach (\<lambda>c. c\<lparr>device := p\<rparr>) k) = tmem k"
  "disp (set_tmem m k) = disp k" "cursor_x (set_tmem m k) = cursor_x k" "cursor_y (set_tmem m k) = cursor_y k"
  "disp (on_mach g k) = disp k" "cursor_x (on_mach g k) = cursor_x k" "cursor_y (on_mach g k) = cursor_y k"
  by (simp_all add: tmem_def set_tmem_def on_mach_def)

lemma draw_at_cursor_ok:
  assumes ok: "console_ok k"
  shows "console_ok (draw_at_cursor c color k) \<and> outside_same k (draw_at_cursor c color k) \<and>
    disp (draw_at_cursor c color k) = disp k \<and> charSize (disp k) (tmem (draw_at_cursor c color k)) = charSize (disp k) (tmem k) \<and>
    cursor_x (draw_at_cursor c color k) = cursor_x k \<and>
    unat (cursor_y (draw_at_cursor c color k)) + unat (charSize (disp k) (tmem k)) \<le> dispH (disp k)"
proof -
  let ?d = "disp k" and ?ch = "charSize (disp k) (tmem k)"
  note k = ok [unfolded console_ok_def Let_def]
  have "\<forall>i < unat ?ch. outside ?d (load64 (tmem k) (s_font ?d + 8) + word_of_int (sint c * uint ?ch) + of_nat i)"
    using k by (simp add: font_outside_def)
  then obtain y' m' where r: "renderTextGlyph ?d c (cursor_x k) (cursor_y k) color (tmem k) = (cursor_x k, y', m')"
    "unat y' = (if dispH ?d < unat (cursor_y k) + unat ?ch then unat (cursor_y k) - unat ?ch else unat (cursor_y k))"
    "\<forall>a. outside ?d a \<longrightarrow> m' a = tmem k a"
    using renderTextGlyph_screen [of ?d "tmem k" "cursor_x k" "cursor_y k" _ c color] k by (auto simp: Let_def screen_def)
  have f: "charSize ?d m' = ?ch" "font_outside ?d m'" using font_outside_same [OF _ r(3)] k by auto
  have "unat y' + unat ?ch \<le> dispH ?d" using r(2) k by (auto split: if_splits)
  moreover have "draw_at_cursor c color k = set_tmem m' (k\<lparr>cursor_x := cursor_x k, cursor_y := y'\<rparr>)"
    by (simp add: draw_at_cursor_def r(1))
  ultimately show ?thesis using f r(3) k by (simp add: console_ok_def Let_def)
qed

lemma console_ok_cursor:
  assumes "console_ok k" "unat x + 8 \<le> dispW (disp k)" "unat y \<le> dispH (disp k)"
  shows "console_ok (k\<lparr>cursor_x := x, cursor_y := y\<rparr>)" "console_ok (k\<lparr>cursor_x := x\<rparr>)"
  using assms by (simp_all add: console_ok_def Let_def)

lemma console_ok_device: "console_ok (on_mach (\<lambda>c. c\<lparr>device := p\<rparr>) k) = console_ok k"
  by (simp add: console_ok_def)

lemma cursor_advance_ok:
  assumes ok: "console_ok k" and y: "unat (cursor_y k) + unat ch \<le> dispH (disp k)"
  shows "console_ok (if fb_width (disp k) < cursor_x k + CHAR_PIXEL_WIDTH + CHAR_PIXEL_WIDTH
    then k\<lparr>cursor_x := CHAR_LEFT_BORDER_OFFSET, cursor_y := cursor_y k + ucast (ch :: u8)\<rparr>
    else k\<lparr>cursor_x := cursor_x k + CHAR_PIXEL_WIDTH\<rparr>)"
proof -
  let ?d = "disp k"
  note k = ok [unfolded console_ok_def Let_def]
  have "dispW ?d * 2 \<le> dispW ?d * dispH ?d" using k by (intro mult_le_mono2) simp
  also have "\<dots> < 2 ^ 32" using k by (simp only: display_ok_def)
  finally have W: "dispW ?d < 2 ^ 31" by simp
  have x: "unat (cursor_x k + 8) = unat (cursor_x k) + 8" "unat (cursor_x k + 8 + 8) = unat (cursor_x k) + 16"
  proof -
    show a: "unat (cursor_x k + 8) = unat (cursor_x k) + 8" using k W by (subst unat_add_no_wrap) simp_all
    show "unat (cursor_x k + 8 + 8) = unat (cursor_x k) + 16" using k W a by (subst unat_add_no_wrap) (simp_all only:, simp_all)
  qed
  have ych: "unat (cursor_y k + ucast ch) \<le> dispH ?d"
    using y unat_add_le32 [of "cursor_y k" "ucast ch" "s_displayHeight ?d"] by (simp add: unat_ucast_up)
  show ?thesis
  proof (cases "fb_width ?d < cursor_x k + CHAR_PIXEL_WIDTH + CHAR_PIXEL_WIDTH")
    case True
    have "console_ok (k\<lparr>cursor_x := CHAR_LEFT_BORDER_OFFSET, cursor_y := cursor_y k + ucast ch\<rparr>)"
      using k ych by (intro console_ok_cursor(1) [OF ok]) (simp_all add: CHAR_LEFT_BORDER_OFFSET_def)
    with True show ?thesis by (simp only: if_True)
  next
    case False
    then have "unat (cursor_x k + CHAR_PIXEL_WIDTH) + 8 \<le> dispW ?d"
      using k x by (simp add: CHAR_PIXEL_WIDTH_def word_less_nat_alt)
    then have "console_ok (k\<lparr>cursor_x := cursor_x k + CHAR_PIXEL_WIDTH\<rparr>)"
      using k by (intro console_ok_cursor(2) [OF ok, where y = "cursor_y k"]) simp_all
    with False show ?thesis by (simp only: if_False)
  qed
qed

lemma kprintCharColored_ok:
  assumes ok: "console_ok k" and nl: "c = 10 \<longrightarrow> unat (cursor_y k) + unat (charSize (disp k) (tmem k)) \<le> dispH (disp k)"
    and r: "kprintCharColored B c color k = Some k'"
  shows "console_ok k' \<and> outside_same k k' \<and> disp k' = disp k"
proof -
  obtain p where p: "writeToSerialPort (io_ports B) SERIAL_PORT_BASE_COM1 c (device (mach k)) = Some p"
    using r unfolding kprintCharColored_def by (meson bind_eq_Some_conv)
  define k0 where "k0 = on_mach (\<lambda>c. c\<lparr>device := p\<rparr>) k"
  let ?d = "disp k" and ?ch = "charSize (disp k) (tmem k)"
  have k0: "console_ok k0" "disp k0 = ?d" "tmem k0 = tmem k" "cursor_y k0 = cursor_y k"
    using ok by (simp_all add: k0_def console_ok_device)
  note r0 = r [unfolded kprintCharColored_def p bind.bind_lunit k0_def [symmetric] Let_def]
  have W: "16 \<le> dispW ?d" and ch: "unat (ucast ?ch :: u32) = unat ?ch" using ok by (simp_all add: console_ok_def Let_def unat_ucast_up)
  have x8: "unat CHAR_LEFT_BORDER_OFFSET + 8 \<le> dispW ?d" using W by (simp add: CHAR_LEFT_BORDER_OFFSET_def)
  consider "c = 10" | "c = 13" | "c \<noteq> 10" "c \<noteq> 13" by blast
  then show ?thesis
  proof cases
    case 1
    have "unat (cursor_y k0 + ucast ?ch) \<le> dispH ?d"
      using nl 1 unat_add_le32 [of "cursor_y k" "ucast ?ch" "s_displayHeight ?d"] by (simp add: k0 ch)
    then have "console_ok (k0\<lparr>cursor_x := CHAR_LEFT_BORDER_OFFSET, cursor_y := cursor_y k0 + ucast ?ch\<rparr>)"
      using x8 k0 by (intro console_ok_cursor) simp_all
    from draw_at_cursor_ok [OF this, of 32 0] show ?thesis using r0 1 k0 by auto
  next
    case 2
    then have "k' = k0\<lparr>cursor_x := CHAR_LEFT_BORDER_OFFSET\<rparr>" using r0 by simp
    then show ?thesis using console_ok_cursor(2) [OF k0(1) _ order_refl, of CHAR_LEFT_BORDER_OFFSET] x8 k0 by simp
  next
    case 3
    define k1 where "k1 = draw_at_cursor c color k0"
    note k1 = draw_at_cursor_ok [OF k0(1), of c color, folded k1_def, unfolded k0]
    have "k' = (if fb_width (disp k1) < cursor_x k1 + CHAR_PIXEL_WIDTH + CHAR_PIXEL_WIDTH
        then k1\<lparr>cursor_x := CHAR_LEFT_BORDER_OFFSET, cursor_y := cursor_y k1 + ucast ?ch\<rparr>
        else k1\<lparr>cursor_x := cursor_x k1 + CHAR_PIXEL_WIDTH\<rparr>)"
      using r0 3 by (simp add: k1_def k0 split: if_splits)
    then show ?thesis using cursor_advance_ok [of k1 ?ch] k1 by simp
  qed
qed

section \<open>A new line below the last row\<close>

text \<open>The display with \<open>ch\<close> more rows: drawing needs the width only, so it describes the memory behind the buffer.\<close>

definition taller :: "u8 \<Rightarrow> display \<Rightarrow> display" where
  "taller ch d = d\<lparr>s_displayHeight := s_displayHeight d + ucast ch\<rparr>"

lemma fillPixel_taller: "fillPixel d = fillPixel (taller ch d)"
  by (intro ext) (simp add: fillPixel_def taller_def)

lemma outside_taller:
  assumes "dispH (taller ch d) = dispH d + unat ch" "outside (taller ch d) a"
  shows "outside d a"
proof -
  have "dispW d * dispH d \<le> dispW d * dispH (taller ch d)" using assms(1) by (intro mult_le_mono2) simp
  moreover have w: "dispW (taller ch d) = dispW d" "s_backBuffer (taller ch d) = s_backBuffer d" by (simp_all add: taller_def)
  ultimately show ?thesis using assms(2) unfolding outside_def w by linarith
qed

text \<open>A glyph drawn at a row from which it does not fit, after scrolling once.\<close>

lemma renderTextGlyph_overrun:
  assumes ok: "display_ok d" "fb_width d = s_displayWidth d" "unat x + 8 \<le> dispW d" "0 < unat (charSize d m)" "unat (charSize d m) \<le> dispH d"
    and t: "display_ok (taller (charSize d m) d)" "dispH (taller (charSize d m) d) = dispH d + unat (charSize d m)"
    and y: "s_displayHeight d < y + ucast (charSize d m)" "unat (y - ucast (charSize d m)) \<le> dispH d"
      "dispH d < unat (y - ucast (charSize d m)) + unat (charSize d m)"
    and fb: "\<forall>i < unat (charSize d m). outside (taller (charSize d m) d)
      (load64 m (s_font d + 8) + word_of_int (sint chr * uint (charSize d m)) + of_nat i)"
  shows "pixel d (snd (snd (renderTextGlyph d chr x y c m))) (unat x) (dispH d) \<in> {c, 0xA0A0A0A}"
proof -
  let ?ch = "charSize d m" and ?m = "scroll_lines d (charSize d m) m" and ?e = "taller (charSize d m) d"
  let ?fb = "load64 m (s_font d + 8) + word_of_int (sint chr * uint (charSize d m))"
  have e: "dispW ?e = dispW d" "s_backBuffer ?e = s_backBuffer d" by (simp_all add: taller_def)
  have "screen d m ?m (scrolled d (unat ?ch) (pixel d m))"
    using ok by (intro screen_scroll screen_same) simp_all
  then have "screen ?e m ?m (pixel ?e ?m)"
    using outside_taller [OF t(2)] by (simp add: screen_def)
  then have "screen ?e m (snd (snd (renderTextGlyph d chr x y c m)))
      (with_glyph m ?fb (unat x) (unat (y - ucast ?ch)) (unat ?ch) c (pixel ?e ?m))"
    using screen_with_glyph [OF t(1) _ _ _ fb, of m ?m "pixel ?e ?m" x "y - ucast ?ch" c] y ok(3) t(2)
    unfolding fillPixel_taller [of d ?ch, symmetric] e by (simp add: renderTextGlyph_def Let_def case_prod_beta)
  moreover have "unat x < dispW ?e" "dispH d < dispH ?e" using ok t(2) e by simp_all
  ultimately have "pixel ?e (snd (snd (renderTextGlyph d chr x y c m))) (unat x) (dispH d) \<in> {c, 0xA0A0A0A}"
    using y(2,3) by (simp add: screen_def with_glyph_def)
  then show ?thesis by (simp add: pixel_def e)
qed

lemma newline_render:
  assumes ok: "console_ok k" and y: "dispH (disp k) < unat (cursor_y k) + unat (charSize (disp k) (tmem k))"
    and t: "display_ok (taller (charSize (disp k) (tmem k)) (disp k))" "font_outside (taller (charSize (disp k) (tmem k)) (disp k)) (tmem k)"
  shows "pixel (disp k) (snd (snd (renderTextGlyph (disp k) 32 8 (cursor_y k + ucast (charSize (disp k) (tmem k))) 0 (tmem k))))
    8 (dispH (disp k)) \<in> {0, 0xA0A0A0A}"
proof -
  let ?d = "disp k" and ?ch = "charSize (disp k) (tmem k)"
  note k = ok [unfolded console_ok_def Let_def]
  have "16 * dispH ?d \<le> dispW ?d * dispH ?d" using k by (intro mult_le_mono1) simp
  also have "\<dots> < 2 ^ 32" using k by (simp only: display_ok_def)
  finally have H: "dispH ?d < 2 ^ 28" by simp
  have ch: "unat (ucast ?ch :: u32) = unat ?ch" by (simp add: unat_ucast_up)
  have y1: "unat (cursor_y k + ucast ?ch) = unat (cursor_y k) + unat ?ch"
    using k H by (subst unat_add_no_wrap) (simp_all add: ch)
  have y2: "unat (cursor_y k + ucast ?ch + ucast ?ch) = unat (cursor_y k) + unat ?ch + unat ?ch"
    using k H by (subst unat_add_no_wrap) (simp_all add: ch y1)
  have h: "unat (s_displayHeight ?d + ucast ?ch) = dispH ?d + unat ?ch"
    using k H by (subst unat_add_no_wrap) (simp_all add: ch)
  have same: "charSize (taller ?ch ?d) (tmem k) = ?ch" "s_font (taller ?ch ?d) = s_font ?d"
    by (simp_all add: charSize_def taller_def)
  have fb: "\<forall>i < unat ?ch. outside (taller ?ch ?d) (load64 (tmem k) (s_font ?d + 8) + word_of_int (sint (32 :: u8) * uint ?ch) + of_nat i)"
    using t(2) unfolding font_outside_def same by blast
  have "dispH (taller ?ch ?d) = dispH ?d + unat ?ch" using h by (simp add: taller_def)
  then have "pixel ?d (snd (snd (renderTextGlyph ?d 32 8 (cursor_y k + ucast ?ch) 0 (tmem k)))) (unat (8 :: u32)) (dispH ?d) \<in> {0, 0xA0A0A0A}"
    using k t(1) y y2 fb by (intro renderTextGlyph_overrun) (simp_all add: word_less_nat_alt)
  then show ?thesis by simp
qed

section \<open>Properties\<close>


text \<open>A board whose serial port is always ready and records what is sent.\<close>

definition serial_ports :: "u8 list ports" where
  "serial_ports = \<lparr>dev_outb = (\<lambda>p v d. if p = 0x3F8 then d @ [v] else d), dev_inb = (\<lambda>p d. (0x20, d)),
    dev_outl = (\<lambda>p v d. d), dev_inl = (\<lambda>p d. (0, d))\<rparr>"

definition serial_board :: "u8 list board" where
  "serial_board = \<lparr>bus_read32 = (\<lambda>c a d. (0, d)), bus_write32 = (\<lambda>c a v d. d), bus_read64 = (\<lambda>c a d. (0, d)),
    bus_write64 = (\<lambda>c a v d. d), cpu_rdmsr = (\<lambda>c r d. ((0, 0), d)), cpu_wrmsr = (\<lambda>c r l h d. d), cpu_rdtsc = (\<lambda>c d. ((0, 0), d)),
    cpu_cpuid = (\<lambda>i. (0, 0, 0, 0)), cpu_wbinvd = (\<lambda>c d. d), io_ports = serial_ports, linear = high_lin\<rparr>"

definition terminal0 :: "u8 list terminal" where
  "terminal0 = \<lparr>mach = (machine0 [])\<lparr>task_heap := (task_heap sched4)\<lparr>ram := font0\<rparr>\<rparr>, disp = display0, cursor_x = 8, cursor_y = 8,
    kprint_spinlock = 0, kpanic_lock = 0, kexc_log_lock = 0, cr2_reg = 0\<rparr>"

lemma serial_board_device: "serial_device (io_ports serial_board) SERIAL_PORT_BASE_COM1 id (\<lambda>_. 0)"
  by (simp add: serial_device_def serial_board_def serial_ports_def SERIAL_PORT_BASE_COM1_def)

lemma of_char_u8_0: "of_char c = (0 :: u8) \<longleftrightarrow> c = CHR 0x00"
proof
  assume "of_char c = (0 :: u8)"
  then have "unat (of_nat (of_char c) :: u8) = 0" by (simp add: of_nat_of_char)
  then have "(of_char c :: nat) = 0" using nat_of_char_less_256 [of c] by (simp add: unat_of_nat_less)
  then have "char_of (of_char c :: nat) = (char_of (0 :: nat))" by (rule arg_cong)
  moreover have "char_of (0 :: nat) = CHR 0x00" by (simp add: char_of_def)
  ultimately show "c = CHR 0x00" by (simp only: char_of_char)
qed simp

lemma str_at_lit:
  assumes "length s < 2 ^ 32" "CHR 0x00 \<notin> set s"
  shows "str_at (lit s) 0 (map of_char s)"
proof -
  have "unat (of_nat i :: u64) = i" if "i \<le> length s" for i
    using that assms(1) by (intro unat64_of_nat) simp
  moreover have "of_char c \<noteq> (0 :: u8)" if "c \<in> set s" for c
    using that assms(2) by (auto simp: of_char_u8_0)
  ultimately show ?thesis by (auto simp: str_at_def lit_def)
qed


text \<open>
  C35: Printing a character keeps the console in order. The cursor stays on the display, the font and
  its size stay as they are, and nothing outside the back buffer is written; the character is sent
  to the serial line. A new line needs room below the cursor's row.
\<close>

theorem console_char_safe:
  assumes "serial_device (io_ports B) SERIAL_PORT_BASE_COM1 sent busy" and "console_ok k"
    and "c = 10 \<longrightarrow> unat (cursor_y k) + unat (charSize (disp k) (tmem k)) \<le> dispH (disp k)"
  shows "\<exists>k'. kprintCharColored B c color k = Some k' \<and> console_ok k' \<and> sent (device (mach k')) = sent (device (mach k)) @ [c] \<and>
    (\<forall>a. outside (disp k) a \<longrightarrow> tmem k' a = tmem k a)"
  using kprintCharColored_sends [OF assms(1), of c color k] kprintCharColored_ok [OF assms(2,3)] by metis

text \<open>
  C38: A new line printed when the last row has just been filled writes behind the back buffer. After
  the last character of the last row the cursor is on a row that does not fit; the new line moves it
  down once more, and one scroll is not enough. The first pixel behind the last row, which lies
  outside the buffer, is set to the background or the (black) colour whatever it was.
\<close>

theorem newline_overruns:
  assumes "serial_device (io_ports B) SERIAL_PORT_BASE_COM1 sent busy" and "console_ok k"
    and "dispH (disp k) < unat (cursor_y k) + unat (charSize (disp k) (tmem k))"
    and "display_ok (taller (charSize (disp k) (tmem k)) (disp k))" and "font_outside (taller (charSize (disp k) (tmem k)) (disp k)) (tmem k)"
  shows "\<exists>k'. kprintCharColored B 10 color k = Some k' \<and> pixel (disp k) (tmem k') 8 (dispH (disp k)) \<in> {0, 0xA0A0A0A} \<and>
    outside (disp k) (s_backBuffer (disp k) + of_nat (4 * (8 + dispH (disp k) * dispW (disp k))))"
proof -
  let ?d = "disp k" and ?ch = "charSize (disp k) (tmem k)"
  note k = assms(2) [unfolded console_ok_def Let_def]
  define k0 where "k0 = (\<lambda>p. on_mach (\<lambda>c. c\<lparr>device := p\<rparr>) k)"
  obtain p where "writeToSerialPort (io_ports B) SERIAL_PORT_BASE_COM1 10 (device (mach k)) = Some p"
    using writeToSerialPort_sends [OF assms(1)] by blast
  then have p: "kprintCharColored B 10 color k =
      Some (draw_at_cursor 32 0 (k0 p\<lparr>cursor_x := 8, cursor_y := cursor_y k + ucast ?ch\<rparr>))"
    by (simp add: kprintCharColored_def k0_def CHAR_LEFT_BORDER_OFFSET_def)
  have "outside ?d (s_backBuffer ?d + of_nat (4 * (8 + dispH ?d * dispW ?d)))"
  proof -
    have "dispW ?d * dispH ?d < 2 ^ 32" using k by (simp only: display_ok_def)
    then have "unat (of_nat (4 * (8 + dispH ?d * dispW ?d)) :: u64) = 4 * (8 + dispH ?d * dispW ?d)"
      by (intro unat64_of_nat) (simp add: mult.commute)
    then show ?thesis by (simp add: outside_def mult.commute)
  qed
  then show ?thesis
    using newline_render [OF assms(2-5)] unfolding p by (auto simp: draw_at_cursor_def case_prod_beta Let_def k0_def)
qed

text \<open>The display of the witness has room for one row more, and its font lies below the back buffer.\<close>

lemma display0_outside:
  "unat a < 0x100000 \<Longrightarrow> outside display0 a" "unat a < 0x100000 \<Longrightarrow> outside (taller 16 display0) a"
  by (simp_all add: outside_def display0_def taller_def unat_sub_if')

lemma glyph0_low:
  assumes "i < 16"
  shows "unat ((0x3000 :: u64) + word_of_int (sint (c :: u8) * 16) + of_nat i) < 0x100000"
proof -
  have "- 128 \<le> sint c" "sint c < 128" using sint_ge [of c] sint_lt [of c] by simp_all
  then have r: "0 \<le> 0x3000 + sint c * 16 + int i" "0x3000 + sint c * 16 + int i < 0x100000" using assms by simp_all
  have "(0x3000 :: u64) + word_of_int (sint c * 16) + of_nat i = word_of_int (0x3000 + sint c * 16 + int i)" by simp
  also have "unat \<dots> = nat (0x3000 + sint c * 16 + int i)"
    using r by (simp only: unat_eq_nat_uint uint_word_of_int) (simp add: mod_pos_pos_trivial)
  also have "\<dots> < 0x100000" using r(2) by linarith
  finally show ?thesis .
qed

lemma font0_low: "i < 16 \<Longrightarrow> unat ((0x1000 :: u64) + of_nat i) < 0x100000"
  using unat64_of_nat [of i] by (subst unat_add_no_wrap) simp_all

lemma display0_font: "font_outside display0 font0" "font_outside (taller 16 display0) font0"
proof -
  have f: "s_font display0 = 0x1000" "s_font (taller 16 display0) = 0x1000" "charSize (taller 16 display0) font0 = 16"
    using font0_simps(1) by (simp_all add: display0_def taller_def charSize_def)
  have h: "load64 font0 0x1000 = 0x2000" by (simp add: font0_def load64_store64_other mem_simps)
  show "font_outside display0 font0"
    unfolding font_outside_def f font0_simps h
    by (intro conjI allI impI display0_outside; (erule font0_low)?) (use font0_simps glyph0_low in auto)
  show "font_outside (taller 16 display0) font0"
    unfolding font_outside_def f h
    by (intro conjI allI impI display0_outside; (erule font0_low)?) (use font0_simps glyph0_low in auto)
qed

lemma terminal0_simps: "disp terminal0 = display0" "tmem terminal0 = font0" "cursor_x terminal0 = 8" "cursor_y terminal0 = 8"
  "tmem (terminal0\<lparr>cursor_y := y\<rparr>) = font0"
  by (simp_all add: terminal0_def tmem_def)

lemma terminal0_ok: "unat y \<le> 32 \<Longrightarrow> console_ok (terminal0\<lparr>cursor_y := y\<rparr>)"
  using display0_font(1) by (simp add: console_ok_def terminal0_simps Let_def font0_simps) (simp add: display0_def display_ok_def)

theorem console_char_safe_witness:
  "\<exists>k'. kprintCharColored serial_board 65 0xffffffff (terminal0\<lparr>cursor_y := 16\<rparr>) = Some k' \<and> console_ok k'"
  using console_char_safe [OF serial_board_device terminal0_ok [of 16], of 65 "0xffffffff"] by auto

theorem newline_overruns_witness:
  "\<exists>k'. kprintCharColored serial_board 10 0 (terminal0\<lparr>cursor_y := 32\<rparr>) = Some k' \<and>
    pixel display0 (tmem k') 8 32 \<in> {0, 0xA0A0A0A}"
proof -
  have d: "dispH display0 = 32" "display_ok (taller 16 display0)"
    by (simp_all add: display0_def display_ok_def taller_def)
  show ?thesis
    using newline_overruns [OF serial_board_device terminal0_ok [of 32], of 0] display0_font(2) d
    by (auto simp: terminal0_simps font0_simps)
qed

end
