(* ===== verification/ApStartup.thy ===== *)
theory ApStartup
  imports Acpi Descriptors
begin

text \<open>
  Bringing up the other processors: \<^verbatim>\<open>arch/x86/ap_startup.cpp\<close>, with the parts of
  \<^verbatim>\<open>arch/x86/asm/ap_startup.s\<close> and \<^verbatim>\<open>arch/x86/asm/kelevate.s\<close> it depends on (the stack a processor starts
  with, the wait for the boot processor, the switch to the lowered entry).

  The operations act on the machine. Low memory is read and written through the addresses the
  kernel uses, in the memory of the page frames. What the processors do together is the step
  relation \<open>ap_step\<close>.
\<close>

section \<open>Preparing low memory\<close>

definition AP_STARTUP_ASM_ADDRESS :: u64 where "AP_STARTUP_ASM_ADDRESS = 0x8000"
definition AP_STARTUP_C_ENTRY_ADDRESS :: u64 where "AP_STARTUP_C_ENTRY_ADDRESS = 0x9000"
definition AP_STARTUP_PAGE_TABLE_PTR_ADDRESS :: u64 where "AP_STARTUP_PAGE_TABLE_PTR_ADDRESS = 0x15000"
definition AP_STARTUP_AP_RUNNING_COUNT_PTR :: u64 where "AP_STARTUP_AP_RUNNING_COUNT_PTR = 0x11000"
definition AP_STARTUP_BSP_ID_PTR :: u64 where "AP_STARTUP_BSP_ID_PTR = 0x11008"
definition AP_STARTUP_BSP_SPINLOCK_PTR :: u64 where "AP_STARTUP_BSP_SPINLOCK_PTR = 0x11010"
definition AP_STARTUP_STACK_POOL_BASE :: u64 where "AP_STARTUP_STACK_POOL_BASE = 0x18000"
definition AP_STARTUP_STACK_POOL_TOP :: u64 where "AP_STARTUP_STACK_POOL_TOP = 0x70000"
definition AP_STARTUP_STACK_POOL_PAGE_COUNT :: u64 where "AP_STARTUP_STACK_POOL_PAGE_COUNT = 8"
definition AP_STARTUP_STACK_POOL_STACK_SIZE :: u32 where "AP_STARTUP_STACK_POOL_STACK_SIZE = 512"

definition low_byte :: "u64 \<Rightarrow> u8 \<Rightarrow> 'd machine \<Rightarrow> 'd machine" where
  "low_byte a v k = k\<lparr>page_frames := (page_frames k)\<lparr>vram := (vram (page_frames k))(a := v)\<rparr>\<rparr>"

definition acquireApStartupSpinlockFlag :: "'d machine \<Rightarrow> 'd machine" where
  "acquireApStartupSpinlockFlag k = low_byte AP_STARTUP_BSP_SPINLOCK_PTR 0 k"

definition releaseApStartupSpinlockFlag :: "'d machine \<Rightarrow> 'd machine" where
  "releaseApStartupSpinlockFlag k = low_byte AP_STARTUP_BSP_SPINLOCK_PTR 1 k"

definition lock_startup_pages :: "pfa \<Rightarrow> pfa option" where
  "lock_startup_pages f = do {
     f \<leftarrow> lockPhysicalPage AP_STARTUP_ASM_ADDRESS f;
     f \<leftarrow> lockPhysicalPage AP_STARTUP_C_ENTRY_ADDRESS f;
     f \<leftarrow> lockPhysicalPage AP_STARTUP_AP_RUNNING_COUNT_PTR f;
     f \<leftarrow> lockPhysicalPage AP_STARTUP_PAGE_TABLE_PTR_ADDRESS f;
     lockPhysicalPages AP_STARTUP_STACK_POOL_BASE AP_STARTUP_STACK_POOL_PAGE_COUNT f
   }"

text \<open>
  The copies and the flags. The entry point's address is written as a word, the last statement
  stores the identifier that \<^verbatim>\<open>cpuid\<close> leaves in the top byte of \<^verbatim>\<open>ebx\<close>.
\<close>

definition prepareApStartupMemoryMappings :: "'d board \<Rightarrow> image \<Rightarrow> 'd machine \<Rightarrow> 'd machine option" where
  "prepareApStartupMemoryMappings B im k = do {
     f \<leftarrow> lock_startup_pages (page_frames k);
     let m = memcpy (vram f) AP_STARTUP_ASM_ADDRESS (adr_stub im ''ap_startup_asm'') PAGE_SIZE;
     let m = store64 (adr_stub im ''apStartupEntryC'') AP_STARTUP_C_ENTRY_ADDRESS m;
     let m = memcpy m AP_STARTUP_PAGE_TABLE_PTR_ADDRESS (g_kernelRootPageTable k) PAGE_SIZE;
     let k = k\<lparr>page_frames := f\<lparr>vram := m\<rparr>\<rparr>;
     let k = low_byte AP_STARTUP_AP_RUNNING_COUNT_PTR 0 k;
     let k = low_byte AP_STARTUP_BSP_ID_PTR 0 k;
     let (eax, ebx, ecx, edx) = cpu_cpuid B 1;
     Some (low_byte AP_STARTUP_BSP_SPINLOCK_PTR (ucast (drop_bit 24 ebx)) k)
   }"

section \<open>The boot processor\<close>

definition bootAndInitApCore :: "'d board \<Rightarrow> u8 \<Rightarrow> 'd machine \<Rightarrow> 'd machine option" where
  "bootAndInitApCore B apicid k = do {
     k \<leftarrow> getLocalApic B k;
     k \<leftarrow> sendIpi B apicid 0x500 k;
     k \<leftarrow> msleep B 20 k;
     k \<leftarrow> sendIpi B apicid (0x600 OR ucast (drop_bit 12 AP_STARTUP_ASM_ADDRESS)) k;
     msleep B 20 k
   }"

text \<open>The loop over the processors of the table from \<open>n\<close> on.\<close>

function boot_cores :: "'d board \<Rightarrow> madt \<Rightarrow> nat \<Rightarrow> 'd machine \<Rightarrow> 'd machine option" where
  "boot_cores B t n k =
    (if n < getCpuCount t then do {
       let k = on_sched (registerCpuCore (int n)) k;
       d \<leftarrow> getLocalApicDescriptor t n;
       let apicid = ucast (fget LocalApicDescriptor ''apicId'' d);
       k \<leftarrow> bootAndInitApCore B apicid k;
       boot_cores B t (n + 1) k
     }
     else Some k)"
  by auto
termination
  by (relation "measure (\<lambda>(B, t, n, k). getCpuCount t - n)") auto

declare boot_cores.simps [simp del]

definition initializeApCores :: "'d board \<Rightarrow> image \<Rightarrow> madt \<Rightarrow> 'd machine \<Rightarrow> 'd machine option" where
  "initializeApCores B im apicTable k = do {
     (u, k) \<leftarrow> run_elevated (\<lambda>k. do {
         k \<leftarrow> prepareApStartupMemoryMappings B im k;
         let k = acquireApStartupSpinlockFlag k;
         k \<leftarrow> boot_cores B apicTable 1 k;
         Some ((), releaseApStartupSpinlockFlag k)
       }) k;
     Some k
   }"

section \<open>The other processors\<close>

text \<open>The stack a processor starts with (\<^verbatim>\<open>ap_startup.s\<close>).\<close>

definition ap_stack :: "u32 \<Rightarrow> u32" where
  "ap_stack apicid = ucast AP_STARTUP_STACK_POOL_TOP - AP_STARTUP_STACK_POOL_STACK_SIZE * apicid"

text \<open>
  \<^verbatim>\<open>__call_lowered_entry\<close> with its assembly part: the stacks are saved in the cpu's data, the two \<^verbatim>\<open>gs\<close>
  bases are exchanged, and the flags of the new frame enable interrupts. \<open>rsp\<close> is the stack pointer
  at the call.
\<close>

definition call_lowered_entry :: "u64 \<Rightarrow> u64 \<Rightarrow> 'd machine \<Rightarrow> 'd machine" where
  "call_lowered_entry rsp user_stack k =
    (let k = upd_cpu (this_cpu k) (\<lambda>c. c\<lparr>currentKernelStack := rsp, currentUserStack := user_stack\<rparr>) k
     in k\<lparr>gs_base := kernel_gs_base k, kernel_gs_base := gs_base k, interrupts_on := True\<rparr>)"

definition swapper_task :: "int \<Rightarrow> u64 \<Rightarrow> 'd machine \<Rightarrow> 'd machine" where
  "swapper_task c p k =
    (let t = g_kernelSwapperTasks k c;
         k = upd_pcb t (\<lambda>s. s\<lparr>state := RUNNING\<rparr>) k;
         k = upd_pcb t (\<lambda>s. s\<lparr>pid := p\<rparr>) k;
         k = upd_pcb t (\<lambda>s. s\<lparr>cpu_context := zero_context\<rparr>) k;
         k = upd_pcb t (\<lambda>s. s\<lparr>cpu_context := (cpu_context s)\<lparr>c_rflags := c_rflags (cpu_context s) OR 0x200\<rparr>\<rparr>) k;
         k = upd_pcb t (\<lambda>s. s\<lparr>elevated := 0\<rparr>) k;
         k = upd_cpu c (\<lambda>d. d\<lparr>currentTask := t\<rparr>) k
     in upd_pcb (currentTask (per_cpu k c)) (\<lambda>s. s\<lparr>cpu := of_int c\<rparr>) k)"

definition apStartupEntryC ::
  "'d board \<Rightarrow> image \<Rightarrow> u64 \<Rightarrow> int \<Rightarrow> tables \<times> 'd machine \<Rightarrow> (tables \<times> 'd machine) option" where
  "apStartupEntryC B im rsp apicid s = do {
     let (T, k) = s;
     (apKernelStack, f) \<leftarrow> zallocPages (page_frames k) 2;
     let k = k\<lparr>page_frames := f\<rparr>;
     let apKernelStackTop = apKernelStack + 2 * PAGE_SIZE;
     let (T, k) = initializeAndInstallGDT B im apicid apKernelStackTop (T, k);
     let k = swapper_task apicid (of_int apicid) k;
     let T = loadIdtr T;
     let k = k\<lparr>interrupts_on := True\<rparr>;
     let k = enableSyscallInterface B (adr_stub im ''syscall_entry'') k;
     let k = k\<lparr>cr3_reg := virtToPhysAddr (va_off (page_frames k)) (g_kernelRootPageTable k)\<rparr>;
     (usermodeStack, f) \<leftarrow> zallocPages (page_frames k) 8;
     let k = k\<lparr>page_frames := f\<rparr>;
     let userStackTop = usermodeStack + 8 * PAGE_SIZE;
     Some (T, call_lowered_entry rsp userStackTop k)
   }"

text \<open>The lowered entry up to its endless loop.\<close>

definition apStartupEntryLowered :: "'d board \<Rightarrow> 'd machine \<Rightarrow> 'd machine option" where
  "apStartupEntryLowered B k = do {
     k \<leftarrow> initializeLocalApic B k;
     k \<leftarrow> calibrateApicTimer B 100 k;
     startApicPeriodicTimer B k
   }"

section \<open>The processors together\<close>

text \<open>
  Where the boot processor is in \<open>initializeApCores\<close>, and where another processor is: waiting for the
  startup signal, signalled, spinning on the flag in the assembly code, or past the spin.
\<close>

datatype bsp_pc = Preparing | Acquiring | Registering nat | Booting nat | Released

datatype ap_pc = Halted | Signalled | Waiting | Started

record ap_sys =
  bsp :: bsp_pc
  aps :: "nat \<Rightarrow> ap_pc"
  flag :: u8
  running :: u8
  registered :: "nat set"

text \<open>\<open>n\<close> is the number of processors of the table, \<open>i\<close> the identifier stored by the preparation.\<close>

inductive ap_step :: "nat \<Rightarrow> u8 \<Rightarrow> ap_sys \<Rightarrow> ap_sys \<Rightarrow> bool" for n i where
  prepare: "bsp s = Preparing \<Longrightarrow> ap_step n i s (s\<lparr>running := 0, flag := i, bsp := Acquiring\<rparr>)"
| acquire: "bsp s = Acquiring \<Longrightarrow> ap_step n i s (s\<lparr>flag := 0, bsp := Registering 1\<rparr>)"
| register: "bsp s = Registering c \<Longrightarrow> c < n \<Longrightarrow> ap_step n i s (s\<lparr>registered := insert c (registered s), bsp := Booting c\<rparr>)"
| boot: "bsp s = Booting c \<Longrightarrow>
    ap_step n i s (s\<lparr>aps := (aps s)(c := if aps s c = Halted then Signalled else aps s c), bsp := Registering (c + 1)\<rparr>)"
| release: "bsp s = Registering c \<Longrightarrow> \<not> c < n \<Longrightarrow> ap_step n i s (s\<lparr>flag := 1, bsp := Released\<rparr>)"
| start: "aps s c = Signalled \<Longrightarrow> ap_step n i s (s\<lparr>aps := (aps s)(c := Waiting)\<rparr>)"
| spin: "aps s c = Waiting \<Longrightarrow> flag s = 0 \<Longrightarrow> ap_step n i s s"
| pass: "aps s c = Waiting \<Longrightarrow> flag s \<noteq> 0 \<Longrightarrow> ap_step n i s (s\<lparr>aps := (aps s)(c := Started), running := running s + 1\<rparr>)"

definition ap_init :: "u8 \<Rightarrow> u8 \<Rightarrow> ap_sys" where
  "ap_init fl r = \<lparr>bsp = Preparing, aps = (\<lambda>_. Halted), flag = fl, running = r, registered = {}\<rparr>"

text \<open>How many processors the boot processor has registered at a point, and who may have left \<open>Halted\<close>.\<close>

fun covered :: "nat \<Rightarrow> bsp_pc \<Rightarrow> nat" where
  "covered n Preparing = 1"
| "covered n Acquiring = 1"
| "covered n (Registering c) = c"
| "covered n (Booting c) = c + 1"
| "covered n Released = n"

definition ap_inv :: "nat \<Rightarrow> ap_sys \<Rightarrow> bool" where
  "ap_inv n s \<longleftrightarrow> {1..<covered n (bsp s)} \<subseteq> registered s \<and>
    (bsp s \<in> {Preparing, Acquiring} \<longrightarrow> (\<forall>c. aps s c = Halted)) \<and>
    (bsp s \<notin> {Preparing, Acquiring, Released} \<longrightarrow> flag s = 0) \<and>
    (\<forall>c. aps s c = Started \<longrightarrow> bsp s = Released) \<and> (\<forall>c. aps s c \<noteq> Halted \<longrightarrow> c \<in> registered s) \<and>
    (\<forall>c. bsp s = Booting c \<longrightarrow> c \<in> registered s) \<and> (bsp s = Released \<longrightarrow> flag s = 1)"

lemma ap_step_inv:
  assumes "ap_step n i s s'" and I: "ap_inv n s"
  shows "ap_inv n s'"
  using assms(1)
proof cases
  case prepare
  then show ?thesis using I by (simp add: ap_inv_def)
next
  case acquire
  then show ?thesis using I by (simp add: ap_inv_def)
next
  case (register c)
  have "{1..<Suc c} \<subseteq> insert c (registered s)"
    using I register(2) by (auto simp: ap_inv_def subset_iff less_Suc_eq)
  then show ?thesis using I register by (simp add: ap_inv_def)
next
  case (boot c)
  then show ?thesis using I by (simp add: ap_inv_def)
next
  case (release c)
  have "{1..<n} \<subseteq> registered s" using I release(2,3) by (auto simp: ap_inv_def subset_iff)
  then show ?thesis using I release by (simp add: ap_inv_def)
next
  case (start c)
  have "bsp s \<notin> {Preparing, Acquiring}" "c \<in> registered s"
    using I start(2) by (metis ap_inv_def ap_pc.distinct(1))+
  then show ?thesis using I start by (simp add: ap_inv_def) metis
next
  case (spin c)
  then show ?thesis using I by simp
next
  case (pass c)
  have "bsp s \<notin> {Preparing, Acquiring}" "c \<in> registered s"
    using I pass(2) by (metis ap_inv_def ap_pc.distinct(3))+
  moreover have "bsp s = Released" using I pass(3) calculation(1) by (metis ap_inv_def insertE empty_iff insertCI)
  ultimately show ?thesis using I pass by (simp add: ap_inv_def)
qed

lemma ap_reach_inv:
  assumes "(ap_step n i)\<^sup>*\<^sup>* (ap_init fl r) s"
  shows "ap_inv n s"
  using assms
proof induction
  case base
  show ?case by (simp add: ap_inv_def ap_init_def)
next
  case (step s s')
  then show ?case using ap_step_inv by blast
qed

section \<open>Reserved pages\<close>

lemma lockPhysicalPages_claims:
  "j + k < 2 ^ 52 \<Longrightarrow> kpage_allocator_lock s = 0 \<Longrightarrow> pages_loop lockPhysicalPage k (pg j) s = Some (claims k j s)"
proof (induction k arbitrary: j s)
  case (Suc k)
  have "pg j + PAGE_SIZE = pg (Suc j)" using pg_add [of j 1] by simp
  then show ?case
    using Suc.IH [of "Suc j" "claim s (of_nat j)"] Suc.prems by (simp add: lockPhysicalPage_claim addrToIndex_pg)
qed simp

lemma lock_startup_pages_claims:
  assumes "kpage_allocator_lock s = 0"
  shows "lock_startup_pages s = Some (claims 8 0x18 (claim (claim (claim (claim s 0x8) 0x9) 0x11) 0x15))"
proof -
  have b: "AP_STARTUP_STACK_POOL_BASE = pg 0x18" by (simp add: AP_STARTUP_STACK_POOL_BASE_def pg_def PAGE_SIZE_def)
  have "addrToIndex AP_STARTUP_ASM_ADDRESS = 0x8" "addrToIndex AP_STARTUP_C_ENTRY_ADDRESS = 0x9"
    "addrToIndex AP_STARTUP_AP_RUNNING_COUNT_PTR = 0x11" "addrToIndex AP_STARTUP_PAGE_TABLE_PTR_ADDRESS = 0x15"
    by (simp_all add: addrToIndex_def PAGE_SIZE_def AP_STARTUP_ASM_ADDRESS_def AP_STARTUP_C_ENTRY_ADDRESS_def
        AP_STARTUP_AP_RUNNING_COUNT_PTR_def AP_STARTUP_PAGE_TABLE_PTR_ADDRESS_def)
  then show ?thesis
    using assms lockPhysicalPages_claims [of "0x18" 8 "claim (claim (claim (claim s 0x8) 0x9) 0x11) 0x15"]
    by (simp add: lock_startup_pages_def lockPhysicalPage_claim lockPhysicalPages_def AP_STARTUP_STACK_POOL_PAGE_COUNT_def b)
qed

text \<open>The pages of the stacks of the first 64 processors lie below \<open>0x70000\<close>.\<close>

definition ap_stack_page :: "u32 \<Rightarrow> u64" where
  "ap_stack_page apicid = addrToIndex (ucast (ap_stack apicid - 4))"

lemma ap_stack_page_range:
  assumes "apicid < 64"
  shows "0x68 \<le> unat (ap_stack_page apicid)" "unat (ap_stack_page apicid) < 0x70"
proof -
  have u: "unat (512 * apicid) = 512 * unat apicid"
    using assms by (subst unat_mult_lem [THEN iffD1]) (simp_all add: word_less_nat_alt)
  have "unat (0x70000 - 512 * apicid - 4) = 0x70000 - 512 * unat apicid - 4"
    using assms u by (simp add: unat_sub_if' word_less_nat_alt)
  then have "unat (ap_stack_page apicid) = (0x70000 - 512 * unat apicid - 4) div 0x1000"
    by (simp add: ap_stack_page_def ap_stack_def AP_STARTUP_STACK_POOL_TOP_def AP_STARTUP_STACK_POOL_STACK_SIZE_def
        addrToIndex_def PAGE_SIZE_def unat_div unsigned_ucast_eq take_bit_nat_eq_self)
  moreover have "unat apicid < 64" using assms by (simp add: word_less_nat_alt)
  ultimately show "0x68 \<le> unat (ap_stack_page apicid)" "unat (ap_stack_page apicid) < 0x70" by auto
qed

section \<open>Properties\<close>


text \<open>
  The stacks the processors start on are not reserved. The preparation locks the pages of the
  code, the entry address, the flags and the page table, and the eight pages from \<open>0x18000\<close>; the
  assembly code takes the stacks from below \<open>0x70000\<close>, whose pages keep their state.
\<close>

theorem ap_stacks_not_locked:
  assumes "kpage_allocator_lock f = 0" and "0x20 \<le> unat (bm_size f)" and "unat (bm_size f) < 2 ^ 60" and "apicid < 64"
  shows "\<exists>f'. lock_startup_pages f = Some f' \<and>
    (\<forall>p. page_used f' p = (p \<in> {0x8, 0x9, 0x11, 0x15} \<union> of_nat ` {0x18..<0x20} \<or> page_used f p)) \<and>
    page_used f' (ap_stack_page apicid) = page_used f (ap_stack_page apicid)"
proof -
  let ?f = "claims 8 0x18 (claim (claim (claim (claim f 0x8) 0x9) 0x11) 0x15)"
  have le: "of_nat q \<le> bm_size f * 8" if "q < 0x100" for q
  proof -
    have "unat (bm_size f * 8) = unat (bm_size f) * 8"
      using assms(3) by (subst unat_mult_lem [THEN iffD1]) simp_all
    moreover have "unat (of_nat q :: u64) = q" using that by (intro unat64_of_nat) simp
    ultimately show ?thesis using that assms(2) by (simp add: word_le_nat_alt)
  qed
  have u: "page_used ?f p = (p \<in> {0x8, 0x9, 0x11, 0x15} \<union> of_nat ` {0x18..<0x20} \<or> page_used f p)" for p
    using le [of 8] le [of 9] le [of 17] le [of 21] le by (subst page_used_claims) (auto simp: page_used_claim)
  have "ap_stack_page apicid \<notin> {0x8, 0x9, 0x11, 0x15} \<union> of_nat ` {0x18..<0x20}"
  proof
    assume "ap_stack_page apicid \<in> {0x8, 0x9, 0x11, 0x15} \<union> of_nat ` {0x18..<0x20}"
    then have "unat (ap_stack_page apicid) < 0x20" by (auto simp: unat64_of_nat)
    then show False using ap_stack_page_range(1) [OF assms(4)] by simp
  qed
  then show ?thesis using lock_startup_pages_claims [OF assms(1)] u by auto
qed

theorem ap_stacks_not_locked_witness:
  "\<exists>f'. lock_startup_pages ((pfa_zero 32)\<lparr>bm_size := 0x1000, vram := (\<lambda>_. 0)\<rparr>) = Some f' \<and> \<not> page_used f' (ap_stack_page 1)"
proof -
  let ?f = "(pfa_zero 32)\<lparr>bm_size := 0x1000, vram := (\<lambda>_. 0)\<rparr>"
  have "\<not> page_used ?f p" for p by (simp add: page_used_def)
  moreover have "kpage_allocator_lock ?f = 0" by (simp add: pfa_zero_def)
  ultimately show ?thesis using ap_stacks_not_locked [of ?f 1] by auto
qed


end
