(* ===== verification/Entry.thy ===== *)
theory Entry
  imports Console ApStartup MemInit
begin

text \<open>
  The kernel's entry: \<^verbatim>\<open>entry/kernel_entry.cpp\<close> with the test it runs
  (\<^verbatim>\<open>entry/tests/kernel_entry_ap_startup_test.cpp\<close>) and the print of the page attribute table. The two
  functions call the components in the order of the code; the state \<open>boot\<close> is the console (with the
  machine), the descriptor tables and the ACPI controller.

  Before the heap exists, parameters are read from the memory of the page frames; the
  initialisation of the heap starts from the same memory.
\<close>

section \<open>State\<close>

record 'd boot =
  trm :: "'d terminal"
  tabs :: tables
  acpiController :: acpi

text \<open>Link addresses, besides those of the tables.\<close>

record layout_image = image +
  adr_ksymstart :: u64
  adr_ksymend :: u64
  adr_params :: u64
  adr_user_stack :: u64

definition upd_mach :: "('d machine \<Rightarrow> 'd machine) \<Rightarrow> 'd boot \<Rightarrow> 'd boot" where
  "upd_mach f s = s\<lparr>trm := on_mach f (trm s)\<rparr>"

definition try_mach :: "('d machine \<Rightarrow> 'd machine option) \<Rightarrow> 'd boot \<Rightarrow> 'd boot option" where
  "try_mach f s = do { k \<leftarrow> f (mach (trm s)); Some (upd_mach (\<lambda>_. k) s) }"

definition try_term :: "('d terminal \<Rightarrow> 'd terminal option) \<Rightarrow> 'd boot \<Rightarrow> 'd boot option" where
  "try_term f s = do { t \<leftarrow> f (trm s); Some (s\<lparr>trm := t\<rparr>) }"

definition try_pages :: "(pfa \<Rightarrow> pfa option) \<Rightarrow> 'd boot \<Rightarrow> 'd boot option" where
  "try_pages f s = try_mach (\<lambda>k. do { p \<leftarrow> f (page_frames k); Some (k\<lparr>page_frames := p\<rparr>) }) s"

definition try_sched :: "(sched \<Rightarrow> ('r \<times> sched) option) \<Rightarrow> 'd boot \<Rightarrow> ('r \<times> 'd boot) option" where
  "try_sched f s = do {
     (r, c) \<leftarrow> f (sched.truncate (mach (trm s)));
     Some (r, upd_mach (\<lambda>k. sched.extend c (sched.more k)) s)
   }"

text \<open>\<open>RUN_ELEVATED\<close> around a body on the whole state.\<close>

definition boot_elevated :: "('d boot \<Rightarrow> 'd boot option) \<Rightarrow> 'd boot \<Rightarrow> 'd boot option" where
  "boot_elevated body s =
    (let initiallyElevated = kcheck_elevated (mach (trm s));
         s = (if \<not> initiallyElevated then upd_mach kelevate s else s)
     in do {
       s \<leftarrow> body s;
       Some (if \<not> initiallyElevated then upd_mach klower s else s)
     })"

section \<open>Entry parameters\<close>

definition KernelEntryParams :: layout where
  "KernelEntryParams = [(''kernelElfSegments'', 64), (''base'', 64), (''size'', 64), (''width'', 32), (''height'', 32),
    (''pixelsPerScanline'', 32), (''padding'', 32), (''textRenderingFont'', 64), (''efiBase'', 64), (''efiSize'', 64),
    (''descriptorSize'', 64), (''descriptorCount'', 64), (''kernelStack'', 64), (''rsdp'', 64)]"

interpretation params_struct: bit_struct KernelEntryParams 768
  by unfold_locales (simp_all add: KernelEntryParams_def)

definition param :: "mem \<Rightarrow> u64 \<Rightarrow> string \<Rightarrow> u64" where
  "param m p f = load64 m (p + offsetof KernelEntryParams f)"

definition SERIAL_PORT_BASE_COM2 :: u16 where "SERIAL_PORT_BASE_COM2 = 0x2F8"
definition SERIAL_PORT_BASE_COM3 :: u16 where "SERIAL_PORT_BASE_COM3 = 0x3EF"
definition SERIAL_PORT_BASE_COM4 :: u16 where "SERIAL_PORT_BASE_COM4 = 0x2EF"
definition USERMODE_KERNEL_ENTRY_STACK_SIZE :: u64 where "USERMODE_KERNEL_ENTRY_STACK_SIZE = 0x8000"

text \<open>The whole of \<^verbatim>\<open>_kentry\<close>; \<open>rsp\<close> is the stack pointer at its last call.\<close>

definition kentry :: "'d board \<Rightarrow> layout_image \<Rightarrow> u64 \<Rightarrow> u64 \<Rightarrow> 'd boot \<Rightarrow> 'd boot" where
  "kentry B im rsp params s =
    (let k = mach (trm s);
         kernelStackTop = param (vram (page_frames k)) params ''kernelStack'' + PAGE_SIZE;
         k = k\<lparr>page_frames := (page_frames k)\<lparr>vram := memcpy (vram (page_frames k)) (adr_params im) params 96\<rparr>\<rparr>;
         (T, k) = initializeAndInstallGDT B (image.truncate im) BSP_CPU_ID kernelStackTop (tabs s, k);
         k = enableSyscallInterface B (adr_stub im ''syscall_entry'') k;
         m = vram (page_frames k);
         k = k\<lparr>page_frames := (page_frames k)\<lparr>va_off := adr_ksymstart im - load64 m (param m params ''kernelElfSegments'')\<rparr>\<rparr>;
         k = k\<lparr>device := initializeSerialPort (io_ports B) SERIAL_PORT_BASE_COM1 (device k)\<rparr>;
         k = k\<lparr>device := initializeSerialPort (io_ports B) SERIAL_PORT_BASE_COM2 (device k)\<rparr>;
         k = k\<lparr>device := initializeSerialPort (io_ports B) SERIAL_PORT_BASE_COM3 (device k)\<rparr>;
         k = k\<lparr>device := initializeSerialPort (io_ports B) SERIAL_PORT_BASE_COM4 (device k)\<rparr>;
         k = swapper_task BSP_CPU_ID 1 k;
         k = call_lowered_entry rsp (adr_user_stack im + USERMODE_KERNEL_ENTRY_STACK_SIZE) k
     in s\<lparr>trm := (trm s)\<lparr>mach := k\<rparr>, tabs := T\<rparr>)"

section \<open>Reserving the kernel's memory\<close>

text \<open>
  The symbols are declared as 64-bit words, so their difference counts words, not bytes; the
  pages are computed from it.
\<close>

definition image_pages :: "layout_image \<Rightarrow> u64" where
  "image_pages im = (adr_ksymend im - adr_ksymstart im) div 8 div PAGE_SIZE + 1"

definition lock_boot_pages :: "layout_image \<Rightarrow> mem \<Rightarrow> pfa \<Rightarrow> pfa option" where
  "lock_boot_pages im m f = do {
     f \<leftarrow> lockPage (adr_params im) f;
     f \<leftarrow> lockPages (adr_ksymstart im) (image_pages im) f;
     f \<leftarrow> lockPage (param m (adr_params im) ''textRenderingFont'') f;
     f \<leftarrow> lockPages (param m (adr_params im) ''kernelElfSegments'') (image_pages im) f;
     lockPages (param m (adr_params im) ''base'') (param m (adr_params im) ''size'' div PAGE_SIZE + 1) f
   }"

definition init_frames :: "layout_image \<Rightarrow> 'd machine \<Rightarrow> 'd machine option" where
  "init_frames im k = do {
     let m = vram (page_frames k);
     (f, h) \<leftarrow> initializeFromMemoryMap (cr3_reg k) (param m (adr_params im) ''efiBase'')
       (param m (adr_params im) ''descriptorSize'') (param m (adr_params im) ''descriptorCount'') (page_frames k) (task_heap k);
     let k = k\<lparr>page_frames := f, task_heap := h\<rparr>;
     Some (k\<lparr>g_kernelRootPageTable := physToVirtAddr (va_off f) (cr3_reg k)\<rparr>)
   }"

section \<open>The banner\<close>

definition debugPat :: "'d board \<Rightarrow> u64 \<Rightarrow> 'd terminal \<Rightarrow> 'd terminal option" where
  "debugPat B pat t = do {
     let attr = (\<lambda>i. lit (patAttribToString (ucast (fget pat_t (''pa'' @ [i]) pat))));
     t \<leftarrow> kuPrint B (line ''---- Page Attribute Table ----'') 0 no_strings [] t;
     t \<leftarrow> kuPrint B (line ''    pa0: %s'') 0 (attr CHR ''0'') [0] t;
     t \<leftarrow> kuPrint B (line ''    pa1: %s'') 0 (attr CHR ''1'') [0] t;
     t \<leftarrow> kuPrint B (line ''    pa2: %s'') 0 (attr CHR ''2'') [0] t;
     t \<leftarrow> kuPrint B (line ''    pa3: %s'') 0 (attr CHR ''3'') [0] t;
     t \<leftarrow> kuPrint B (line ''    pa4: %s'') 0 (attr CHR ''4'') [0] t;
     t \<leftarrow> kuPrint B (line ''    pa5: %s'') 0 (attr CHR ''5'') [0] t;
     t \<leftarrow> kuPrint B (line ''    pa6: %s'') 0 (attr CHR ''6'') [0] t;
     t \<leftarrow> kuPrint B (line ''    pa7: %s'') 0 (attr CHR ''7'') [0] t;
     kuPrint B (line '''') 0 no_strings [] t
   }"

definition init_display :: "'d board \<Rightarrow> layout_image \<Rightarrow> 'd terminal \<Rightarrow> 'd terminal option" where
  "init_display B im t = do {
     let t = (if cpuid_isPATSupported B then on_mach (ksetupPatOnKernelEntry B) t else t);
     let k = mach t;
     let m = ram (task_heap k);
     (d, h, f) \<leftarrow> display_initialize (adr_params im + 8) (param m (adr_params im) ''textRenderingFont'')
       (g_kernelRootPageTable k) (disp t) (task_heap k) (page_frames k);
     let t = t\<lparr>mach := k\<lparr>task_heap := h, page_frames := f\<rparr>, disp := d\<rparr>;
     let vendorName = cpuid_readVendorId B 0 (\<lambda>_. 0);
     t \<leftarrow> kprintInfo B (line ''===== Stellux Kernel ====='') 0 no_strings [] t;
     t \<leftarrow> kprintInfo B (line ''CPU Vendor: %s'') 0 vendorName [0] t;
     t \<leftarrow> kprintWarn B (lit (''5-level paging support: %s'' @ [CHR 0x0A, CHR 0x0A])) 0
           (lit (if cpuid_isLa57Supported B then ''enabled'' else ''disabled'')) [0] t;
     let (pat, k) = readPatMsr B (mach t);
     debugPat B pat (t\<lparr>mach := k\<rparr>)
   }"

definition print_memory :: "'d board \<Rightarrow> layout_image \<Rightarrow> 'd terminal \<Rightarrow> 'd terminal option" where
  "print_memory B im t = do {
     let f = page_frames (mach t);
     let m = ram (task_heap (mach t));
     t \<leftarrow> kuPrint B (line ''System total memory : %llu MB'') 0 no_strings [m_totalSystemMemory f div 1024 div 1024] t;
     t \<leftarrow> kuPrint B (line ''System free memory  : %llu MB'') 0 no_strings [m_freeSystemMemory f div 1024 div 1024] t;
     t \<leftarrow> kuPrint B (line ''System used memory  : %llu MB'') 0 no_strings [m_usedSystemMemory f div 1024 div 1024] t;
     t \<leftarrow> kuPrint B (line ''The kernel is loaded at:'') 0 no_strings [] t;
     t \<leftarrow> kuPrint B (line ''    Physical : 0x%llx'') 0 no_strings [adr_ksymstart im - va_off f] t;
     t \<leftarrow> kuPrint B (line (''    Virtual  : 0x%llx'' @ [CHR 0x0A])) 0 no_strings [adr_ksymstart im] t;
     kuPrint B (line (''KernelStack  : 0x%llx'' @ [CHR 0x0A])) 0 no_strings [param m (adr_params im) ''kernelStack'' + PAGE_SIZE] t
   }"

section \<open>The lowered entry\<close>

definition enable_keyboard :: "'d board \<Rightarrow> acpi \<Rightarrow> 'd machine \<Rightarrow> 'd machine option" where
  "enable_keyboard B a k =
    (case m_madt a of
       None \<Rightarrow> Some k
     | Some t \<Rightarrow> do {
         ioapic \<leftarrow> getIoApic t 0;
         let entry = fset RedirectionEntry ''vector'' (ucast IRQ1) 0;
         let entry = fset RedirectionEntry ''destination'' (of_int BSP_CPU_ID) entry;
         (r, k) \<leftarrow> writeRedirectionEntry B ioapic 1 entry k;
         Some k
       })"

primrec test_tasks :: "layout_image \<Rightarrow> nat \<Rightarrow> 'd boot \<Rightarrow> 'd boot option" where
  "test_tasks im 0 s = Some s"
| "test_tasks im (Suc n) s = do {
     (helloTask, s) \<leftarrow> try_sched (createKernelTask (adr_stub im ''sayHelloCore'') 0) s;
     (goodbyeTask, s) \<leftarrow> try_sched (createKernelTask (adr_stub im ''sayGoodbyeCore'') 0) s;
     (r, s) \<leftarrow> try_sched (addTask_balanced helloTask) s;
     (r, s) \<leftarrow> try_sched (addTask_balanced goodbyeTask) s;
     test_tasks im n s
   }"

definition ke_test_ap_startup :: "layout_image \<Rightarrow> 'd boot \<Rightarrow> 'd boot option" where
  "ke_test_ap_startup im s = test_tasks im 10 s"

text \<open>\<^verbatim>\<open>_kuser_entry\<close> up to its endless loop, with the test that is enabled.\<close>

definition kuser_entry :: "'d board \<Rightarrow> layout_image \<Rightarrow> acpi_world \<Rightarrow> 'd boot \<Rightarrow> 'd boot option" where
  "kuser_entry B im W s = do {
     let s = s\<lparr>tabs := setupInterruptDescriptorTable (image.truncate im) (tabs s)\<rparr>;
     s \<leftarrow> boot_elevated (\<lambda>s. Some (upd_mach (\<lambda>k. k\<lparr>interrupts_on := True\<rparr>) (s\<lparr>tabs := loadIdtr (tabs s)\<rparr>))) s;
     s \<leftarrow> boot_elevated (try_mach (init_frames im)) s;
     let m = ram (task_heap (mach (trm s)));
     s \<leftarrow> try_pages (lock_boot_pages im m) s;
     s \<leftarrow> boot_elevated (try_term (init_display B im)) s;
     s \<leftarrow> try_term (print_memory B im) s;
     s \<leftarrow> try_mach (initializeLocalApic B) s;
     s \<leftarrow> boot_elevated (\<lambda>s. do {
         (a, k) \<leftarrow> acpi_init B W (param m (adr_params im) ''rsdp'') (acpiController s, mach (trm s));
         Some (upd_mach (\<lambda>_. k) (s\<lparr>acpiController := a\<rparr>))
       }) s;
     s \<leftarrow> try_mach (ktimer_init B (acpiController s)) s;
     s \<leftarrow> try_mach (calibrateApicTimer B 100) s;
     s \<leftarrow> try_mach (startApicPeriodicTimer B) s;
     s \<leftarrow> try_mach (enable_keyboard B (acpiController s)) s;
     let s = upd_mach (on_sched sched_init) s;
     apicTable \<leftarrow> m_madt (acpiController s);
     s \<leftarrow> try_mach (initializeApCores B (image.truncate im) apicTable) s;
     ke_test_ap_startup im s
   }"

section \<open>What the entry leaves\<close>

lemma swapper_task_fields:
  "currentTask (per_cpu (swapper_task c p k) c) = g_kernelSwapperTasks k c"
  "pcbs (swapper_task c p k) t = (if t = g_kernelSwapperTasks k c
    then (pcbs k t)\<lparr>state := RUNNING, pid := p, cpu_context := zero_context\<lparr>c_rflags := 0x200\<rparr>, elevated := 0, cpu := of_int c\<rparr>
    else pcbs k t)"
  "defaultKernelStack (per_cpu (swapper_task c p k) d) = defaultKernelStack (per_cpu k d)"
  "gs_base (swapper_task c p k) = gs_base k" "kernel_gs_base (swapper_task c p k) = kernel_gs_base k"
  "page_frames (swapper_task c p k) = page_frames k"
  by (simp_all add: swapper_task_def Let_def upd_cpu_def upd_pcb_def zero_context_def)

lemma call_lowered_entry_fields:
  "currentTask (per_cpu (call_lowered_entry rsp us k) c) = currentTask (per_cpu k c)"
  "defaultKernelStack (per_cpu (call_lowered_entry rsp us k) c) = defaultKernelStack (per_cpu k c)"
  "pcbs (call_lowered_entry rsp us k) = pcbs k" "interrupts_on (call_lowered_entry rsp us k)"
  "gs_base (call_lowered_entry rsp us k) = kernel_gs_base k" "kernel_gs_base (call_lowered_entry rsp us k) = gs_base k"
  "page_frames (call_lowered_entry rsp us k) = page_frames k"
  by (simp_all add: call_lowered_entry_def Let_def upd_cpu_def)

lemma lockPages_claims:
  "j + k < 2 ^ 52 \<Longrightarrow> kpage_allocator_lock s = 0 \<Longrightarrow> virtToPhysAddr (va_off s) v = pg j \<Longrightarrow>
    pages_loop lockPage k v s = Some (claims k j s)"
proof (induction k arbitrary: j s v)
  case (Suc k)
  have "virtToPhysAddr (va_off s) (v + PAGE_SIZE) = pg (Suc j)"
    using pg_add [of j 1] Suc.prems(3) by (simp add: virtToPhysAddr_def algebra_simps)
  then show ?case
    using Suc.IH [of "Suc j" "claim s (of_nat j)" "v + PAGE_SIZE"] Suc.prems
    by (simp add: lockPage_physical lockPhysicalPage_claim addrToIndex_pg)
qed simp

section \<open>Properties\<close>


text \<open>
  C39: The kernel reserves only an eighth of its own image. The number of pages is computed from the
  difference of two pointers to 64-bit words: of a kernel of at least 16 pages, the pages behind the
  first eighth keep their state in the bitmap and stay available to the allocator if it was told
  that they are free.
\<close>

theorem kernel_image_underlocked:
  assumes "kpage_allocator_lock f = 0" and "virtToPhysAddr (va_off f) (adr_ksymstart im) = pg j"
    and "n = unat (adr_ksymend im - adr_ksymstart im)" and "0x10000 \<le> n" and "j + n < 2 ^ 52"
    and "\<forall>q < j + n. of_nat q \<le> bm_size f * 8"
  shows "\<exists>f'. lockPages (adr_ksymstart im) (image_pages im) f = Some f' \<and>
    (\<forall>q. j + n div 0x8000 < q \<and> q < j + n div 0x1000 \<longrightarrow> page_used f' (of_nat q) = page_used f (of_nat q)) \<and>
    j + n div 0x8000 + 1 < j + n div 0x1000"
proof -
  have small: "n div 0x8000 + 1 < n div 0x1000"
  proof -
    have "n div 0x8000 = n div 0x1000 div 8" by (simp add: div_mult2_eq [symmetric])
    moreover have "16 \<le> n div 0x1000" using div_le_mono [OF assms(4), of "0x1000"] by simp
    ultimately show ?thesis by linarith
  qed
  then have lt: "j + (n div 0x8000 + 1) < j + n" using div_le_dividend [of n "0x1000"] by linarith
  have p: "unat (image_pages im) = n div 0x8000 + 1"
  proof -
    have "unat ((adr_ksymend im - adr_ksymstart im) div 8 div PAGE_SIZE) = n div 0x8000"
      using assms(3) by (simp add: unat_div PAGE_SIZE_def div_mult2_eq [symmetric])
    then show ?thesis using assms(5) by (simp add: image_pages_def unat_add_no_wrap)
  qed
  have l: "lockPages (adr_ksymstart im) (image_pages im) f = Some (claims (n div 0x8000 + 1) j f)"
    unfolding lockPages_def p using assms(1,2,5) by (intro lockPages_claims) (use lt in auto)
  have "page_used (claims (n div 0x8000 + 1) j f) (of_nat q) = page_used f (of_nat q)"
    if q: "j + n div 0x8000 < q" "q < j + n div 0x1000" for q
  proof -
    have "(of_nat q :: u64) \<notin> of_nat ` {j..<j + (n div 0x8000 + 1)}"
    proof
      assume "(of_nat q :: u64) \<in> of_nat ` {j..<j + (n div 0x8000 + 1)}"
      then obtain r where r: "(of_nat q :: u64) = of_nat r" "r < j + (n div 0x8000 + 1)" by auto
      moreover have "unat (of_nat q :: u64) = q" "unat (of_nat r :: u64) = r"
        using q r(2) assms(5) by (auto intro!: unat64_of_nat)
      ultimately show False using q(1) by auto
    qed
    moreover have "of_nat r \<le> bm_size f * 8" if "r < j + (n div 0x8000 + 1)" for r
      using assms(6) that lt by auto
    ultimately show ?thesis by (subst page_used_claims) auto
  qed
  then show ?thesis using l small by auto
qed

theorem kernel_image_underlocked_witness:
  "\<exists>f'. lockPages 0 (image_pages (image.extend image0
      \<lparr>adr_ksymstart = 0, adr_ksymend = 0x10000, adr_params = 0, adr_user_stack = 0\<rparr>))
      ((pfa_zero 32)\<lparr>bm_size := 0x100000, va_off := 0, vram := (\<lambda>_. 0)\<rparr>) = Some f' \<and> \<not> page_used f' 8"
proof -
  let ?im = "image.extend image0 \<lparr>adr_ksymstart = 0, adr_ksymend = 0x10000, adr_params = 0, adr_user_stack = 0\<rparr>"
  let ?f = "(pfa_zero 32)\<lparr>bm_size := 0x100000, va_off := 0, vram := (\<lambda>_. 0)\<rparr>"
  have im: "adr_ksymstart ?im = 0" "adr_ksymend ?im = 0x10000" by (simp_all add: image.extend_def)
  have free: "\<not> page_used ?f p" for p by (simp add: page_used_def)
  have bm: "\<forall>q < 0 + 0x10000. of_nat q \<le> bm_size ?f * 8"
  proof (intro allI impI)
    fix q :: nat
    assume "q < 0 + 0x10000"
    moreover from this have "unat (of_nat q :: u64) = q" by (intro unat64_of_nat) simp
    ultimately show "of_nat q \<le> bm_size ?f * 8" by (simp add: word_le_nat_alt)
  qed
  have h: "kpage_allocator_lock ?f = 0" "virtToPhysAddr (va_off ?f) (adr_ksymstart ?im) = pg 0"
    "0x10000 = unat (adr_ksymend ?im - adr_ksymstart ?im)"
    by (simp_all add: pfa_zero_def virtToPhysAddr_def pg_def im)
  obtain f' where f': "lockPages (adr_ksymstart ?im) (image_pages ?im) ?f = Some f'"
    "\<forall>q. 0 + 0x10000 div 0x8000 < q \<and> q < 0 + 0x10000 div 0x1000 \<longrightarrow> page_used f' (of_nat q) = page_used ?f (of_nat q)"
    using kernel_image_underlocked [OF h _ _ bm] by auto
  then have "page_used f' (of_nat 8) = page_used ?f (of_nat 8)" by (intro f'(2) [rule_format]) simp
  with f'(1) have "lockPages 0 (image_pages ?im) ?f = Some f'" "page_used f' (of_nat 8) = page_used ?f (of_nat 8)"
    unfolding im by simp_all
  then show ?thesis using free by auto
qed

end
