(* ===== verification/Spec2Isabelle.thy ===== *)
theory Spec2Isabelle
  imports Prelude Kmemory Spinlock KHeap PageFrame PageTables Paging MemInit HeapBlocks Vector KConv KString Process Sched Xhci BootPaging BootElf Ports Pci Machine Apic Acpi
    Descriptors Display Console ApStartup Entry
begin

text \<open>
  Stellux is a 64-bit x86 kernel in C++ with a UEFI boot loader in C. This development models the
  boot loader, the kernel's memory management, its library, its scheduler and system calls, its
  drivers and its start-up, at the level of bytes, registers and machine words, and proves what
  each part does. File names below are relative to \<^verbatim>\<open>src/kernel/src\<close> unless they start with
  \<^verbatim>\<open>bootloader\<close>, which is \<^verbatim>\<open>src/bootloader\<close>.

  \<^bold>\<open>How the parts interact.\<close> The boot loader reads the kernel's ELF file, builds page tables with an
  identity mapping and a mapping of the kernel to the higher half, and jumps to \<^verbatim>\<open>_kentry\<close> with a
  parameter block. \<^verbatim>\<open>_kentry\<close> sets up descriptor tables and system calls and enters \<^verbatim>\<open>_kuser_entry\<close>
  with lowered privilege, which starts the page frame allocator and the heap from the firmware's
  memory map, then the display, the ACPI tables, the interrupt controllers, the clocks and the other
  processors. From then on the timer interrupt drives the scheduler of each processor. Code that
  needs privileged instructions wraps them in \<^verbatim>\<open>RUN_ELEVATED\<close>, a pair of system calls.

  \<^bold>\<open>Conventions.\<close>
  \<^item> Integers are words of the width of the C type and wrap; a pointer is a 64-bit word. Memory is a
    function from addresses to bytes, and a structure is read and written at the offsets of its
    members. Packed structures and bit-fields are layouts of \<^verbatim>\<open>BitStruct\<close>.
  \<^item> An operation takes its state and returns the new one. \<^const>\<open>None\<close> is a call that does not return
    a value: an endless wait, a lock that is held, an access the language leaves undefined.
    A theorem that an operation works states that its result is \<^const>\<open>Some\<close>.
  \<^item> A loop with a counter is a total function (\<^verbatim>\<open>for_up\<close> and \<^verbatim>\<open>for_down\<close> of \<^verbatim>\<open>Prelude\<close>, \<^verbatim>\<open>for_range\<close> of
    \<^verbatim>\<open>Display\<close>, or a recursion with a termination proof). A loop that can run for ever is a
    partial function into option, so that not returning is \<^const>\<open>None\<close>: the scans of lists in memory,
    the waits for a device or a lock. No fuel is used. Where the code's loop ends for every input
    the theory has a termination proof; where it ends under a condition a theorem says so (the
    event ring is drained, a capability list without a cycle is read to its end, a sleep returns).
  \<^item> What a device, the firmware or an instruction does is a parameter: the records \<^verbatim>\<open>ports\<close>, \<^verbatim>\<open>board\<close>,
    \<^verbatim>\<open>controller\<close> and \<^verbatim>\<open>uefi\<close>. What the code relies on of it is a named hypothesis, and the witness
    of each theorem instantiates it with a concrete device.

  \<^bold>\<open>Foundations.\<close>
  \<^item> \<^verbatim>\<open>Prelude\<close>: word types, C bit-fields, loads and stores, counting loops with invariant rules.
  \<^item> \<^verbatim>\<open>BitStruct\<close>: packed structures; the locale \<^verbatim>\<open>bit_struct\<close> gives the laws of assignment to a member
    and is interpreted for the structures of the descriptor tables and of the kernel's parameters, and shown
    for all structures of the USB driver.

  \<^bold>\<open>Memory and library.\<close>
  \<^item> \<^verbatim>\<open>Kmemory\<close> (\<^verbatim>\<open>memory/kmemory.cpp\<close>): each loop of memcpy, memmove, memcmp and memset is an
    interpretation of one of four loop locales; the routines equal the bytewise operation.
  \<^item> \<^verbatim>\<open>Spinlock\<close> (\<^verbatim>\<open>core/sync.h\<close>): a sequential view, used by every component with a lock, and a step relation
    with mutual exclusion and progress.
  \<^item> \<^verbatim>\<open>KHeap\<close> (\<^verbatim>\<open>memory/kheap.cpp\<close>): the segment chain in memory, abstracted to a list of blocks that tile
    the heap. Allocation, release and reallocation refine operations on that list. A release that leaves a
    stale back pointer is shown to corrupt the chain.
  \<^item> \<^verbatim>\<open>HeapBlocks\<close>: the contract \<^verbatim>\<open>block_supply\<close> of the heap towards its clients, interpreted on kmalloc and
    kfree. \<^verbatim>\<open>Vector\<close> (\<^verbatim>\<open>core/kvector.h\<close>), \<^verbatim>\<open>KString\<close> (\<^verbatim>\<open>core/kstring.cpp\<close>) and \<^verbatim>\<open>XhciRings\<close> build on it.
  \<^item> \<^verbatim>\<open>KConv\<close> (\<^verbatim>\<open>core/kstring.cpp\<close>): number conversion against decimal digits, and strlen against the first
    zero byte.
  \<^item> \<^verbatim>\<open>PageFrame\<close> (\<^verbatim>\<open>paging/page_frame_allocator.cpp\<close>, \<^verbatim>\<open>phys_addr_translation.cpp\<close>): the bitmap as a set of
    used pages; which page a request returns, and that it was free.
  \<^item> \<^verbatim>\<open>MemInit\<close>: \<^verbatim>\<open>initializeFromMemoryMap\<close>, which ties the page allocator and the heap together.
  \<^item> \<^verbatim>\<open>PageTables\<close>: four-level tables as trees in memory, and the contract \<^verbatim>\<open>frame_supply\<close> of the source of new
    tables. \<^verbatim>\<open>Paging\<close> (\<^verbatim>\<open>paging/page.cpp\<close>, \<^verbatim>\<open>tlb.cpp\<close>) and \<^verbatim>\<open>BootPaging\<close> (\<^verbatim>\<open>bootloader/paging.c\<close>) interpret it on
    the kernel's allocator and on the firmware's, and prove mapping a page correct.

  \<^bold>\<open>Boot loader.\<close>
  \<^item> \<^verbatim>\<open>BootPaging\<close>: the identity mapping maps exactly the memory given; the higher half maps the kernel's
    pages with the privilege of their section.
  \<^item> \<^verbatim>\<open>BootElf\<close> (\<^verbatim>\<open>bootloader/elf_loader.c\<close>, \<^verbatim>\<open>file_loader.c\<close>, \<^verbatim>\<open>memory_map.c\<close>, \<^verbatim>\<open>font_loader.c\<close>, \<^verbatim>\<open>gop_setup.c\<close>,
    \<^verbatim>\<open>bootloader.c\<close>): all loader services and the entry; the loaded segments have the bytes of the file
    and are zero behind them.

  \<^bold>\<open>Processes.\<close>
  \<^item> \<^verbatim>\<open>Process\<close> (\<^verbatim>\<open>process/process.cpp\<close>, \<^verbatim>\<open>arch/x86/per_cpu_data.h\<close>, \<^verbatim>\<open>syscall/syscalls.cpp\<close>,
    \<^verbatim>\<open>kelevate/kelevate.cpp\<close>): context save and restore, system calls, elevation.
  \<^item> \<^verbatim>\<open>Sched\<close> (\<^verbatim>\<open>sched/sched.cpp\<close>, the timer of \<^verbatim>\<open>interrupts/interrupts.cpp\<close>): the run queues keep their
    invariant along every sequence of operations, a tick saves the interrupted context and loads
    the next, and every task gets its turn.

  \<^bold>\<open>Devices.\<close>
  \<^item> \<^verbatim>\<open>Ports\<close> (\<^verbatim>\<open>ports/ports.cpp\<close>, \<^verbatim>\<open>ports/serial.cpp\<close>), \<^verbatim>\<open>Pci\<close> (\<^verbatim>\<open>pci/pci.cpp\<close>, \<^verbatim>\<open>acpi/mcfg.cpp\<close>): port access,
    the serial line, and the enumeration of devices and capabilities.
  \<^item> \<^verbatim>\<open>Machine\<close> (\<^verbatim>\<open>arch/x86/msr.cpp\<close>, \<^verbatim>\<open>x86_cpu_control.cpp\<close>, \<^verbatim>\<open>pat.cpp\<close>, \<^verbatim>\<open>cpuid.h\<close>) and \<^verbatim>\<open>Apic\<close>
    (\<^verbatim>\<open>arch/x86/apic.cpp\<close>, \<^verbatim>\<open>apic_timer.cpp\<close>, \<^verbatim>\<open>ioapic.cpp\<close>): the processor's registers and the interrupt controllers.
  \<^item> \<^verbatim>\<open>Acpi\<close> (\<^verbatim>\<open>acpi/madt.cpp\<close>, \<^verbatim>\<open>acpi/hpet.cpp\<close>, \<^verbatim>\<open>acpi/acpi_controller.cpp\<close>, \<^verbatim>\<open>time/ktime.cpp\<close>): tables, timer, sleep.
  \<^item> \<^verbatim>\<open>Descriptors\<close> (\<^verbatim>\<open>gdt/gdt.cpp\<close>, \<^verbatim>\<open>gdt/tss.h\<close>, \<^verbatim>\<open>interrupts/idt.cpp\<close>): segments, gates and dispatch.
  \<^item> \<^verbatim>\<open>XhciRegs\<close>, \<^verbatim>\<open>XhciRings\<close>, \<^verbatim>\<open>Xhci\<close> (\<^verbatim>\<open>drivers/usb/xhci.h\<close>, \<^verbatim>\<open>drivers/usb/xhci.cpp\<close>): the structures, the
    rings (the command and the transfer ring interpret the contract \<^verbatim>\<open>trb_ring\<close>) and the driver.
  \<^item> \<^verbatim>\<open>Display\<close> (\<^verbatim>\<open>graphics/kdisplay.cpp\<close>) and \<^verbatim>\<open>Console\<close> (\<^verbatim>\<open>core/kprint.cpp\<close>, \<^verbatim>\<open>interrupts/panic.cpp\<close>, the printing
    handlers of \<^verbatim>\<open>interrupts/interrupts.cpp\<close>): drawing as a change of a picture, and formatted output
    against a reference formatter.

  \<^bold>\<open>Start-up.\<close>
  \<^item> \<^verbatim>\<open>ApStartup\<close> (\<^verbatim>\<open>arch/x86/ap_startup.cpp\<close>): the operations, and all processors together as a step
    relation: no processor runs before all are registered with the scheduler.
  \<^item> \<^verbatim>\<open>Entry\<close> (\<^verbatim>\<open>entry/kernel_entry.cpp\<close>): both entry functions as compositions of the above, and the state the
    first of them hands over.

  \<^bold>\<open>Flaws.\<close> Where the code does not do what it means to, the definition follows the code and a theorem
  shows the effect, among them: a kernel image of which only an eighth is locked, start stacks of processors
  outside the locked pages, a text line written behind the frame buffer, handler tables that are
  overrun, a null memory map that the boot loader hands to the kernel, and a sleep in nanoseconds that does not wait.

  \<^bold>\<open>Not modelled.\<close>
  \<^item> The assembly files \<^verbatim>\<open>arch/x86/asm\<close>, except the first stack of a processor, its wait for the start flag
    and the switch to the lowered entry: their instructions are below the state of the model.
  \<^item> The test functions of \<^verbatim>\<open>entry/tests\<close> other than \<^verbatim>\<open>ke_test_ap_startup\<close>: their calls are not compiled.
  \<^item> Messages that drivers and the boot loader print for debugging, and functions that only print such messages.
    The output of the console functions themselves, of the panic and of the entry is modelled.
  \<^item> The linker script and the build files; link addresses are parameters.
  \<^item> Weak memory: shared variables are sequentially consistent, and a lock-protected operation is
    one step of the processor that holds the lock. Address translation is written out where the code
    maps pages or reaches devices; other accesses use the kernel's linear addresses directly.
\<close>

end
